(* ===== verification/Prelude.thy ===== *)
theory Prelude
  imports Main "HOL-Library.Word"
begin

text \<open>
  Shared vocabulary of the development: the fixed-width integers and byte slices of the Go
  sources, the error values that the modelled functions return, the big-endian codec of the
  Go package \<open>encoding/binary\<close>, and generic lemmas on lists that several components use.
\<close>

unbundle bit_operations_syntax

section \<open>Go values\<close>

type_synonym u8 = "8 word"
type_synonym u16 = "16 word"
type_synonym u32 = "32 word"
type_synonym u64 = "64 word"
type_synonym bytes = "u8 list"

text \<open>
  Error values. \<open>Panic\<close> is a run-time panic with its message; \<open>Errorf\<close> is an error made by
  \<open>fmt.Errorf\<close> with the constant part of its format; the others are the sentinel errors of
  \<open>io\<close>, of \<open>pkg/stderror/code.go\<close> and of \<open>apis/model/addr.go\<close> that the modelled code returns. \<open>Blocked\<close> is no error of the
  source: it says that the goroutine still waits for others when the modelled run ends.
\<close>

datatype go_error =
    Panic string
  | Errorf string
  | EOF
  | ErrUnexpectedEOF
  | ErrClosedPipe
  | ErrShortWrite
  | ErrShortBuffer
  | ErrAlreadyExist
  | ErrEmpty
  | ErrInvalidArgument
  | ErrInvalidOperation
  | ErrNoEnoughData
  | ErrNotReady
  | ErrNullPointer
  | ErrTimeout
  | ErrUnrecognizedAddrType
  | ErrUnsupported
  | Blocked

type_synonym 'a result = "go_error + 'a"

fun is_panic :: "'a result \<Rightarrow> bool" where
  "is_panic (Inl (Panic m)) = True"
| "is_panic r = False"

text \<open>
  A step with an effect returns the new state and a value or an error; \<open>sbind\<close> goes on with the value.
\<close>

definition sbind :: "'s \<times> 'a result \<Rightarrow> ('s \<Rightarrow> 'a \<Rightarrow> 's \<times> 'b result) \<Rightarrow> 's \<times> 'b result" where
  "sbind m f = (case m of (s, Inl e) \<Rightarrow> (s, Inl e) | (s, Inr a) \<Rightarrow> f s a)"

lemma sbind_simps [simp]: "sbind (s, Inl e) f = (s, Inl e)" "sbind (s, Inr a) f = f s a"
  by (simp_all add: sbind_def)

text \<open>The same without a state.\<close>

definition rbind :: "'a result \<Rightarrow> ('a \<Rightarrow> 'b result) \<Rightarrow> 'b result" where
  "rbind r f = (case r of Inl e \<Rightarrow> Inl e | Inr x \<Rightarrow> f x)"

lemma rbind_simps [simp]: "rbind (Inl e) f = Inl e" "rbind (Inr x) f = f x"
  by (simp_all add: rbind_def)

text \<open>The value of an \<open>int64\<close> expression: the exact result wrapped to 64 bits, read as two's complement.\<close>

definition i64 :: "int \<Rightarrow> int" where
  "i64 x = sint (word_of_int x :: u64)"

lemma i64_eq: "i64 x = (x + 2 ^ 63) mod 2 ^ 64 - 2 ^ 63"
  by (simp add: i64_def sint_uint signed_take_bit_eq_take_bit_shift take_bit_eq_mod uint_word_of_int mod_simps)

lemma i64_id: "- (2 ^ 63) \<le> x \<Longrightarrow> x < 2 ^ 63 \<Longrightarrow> i64 x = x"
  by (simp add: i64_eq)

lemma i64_i64 [simp]: "i64 (i64 x) = i64 x" "i64 (i64 x + y) = i64 (x + y)" "i64 (x + i64 y) = i64 (x + y)"
  by (simp_all add: i64_def flip: wi_hom_add)

text \<open>The bytes of a Go string.\<close>

definition string_bytes :: "string \<Rightarrow> bytes" where
  "string_bytes s = map of_char s"

lemma length_string_bytes [simp]: "length (string_bytes s) = length s"
  by (simp add: string_bytes_def)

text \<open>Integer division and remainder of Go: both truncate toward zero.\<close>

definition go_quot :: "int \<Rightarrow> int \<Rightarrow> int" where
  "go_quot a b = sgn a * sgn b * (\<bar>a\<bar> div \<bar>b\<bar>)"

definition go_rem :: "int \<Rightarrow> int \<Rightarrow> int" where
  "go_rem a b = a - b * go_quot a b"

lemma go_quot_nonneg [simp]: "0 \<le> a \<Longrightarrow> 0 < b \<Longrightarrow> go_quot a b = a div b"
  by (cases "a = 0") (simp_all add: go_quot_def)

lemma go_rem_nonneg [simp]: "0 \<le> a \<Longrightarrow> 0 < b \<Longrightarrow> go_rem a b = a mod b"
  by (simp add: go_rem_def minus_mult_div_eq_mod)

lemma go_rem_neg: "a < 0 \<Longrightarrow> 0 < b \<Longrightarrow> go_rem a b = - ((- a) mod b)"
  using minus_mult_div_eq_mod [of "- a" b] by (simp add: go_rem_def go_quot_def)

lemma go_rem_abs_less: "0 < b \<Longrightarrow> \<bar>go_rem a b\<bar> < b"
  by (cases "a < 0") (simp_all add: go_rem_neg)

named_theorems bytes_simps \<open>length and content of encoded byte slices\<close>

section \<open>Lists\<close>

lemma list_eq_32I:
  assumes "length xs = 32" "length ys = 32" "\<And>i. i < 32 \<Longrightarrow> xs ! i = ys ! i"
  shows "xs = ys"
  using assms by (simp add: list_eq_iff_nth_eq)

lemma take_append_exact [simp]: "length xs = n \<Longrightarrow> take n (xs @ ys) = xs"
  by simp

lemma drop_append_exact [simp]: "length xs = n \<Longrightarrow> drop n (xs @ ys) = ys"
  by simp

lemma map_upt_append:
  "m \<le> n \<Longrightarrow> map f [m..<n] @ [f n] = map f [m..<Suc n]"
  by simp

lemma list_update_Cons_numeral [simp]:
  "(x # xs)[numeral k := v] = x # xs[pred_numeral k := v]"
  by (simp add: numeral_eq_Suc)

lemma replicate_Suc_numeral: "replicate (numeral k) x = x # replicate (pred_numeral k) x"
  by (simp add: numeral_eq_Suc)

section \<open>Big-endian integers (Go package encoding/binary)\<close>

definition put_uint16 :: "u16 \<Rightarrow> bytes" where
  "put_uint16 v = [ucast (drop_bit 8 v), ucast v]"

definition get_uint16 :: "u8 \<Rightarrow> u8 \<Rightarrow> u16" where
  "get_uint16 a b = push_bit 8 (ucast a) OR ucast b"

definition put_uint32 :: "u32 \<Rightarrow> bytes" where
  "put_uint32 v = [ucast (drop_bit 24 v), ucast (drop_bit 16 v), ucast (drop_bit 8 v), ucast v]"

definition get_uint32 :: "u8 \<Rightarrow> u8 \<Rightarrow> u8 \<Rightarrow> u8 \<Rightarrow> u32" where
  "get_uint32 a b c d =
     push_bit 24 (ucast a) OR push_bit 16 (ucast b) OR push_bit 8 (ucast c) OR ucast d"

definition put_uint64 :: "u64 \<Rightarrow> bytes" where
  "put_uint64 v = [ucast (drop_bit 56 v), ucast (drop_bit 48 v), ucast (drop_bit 40 v),
     ucast (drop_bit 32 v), ucast (drop_bit 24 v), ucast (drop_bit 16 v),
     ucast (drop_bit 8 v), ucast v]"

lemma length_put_uint [simp, bytes_simps]:
  "length (put_uint16 v) = 2" "length (put_uint32 w) = 4" "length (put_uint64 x) = 8"
  by (simp_all add: put_uint16_def put_uint32_def put_uint64_def)

lemma get_put_uint16 [simp]: "get_uint16 (ucast (drop_bit 8 v)) (ucast v) = v"
  by (rule bit_word_eqI) (auto simp: get_uint16_def bit_simps)

lemma get_put_uint32 [simp]:
  "get_uint32 (ucast (drop_bit 24 v)) (ucast (drop_bit 16 v)) (ucast (drop_bit 8 v)) (ucast v) = v"
proof (rule bit_word_eqI)
  fix n assume "n < LENGTH(32)"
  then consider "n < 8" | "8 \<le> n" "n < 16" | "16 \<le> n" "n < 24" | "24 \<le> n" "n < 32"
    by fastforce
  then show "bit (get_uint32 (ucast (drop_bit 24 v)) (ucast (drop_bit 16 v))
      (ucast (drop_bit 8 v)) (ucast v)) n = bit v n"
    by cases (auto simp: get_uint32_def bit_simps)
qed

lemma bit_u8_beyond [simp]:
  "\<not> bit (w :: u8) (8 + n)" "\<not> bit (w :: u8) (16 + n)" "\<not> bit (w :: u8) (24 + n)"
  by (auto dest: bit_imp_le_length)

lemma put_get_uint16 [simp]: "put_uint16 (get_uint16 a b) = [a, b]"
  by (auto simp: put_uint16_def get_uint16_def bit_simps intro!: bit_word_eqI)

lemma put_get_uint32 [simp]: "put_uint32 (get_uint32 a b c d) = [a, b, c, d]"
  by (auto simp: put_uint32_def get_uint32_def bit_simps intro!: bit_word_eqI)

text \<open>
  Overwriting part of a slice in place, as \<open>copy(b[off:], xs)\<close> does: bytes that do not fit
  are dropped.
\<close>

fun write_at :: "nat \<Rightarrow> 'a list \<Rightarrow> 'a list \<Rightarrow> 'a list" where
  "write_at off xs [] = []"
| "write_at 0 [] (y # b) = y # b"
| "write_at 0 (x # xs) (y # b) = x # write_at 0 xs b"
| "write_at (Suc off) xs (y # b) = y # write_at off xs b"

lemma write_at_numeral [simp]:
  "write_at (numeral k) xs (y # b) = y # write_at (pred_numeral k) xs b"
  by (simp add: numeral_eq_Suc)

lemma length_write_at [simp, bytes_simps]: "length (write_at off xs b) = length b"
  by (induction off xs b rule: write_at.induct) simp_all

lemma put_uint32_cases: obtains a b c d where "put_uint32 v = [a, b, c, d]"
  by (simp add: put_uint32_def)

lemma put_uint16_cases: obtains a b where "put_uint16 v = [a, b]"
  by (simp add: put_uint16_def)

text \<open>Reading an integer at an offset, as \<open>binary.BigEndian.Uint32(b[off:])\<close> does.\<close>

definition uint16_at :: "bytes \<Rightarrow> nat \<Rightarrow> u16" where
  "uint16_at b off = get_uint16 (b ! off) (b ! (off + 1))"

definition uint32_at :: "bytes \<Rightarrow> nat \<Rightarrow> u32" where
  "uint32_at b off = get_uint32 (b ! off) (b ! (off + 1)) (b ! (off + 2)) (b ! (off + 3))"

lemma unat_Suc_less: "x < y \<Longrightarrow> unat (x + 1) = Suc (unat x)" for x y :: "'a::len word"
proof -
  assume "x < y"
  then have "unat x < unat y" by (simp add: word_less_nat_alt)
  with unsigned_less [of y, where ?'a = nat] have "Suc (unat x) < 2 ^ LENGTH('a)" by linarith
  then show ?thesis by (simp add: unat_word_ariths)
qed

end
