(* ===== verification/Mathext.thy ===== *)
theory Mathext
  imports Prelude
begin

text \<open>
  The generic number helpers of \<open>src/pkg/mathext/numbers.go\<close>. The Go functions are generic
  over the number types; here they are polymorphic over a linear order, so the same constants
  serve \<open>int\<close> values and the wrapping \<open>u32\<close> timestamps of the protocol metadata.
\<close>

definition Min2 :: "'a::linorder \<Rightarrow> 'a \<Rightarrow> 'a" where
  "Min2 a b = (if a \<le> b then a else b)"

definition Max2 :: "'a::linorder \<Rightarrow> 'a \<Rightarrow> 'a" where
  "Max2 a b = (if a \<ge> b then a else b)"

text \<open>The three compare-and-swap steps on the slice \<open>values\<close>, then \<open>values[1]\<close>.\<close>

definition Mid :: "'a::linorder \<Rightarrow> 'a \<Rightarrow> 'a \<Rightarrow> 'a" where
  "Mid a b c =
     (let (v0, v1) = (if a > b then (b, a) else (a, b));
          (v0, v2) = (if v0 > c then (c, v0) else (v0, c));
          (v1, v2) = (if v1 > v2 then (v2, v1) else (v1, v2))
      in v1)"

definition Abs :: "int \<Rightarrow> int" where
  "Abs a = (if a \<ge> 0 then a else - a)"

definition WithinRange :: "'a::{linorder, plus, minus} \<Rightarrow> 'a \<Rightarrow> 'a \<Rightarrow> bool" where
  "WithinRange v target margin \<longleftrightarrow> Mid v (target - margin) (target + margin) = v"

lemma Min2_min [simp]: "Min2 a b = min a b"
  by (simp add: Min2_def min_def)

lemma Max2_max [simp]: "Max2 a b = max a b"
  by (auto simp: Max2_def max_def)

lemma Abs_abs [simp]: "Abs a = \<bar>a\<bar>"
  by (simp add: Abs_def)

lemma Mid_median: "Mid a b c = max (min a b) (min (max a b) c)"
  by (auto simp: Mid_def max_def min_def)

lemma Mid_eq_first_iff: "Mid v lo hi = v \<longleftrightarrow> min lo hi \<le> v \<and> v \<le> max lo hi"
  by (auto simp: Mid_median max_def min_def)

lemma WithinRange_int: "0 \<le> m \<Longrightarrow> WithinRange v t m \<longleftrightarrow> \<bar>v - t\<bar> \<le> (m :: int)"
  by (auto simp: WithinRange_def Mid_eq_first_iff)

text \<open>
  On the wrapping \<open>u32\<close> timestamps: away from both ends of the range the test accepts exactly
  the targets that differ by at most one.
\<close>

lemma WithinRange_u32:
  fixes v t :: u32
  assumes "0 < uint t" "uint t < 2 ^ 32 - 1"
  shows "WithinRange v t 1 \<longleftrightarrow> \<bar>uint v - uint t\<bar> \<le> 1"
proof -
  have eqs: "int (unat t) = uint t" "int (unat v) = uint v"
    by simp_all
  have "0 < int (unat t)" "int (unat t) < 4294967295"
    using assms by simp_all
  then have t: "0 < unat t" "unat t < 4294967295"
    by linarith+
  then have lo: "unat (t - 1) = unat t - 1"
    by (simp add: unat_minus_one unat_gt_0)
  have "unat (t + 1) = (unat t + 1) mod 2 ^ 32"
    by (simp add: unat_word_ariths)
  with t have hi: "unat (t + 1) = unat t + 1"
    by simp
  have "t - 1 \<le> t + 1"
    using lo hi by (simp add: word_le_nat_alt)
  then have "WithinRange v t 1 \<longleftrightarrow> t - 1 \<le> v \<and> v \<le> t + 1"
    by (simp add: WithinRange_def Mid_eq_first_iff)
  also have "\<dots> \<longleftrightarrow> unat t - 1 \<le> unat v \<and> unat v \<le> unat t + 1"
    using lo hi by (simp add: word_le_nat_alt)
  also have "\<dots> \<longleftrightarrow> \<bar>int (unat v) - int (unat t)\<bar> \<le> 1"
    using t(1) by linarith
  finally show ?thesis unfolding eqs .
qed

end
