(* ===== verification/Metadata.thy ===== *)
theory Metadata
  imports Mathext
begin

text \<open>
  The 32-byte segment metadata of \<open>src/pkg/protocol/metadata.go\<close>: protocol numbers, the two
  metadata structs, and their wire format. The wall clock that \<open>Marshal\<close> and \<open>Unmarshal\<close>
  read (\<open>time.Now().Unix()\<close>) is the argument \<open>now\<close>, in seconds.
\<close>

section \<open>Protocol numbers\<close>

definition closeConnRequest :: u8 where "closeConnRequest = 0"
definition closeConnResponse :: u8 where "closeConnResponse = 1"
definition openSessionRequest :: u8 where "openSessionRequest = 2"
definition openSessionResponse :: u8 where "openSessionResponse = 3"
definition closeSessionRequest :: u8 where "closeSessionRequest = 4"
definition closeSessionResponse :: u8 where "closeSessionResponse = 5"
definition dataClientToServer :: u8 where "dataClientToServer = 6"
definition dataServerToClient :: u8 where "dataServerToClient = 7"
definition ackClientToServer :: u8 where "ackClientToServer = 8"
definition ackServerToClient :: u8 where "ackServerToClient = 9"

lemmas protocol_defs =
  closeConnRequest_def closeConnResponse_def openSessionRequest_def openSessionResponse_def
  closeSessionRequest_def closeSessionResponse_def dataClientToServer_def dataServerToClient_def
  ackClientToServer_def ackServerToClient_def

definition protocolType_String :: "u8 \<Rightarrow> string" where
  "protocolType_String p =
     (if p = closeConnRequest then ''closeConnRequest''
      else if p = closeConnResponse then ''closeConnResponse''
      else if p = openSessionRequest then ''openSessionRequest''
      else if p = openSessionResponse then ''openSessionResponse''
      else if p = closeSessionRequest then ''closeSessionRequest''
      else if p = closeSessionResponse then ''closeSessionResponse''
      else if p = dataClientToServer then ''dataClientToServer''
      else if p = dataServerToClient then ''dataServerToClient''
      else if p = ackClientToServer then ''ackClientToServer''
      else if p = ackServerToClient then ''ackServerToClient''
      else ''UNKNOWN'')"

definition statusOK :: u8 where "statusOK = 0"
definition statusQuotaExhausted :: u8 where "statusQuotaExhausted = 1"

definition statusCode_String :: "u8 \<Rightarrow> string" where
  "statusCode_String c =
     (if c = statusOK then ''OK''
      else if c = statusQuotaExhausted then ''quotaExhausted''
      else ''UNKNOWN'')"

definition MetadataLength :: nat where "MetadataLength = 32"
definition MaxSessionOpenPayload :: nat where "MaxSessionOpenPayload = 1024"

definition isSessionProtocol :: "u8 \<Rightarrow> bool" where
  "isSessionProtocol p \<longleftrightarrow> p = openSessionRequest \<or> p = openSessionResponse
     \<or> p = closeSessionRequest \<or> p = closeSessionResponse"

definition isDataAckProtocol :: "u8 \<Rightarrow> bool" where
  "isDataAckProtocol p \<longleftrightarrow> p = dataClientToServer \<or> p = dataServerToClient
     \<or> p = ackClientToServer \<or> p = ackServerToClient"

section \<open>Metadata structs\<close>

record sessionStruct =
  ss_protocol :: u8
  ss_timestamp :: u32
  ss_sessionID :: u32
  ss_seq :: u32
  ss_statusCode :: u8
  ss_payloadLen :: u16
  ss_suffixLen :: u8

record dataAckStruct =
  das_protocol :: u8
  das_timestamp :: u32
  das_sessionID :: u32
  das_seq :: u32
  das_unAckSeq :: u32
  das_windowSize :: u16
  das_fragment :: u8
  das_prefixLen :: u8
  das_payloadLen :: u16
  das_suffixLen :: u8

text \<open>The zero values that \<open>\&sessionStruct{}\<close> and \<open>\&dataAckStruct{}\<close> allocate.\<close>

definition zero_sessionStruct :: sessionStruct where
  "zero_sessionStruct = \<lparr>ss_protocol = 0, ss_timestamp = 0, ss_sessionID = 0, ss_seq = 0,
     ss_statusCode = 0, ss_payloadLen = 0, ss_suffixLen = 0\<rparr>"

definition zero_dataAckStruct :: dataAckStruct where
  "zero_dataAckStruct = \<lparr>das_protocol = 0, das_timestamp = 0, das_sessionID = 0, das_seq = 0,
     das_unAckSeq = 0, das_windowSize = 0, das_fragment = 0, das_prefixLen = 0,
     das_payloadLen = 0, das_suffixLen = 0\<rparr>"

text \<open>\<open>uint32(time.Now().Unix() / 60)\<close>\<close>

definition minutes :: "int \<Rightarrow> u32" where
  "minutes now = word_of_int (go_quot now 60)"

definition sessionStruct_Marshal :: "sessionStruct \<Rightarrow> int \<Rightarrow> sessionStruct \<times> bytes" where
  "sessionStruct_Marshal ss now =
     (let b = replicate MetadataLength 0;
          b = b[0 := ss_protocol ss];
          ss = ss\<lparr>ss_timestamp := minutes now\<rparr>;
          b = write_at 2 (put_uint32 (ss_timestamp ss)) b;
          b = write_at 6 (put_uint32 (ss_sessionID ss)) b;
          b = write_at 10 (put_uint32 (ss_seq ss)) b;
          b = b[14 := ss_statusCode ss];
          b = write_at 15 (put_uint16 (ss_payloadLen ss)) b;
          b = b[17 := ss_suffixLen ss]
      in (ss, b))"

definition sessionStruct_Unmarshal :: "sessionStruct \<Rightarrow> bytes \<Rightarrow> int \<Rightarrow> sessionStruct result" where
  "sessionStruct_Unmarshal ss b now =
     (if length b \<noteq> MetadataLength then Inl (Errorf ''input bytes'')
      else if \<not> isSessionProtocol (b ! 0) then Inl (Errorf ''invalid protocol'')
      else
        let originalTimestamp = uint32_at b 2; currentTimestamp = minutes now in
        if \<not> WithinRange currentTimestamp originalTimestamp 1
        then Inl (Errorf ''invalid timestamp'')
        else if unat (ss_payloadLen ss) > MaxSessionOpenPayload
        then Inl (Errorf ''payload size exceed maximum value'')
        else Inr (ss\<lparr>ss_protocol := b ! 0, ss_timestamp := originalTimestamp,
               ss_sessionID := uint32_at b 6, ss_seq := uint32_at b 10,
               ss_statusCode := b ! 14, ss_payloadLen := uint16_at b 15,
               ss_suffixLen := b ! 17\<rparr>))"

definition dataAckStruct_Marshal :: "dataAckStruct \<Rightarrow> int \<Rightarrow> dataAckStruct \<times> bytes" where
  "dataAckStruct_Marshal das now =
     (let b = replicate MetadataLength 0;
          b = b[0 := das_protocol das];
          das = das\<lparr>das_timestamp := minutes now\<rparr>;
          b = write_at 2 (put_uint32 (das_timestamp das)) b;
          b = write_at 6 (put_uint32 (das_sessionID das)) b;
          b = write_at 10 (put_uint32 (das_seq das)) b;
          b = write_at 14 (put_uint32 (das_unAckSeq das)) b;
          b = write_at 18 (put_uint16 (das_windowSize das)) b;
          b = b[20 := das_fragment das];
          b = b[21 := das_prefixLen das];
          b = write_at 22 (put_uint16 (das_payloadLen das)) b;
          b = b[24 := das_suffixLen das]
      in (das, b))"

definition dataAckStruct_Unmarshal :: "dataAckStruct \<Rightarrow> bytes \<Rightarrow> int \<Rightarrow> dataAckStruct result" where
  "dataAckStruct_Unmarshal das b now =
     (if length b \<noteq> MetadataLength then Inl (Errorf ''input bytes'')
      else if \<not> isDataAckProtocol (b ! 0) then Inl (Errorf ''invalid protocol'')
      else
        let originalTimestamp = uint32_at b 2; currentTimestamp = minutes now in
        if \<not> WithinRange currentTimestamp originalTimestamp 1
        then Inl (Errorf ''invalid timestamp'')
        else Inr (das\<lparr>das_protocol := b ! 0, das_timestamp := originalTimestamp,
               das_sessionID := uint32_at b 6, das_seq := uint32_at b 10,
               das_unAckSeq := uint32_at b 14, das_windowSize := uint16_at b 18,
               das_fragment := b ! 20, das_prefixLen := b ! 21,
               das_payloadLen := uint16_at b 22, das_suffixLen := b ! 24\<rparr>))"

text \<open>The interface value \<open>metadata\<close> and the two type assertions on it.\<close>

datatype metadata = Session_md sessionStruct | DataAck_md dataAckStruct

fun metadata_Protocol :: "metadata \<Rightarrow> u8" where
  "metadata_Protocol (Session_md ss) = ss_protocol ss"
| "metadata_Protocol (DataAck_md das) = das_protocol das"

definition toSessionStruct :: "metadata \<Rightarrow> sessionStruct option result" where
  "toSessionStruct m =
     (if isSessionProtocol (metadata_Protocol m)
      then (case m of Session_md ss \<Rightarrow> Inr (Some ss)
            | DataAck_md _ \<Rightarrow> Inl (Panic ''interface conversion''))
      else Inr None)"

definition toDataAckStruct :: "metadata \<Rightarrow> dataAckStruct option result" where
  "toDataAckStruct m =
     (if isDataAckProtocol (metadata_Protocol m)
      then (case m of DataAck_md das \<Rightarrow> Inr (Some das)
            | Session_md _ \<Rightarrow> Inl (Panic ''interface conversion''))
      else Inr None)"

section \<open>Lemmas\<close>

lemmas md_consts = MetadataLength_def MaxSessionOpenPayload_def

lemma session_dataAck_disjoint: "isSessionProtocol p \<Longrightarrow> \<not> isDataAckProtocol p"
  by (auto simp: isSessionProtocol_def isDataAckProtocol_def protocol_defs)

text \<open>The wire layout: each field at the offset the struct comments give.\<close>

lemma sessionStruct_layout:
  "sessionStruct_Marshal ss now =
     (ss\<lparr>ss_timestamp := minutes now\<rparr>,
      [ss_protocol ss, 0] @ put_uint32 (minutes now) @ put_uint32 (ss_sessionID ss)
      @ put_uint32 (ss_seq ss) @ [ss_statusCode ss] @ put_uint16 (ss_payloadLen ss)
      @ [ss_suffixLen ss] @ replicate 14 0)"
proof -
  obtain t0 t1 t2 t3 where t: "put_uint32 (minutes now) = [t0, t1, t2, t3]"
    by (rule put_uint32_cases)
  obtain i0 i1 i2 i3 where i: "put_uint32 (ss_sessionID ss) = [i0, i1, i2, i3]"
    by (rule put_uint32_cases)
  obtain s0 s1 s2 s3 where s: "put_uint32 (ss_seq ss) = [s0, s1, s2, s3]"
    by (rule put_uint32_cases)
  obtain p0 p1 where p: "put_uint16 (ss_payloadLen ss) = [p0, p1]"
    by (rule put_uint16_cases)
  show ?thesis
    by (simp add: sessionStruct_Marshal_def md_consts t i s p replicate_Suc_numeral)
qed

lemma dataAckStruct_layout:
  "dataAckStruct_Marshal das now =
     (das\<lparr>das_timestamp := minutes now\<rparr>,
      [das_protocol das, 0] @ put_uint32 (minutes now) @ put_uint32 (das_sessionID das)
      @ put_uint32 (das_seq das) @ put_uint32 (das_unAckSeq das)
      @ put_uint16 (das_windowSize das) @ [das_fragment das, das_prefixLen das]
      @ put_uint16 (das_payloadLen das) @ [das_suffixLen das] @ replicate 7 0)"
proof -
  obtain t0 t1 t2 t3 where t: "put_uint32 (minutes now) = [t0, t1, t2, t3]"
    by (rule put_uint32_cases)
  obtain i0 i1 i2 i3 where i: "put_uint32 (das_sessionID das) = [i0, i1, i2, i3]"
    by (rule put_uint32_cases)
  obtain s0 s1 s2 s3 where s: "put_uint32 (das_seq das) = [s0, s1, s2, s3]"
    by (rule put_uint32_cases)
  obtain u0 u1 u2 u3 where u: "put_uint32 (das_unAckSeq das) = [u0, u1, u2, u3]"
    by (rule put_uint32_cases)
  obtain w0 w1 where w: "put_uint16 (das_windowSize das) = [w0, w1]"
    by (rule put_uint16_cases)
  obtain p0 p1 where p: "put_uint16 (das_payloadLen das) = [p0, p1]"
    by (rule put_uint16_cases)
  show ?thesis
    by (simp add: dataAckStruct_Marshal_def md_consts t i s u w p replicate_Suc_numeral)
qed

text \<open>
  A clock reading between one minute after the epoch and the last minute of the 32-bit range:
  the interval in which the wrapping comparison of timestamps is the plain one.
\<close>

definition clock_ok :: "int \<Rightarrow> bool" where
  "clock_ok now \<longleftrightarrow> 60 \<le> now \<and> now < 60 * (2 ^ 32 - 1)"

lemma clock_ok_div: "clock_ok now \<Longrightarrow> 0 < now div 60 \<and> now div 60 < 2 ^ 32 - 1"
  by (auto simp: clock_ok_def)

lemma uint_minutes: "clock_ok now \<Longrightarrow> uint (minutes now) = now div 60"
proof -
  assume ok: "clock_ok now"
  then have "go_quot now 60 = now div 60"
    by (simp add: clock_ok_def)
  moreover have "now div 60 mod 2 ^ 32 = now div 60"
    using clock_ok_div [OF ok] by (intro mod_pos_pos_trivial) linarith+
  ultimately show ?thesis
    by (simp add: minutes_def uint_word_of_int)
qed

lemma minutes_WithinRange:
  assumes "clock_ok now" "clock_ok now'"
  shows "WithinRange (minutes now') (minutes now) 1 \<longleftrightarrow> \<bar>now' div 60 - now div 60\<bar> \<le> 1"
proof -
  have "0 < uint (minutes now)" "uint (minutes now) < 2 ^ 32 - 1"
    using clock_ok_div [OF assms(1)] uint_minutes [OF assms(1)] by simp_all
  then show ?thesis
    using WithinRange_u32 [of "minutes now" "minutes now'"] assms by (simp add: uint_minutes)
qed

lemma uint32_at_put: "length a = off \<Longrightarrow> uint32_at (a @ put_uint32 v @ c) off = v"
  by (simp add: uint32_at_def put_uint32_def nth_append)

lemma uint16_at_put: "length a = off \<Longrightarrow> uint16_at (a @ put_uint16 v @ c) off = v"
  by (simp add: uint16_at_def put_uint16_def nth_append)

lemma sessionStruct_fields:
  fixes ss :: sessionStruct and now :: int
  defines "b \<equiv> snd (sessionStruct_Marshal ss now)"
  shows "length b = MetadataLength" "b ! 0 = ss_protocol ss" "uint32_at b 2 = minutes now"
    "uint32_at b 6 = ss_sessionID ss" "uint32_at b 10 = ss_seq ss" "b ! 14 = ss_statusCode ss"
    "uint16_at b 15 = ss_payloadLen ss" "b ! 17 = ss_suffixLen ss"
proof -
  let ?h = "[ss_protocol ss, 0] @ put_uint32 (minutes now)"
  have b: "b = ?h @ put_uint32 (ss_sessionID ss)
      @ put_uint32 (ss_seq ss) @ [ss_statusCode ss] @ put_uint16 (ss_payloadLen ss)
      @ [ss_suffixLen ss] @ replicate 14 0"
    by (simp add: b_def sessionStruct_layout)
  show "length b = MetadataLength" by (simp add: b md_consts)
  show "b ! 0 = ss_protocol ss" by (simp add: b)
  show "uint32_at b 2 = minutes now"
    using uint32_at_put [of "[ss_protocol ss, 0]" 2] by (simp add: b)
  show "uint32_at b 6 = ss_sessionID ss"
    using uint32_at_put [of ?h 6] by (simp add: b)
  show "uint32_at b 10 = ss_seq ss"
    using uint32_at_put [of "?h @ put_uint32 (ss_sessionID ss)" 10] by (simp add: b)
  show "b ! 14 = ss_statusCode ss"
    by (simp add: b nth_append)
  show "uint16_at b 15 = ss_payloadLen ss"
    using uint16_at_put [of "?h @ put_uint32 (ss_sessionID ss) @ put_uint32 (ss_seq ss)
      @ [ss_statusCode ss]" 15] by (simp add: b)
  show "b ! 17 = ss_suffixLen ss"
    by (simp add: b nth_append)
qed

lemma dataAckStruct_fields:
  fixes das :: dataAckStruct and now :: int
  defines "b \<equiv> snd (dataAckStruct_Marshal das now)"
  shows "length b = MetadataLength" "b ! 0 = das_protocol das" "uint32_at b 2 = minutes now"
    "uint32_at b 6 = das_sessionID das" "uint32_at b 10 = das_seq das"
    "uint32_at b 14 = das_unAckSeq das" "uint16_at b 18 = das_windowSize das"
    "b ! 20 = das_fragment das" "b ! 21 = das_prefixLen das"
    "uint16_at b 22 = das_payloadLen das" "b ! 24 = das_suffixLen das"
proof -
  let ?h = "[das_protocol das, 0] @ put_uint32 (minutes now)"
  let ?g = "?h @ put_uint32 (das_sessionID das) @ put_uint32 (das_seq das)"
  have b: "b = ?g @ put_uint32 (das_unAckSeq das)
      @ put_uint16 (das_windowSize das) @ [das_fragment das, das_prefixLen das]
      @ put_uint16 (das_payloadLen das) @ [das_suffixLen das] @ replicate 7 0"
    by (simp add: b_def dataAckStruct_layout)
  show "length b = MetadataLength" by (simp add: b md_consts)
  show "b ! 0 = das_protocol das" by (simp add: b)
  show "uint32_at b 2 = minutes now"
    using uint32_at_put [of "[das_protocol das, 0]" 2] by (simp add: b)
  show "uint32_at b 6 = das_sessionID das"
    using uint32_at_put [of ?h 6] by (simp add: b)
  show "uint32_at b 10 = das_seq das"
    using uint32_at_put [of "?h @ put_uint32 (das_sessionID das)" 10] by (simp add: b)
  show "uint32_at b 14 = das_unAckSeq das"
    using uint32_at_put [of ?g 14] by (simp add: b)
  show "uint16_at b 18 = das_windowSize das"
    using uint16_at_put [of "?g @ put_uint32 (das_unAckSeq das)" 18] by (simp add: b)
  show "b ! 20 = das_fragment das" "b ! 21 = das_prefixLen das"
    by (simp_all add: b nth_append)
  show "uint16_at b 22 = das_payloadLen das"
    using uint16_at_put [of "?g @ put_uint32 (das_unAckSeq das) @ put_uint16 (das_windowSize das)
      @ [das_fragment das, das_prefixLen das]" 22] by (simp add: b)
  show "b ! 24 = das_suffixLen das"
    by (simp add: b nth_append)
qed

lemma fst_Marshal [simp]:
  "fst (sessionStruct_Marshal ss now) = ss\<lparr>ss_timestamp := minutes now\<rparr>"
  "fst (dataAckStruct_Marshal das now) = das\<lparr>das_timestamp := minutes now\<rparr>"
  by (simp_all add: sessionStruct_layout dataAckStruct_layout)

text \<open>Setting every field makes the old contents of the struct irrelevant.\<close>

lemma sessionStruct_set_all:
  "r\<lparr>ss_protocol := p, ss_timestamp := t, ss_sessionID := i, ss_seq := s, ss_statusCode := c,
     ss_payloadLen := l, ss_suffixLen := x\<rparr>
   = \<lparr>ss_protocol = p, ss_timestamp = t, ss_sessionID = i, ss_seq = s, ss_statusCode = c,
     ss_payloadLen = l, ss_suffixLen = x\<rparr>"
  by (cases r) simp

lemma dataAckStruct_set_all:
  "r\<lparr>das_protocol := p, das_timestamp := t, das_sessionID := i, das_seq := s, das_unAckSeq := u,
     das_windowSize := w, das_fragment := f, das_prefixLen := pl, das_payloadLen := l,
     das_suffixLen := x\<rparr>
   = \<lparr>das_protocol = p, das_timestamp = t, das_sessionID = i, das_seq = s, das_unAckSeq = u,
     das_windowSize = w, das_fragment = f, das_prefixLen = pl, das_payloadLen = l,
     das_suffixLen = x\<rparr>"
  by (cases r) simp

text \<open>Unmarshalling what was marshalled, at a clock whose minute differs by at most one.\<close>

lemma session_unmarshal:
  assumes "isSessionProtocol (ss_protocol ss)"
    and "clock_ok now" "clock_ok now'" "\<bar>now' div 60 - now div 60\<bar> \<le> 1"
    and "unat (ss_payloadLen r) \<le> MaxSessionOpenPayload"
  shows "sessionStruct_Unmarshal r (snd (sessionStruct_Marshal ss now)) now'
      = Inr (ss\<lparr>ss_timestamp := minutes now\<rparr>)"
proof -
  have "WithinRange (minutes now') (minutes now) 1"
    using assms minutes_WithinRange by blast
  with assms show ?thesis
    by (cases ss)
      (simp add: sessionStruct_Unmarshal_def sessionStruct_fields sessionStruct_set_all)
qed

lemma dataAck_unmarshal:
  assumes "isDataAckProtocol (das_protocol das)"
    and "clock_ok now" "clock_ok now'" "\<bar>now' div 60 - now div 60\<bar> \<le> 1"
  shows "dataAckStruct_Unmarshal r (snd (dataAckStruct_Marshal das now)) now'
      = Inr (das\<lparr>das_timestamp := minutes now\<rparr>)"
proof -
  have "WithinRange (minutes now') (minutes now) 1"
    using assms minutes_WithinRange by blast
  with assms show ?thesis
    by (cases das)
      (simp add: dataAckStruct_Unmarshal_def dataAckStruct_fields dataAckStruct_set_all)
qed

section \<open>Properties\<close>

text \<open>
  C18. Session metadata survives the wire: unmarshalling the bytes that \<open>Marshal\<close> wrote, at
  any clock whose minute differs by at most one, gives back every field together with the
  sender's timestamp, provided the stale payload length of the receiving struct passes the
  size check (a freshly allocated struct's does).
\<close>

theorem session_metadata_roundtrip:
  assumes "isSessionProtocol (ss_protocol ss)"
    and "clock_ok now" "clock_ok now'" "\<bar>now' div 60 - now div 60\<bar> \<le> 1"
    and "unat (ss_payloadLen r) \<le> MaxSessionOpenPayload"
  shows "sessionStruct_Unmarshal r (snd (sessionStruct_Marshal ss now)) now'
      = Inr (fst (sessionStruct_Marshal ss now))"
  unfolding fst_Marshal using assms by (rule session_unmarshal)

theorem session_metadata_roundtrip_witness:
  "sessionStruct_Unmarshal zero_sessionStruct
     (snd (sessionStruct_Marshal (zero_sessionStruct\<lparr>ss_protocol := 2, ss_seq := 7\<rparr>) 6000)) 6061
   = Inr (zero_sessionStruct\<lparr>ss_protocol := 2, ss_timestamp := 100, ss_seq := 7\<rparr>)"
  using session_metadata_roundtrip
    [of "zero_sessionStruct\<lparr>ss_protocol := 2, ss_seq := 7\<rparr>" 6000 6061 zero_sessionStruct]
  by (simp add: zero_sessionStruct_def isSessionProtocol_def protocol_defs clock_ok_def
      md_consts minutes_def)

text \<open>
  C19. Data and acknowledgement metadata survives the wire in the same way, for every receiving
  struct.
\<close>

theorem dataAck_metadata_roundtrip:
  assumes "isDataAckProtocol (das_protocol das)"
    and "clock_ok now" "clock_ok now'" "\<bar>now' div 60 - now div 60\<bar> \<le> 1"
  shows "dataAckStruct_Unmarshal r (snd (dataAckStruct_Marshal das now)) now'
      = Inr (fst (dataAckStruct_Marshal das now))"
  unfolding fst_Marshal using assms by (rule dataAck_unmarshal)

theorem dataAck_metadata_roundtrip_witness:
  "dataAckStruct_Unmarshal zero_dataAckStruct
     (snd (dataAckStruct_Marshal (zero_dataAckStruct\<lparr>das_protocol := 6, das_seq := 9\<rparr>) 6000)) 5990
   = Inr (zero_dataAckStruct\<lparr>das_protocol := 6, das_timestamp := 100, das_seq := 9\<rparr>)"
  using dataAck_metadata_roundtrip
    [of "zero_dataAckStruct\<lparr>das_protocol := 6, das_seq := 9\<rparr>" 6000 5990 zero_dataAckStruct]
  by (simp add: zero_dataAckStruct_def isDataAckProtocol_def protocol_defs clock_ok_def
      minutes_def)

text \<open>
  The clock check rejects replayed or badly timed metadata: metadata marshalled at one time
  and unmarshalled more than one minute number away is refused with the timestamp error,
  whichever struct it is.
\<close>

theorem stale_metadata_rejected:
  assumes "clock_ok now" "clock_ok now'" "\<bar>now' div 60 - now div 60\<bar> > 1"
  shows "(isSessionProtocol (ss_protocol ss) \<longrightarrow>
       sessionStruct_Unmarshal r (snd (sessionStruct_Marshal ss now)) now'
         = Inl (Errorf ''invalid timestamp''))
     \<and> (isDataAckProtocol (das_protocol das) \<longrightarrow>
       dataAckStruct_Unmarshal q (snd (dataAckStruct_Marshal das now)) now'
         = Inl (Errorf ''invalid timestamp''))"
proof -
  have "\<not> WithinRange (minutes now') (minutes now) 1"
    using assms minutes_WithinRange by (simp add: not_le)
  then show ?thesis
    by (simp add: sessionStruct_Unmarshal_def sessionStruct_fields dataAckStruct_Unmarshal_def
        dataAckStruct_fields)
qed

theorem stale_metadata_rejected_witness:
  "sessionStruct_Unmarshal zero_sessionStruct
     (snd (sessionStruct_Marshal (zero_sessionStruct\<lparr>ss_protocol := 4\<rparr>) 6000)) 6120
   = Inl (Errorf ''invalid timestamp'')"
  using stale_metadata_rejected
    [of 6000 6120 "zero_sessionStruct\<lparr>ss_protocol := 4\<rparr>" zero_sessionStruct
      zero_dataAckStruct zero_dataAckStruct]
  by (simp add: isSessionProtocol_def protocol_defs clock_ok_def zero_sessionStruct_def)

text \<open>
  C38. What the payload bound of \<open>Unmarshal\<close> checks: on a freshly allocated struct, the way both
  underlays call it, well-timed session metadata is accepted with whatever payload length the
  wire carries, so lengths above \<open>MaxSessionOpenPayload\<close> are not refused. The check reads the
  field before it is assigned.
\<close>

theorem session_payload_bound_not_enforced:
  assumes "length b = MetadataLength" "isSessionProtocol (b ! 0)"
    and "WithinRange (minutes now) (uint32_at b 2) 1"
  shows "\<exists>ss. sessionStruct_Unmarshal zero_sessionStruct b now = Inr ss
      \<and> ss_payloadLen ss = uint16_at b 15"
  using assms
  by (simp add: sessionStruct_Unmarshal_def zero_sessionStruct_def md_consts)

theorem session_payload_bound_not_enforced_witness:
  "\<exists>ss. sessionStruct_Unmarshal zero_sessionStruct
       (snd (sessionStruct_Marshal
          (zero_sessionStruct\<lparr>ss_protocol := 2, ss_payloadLen := 65535\<rparr>) 6000)) 6000 = Inr ss
     \<and> unat (ss_payloadLen ss) > MaxSessionOpenPayload"
proof -
  let ?b = "snd (sessionStruct_Marshal
      (zero_sessionStruct\<lparr>ss_protocol := 2, ss_payloadLen := 65535\<rparr>) 6000)"
  have "WithinRange (minutes 6000) (uint32_at ?b 2) 1"
    using minutes_WithinRange [of 6000 6000]
    by (simp add: sessionStruct_fields clock_ok_def)
  then show ?thesis
    using session_payload_bound_not_enforced [of ?b 6000]
    by (auto simp: sessionStruct_fields isSessionProtocol_def protocol_defs md_consts)
qed

end
