(* ===== verification/Replay.thy ===== *)
theory Replay
  imports Prelude
begin

text \<open>
  The two-generation replay cache of \<open>src/pkg/replay/replay.go\<close>. A Go map from signatures to
  tags is an association list with distinct keys, so that \<open>len\<close> computes. Times and durations
  are integers in nanoseconds; the readings of the clock inside one locked call are one value
  \<open>now\<close>. The signature is the 64-bit FNV-1a hash of the Go package \<open>hash/fnv\<close>.
\<close>

section \<open>The cache\<close>

definition EmptyTag :: string where "EmptyTag = []"

record replayCache =
  rc_capacity :: int
  rc_expireTime :: int
  rc_expireInterval :: int
  rc_current :: "(u64 \<times> string) list"
  rc_previous :: "(u64 \<times> string) list"

definition NewCache :: "int \<Rightarrow> int \<Rightarrow> int \<Rightarrow> replayCache result" where
  "NewCache capacity expireInterval now =
     (if capacity < 0 then Inl (Panic ''replay cache capacity can't be negative'')
      else if expireInterval \<le> 0
      then Inl (Panic ''replay cache expire interval must be a positive time range'')
      else Inr \<lparr>rc_capacity = capacity, rc_expireTime = now + expireInterval,
                rc_expireInterval = expireInterval, rc_current = [], rc_previous = []\<rparr>)"

definition fnv64a_offset :: u64 where "fnv64a_offset = 14695981039346656037"
definition fnv64a_prime :: u64 where "fnv64a_prime = 1099511628211"

definition computeSignature :: "bytes \<Rightarrow> u64" where
  "computeSignature data = foldl (\<lambda>h b. (h XOR ucast b) * fnv64a_prime) fnv64a_offset data"

text \<open>The two refresh blocks at the start of \<open>IsDuplicate\<close>, in order.\<close>

definition rc_expire :: "replayCache \<Rightarrow> int \<Rightarrow> replayCache" where
  "rc_expire c now =
     (if now - rc_expireTime c > rc_expireInterval c
      then c\<lparr>rc_current := [], rc_previous := [], rc_expireTime := now + rc_expireInterval c\<rparr>
      else c)"

definition rc_rotate :: "replayCache \<Rightarrow> int \<Rightarrow> replayCache" where
  "rc_rotate c now =
     (if int (length (rc_current c)) \<ge> rc_capacity c \<or> now > rc_expireTime c
      then c\<lparr>rc_previous := rc_current c, rc_current := [],
             rc_expireTime := now + rc_expireInterval c\<rparr>
      else c)"

text \<open>The comparison made in both lookups.\<close>

definition tag_conflict :: "string \<Rightarrow> string \<Rightarrow> bool" where
  "tag_conflict existingTag tag =
     (if existingTag = EmptyTag \<or> tag = EmptyTag then True else existingTag \<noteq> tag)"

definition rc_lookup :: "replayCache \<Rightarrow> u64 \<Rightarrow> string \<Rightarrow> replayCache \<times> bool" where
  "rc_lookup c signature tag =
     (case map_of (rc_current c) signature of
        Some existingTag \<Rightarrow> (c, tag_conflict existingTag tag)
      | None \<Rightarrow>
          let c = c\<lparr>rc_current := (signature, tag) # rc_current c\<rparr> in
          (case map_of (rc_previous c) signature of
             Some existingTag \<Rightarrow> (c, tag_conflict existingTag tag)
           | None \<Rightarrow> (c, False)))"

definition IsDuplicate :: "replayCache \<Rightarrow> bytes \<Rightarrow> string \<Rightarrow> int \<Rightarrow> replayCache \<times> bool" where
  "IsDuplicate c data tag now =
     (if rc_capacity c = 0 then (c, False)
      else rc_lookup (rc_rotate (rc_expire c now) now) (computeSignature data) tag)"

text \<open>A call on a nil cache pointer.\<close>

definition IsDuplicate_ptr ::
    "replayCache option \<Rightarrow> bytes \<Rightarrow> string \<Rightarrow> int \<Rightarrow> replayCache option \<times> bool" where
  "IsDuplicate_ptr p data tag now =
     (case p of None \<Rightarrow> (None, False)
      | Some c \<Rightarrow> let (c', r) = IsDuplicate c data tag now in (Some c', r))"

definition rc_Sizes :: "replayCache \<Rightarrow> nat \<times> nat" where
  "rc_Sizes c = (length (rc_current c), length (rc_previous c))"

definition rc_Clear :: "replayCache \<Rightarrow> replayCache" where
  "rc_Clear c = c\<lparr>rc_current := [], rc_previous := []\<rparr>"

text \<open>A sequence of calls, each with its data, tag and time.\<close>

fun rc_run :: "replayCache \<Rightarrow> (bytes \<times> string \<times> int) list \<Rightarrow> replayCache" where
  "rc_run c [] = c"
| "rc_run c ((data, tag, now) # calls) = rc_run (fst (IsDuplicate c data tag now)) calls"

section \<open>Invariant\<close>

definition rc_inv :: "replayCache \<Rightarrow> bool" where
  "rc_inv c \<longleftrightarrow> 0 \<le> rc_capacity c \<and> 0 < rc_expireInterval c
     \<and> distinct (map fst (rc_current c)) \<and> distinct (map fst (rc_previous c))
     \<and> int (length (rc_current c)) \<le> rc_capacity c
     \<and> int (length (rc_previous c)) \<le> rc_capacity c"

lemma rc_inv_NewCache: "NewCache cap iv now = Inr c \<Longrightarrow> rc_inv c"
  by (auto simp: NewCache_def rc_inv_def split: if_splits)

lemma rc_inv_expire: "rc_inv c \<Longrightarrow> rc_inv (rc_expire c now)"
  by (simp add: rc_inv_def rc_expire_def)

lemma rc_inv_rotate: "rc_inv c \<Longrightarrow> rc_inv (rc_rotate c now)"
  by (auto simp: rc_inv_def rc_rotate_def)

lemma rc_rotate_room:
  "0 < rc_capacity c \<Longrightarrow> int (length (rc_current (rc_rotate c now))) < rc_capacity c"
  by (simp add: rc_rotate_def)

lemma rc_frame [simp]:
  "rc_capacity (rc_expire c now) = rc_capacity c"
  "rc_capacity (rc_rotate c now) = rc_capacity c"
  "rc_expireInterval (rc_expire c now) = rc_expireInterval c"
  "rc_expireInterval (rc_rotate c now) = rc_expireInterval c"
  "rc_capacity (fst (rc_lookup c s tag)) = rc_capacity c"
  "rc_expireInterval (fst (rc_lookup c s tag)) = rc_expireInterval c"
  "rc_expireTime (fst (rc_lookup c s tag)) = rc_expireTime c"
  "rc_previous (fst (rc_lookup c s tag)) = rc_previous c"
  by (simp_all add: rc_expire_def rc_rotate_def rc_lookup_def Let_def split: option.splits)

lemma rc_lookup_current:
  "rc_current (fst (rc_lookup c s tag)) =
     (if s \<in> fst ` set (rc_current c) then rc_current c else (s, tag) # rc_current c)"
  by (auto simp: rc_lookup_def Let_def map_of_eq_None_iff split: option.splits
      dest: map_of_SomeD intro: rev_image_eqI)

lemma rc_inv_lookup:
  "rc_inv c \<Longrightarrow> int (length (rc_current c)) < rc_capacity c \<Longrightarrow> rc_inv (fst (rc_lookup c s tag))"
  by (auto simp: rc_inv_def rc_lookup_current)

lemma rc_inv_IsDuplicate: "rc_inv c \<Longrightarrow> rc_inv (fst (IsDuplicate c data tag now))"
  using rc_rotate_room [of "rc_expire c now" now]
  by (auto simp: IsDuplicate_def rc_inv_def [of c]
      intro!: rc_inv_lookup rc_inv_rotate rc_inv_expire)

lemma rc_inv_run: "rc_inv c \<Longrightarrow> rc_inv (rc_run c calls)"
  by (induction c calls rule: rc_run.induct) (auto intro: rc_inv_IsDuplicate)

section \<open>Retention of a signature\<close>

text \<open>
  \<open>rc_holds c s k t0\<close>: the cache still knows \<open>s\<close>, recorded at \<open>t0\<close>, and at most \<open>k\<close> entries
  have been added since the last rotation if \<open>s\<close> has moved to the previous generation.
\<close>

definition rc_holds :: "replayCache \<Rightarrow> u64 \<Rightarrow> nat \<Rightarrow> int \<Rightarrow> bool" where
  "rc_holds c s k t0 \<longleftrightarrow>
     s \<in> fst ` set (rc_current c) \<and> t0 \<le> rc_expireTime c
   \<or> s \<in> fst ` set (rc_previous c) \<and> length (rc_current c) \<le> k
     \<and> t0 + rc_expireInterval c \<le> rc_expireTime c"

lemma IsDuplicate_records:
  assumes "rc_inv c" "0 < rc_capacity c"
  shows "rc_holds (fst (IsDuplicate c data tag now)) (computeSignature data) k now"
  using assms
  by (auto simp: rc_holds_def IsDuplicate_def rc_lookup_current rc_rotate_def rc_inv_def)

lemma rc_holds_refresh:
  assumes "rc_holds c s k t0" "rc_inv c" "int k < rc_capacity c"
    and "t0 \<le> now" "now \<le> t0 + rc_expireInterval c"
  shows "rc_holds (rc_rotate (rc_expire c now) now) s k t0"
proof -
  have "rc_expire c now = c"
    using assms by (auto simp: rc_expire_def rc_holds_def rc_inv_def)
  then show ?thesis
    using assms by (auto simp: rc_holds_def rc_rotate_def rc_inv_def)
qed

lemma rc_holds_lookup: "rc_holds c s k t0 \<Longrightarrow> rc_holds (fst (rc_lookup c s' tag)) s (Suc k) t0"
  by (auto simp: rc_holds_def rc_lookup_current)

lemma rc_holds_IsDuplicate:
  assumes "rc_holds c s k t0" "rc_inv c" "int k < rc_capacity c"
    and "t0 \<le> now" "now \<le> t0 + rc_expireInterval c"
  shows "rc_holds (fst (IsDuplicate c data tag now)) s (Suc k) t0"
  using rc_holds_lookup [OF rc_holds_refresh [OF assms]] assms(3)
  by (auto simp: IsDuplicate_def)

lemma IsDuplicate_frame [simp]:
  "rc_capacity (fst (IsDuplicate c data tag now)) = rc_capacity c"
  "rc_expireInterval (fst (IsDuplicate c data tag now)) = rc_expireInterval c"
  by (simp_all add: IsDuplicate_def)

lemma rc_run_frame [simp]:
  "rc_capacity (rc_run c calls) = rc_capacity c"
  "rc_expireInterval (rc_run c calls) = rc_expireInterval c"
  by (induction c calls rule: rc_run.induct) simp_all

lemma rc_holds_run:
  assumes "rc_holds c s k t0" "rc_inv c" "int (k + length calls) \<le> rc_capacity c"
    and "\<forall>(d, g, t) \<in> set calls. t0 \<le> t \<and> t \<le> t0 + rc_expireInterval c"
  shows "rc_holds (rc_run c calls) s (k + length calls) t0"
  using assms
proof (induction c calls arbitrary: k rule: rc_run.induct)
  case (1 c)
  then show ?case by simp
next
  case (2 c data tag now calls)
  have "rc_holds (fst (IsDuplicate c data tag now)) s (Suc k) t0"
    using 2 by (intro rc_holds_IsDuplicate) auto
  then have "rc_holds (rc_run (fst (IsDuplicate c data tag now)) calls) s (Suc k + length calls) t0"
    using 2 by (intro "2.IH") (auto intro: rc_inv_IsDuplicate)
  then show ?case by simp
qed

lemma rc_holds_detect:
  assumes "rc_holds c (computeSignature data) k t0" "rc_inv c" "int k < rc_capacity c"
    and "t0 \<le> now" "now \<le> t0 + rc_expireInterval c"
  shows "snd (IsDuplicate c data EmptyTag now)"
proof -
  let ?c = "rc_rotate (rc_expire c now) now"
  have "rc_holds ?c (computeSignature data) k t0"
    by (rule rc_holds_refresh [OF assms])
  then have "computeSignature data \<in> fst ` set (rc_current ?c) \<union> fst ` set (rc_previous ?c)"
    by (auto simp: rc_holds_def)
  then show ?thesis
    using assms(3)
    by (auto simp: IsDuplicate_def rc_lookup_def tag_conflict_def Let_def map_of_eq_None_iff
        split: option.splits)
qed

text \<open>The tags in the cache.\<close>

definition rc_tags :: "replayCache \<Rightarrow> string set" where
  "rc_tags c = snd ` set (rc_current c) \<union> snd ` set (rc_previous c)"

lemma rc_tags_refresh: "rc_tags (rc_rotate (rc_expire c now) now) \<subseteq> rc_tags c"
  by (auto simp: rc_tags_def rc_rotate_def rc_expire_def)

lemma rc_tags_IsDuplicate: "rc_tags (fst (IsDuplicate c data tag now)) \<subseteq> insert tag (rc_tags c)"
proof -
  have "rc_tags (fst (rc_lookup x s tag)) \<subseteq> insert tag (rc_tags x)" for x s
    by (simp add: rc_lookup_current rc_tags_def) blast
  from this [of "rc_rotate (rc_expire c now) now" "computeSignature data"] rc_tags_refresh [of c now]
  show ?thesis by (auto simp: IsDuplicate_def)
qed

lemma rc_tags_run: "rc_tags (rc_run c calls) \<subseteq> rc_tags c \<union> (\<lambda>(d, g, t). g) ` set calls"
proof (induction c calls rule: rc_run.induct)
  case (2 c data tag now calls)
  then show ?case using rc_tags_IsDuplicate [of c data tag now] by auto
qed simp

lemma rc_holds_detect_tag:
  assumes "rc_holds c (computeSignature data) k t0" "rc_inv c" "int k < rc_capacity c"
    and "t0 \<le> now" "now \<le> t0 + rc_expireInterval c" "tag \<notin> rc_tags c"
  shows "snd (IsDuplicate c data tag now)"
proof -
  let ?c = "rc_rotate (rc_expire c now) now"
  have "rc_holds ?c (computeSignature data) k t0" by (rule rc_holds_refresh [OF assms(1-5)])
  then have k: "computeSignature data \<in> fst ` set (rc_current ?c) \<union> fst ` set (rc_previous ?c)"
    by (auto simp: rc_holds_def)
  have t: "tag \<notin> rc_tags ?c" using rc_tags_refresh assms(6) by blast
  have "tag_conflict g tag" if "map_of (rc_current ?c) s = Some g \<or> map_of (rc_previous ?c) s = Some g" for s g
    using that t by (auto simp: rc_tags_def tag_conflict_def dest!: map_of_SomeD) (force simp: rc_tags_def)+
  with k assms(3) show ?thesis
    by (auto simp: IsDuplicate_def rc_lookup_def Let_def map_of_eq_None_iff split: option.splits)
qed

text \<open>The tags that a signature has in the cache, and those that a sequence of calls gives it.\<close>

definition rc_tags_of :: "replayCache \<Rightarrow> u64 \<Rightarrow> string set" where
  "rc_tags_of c s = {g. (s, g) \<in> set (rc_current c) \<union> set (rc_previous c)}"

definition call_tags :: "(bytes \<times> string \<times> int) list \<Rightarrow> u64 \<Rightarrow> string set" where
  "call_tags calls s = {g. \<exists>d t. (d, g, t) \<in> set calls \<and> computeSignature d = s}"

lemma rc_tags_of_refresh: "rc_tags_of (rc_rotate (rc_expire c now) now) s \<subseteq> rc_tags_of c s"
  by (auto simp: rc_tags_of_def rc_rotate_def rc_expire_def)

lemma rc_tags_of_IsDuplicate:
  "rc_tags_of (fst (IsDuplicate c data tag now)) s \<subseteq> rc_tags_of c s \<union> (if computeSignature data = s then {tag} else {})"
proof -
  have "rc_tags_of (fst (rc_lookup x s' tag)) s \<subseteq> rc_tags_of x s \<union> (if s' = s then {tag} else {})" for x s'
    by (auto simp: rc_lookup_current rc_tags_of_def split: if_splits)
  from this [of "rc_rotate (rc_expire c now) now" "computeSignature data"] rc_tags_of_refresh [of c now s]
  show ?thesis by (auto simp: IsDuplicate_def)
qed

lemma rc_tags_of_run: "rc_tags_of (rc_run c calls) s \<subseteq> rc_tags_of c s \<union> call_tags calls s"
proof (induction c calls rule: rc_run.induct)
  case (2 c data tag now calls)
  have "call_tags ((data, tag, now) # calls) s = call_tags calls s \<union> (if computeSignature data = s then {tag} else {})"
    by (auto simp: call_tags_def)
  moreover have "rc_tags_of (rc_run c ((data, tag, now) # calls)) s
      \<subseteq> rc_tags_of (fst (IsDuplicate c data tag now)) s \<union> call_tags calls s" using "2.IH" by simp
  ultimately show ?case using rc_tags_of_IsDuplicate [of c data tag now s] by blast
qed simp

lemma rc_holds_detect_tags:
  assumes "rc_holds c (computeSignature data) k t0" "rc_inv c" "int k < rc_capacity c"
    and "t0 \<le> now" "now \<le> t0 + rc_expireInterval c"
    and "tag = EmptyTag \<or> tag \<notin> rc_tags_of c (computeSignature data)"
  shows "snd (IsDuplicate c data tag now)"
proof -
  let ?c = "rc_rotate (rc_expire c now) now" and ?s = "computeSignature data"
  have "rc_holds ?c ?s k t0" by (rule rc_holds_refresh [OF assms(1-5)])
  then have k: "?s \<in> fst ` set (rc_current ?c) \<union> fst ` set (rc_previous ?c)" by (auto simp: rc_holds_def)
  have t: "tag = EmptyTag \<or> tag \<notin> rc_tags_of ?c ?s" using rc_tags_of_refresh assms(6) by blast
  have "tag_conflict g tag" if "map_of (rc_current ?c) ?s = Some g \<or> map_of (rc_previous ?c) ?s = Some g" for g
    using that t by (auto simp: rc_tags_of_def tag_conflict_def dest!: map_of_SomeD)
  with k assms(3) show ?thesis
    by (auto simp: IsDuplicate_def rc_lookup_def Let_def map_of_eq_None_iff split: option.splits)
qed

section \<open>Known signatures\<close>

definition rc_keys :: "replayCache \<Rightarrow> u64 set" where
  "rc_keys c = fst ` set (rc_current c) \<union> fst ` set (rc_previous c)"

lemma rc_keys_refresh: "rc_keys (rc_rotate (rc_expire c now) now) \<subseteq> rc_keys c"
  by (auto simp: rc_keys_def rc_rotate_def rc_expire_def)

lemma rc_keys_IsDuplicate:
  "rc_keys (fst (IsDuplicate c data tag now)) \<subseteq> insert (computeSignature data) (rc_keys c)"
  using rc_keys_refresh [of c now]
  by (auto simp: IsDuplicate_def rc_keys_def rc_lookup_current split: if_splits)

lemma rc_keys_run:
  "rc_keys (rc_run c calls) \<subseteq> rc_keys c \<union> (\<lambda>(d, g, t). computeSignature d) ` set calls"
proof (induction c calls rule: rc_run.induct)
  case (2 c data tag now calls)
  then show ?case using rc_keys_IsDuplicate [of c data tag now] by force
qed simp

lemma map_of_Some_key: "map_of xs k = Some v \<Longrightarrow> k \<in> fst ` set xs"
  by (auto dest: map_of_SomeD intro: rev_image_eqI)

lemma rc_lookup_known: "snd (rc_lookup c s tag) \<Longrightarrow> s \<in> rc_keys c"
  by (auto simp: rc_lookup_def rc_keys_def Let_def split: option.splits dest: map_of_Some_key)

lemma IsDuplicate_known: "snd (IsDuplicate c data tag now) \<Longrightarrow> computeSignature data \<in> rc_keys c"
  using rc_keys_refresh [of c now] rc_lookup_known
  by (fastforce simp: IsDuplicate_def split: if_splits)

section \<open>Properties\<close>

text \<open>
  C20. Replays are detected: once a packet is recorded, the same bytes presented again within the expiry
  interval are reported as a duplicate, however the fewer than \<open>capacity\<close> calls in between rotate the
  two generations, if they come with the empty tag or with a tag that no earlier presentation of the
  same signature had. With an empty tag (stream underlays) this is every replay, with the address of
  the sender as the tag (packet underlays) every replay from another address.
\<close>

theorem replay_detected:
  assumes "rc_inv c" and "int (length calls) < rc_capacity c"
    and "\<forall>(d, g, t) \<in> set calls. t0 \<le> t \<and> t \<le> t0 + rc_expireInterval c"
    and "t0 \<le> now" "now \<le> t0 + rc_expireInterval c"
    and "tag' = EmptyTag
       \<or> tag' \<notin> rc_tags_of c (computeSignature data) \<union> call_tags ((data, tag, t0) # calls) (computeSignature data)"
  shows "snd (IsDuplicate (rc_run (fst (IsDuplicate c data tag t0)) calls) data tag' now)"
proof -
  let ?c = "fst (IsDuplicate c data tag t0)" and ?s = "computeSignature data"
  have "rc_holds (rc_run ?c calls) ?s (0 + length calls) t0"
    using assms by (intro rc_holds_run IsDuplicate_records rc_inv_IsDuplicate) auto
  moreover have "rc_tags_of (rc_run ?c calls) ?s \<subseteq> rc_tags_of c ?s \<union> call_tags ((data, tag, t0) # calls) ?s"
    using rc_tags_of_run [of c "(data, tag, t0) # calls" ?s] by simp
  ultimately show ?thesis
    using assms by (intro rc_holds_detect_tags) (auto intro: rc_inv_run rc_inv_IsDuplicate)
qed

theorem replay_detected_witness:
  "let c = \<lparr>rc_capacity = 2, rc_expireTime = 10, rc_expireInterval = 10, rc_current = [], rc_previous = []\<rparr>;
       c = rc_run (fst (IsDuplicate c [1, 2] ''a'' 0)) [([3], ''a'', 4)]
   in snd (IsDuplicate c [1, 2] EmptyTag 9) \<and> snd (IsDuplicate c [1, 2] ''b'' 9)"
proof -
  let ?c = "\<lparr>rc_capacity = 2, rc_expireTime = 10, rc_expireInterval = 10, rc_current = [], rc_previous = []\<rparr>"
  have "snd (IsDuplicate (rc_run (fst (IsDuplicate ?c [1, 2] ''a'' 0)) [([3], ''a'', 4)]) [1, 2] tag' 9)"
    if "tag' = EmptyTag \<or> tag' = ''b''" for tag'
    using that by (intro replay_detected) (auto simp: rc_inv_def rc_tags_of_def call_tags_def)
  then show ?thesis by (simp only: Let_def) blast
qed

text \<open>
  C21. The cache never grows beyond its capacity: in every state reached from \<open>NewCache\<close> by any
  sequence of calls, both generations hold at most \<open>capacity\<close> entries with distinct signatures.
\<close>

theorem replay_cache_bounded:
  assumes "NewCache capacity expireInterval now = Inr c"
  shows "int (fst (rc_Sizes (rc_run c calls))) \<le> capacity
     \<and> int (snd (rc_Sizes (rc_run c calls))) \<le> capacity
     \<and> distinct (map fst (rc_current (rc_run c calls)))"
proof -
  have "rc_inv (rc_run c calls)"
    using assms by (intro rc_inv_run rc_inv_NewCache)
  moreover have "rc_capacity c = capacity"
    using assms by (auto simp: NewCache_def split: if_splits)
  ultimately show ?thesis
    by (simp add: rc_inv_def rc_Sizes_def)
qed

theorem replay_cache_bounded_witness:
  "int (fst (rc_Sizes (rc_run \<lparr>rc_capacity = 1, rc_expireTime = 10, rc_expireInterval = 10,
      rc_current = [], rc_previous = []\<rparr> [([1], ''a'', 1), ([2], ''a'', 2)]))) \<le> 1"
  using replay_cache_bounded
    [of 1 10 0 "\<lparr>rc_capacity = 1, rc_expireTime = 10, rc_expireInterval = 10,
      rc_current = [], rc_previous = []\<rparr>" "[([1], ''a'', 1), ([2], ''a'', 2)]"]
  by (simp add: NewCache_def)

text \<open>
  No false alarms: if a call in a run that started from an empty cache reports a duplicate,
  an earlier call of the run carried bytes with the same signature.
\<close>

theorem replay_no_false_alarm:
  assumes "rc_current c = []" "rc_previous c = []"
    and "snd (IsDuplicate (rc_run c calls) data tag now)"
  shows "\<exists>(d, g, t) \<in> set calls. computeSignature d = computeSignature data"
proof -
  have "computeSignature data \<in> rc_keys (rc_run c calls)"
    using assms(3) by (rule IsDuplicate_known)
  moreover have "rc_keys c = {}"
    using assms(1,2) by (simp add: rc_keys_def)
  ultimately have "computeSignature data \<in> (\<lambda>(d, g, t). computeSignature d) ` set calls"
    using rc_keys_run [of c calls] by blast
  then show ?thesis by force
qed

theorem replay_no_false_alarm_witness:
  "let c = \<lparr>rc_capacity = 2, rc_expireTime = 10, rc_expireInterval = 10, rc_current = [],
            rc_previous = []\<rparr>
   in \<exists>(d, g, t) \<in> set [([7], EmptyTag, 0 :: int)]. computeSignature d = computeSignature [7]"
proof -
  let ?c = "\<lparr>rc_capacity = 2, rc_expireTime = 10, rc_expireInterval = 10, rc_current = [],
            rc_previous = []\<rparr>"
  have "snd (IsDuplicate (rc_run ?c [([7], EmptyTag, 0)]) [7] EmptyTag 5)"
    by (simp add: IsDuplicate_def rc_rotate_def rc_expire_def rc_lookup_def tag_conflict_def)
  then show ?thesis
    using replay_no_false_alarm [of ?c "[([7], EmptyTag, 0)]" "[7]" EmptyTag 5] by simp
qed

text \<open>
  C37. With non-empty tags a replay is caught once and then let through: when a packet recorded
  under tag \<open>A\<close> has moved to the previous generation, the first presentation under another tag
  \<open>B\<close> is reported as a duplicate, but that call stores \<open>B\<close> in the current generation, so the
  second presentation under \<open>B\<close> is reported as fresh.
\<close>

theorem replay_second_attempt_accepted:
  assumes "0 < rc_expireInterval c" "int (length (rc_current c)) + 1 < rc_capacity c"
    and "now \<le> rc_expireTime c" "now' \<le> rc_expireTime c"
    and "computeSignature data \<notin> fst ` set (rc_current c)"
    and "map_of (rc_previous c) (computeSignature data) = Some A"
    and "A \<noteq> EmptyTag" "B \<noteq> EmptyTag" "A \<noteq> B"
  shows "snd (IsDuplicate c data B now)
     \<and> \<not> snd (IsDuplicate (fst (IsDuplicate c data B now)) data B now')"
proof -
  have fresh: "rc_rotate (rc_expire c now) now = c"
    using assms by (simp add: rc_rotate_def rc_expire_def)
  have "map_of (rc_current c) (computeSignature data) = None"
    using assms(5) by (simp add: map_of_eq_None_iff)
  then have first: "IsDuplicate c data B now
      = (c\<lparr>rc_current := (computeSignature data, B) # rc_current c\<rparr>, True)"
    using assms fresh by (simp add: IsDuplicate_def rc_lookup_def tag_conflict_def)
  show ?thesis
    using assms
    by (simp add: first) (simp add: IsDuplicate_def rc_rotate_def rc_expire_def rc_lookup_def
        tag_conflict_def)
qed

theorem replay_second_attempt_accepted_witness:
  "let c = \<lparr>rc_capacity = 8, rc_expireTime = 10, rc_expireInterval = 10, rc_current = [],
            rc_previous = [(computeSignature [1], ''A'')]\<rparr>
   in snd (IsDuplicate c [1] ''B'' 5)
      \<and> \<not> snd (IsDuplicate (fst (IsDuplicate c [1] ''B'' 5)) [1] ''B'' 6)"
  using replay_second_attempt_accepted
    [of "\<lparr>rc_capacity = 8, rc_expireTime = 10, rc_expireInterval = 10, rc_current = [],
           rc_previous = [(computeSignature [1], ''A'')]\<rparr>" 5 6 "[1]" "''A''" "''B''"]
  by (simp add: EmptyTag_def)

end
