(* ===== verification/Floats.thy ===== *)
theory Floats
  imports Prelude Complex_Main
begin

text \<open>
  Floating point as the sources use it: real arithmetic, with the rounding of every operation,
  the cube root and the conversion to \<open>uint32\<close> supplied by an environment \<open>fe\<close>.
  \<open>float_env_ok\<close> states what IEEE 754 guarantees of them.
\<close>

record float_env =
  fe_f64 :: "real \<Rightarrow> real"   \<comment> \<open>rounding to float64\<close>
  fe_f32 :: "real \<Rightarrow> real"   \<comment> \<open>rounding to float32\<close>
  fe_cbrt :: "real \<Rightarrow> real"  \<comment> \<open>\<open>math.Cbrt\<close>\<close>
  fe_u32 :: "real \<Rightarrow> u32"    \<comment> \<open>conversion of a float64 to uint32\<close>

text \<open>
  Rounding to float64 is monotone; it goes to a nearest number, so no number with a 53-bit
  significand is closer than the result; the float64 before 1 is \<open>1 - 2 ^ -53\<close>; and the conversion of
  a number in the range of \<open>uint32\<close> drops the fraction.
\<close>

definition float_env_ok :: "float_env \<Rightarrow> bool" where
  "float_env_ok fe \<longleftrightarrow>
     mono (fe_f64 fe)
   \<and> (\<forall>x (m::int) k. \<bar>m\<bar> \<le> 2 ^ 53 \<and> k \<le> 1000 \<longrightarrow> \<bar>fe_f64 fe x - x\<bar> \<le> \<bar>of_int m / 2 ^ k - x\<bar>)
   \<and> (\<forall>x. fe_f64 fe x < 1 \<longrightarrow> fe_f64 fe x \<le> 1 - 1 / 2 ^ 53)
   \<and> (\<forall>r. 0 \<le> r \<and> r < 2 ^ 32 \<longrightarrow> unat (fe_u32 fe r) = nat \<lfloor>r\<rfloor>)"

lemma float_mono: "float_env_ok fe \<Longrightarrow> x \<le> y \<Longrightarrow> fe_f64 fe x \<le> fe_f64 fe y"
  by (auto simp: float_env_ok_def mono_def)

lemma float_nearest:
  "float_env_ok fe \<Longrightarrow> \<bar>m\<bar> \<le> 2 ^ 53 \<Longrightarrow> k \<le> 1000 \<Longrightarrow> \<bar>fe_f64 fe x - x\<bar> \<le> \<bar>of_int m / 2 ^ k - x\<bar>"
  by (simp add: float_env_ok_def)

lemma float_below_one: "float_env_ok fe \<Longrightarrow> fe_f64 fe x < 1 \<Longrightarrow> fe_f64 fe x \<le> 1 - 1 / 2 ^ 53"
  by (simp add: float_env_ok_def)

lemma float_exact:
  "float_env_ok fe \<Longrightarrow> \<bar>m\<bar> \<le> 2 ^ 53 \<Longrightarrow> k \<le> 1000 \<Longrightarrow> fe_f64 fe (of_int m / 2 ^ k) = of_int m / 2 ^ k"
  using float_nearest [of fe m k "of_int m / 2 ^ k"] by simp

lemma float_exact_int: "float_env_ok fe \<Longrightarrow> \<bar>m\<bar> \<le> 2 ^ 53 \<Longrightarrow> fe_f64 fe (of_int m) = of_int m"
  using float_exact [of fe m 0] by simp

lemma float_exact_pred_one: "float_env_ok fe \<Longrightarrow> fe_f64 fe (1 - 1 / 2 ^ 53) = 1 - 1 / 2 ^ 53"
  using float_exact [of fe "2 ^ 53 - 1" 53] by (simp add: diff_divide_distrib)

text \<open>A product with a factor below one rounds to less than the other factor.\<close>

lemma float_pred_power:
  fixes n :: int
  assumes fe: "float_env_ok fe" and n: "0 < n" "n \<le> 2 ^ 53" and e53: "e \<le> 53" and T: "n = 2 ^ e"
  shows "fe_f64 fe (of_int n * (1 - 1 / 2 ^ 53)) < of_int n"
proof -
  have "of_int n * (1 - 1 / 2 ^ 53) = (of_int (2 ^ 53 - 1) / 2 ^ (53 - e) :: real)"
    using e53 by (simp add: T power_diff field_simps)
  then have "fe_f64 fe (of_int n * (1 - 1 / 2 ^ 53)) = of_int n * (1 - 1 / 2 ^ 53)"
    using float_exact [OF fe, of "2 ^ 53 - 1" "53 - e"] by simp
  then show ?thesis using n by simp
qed

lemma float_pred_mid:
  fixes n :: int
  assumes fe: "float_env_ok fe" and n: "0 < n" "n \<le> 2 ^ 53" and e: "2 ^ e < n" "n < 2 ^ (e + 1)"
  shows "fe_f64 fe (of_int n * (1 - 1 / 2 ^ 53)) < of_int n"
proof -
  let ?x = "of_int n * (1 - 1 / 2 ^ 53) :: real"
  have e52: "e \<le> 52"
  proof (rule ccontr)
    assume "\<not> e \<le> 52"
    then have "(2::int) ^ 53 \<le> 2 ^ e" by (intro power_increasing) auto
    with e n show False by simp
  qed
  define k where "k = 52 - e"
  have k: "e + k = 52" using e52 by (simp add: k_def)
  define y where "y = n * 2 ^ k - 1"
  have "n * 2 ^ k \<le> 2 ^ (e + 1) * 2 ^ k" using e by simp
  also have "\<dots> = 2 ^ (e + k) * 2" by (simp add: power_add)
  also have "\<dots> = 2 ^ 53" by (simp add: k)
  finally have y: "\<bar>y\<bar> \<le> 2 ^ 53" using n by (simp add: y_def)
  have yk: "of_int y / 2 ^ k = of_int n - 1 / (2 ^ k :: real)"
    by (simp add: y_def field_simps)
  have p: "(2::real) ^ e * 2 ^ k = 2 ^ 52" by (simp add: k flip: power_add)
  have lo: "1 / 2 ^ k < of_int n / (2 ^ 52 :: real)"
  proof -
    have "(2::real) ^ e < of_int n" using e(1) by (metis of_int_less_iff of_int_numeral of_int_power)
    then have "(2::real) ^ e * 2 ^ k < of_int n * 2 ^ k" by (rule mult_strict_right_mono) simp
    then show ?thesis unfolding p by (simp add: field_simps)
  qed
  have hi: "of_int n / 2 ^ 53 \<le> 1 / (2 ^ k :: real)"
  proof -
    have "of_int n < (2::real) ^ (e + 1)" using e(2) by (metis of_int_less_iff of_int_numeral of_int_power)
    then have "of_int n * 2 ^ k < (2::real) ^ (e + 1) * 2 ^ k" by simp
    also have "\<dots> = 2 ^ 53" using p by simp
    finally show ?thesis by (simp add: field_simps)
  qed
  have "\<bar>fe_f64 fe ?x - ?x\<bar> \<le> \<bar>of_int y / 2 ^ k - ?x\<bar>"
    by (rule float_nearest [OF fe y]) (simp add: k_def)
  also have "\<dots> = 1 / 2 ^ k - of_int n / 2 ^ 53"
    using hi unfolding yk by (simp add: right_diff_distrib)
  also have "\<dots> < of_int n / 2 ^ 53" using lo by simp
  finally show ?thesis by (simp add: right_diff_distrib abs_if split: if_splits)
qed

lemma float_scaled_less:
  assumes fe: "float_env_ok fe" and n: "0 < n" "n \<le> 2 ^ 53" and x: "x \<le> of_int n * (1 - 1 / 2 ^ 53)"
  shows "fe_f64 fe x < of_int n"
proof -
  let ?u = "1 / 2 ^ 53 :: real" and ?x = "of_int n * (1 - 1 / 2 ^ 53) :: real"
  have "1 \<le> nat n" using n(1) by simp
  then obtain e where e: "2 ^ e \<le> nat n" "nat n < 2 ^ (e + 1)"
    using ex_power_ivl1 [OF order_refl] by blast
  then have ei: "2 ^ e \<le> n" "n < 2 ^ (e + 1)" using n
    by (auto simp: nat_less_iff le_nat_iff)
  have e53: "e \<le> 53"
  proof (rule ccontr)
    assume "\<not> e \<le> 53"
    then have "(2::int) ^ 54 \<le> 2 ^ e" by (intro power_increasing) auto
    with ei n show False by simp
  qed
  have "fe_f64 fe ?x < of_int n"
  proof (cases "n = 2 ^ e")
    case True
    from fe n e53 True show ?thesis by (rule float_pred_power)
  next
    case False
    with ei have "2 ^ e < n" by simp
    from fe n this ei(2) show ?thesis by (rule float_pred_mid)
  qed
  with float_mono [OF fe x] show ?thesis by linarith
qed

text \<open>The conversion of a float to an integer type: truncation toward zero.\<close>

definition trunc_real :: "real \<Rightarrow> int" where
  "trunc_real x = (if 0 \<le> x then \<lfloor>x\<rfloor> else \<lceil>x\<rceil>)"

text \<open>
  A floating-point environment for the witnesses: it rounds only in the gap below 1 and is exact
  everywhere else.
\<close>

definition round_gap :: "real \<Rightarrow> real \<Rightarrow> real" where
  "round_gap u x =
     (if 1 - u < x \<and> x < 1 - u / 2 then 1 - u
      else if 1 - u / 2 \<le> x \<and> x < 1 then 1 else x)"

lemma round_gap_mono: "0 < u \<Longrightarrow> mono (round_gap u)"
  by (auto simp: mono_def round_gap_def)

lemma round_gap_nearest: "0 < u \<Longrightarrow> y \<le> 1 - u \<or> 1 \<le> y \<Longrightarrow> \<bar>round_gap u x - x\<bar> \<le> \<bar>y - x\<bar>"
  by (auto simp: round_gap_def abs_if)

lemma round_gap_below_one: "0 < u \<Longrightarrow> round_gap u x < 1 \<Longrightarrow> round_gap u x \<le> 1 - u"
  by (auto simp: round_gap_def split: if_splits)

definition some_env :: float_env where
  "some_env = \<lparr>fe_f64 = round_gap (1 / 2 ^ 53), fe_f32 = (\<lambda>x. x), fe_cbrt = root 3,
     fe_u32 = (\<lambda>x. of_nat (nat \<lfloor>x\<rfloor>))\<rparr>"

lemma significand_gap:
  assumes "\<bar>m\<bar> \<le> 2 ^ 53"
  shows "real_of_int m / 2 ^ k \<le> 1 - 1 / 2 ^ 53 \<or> 1 \<le> real_of_int m / 2 ^ k"
proof (cases "2 ^ k \<le> m")
  case True
  then have "(2::real) ^ k \<le> of_int m" by (metis of_int_le_iff of_int_numeral of_int_power)
  then show ?thesis by simp
next
  case False
  show ?thesis
  proof (cases "k \<le> 53")
    case True
    have "m \<le> 2 ^ k - 1" using False by simp
    then have "real_of_int m \<le> real_of_int (2 ^ k - 1)" by (simp only: of_int_le_iff)
    then have "real_of_int m \<le> 2 ^ k - 1" by simp
    then have "real_of_int m / 2 ^ k \<le> (2 ^ k - 1) / 2 ^ k" by (simp add: divide_right_mono)
    also have "\<dots> = 1 - 1 / 2 ^ k" by (simp add: diff_divide_distrib)
    also have "\<dots> \<le> 1 - 1 / 2 ^ 53"
      using power_increasing [OF True, of "2::real"] by (simp add: frac_le)
    finally show ?thesis ..
  next
    case k: False
    have "m \<le> 2 ^ 53" using assms by linarith
    then have "real_of_int m \<le> real_of_int (2 ^ 53)" by (simp only: of_int_le_iff)
    then have "real_of_int m \<le> 2 ^ 53" by simp
    also have "\<dots> \<le> 2 ^ k / 2" using power_increasing [of 54 k "2::real"] k by simp
    finally have "real_of_int m / 2 ^ k \<le> 1 / 2" by (simp add: field_simps)
    also have "(1 / 2 :: real) \<le> 1 - 1 / 2 ^ 53" by simp
    finally show ?thesis ..
  qed
qed

lemma trunc_u32: "0 \<le> r \<Longrightarrow> r < 2 ^ 32 \<Longrightarrow> unat (of_nat (nat \<lfloor>r\<rfloor>) :: u32) = nat \<lfloor>r\<rfloor>" for r :: real
proof -
  assume r: "0 \<le> r" "r < 2 ^ 32"
  then have "\<lfloor>r\<rfloor> < 2 ^ 32" by (simp add: floor_less_iff)
  then have "nat \<lfloor>r\<rfloor> < 2 ^ 32" using r by (simp add: nat_less_iff)
  then show ?thesis by (simp add: unat_of_nat)
qed

lemma some_env_ok: "float_env_ok some_env"
proof -
  have u: "0 < (1 / 2 ^ 53 :: real)" by simp
  have "\<bar>round_gap (1 / 2 ^ 53) x - x\<bar> \<le> \<bar>of_int m / 2 ^ k - x\<bar>" if "\<bar>m\<bar> \<le> 2 ^ 53" for x m k
    by (rule round_gap_nearest [OF u significand_gap [OF that]])
  with round_gap_mono [OF u] round_gap_below_one [OF u] trunc_u32 show ?thesis
    unfolding float_env_ok_def some_env_def float_env.simps by blast
qed

end
