(* ===== verification/Congestion.thy ===== *)
theory Congestion
  imports Mathext Floats
begin

text \<open>
  Congestion control of the packet transport: the CUBIC window of
  \<open>src/pkg/congestion/cubic.go\<close> and the round-trip statistics of \<open>src/pkg/congestion/rtt.go\<close>.
  Floating point is real arithmetic with the rounding, the cube root and the conversion to
  \<open>uint32\<close> of the platform as the argument \<open>fe\<close>; every operation of the source is rounded.
  The clock (\<open>time.Now().UnixMicro()\<close>) is the argument \<open>now\<close>. Durations are nanoseconds.
\<close>

section \<open>CUBIC\<close>

datatype cubicOperationMode = cubicSlowStart | cubicNormal

definition cubicBeta :: real where "cubicBeta = 7 / 10"
definition cubicC :: real where "cubicC = 4 / 10"

record cubicSendAlgorithm =
  cu_minWindowSize :: u32
  cu_maxWindowSize :: u32
  cu_mode :: cubicOperationMode
  cu_congestionWindow :: u32
  cu_windowSizeBeforeLastReduction :: u32
  cu_lastReductionTime :: real
  cu_accumulatedAcks :: u32

definition NewCubicSendAlgorithm :: "u32 \<Rightarrow> u32 \<Rightarrow> cubicSendAlgorithm result" where
  "NewCubicSendAlgorithm minWindowSize maxWindowSize =
     (if minWindowSize > maxWindowSize
      then Inl (Panic ''minimum congestion window size is greater than maximum congestion window size'')
      else Inr \<lparr>cu_minWindowSize = minWindowSize, cu_maxWindowSize = maxWindowSize,
        cu_mode = cubicSlowStart, cu_congestionWindow = minWindowSize,
        cu_windowSizeBeforeLastReduction = 0, cu_lastReductionTime = 0,
        cu_accumulatedAcks = 0\<rparr>)"

definition CongestionWindowSize :: "cubicSendAlgorithm \<Rightarrow> u32" where
  "CongestionWindowSize c = cu_congestionWindow c"

definition InSlowStart :: "cubicSendAlgorithm \<Rightarrow> bool" where
  "InSlowStart c \<longleftrightarrow> cu_mode c = cubicSlowStart"

definition cubic_inRange :: "cubicSendAlgorithm \<Rightarrow> cubicSendAlgorithm \<times> u32" where
  "cubic_inRange c =
     (let c = (if cu_congestionWindow c < cu_minWindowSize c
               then c\<lparr>cu_congestionWindow := cu_minWindowSize c\<rparr>
               else if cu_congestionWindow c > cu_maxWindowSize c
               then c\<lparr>cu_congestionWindow := cu_maxWindowSize c\<rparr>
               else c)
      in (c, cu_congestionWindow c))"

text \<open>\<open>float64(time.Now().UnixMicro()) / 1000000\<close>\<close>

definition seconds :: "float_env \<Rightarrow> int \<Rightarrow> real" where
  "seconds fe now = fe_f64 fe (fe_f64 fe (of_int now) / 1000000)"

definition OnAck :: "float_env \<Rightarrow> cubicSendAlgorithm \<Rightarrow> int \<Rightarrow> cubicSendAlgorithm \<times> u32" where
  "OnAck fe c now =
     (if cu_mode c = cubicSlowStart
      then cubic_inRange (c\<lparr>cu_congestionWindow := cu_congestionWindow c + 1\<rparr>)
      else
        let c = c\<lparr>cu_accumulatedAcks := cu_accumulatedAcks c + 1\<rparr>;
            f = fe_f64 fe;
            w = f (real (unat (cu_windowSizeBeforeLastReduction c)));
            k = fe_cbrt fe (f (f (w * f (1 - f cubicBeta)) / f cubicC));
            t = f (seconds fe now - cu_lastReductionTime c);
            d = f (t - k);
            x = f (f (f (f (f cubicC * d) * d) * d) + w)
        in cubic_inRange
             (c\<lparr>cu_congestionWindow := fe_u32 fe x + cu_accumulatedAcks c div 16\<rparr>))"

definition OnLoss :: "float_env \<Rightarrow> cubicSendAlgorithm \<Rightarrow> int \<Rightarrow> cubicSendAlgorithm \<times> u32" where
  "OnLoss fe c now =
     (let c = c\<lparr>cu_mode := cubicNormal\<rparr>;
          c = c\<lparr>cu_lastReductionTime := seconds fe now\<rparr>;
          c = c\<lparr>cu_windowSizeBeforeLastReduction := cu_congestionWindow c\<rparr>;
          c = c\<lparr>cu_accumulatedAcks := 0\<rparr>;
          c = c\<lparr>cu_congestionWindow := fe_u32 fe (fe_f64 fe
                 (fe_f64 fe (real (unat (cu_congestionWindow c))) * fe_f64 fe cubicBeta))\<rparr>;
          (c, w) = cubic_inRange c;
          c = c\<lparr>cu_congestionWindow := w\<rparr>
      in (c, cu_congestionWindow c))"

definition OnTimeout :: "cubicSendAlgorithm \<Rightarrow> cubicSendAlgorithm \<times> u32" where
  "OnTimeout c =
     (let c = c\<lparr>cu_mode := cubicSlowStart,
                cu_congestionWindow := cu_minWindowSize c,
                cu_windowSizeBeforeLastReduction := 0,
                cu_lastReductionTime := 0,
                cu_accumulatedAcks := 0\<rparr>
      in (c, cu_congestionWindow c))"

text \<open>The events a session feeds into the algorithm, and a run of them.\<close>

datatype cubic_event = Ack int | Loss int | Timeout

fun cubic_step :: "float_env \<Rightarrow> cubicSendAlgorithm \<Rightarrow> cubic_event \<Rightarrow> cubicSendAlgorithm" where
  "cubic_step fe c (Ack now) = fst (OnAck fe c now)"
| "cubic_step fe c (Loss now) = fst (OnLoss fe c now)"
| "cubic_step fe c Timeout = fst (OnTimeout c)"

fun cubic_run :: "float_env \<Rightarrow> cubicSendAlgorithm \<Rightarrow> cubic_event list \<Rightarrow> cubicSendAlgorithm" where
  "cubic_run fe c [] = c"
| "cubic_run fe c (e # es) = cubic_run fe (cubic_step fe c e) es"

definition cubic_inv :: "cubicSendAlgorithm \<Rightarrow> bool" where
  "cubic_inv c \<longleftrightarrow> cu_minWindowSize c \<le> cu_congestionWindow c
     \<and> cu_congestionWindow c \<le> cu_maxWindowSize c"

lemma inRange_frame [simp]:
  "cu_minWindowSize (fst (cubic_inRange c)) = cu_minWindowSize c"
  "cu_maxWindowSize (fst (cubic_inRange c)) = cu_maxWindowSize c"
  "cu_mode (fst (cubic_inRange c)) = cu_mode c"
  by (simp_all add: cubic_inRange_def Let_def)

lemma inRange_clamps:
  "cu_congestionWindow (fst (cubic_inRange c)) =
     (if cu_congestionWindow c < cu_minWindowSize c then cu_minWindowSize c
      else min (cu_congestionWindow c) (cu_maxWindowSize c))"
  by (auto simp: cubic_inRange_def Let_def min_def)

lemma inRange_inv: "cu_minWindowSize c \<le> cu_maxWindowSize c \<Longrightarrow> cubic_inv (fst (cubic_inRange c))"
  by (auto simp: cubic_inv_def inRange_clamps)

lemma cubic_inv_bounds: "cubic_inv c \<Longrightarrow> cu_minWindowSize c \<le> cu_maxWindowSize c"
  by (auto simp: cubic_inv_def)

lemma snd_inRange: "snd (cubic_inRange c) = cu_congestionWindow (fst (cubic_inRange c))"
  by (simp add: cubic_inRange_def Let_def)

lemma OnLoss_inRange:
  "\<exists>d. fst (OnLoss fe c now) = fst (cubic_inRange d)
     \<and> cu_minWindowSize d = cu_minWindowSize c \<and> cu_maxWindowSize d = cu_maxWindowSize c
     \<and> cu_mode d = cubicNormal
     \<and> cu_congestionWindow d = fe_u32 fe (fe_f64 fe
         (fe_f64 fe (real (unat (cu_congestionWindow c))) * fe_f64 fe cubicBeta))"
proof -
  let ?d = "c\<lparr>cu_mode := cubicNormal, cu_lastReductionTime := seconds fe now,
      cu_windowSizeBeforeLastReduction := cu_congestionWindow c, cu_accumulatedAcks := 0,
      cu_congestionWindow := fe_u32 fe (fe_f64 fe
         (fe_f64 fe (real (unat (cu_congestionWindow c))) * fe_f64 fe cubicBeta))\<rparr>"
  have "fst (OnLoss fe c now) = fst (cubic_inRange ?d)"
    by (simp add: OnLoss_def Let_def cubic_inRange_def)
  then show ?thesis by (intro exI [of _ ?d]) simp
qed

lemma cubic_step_inv: "cubic_inv c \<Longrightarrow> cubic_inv (cubic_step fe c e)"
proof (cases e)
  case (Ack now)
  assume "cubic_inv c"
  with Ack show ?thesis
    by (auto simp: OnAck_def Let_def intro!: inRange_inv dest: cubic_inv_bounds)
next
  case (Loss now)
  assume "cubic_inv c"
  then have "cu_minWindowSize c \<le> cu_maxWindowSize c" by (rule cubic_inv_bounds)
  with Loss OnLoss_inRange [of fe c now] show ?thesis
    by (auto intro!: inRange_inv)
next
  case Timeout
  assume "cubic_inv c"
  with Timeout show ?thesis by (auto simp: OnTimeout_def cubic_inv_def)
qed

lemma OnLoss_frame [simp]:
  "cu_minWindowSize (fst (OnLoss fe c now)) = cu_minWindowSize c"
  "cu_maxWindowSize (fst (OnLoss fe c now)) = cu_maxWindowSize c"
  using OnLoss_inRange [of fe c now] by auto

lemma cubic_step_frame [simp]:
  "cu_minWindowSize (cubic_step fe c e) = cu_minWindowSize c"
  "cu_maxWindowSize (cubic_step fe c e) = cu_maxWindowSize c"
  by (cases e; simp add: OnAck_def Let_def OnTimeout_def)+

lemma cubic_run_inv: "cubic_inv c \<Longrightarrow> cubic_inv (cubic_run fe c es)"
  by (induction es arbitrary: c) (auto intro: cubic_step_inv)

lemma cubic_run_frame [simp]:
  "cu_minWindowSize (cubic_run fe c es) = cu_minWindowSize c"
  "cu_maxWindowSize (cubic_run fe c es) = cu_maxWindowSize c"
  by (induction es arbitrary: c) simp_all

lemma float_scaled_down:
  assumes "float_env_ok fe" and "n \<le> 2 ^ 32 - 1"
  shows "unat (fe_u32 fe (fe_f64 fe (fe_f64 fe (real n) * fe_f64 fe cubicBeta))) \<le> n"
proof -
  let ?f = "fe_f64 fe"
  note mono = float_mono [OF assms(1)]
  have exact: "?f (of_int m) = of_int m" if "\<bar>m\<bar> \<le> 2 ^ 53" for m
    using assms(1) that by (rule float_exact_int)
  have n: "?f (real n) = real n"
    using exact [of "int n"] assms(2) by simp
  have "?f 0 = 0" "?f 1 = 1"
    using exact [of 0] exact [of 1] by simp_all
  then have "0 \<le> ?f cubicBeta" "?f cubicBeta \<le> 1"
    using mono [of 0 cubicBeta] mono [of cubicBeta 1] by (simp_all add: cubicBeta_def)
  then have "0 \<le> real n * ?f cubicBeta" "real n * ?f cubicBeta \<le> real n"
    by (simp_all add: mult_left_le)
  then have r: "0 \<le> ?f (real n * ?f cubicBeta)" "?f (real n * ?f cubicBeta) \<le> real n"
    using mono [of 0 "real n * ?f cubicBeta"] mono [of "real n * ?f cubicBeta" "real n"]
      \<open>?f 0 = 0\<close> n by simp_all
  moreover have "real n < 2 ^ 32"
    using assms(2) by simp
  ultimately have "unat (fe_u32 fe (?f (real n * ?f cubicBeta)))
      = nat \<lfloor>?f (real n * ?f cubicBeta)\<rfloor>"
    using assms(1) by (simp add: float_env_ok_def)
  also have "\<dots> \<le> n"
    using r(2) by (simp add: nat_le_iff floor_le_iff)
  finally show ?thesis by (simp add: n)
qed

section \<open>Round-trip statistics\<close>

definition Microsecond :: int where "Microsecond = 1000"
definition Millisecond :: int where "Millisecond = 1000000"
definition Second :: int where "Second = 1000000000"

definition defaultInitialRTT :: int where "defaultInitialRTT = Second"
definition infDuration :: int where "infDuration = 2 ^ 63 - 1"

record rttStats =
  rtt_hasMeasurement :: bool
  rtt_minRTT :: int
  rtt_latestRTT :: int
  rtt_smoothedRTT :: int
  rtt_meanDeviation :: int
  rtt_maxAckDelay :: int
  rtt_rtoMultiplier :: real

definition NewRTTStats :: rttStats where
  "NewRTTStats = \<lparr>rtt_hasMeasurement = False, rtt_minRTT = 0, rtt_latestRTT = 0,
     rtt_smoothedRTT = 0, rtt_meanDeviation = 0, rtt_maxAckDelay = 0, rtt_rtoMultiplier = 1\<rparr>"

definition RTO :: "float_env \<Rightarrow> rttStats \<Rightarrow> int" where
  "RTO fe r =
     (if rtt_smoothedRTT r = 0 then 2 * defaultInitialRTT
      else
        let rto = rtt_smoothedRTT r + Max2 (4 * rtt_meanDeviation r) (10 * Millisecond);
            rto = rto + rtt_maxAckDelay r
        in trunc_real (fe_f64 fe (fe_f64 fe (of_int rto) * rtt_rtoMultiplier r)))"

definition UpdateRTT :: "float_env \<Rightarrow> rttStats \<Rightarrow> int \<Rightarrow> rttStats" where
  "UpdateRTT fe r sample =
     (if sample = infDuration \<or> sample \<le> 0 then r
      else
        let r = (if rtt_minRTT r = 0 \<or> rtt_minRTT r > sample then r\<lparr>rtt_minRTT := sample\<rparr> else r);
            r = r\<lparr>rtt_latestRTT := sample\<rparr>
        in if \<not> rtt_hasMeasurement r
           then r\<lparr>rtt_hasMeasurement := True, rtt_smoothedRTT := sample,
                  rtt_meanDeviation := go_quot sample 2\<rparr>
           else
             let f = fe_f32 fe;
                 us = (\<lambda>d. f (of_int (go_quot d Microsecond)));
                 r = r\<lparr>rtt_meanDeviation := trunc_real
                      (f (f (3 / 4 * us (rtt_meanDeviation r))
                        + f (1 / 4 * us (Abs (rtt_smoothedRTT r - sample))))) * Microsecond\<rparr>
             in r\<lparr>rtt_smoothedRTT := trunc_real
                   (f (f (us (rtt_smoothedRTT r) * (7 / 8)) + f (us sample * (1 / 8))))
                   * Microsecond\<rparr>)"

definition SetMaxAckDelay :: "rttStats \<Rightarrow> int \<Rightarrow> rttStats" where
  "SetMaxAckDelay r mad = r\<lparr>rtt_maxAckDelay := mad\<rparr>"

definition SetRTOMultiplier :: "rttStats \<Rightarrow> real \<Rightarrow> rttStats result" where
  "SetRTOMultiplier r n =
     (if n \<le> 0 then Inl (Panic ''retransmission timeout multiplier must be greater than 0'')
      else Inr (r\<lparr>rtt_rtoMultiplier := n\<rparr>))"

definition SetInitialRTT :: "rttStats \<Rightarrow> int \<Rightarrow> rttStats result" where
  "SetInitialRTT r t =
     (if rtt_hasMeasurement r then Inl (Panic ''initial RTT set after first measurement'')
      else Inr (r\<lparr>rtt_smoothedRTT := t, rtt_latestRTT := t\<rparr>))"

definition rtt_Reset :: "rttStats \<Rightarrow> rttStats" where
  "rtt_Reset r = r\<lparr>rtt_latestRTT := 0, rtt_minRTT := 0, rtt_smoothedRTT := 0,
     rtt_meanDeviation := 0\<rparr>"

definition ExpireSmoothedMetrics :: "rttStats \<Rightarrow> rttStats" where
  "ExpireSmoothedMetrics r =
     (let r = r\<lparr>rtt_meanDeviation := Max2 (rtt_meanDeviation r)
                 (Abs (rtt_smoothedRTT r - rtt_latestRTT r))\<rparr>
      in r\<lparr>rtt_smoothedRTT := Max2 (rtt_smoothedRTT r) (rtt_latestRTT r)\<rparr>)"

definition rtt_valid :: "int \<Rightarrow> bool" where
  "rtt_valid sample \<longleftrightarrow> sample \<noteq> infDuration \<and> 0 < sample"

lemma UpdateRTT_fields:
  "rtt_minRTT (UpdateRTT fe r sample) =
     (if \<not> rtt_valid sample then rtt_minRTT r
      else if rtt_minRTT r = 0 then sample else min (rtt_minRTT r) sample)"
  "rtt_latestRTT (UpdateRTT fe r sample) = (if rtt_valid sample then sample else rtt_latestRTT r)"
  "rtt_maxAckDelay (UpdateRTT fe r sample) = rtt_maxAckDelay r"
  "rtt_rtoMultiplier (UpdateRTT fe r sample) = rtt_rtoMultiplier r"
  by (auto simp: UpdateRTT_def rtt_valid_def Let_def min_def)

lemma foldl_UpdateRTT_min:
  "rtt_minRTT (foldl (UpdateRTT fe) r samples) =
     (let vs = filter rtt_valid samples in
      if vs = [] then rtt_minRTT r
      else if rtt_minRTT r = 0 then Min (set vs) else min (rtt_minRTT r) (Min (set vs)))"
proof (induction samples arbitrary: r)
  case (Cons x xs)
  have "rtt_valid x \<Longrightarrow> x \<noteq> 0" by (auto simp: rtt_valid_def)
  with Cons show ?case
    by (auto simp: UpdateRTT_fields Let_def Min_insert min.assoc min_def simp del: set_filter)
qed simp

section \<open>Properties\<close>

text \<open>
  C25. The congestion window stays inside its bounds: after any sequence of acknowledgements,
  losses and timeouts, whatever the floating-point conversions return, the window of an
  algorithm made by \<open>NewCubicSendAlgorithm\<close> lies between the minimum and the maximum.
\<close>

theorem cubic_window_bounded:
  assumes "NewCubicSendAlgorithm lo hi = Inr c"
  shows "lo \<le> CongestionWindowSize (cubic_run fe c es)
     \<and> CongestionWindowSize (cubic_run fe c es) \<le> hi"
proof -
  have c: "cubic_inv c" "cu_minWindowSize c = lo" "cu_maxWindowSize c = hi"
    using assms by (auto simp: NewCubicSendAlgorithm_def cubic_inv_def split: if_splits)
  then have "cubic_inv (cubic_run fe c es)" by (simp add: cubic_run_inv)
  with c show ?thesis by (simp add: cubic_inv_def CongestionWindowSize_def)
qed

theorem cubic_window_bounded_witness:
  "\<exists>c. NewCubicSendAlgorithm 16 4096 = Inr c
     \<and> 16 \<le> CongestionWindowSize (cubic_run some_env c [Ack 1, Loss 2, Ack 3, Timeout])"
proof -
  obtain c where c: "NewCubicSendAlgorithm 16 4096 = Inr c"
    by (simp add: NewCubicSendAlgorithm_def)
  then show ?thesis
    using cubic_window_bounded [OF c, of some_env "[Ack 1, Loss 2, Ack 3, Timeout]"] by auto
qed

text \<open>
  Congestion signals shrink the window and acknowledgements in slow start grow it by one:
  a loss never leaves a larger window than before and leaves slow start, a timeout falls back
  to the minimum in slow start, and an acknowledgement in slow start adds one up to the
  maximum (which must be below the largest \<open>uint32\<close>, or the addition would wrap).
\<close>

theorem cubic_reacts:
  assumes "float_env_ok fe" and "cubic_inv c" and "cu_maxWindowSize c < 4294967295"
  shows "CongestionWindowSize (fst (OnLoss fe c now)) \<le> CongestionWindowSize c
     \<and> \<not> InSlowStart (fst (OnLoss fe c now))
     \<and> OnTimeout c = (fst (OnTimeout c), cu_minWindowSize c) \<and> InSlowStart (fst (OnTimeout c))
     \<and> (InSlowStart c \<longrightarrow> CongestionWindowSize (fst (OnAck fe c now))
          = (if cu_congestionWindow c = cu_maxWindowSize c then cu_maxWindowSize c
             else cu_congestionWindow c + 1))"
proof (intro conjI)
  obtain d where d: "fst (OnLoss fe c now) = fst (cubic_inRange d)"
      "cu_minWindowSize d = cu_minWindowSize c" "cu_mode d = cubicNormal"
      "cu_congestionWindow d = fe_u32 fe (fe_f64 fe
         (fe_f64 fe (real (unat (cu_congestionWindow c))) * fe_f64 fe cubicBeta))"
    using OnLoss_inRange by blast
  have "unat (cu_congestionWindow c) \<le> 2 ^ 32 - 1"
    using unsigned_less [of "cu_congestionWindow c", where ?'a = nat] by simp
  then have "cu_congestionWindow d \<le> cu_congestionWindow c"
    unfolding d(4) word_le_nat_alt by (rule float_scaled_down [OF assms(1)])
  then show "CongestionWindowSize (fst (OnLoss fe c now)) \<le> CongestionWindowSize c"
    using assms(2) d by (auto simp: CongestionWindowSize_def inRange_clamps cubic_inv_def min_def)
  show "\<not> InSlowStart (fst (OnLoss fe c now))"
    using d by (simp add: InSlowStart_def)
  show "OnTimeout c = (fst (OnTimeout c), cu_minWindowSize c)" "InSlowStart (fst (OnTimeout c))"
    by (simp_all add: OnTimeout_def InSlowStart_def Let_def)
  show "InSlowStart c \<longrightarrow> CongestionWindowSize (fst (OnAck fe c now))
      = (if cu_congestionWindow c = cu_maxWindowSize c then cu_maxWindowSize c
         else cu_congestionWindow c + 1)"
  proof
    assume s: "InSlowStart c"
    let ?w = "cu_congestionWindow c" and ?m = "cu_maxWindowSize c"
    have r: "cu_minWindowSize c \<le> ?w" "?w \<le> ?m" using assms(2) by (simp_all add: cubic_inv_def)
    have "?w + 1 \<le> ?m \<and> \<not> ?w + 1 < cu_minWindowSize c" if "?w \<noteq> ?m"
    proof -
      have lt: "?w < ?m" using r that by simp
      moreover from lt have "unat (?w + 1) = Suc (unat ?w)" by (rule unat_Suc_less)
      ultimately show ?thesis using r by (simp add: word_le_nat_alt word_less_nat_alt)
    qed
    moreover have "\<not> ?w + 1 \<le> ?m \<and> \<not> ?w + 1 < cu_minWindowSize c" if "?w = ?m"
    proof -
      have "unat (?w + 1) = Suc (unat ?w)"
        using that assms(3) by (simp add: unat_Suc_less [of _ 4294967295])
      with r that show ?thesis by (simp add: word_le_nat_alt word_less_nat_alt)
    qed
    ultimately show "CongestionWindowSize (fst (OnAck fe c now))
        = (if ?w = ?m then ?m else ?w + 1)"
      using s by (auto simp: CongestionWindowSize_def InSlowStart_def OnAck_def inRange_clamps min_def)
  qed
qed

theorem cubic_reacts_witness:
  "\<exists>c. NewCubicSendAlgorithm 16 4096 = Inr c
     \<and> CongestionWindowSize (fst (OnAck some_env c 5)) = 17
     \<and> \<not> InSlowStart (fst (OnLoss some_env c 7))"
proof -
  obtain c where c: "NewCubicSendAlgorithm 16 4096 = Inr c" "cubic_inv c" "InSlowStart c"
      "cu_congestionWindow c = 16" "cu_maxWindowSize c = 4096"
    by (simp add: NewCubicSendAlgorithm_def cubic_inv_def InSlowStart_def)
  then show ?thesis
    using cubic_reacts [OF some_env_ok c(2), of 5] cubic_reacts [OF some_env_ok c(2), of 7] by simp
qed

text \<open>
  The minimum round-trip time is the minimum of the valid samples: after any sequence of
  \<open>UpdateRTT\<close> calls on fresh statistics with at least one valid sample (positive, not infinite).
\<close>

theorem minRTT_is_minimum:
  assumes "\<exists>s \<in> set samples. rtt_valid s"
  shows "rtt_minRTT (foldl (UpdateRTT fe) NewRTTStats samples)
     = Min {s \<in> set samples. rtt_valid s}"
proof -
  have "filter rtt_valid samples \<noteq> []" using assms by (auto simp: filter_empty_conv)
  then show ?thesis by (simp add: foldl_UpdateRTT_min Let_def NewRTTStats_def)
qed

theorem minRTT_is_minimum_witness:
  "rtt_minRTT (foldl (UpdateRTT some_env) NewRTTStats [7000000, 0, 3000000, -1]) = 3000000"
proof -
  have "\<exists>s \<in> set [7000000, 0, 3000000, -1]. rtt_valid s" 
    by (simp add: rtt_valid_def infDuration_def)
  moreover have "{s \<in> set [7000000, 0, 3000000, -1]. rtt_valid s} = {7000000, 3000000}"
    by (auto simp: rtt_valid_def infDuration_def)
  ultimately show ?thesis
    using minRTT_is_minimum [of "[7000000, 0, 3000000, -1]" some_env] by simp
qed

end
