(* ===== verification/Sha256.thy ===== *)
theory Sha256
  imports Prelude
begin

text \<open>
  SHA-256 (Go package \<open>crypto/sha256\<close>), which the sources use to derive user hints, salts,
  hashed passwords and host-dependent constants. The definition follows FIPS 180-4 and is
  executable.
\<close>

text \<open>
  The constants of the algorithm are fractional parts of roots of the first primes: the first 32
  bits of the cube roots of 64 primes and of the square roots of eight. \<open>root_bits e k n\<close> is the
  integer part of the \<open>e\<close>-th root of \<open>n\<close>, found bit by bit below \<open>2 ^ k\<close>.
\<close>

fun root_bits :: "nat \<Rightarrow> nat \<Rightarrow> nat \<Rightarrow> nat \<Rightarrow> nat" where
  "root_bits e 0 r n = r"
| "root_bits e (Suc k) r n = root_bits e k (if (r + 2 ^ k) ^ e \<le> n then r + 2 ^ k else r) n"

definition first_primes :: "nat \<Rightarrow> nat list" where
  "first_primes m = filter (\<lambda>p. list_all (\<lambda>d. p mod d \<noteq> 0) [2..<p]) [2..<m]"

definition sha_K :: "u32 list" where
  "sha_K = map (\<lambda>p. of_nat (root_bits 3 36 0 (p * 2 ^ 96))) (first_primes 312)"

definition sha_H0 :: "u32 list" where
  "sha_H0 = map (\<lambda>p. of_nat (root_bits 2 36 0 (p * 2 ^ 64))) (first_primes 20)"

definition rotr :: "nat \<Rightarrow> u32 \<Rightarrow> u32" where
  "rotr n x = drop_bit n x OR push_bit (32 - n) x"

text \<open>Padding of a message: a one bit, zeros, and the length in bits in eight bytes.\<close>

definition sha_pad :: "bytes \<Rightarrow> bytes" where
  "sha_pad m = m @ 0x80 # replicate ((119 - length m mod 64) mod 64) 0
     @ put_uint64 (of_nat (8 * length m))"

fun sha_words :: "bytes \<Rightarrow> u32 list" where
  "sha_words (a # b # c # d # bs) = get_uint32 a b c d # sha_words bs"
| "sha_words _ = []"

text \<open>The message schedule, held in reverse: the newest word first.\<close>

fun sha_schedule :: "nat \<Rightarrow> u32 list \<Rightarrow> u32 list" where
  "sha_schedule 0 ws = ws"
| "sha_schedule (Suc n) ws =
     (let w2 = ws ! 1; w7 = ws ! 6; w15 = ws ! 14; w16 = ws ! 15;
          s0 = rotr 7 w15 XOR rotr 18 w15 XOR drop_bit 3 w15;
          s1 = rotr 17 w2 XOR rotr 19 w2 XOR drop_bit 10 w2
      in sha_schedule n ((w16 + s0 + w7 + s1) # ws))"

type_synonym sha_state = "u32 \<times> u32 \<times> u32 \<times> u32 \<times> u32 \<times> u32 \<times> u32 \<times> u32"

fun sha_round :: "sha_state \<Rightarrow> u32 \<times> u32 \<Rightarrow> sha_state" where
  "sha_round (a, b, c, d, e, f, g, h) (k, w) =
     (let s1 = rotr 6 e XOR rotr 11 e XOR rotr 25 e;
          ch = (e AND f) XOR (NOT e AND g);
          t1 = h + s1 + ch + k + w;
          s0 = rotr 2 a XOR rotr 13 a XOR rotr 22 a;
          maj = (a AND b) XOR (a AND c) XOR (b AND c);
          t2 = s0 + maj
      in (t1 + t2, a, b, c, d + t1, e, f, g))"

fun sha_add :: "sha_state \<Rightarrow> sha_state \<Rightarrow> sha_state" where
  "sha_add (a, b, c, d, e, f, g, h) (a', b', c', d', e', f', g', h') =
     (a + a', b + b', c + c', d + d', e + e', f + f', g + g', h + h')"

definition sha_block :: "sha_state \<Rightarrow> u32 list \<Rightarrow> sha_state" where
  "sha_block st ws =
     sha_add st (foldl sha_round st (zip sha_K (rev (sha_schedule 48 (rev ws)))))"

fun sha_blocks :: "nat \<Rightarrow> sha_state \<Rightarrow> u32 list \<Rightarrow> sha_state" where
  "sha_blocks 0 st ws = st"
| "sha_blocks (Suc n) st ws = sha_blocks n (sha_block st (take 16 ws)) (drop 16 ws)"

fun sha_digest :: "sha_state \<Rightarrow> bytes" where
  "sha_digest (a, b, c, d, e, f, g, h) =
     put_uint32 a @ put_uint32 b @ put_uint32 c @ put_uint32 d
     @ put_uint32 e @ put_uint32 f @ put_uint32 g @ put_uint32 h"

definition Sum256 :: "bytes \<Rightarrow> bytes" where
  "Sum256 m =
     (let ws = sha_words (sha_pad m)
      in sha_digest (sha_blocks (length ws div 16)
           (sha_H0 ! 0, sha_H0 ! 1, sha_H0 ! 2, sha_H0 ! 3,
            sha_H0 ! 4, sha_H0 ! 5, sha_H0 ! 6, sha_H0 ! 7) ws))"

lemma length_sha_digest [simp]: "length (sha_digest st) = 32"
  by (cases st rule: sha_digest.cases) simp

lemma length_Sum256 [simp]: "length (Sum256 m) = 32"
  by (simp add: Sum256_def Let_def)

end
