(* ===== verification/Bits.thy ===== *)
theory Bits
  imports Floats Sha256 "HOL-Library.Sublist"
begin

text \<open>
  Byte and bit utilities: the printable-character rewriting of \<open>src/pkg/common/ascii.go\<close>, the
  bit statistics of \<open>src/pkg/common/entropy.go\<close>, the predicates of \<open>src/pkg/common/bytes.go\<close>,
  and the random helpers of \<open>src/pkg/rng\<close>. Random draws are arguments: \<open>rnd i\<close> is the value
  drawn for position \<open>i\<close>.
\<close>

section \<open>Printable characters\<close>

definition PrintableCharSub :: u8 where "PrintableCharSub = 0x20"
definition PrintableCharSup :: u8 where "PrintableCharSup = 0x7E"

definition Common64Set :: bytes where
  "Common64Set = string_bytes
     ''!@#$%^&*()ABCDEFGHIJKLMNOPQRSTUVWXYZabcdefghijklmnopqrstuvwxyz<>''"

definition is_printable :: "u8 \<Rightarrow> bool" where
  "is_printable c \<longleftrightarrow> PrintableCharSub \<le> c \<and> c \<le> PrintableCharSup"

text \<open>The body of the loop of \<open>ToPrintableChar\<close> on one byte; \<open>r\<close> is the value of \<open>crand.Int\<close>.\<close>

definition toPrintable :: "nat \<Rightarrow> u8 \<Rightarrow> u8" where
  "toPrintable r c =
     (if c < PrintableCharSub \<or> c > PrintableCharSup
      then let lowBits = c AND 0x7F
           in if c AND 0x80 > 0 \<and> lowBits \<ge> PrintableCharSub \<and> lowBits \<le> PrintableCharSup
              then lowBits
              else of_nat r + PrintableCharSub
      else c)"

text \<open>A loop that rewrites the bytes at \<open>[beginIdx, endIdx)\<close> of a slice in place.\<close>

definition rewrite_range :: "(nat \<Rightarrow> u8 \<Rightarrow> u8) \<Rightarrow> bytes \<Rightarrow> int \<Rightarrow> int \<Rightarrow> bytes result" where
  "rewrite_range f b beginIdx endIdx =
     (if beginIdx > endIdx then Inl (Panic ''begin index > end index'')
      else if endIdx > int (length b) then Inl (Panic ''index out of range'')
      else if beginIdx < 0 \<and> beginIdx < endIdx then Inl (Panic ''index out of range'')
      else Inr (map (\<lambda>i. if beginIdx \<le> int i \<and> int i < endIdx then f i (b ! i) else b ! i)
                  [0..<length b]))"

definition ToPrintableChar :: "(nat \<Rightarrow> nat) \<Rightarrow> bytes \<Rightarrow> int \<Rightarrow> int \<Rightarrow> bytes result" where
  "ToPrintableChar rnd b beginIdx endIdx = rewrite_range (\<lambda>i. toPrintable (rnd i)) b beginIdx endIdx"

definition ToCommon64Set :: "bytes \<Rightarrow> int \<Rightarrow> int \<Rightarrow> bytes result" where
  "ToCommon64Set b beginIdx endIdx =
     rewrite_range (\<lambda>i c. Common64Set ! unat (c AND 0x3f)) b beginIdx endIdx"

fun maxConsecutive :: "bytes \<Rightarrow> nat \<Rightarrow> nat \<Rightarrow> nat" where
  "maxConsecutive [] maxLen currentLen = maxLen"
| "maxConsecutive (c # cs) maxLen currentLen =
     (if c \<ge> PrintableCharSub \<and> c \<le> PrintableCharSup
      then let currentLen = currentLen + 1
           in maxConsecutive cs (if currentLen > maxLen then currentLen else maxLen) currentLen
      else maxConsecutive cs maxLen 0)"

definition MaxConsecutivePrintableLength :: "bytes \<Rightarrow> nat" where
  "MaxConsecutivePrintableLength b = maxConsecutive b 0 0"

section \<open>Bits of a byte slice\<close>

definition FillBytes :: "bytes \<Rightarrow> u8 \<Rightarrow> bytes" where
  "FillBytes b value = map (\<lambda>_. value) b"

definition IsBitsAllZero :: "bytes \<Rightarrow> bool" where
  "IsBitsAllZero b \<longleftrightarrow> list_all (\<lambda>v. v = 0) b"

definition IsBitsAllOne :: "bytes \<Rightarrow> bool" where
  "IsBitsAllOne b \<longleftrightarrow> list_all (\<lambda>v. v = 0xFF) b"

definition ones :: "u8 \<Rightarrow> nat" where
  "ones b = length (filter (\<lambda>i. (drop_bit i b) AND 1 \<noteq> 0) [0..<8])"

record bitDistribution =
  bd_Bit0 :: real
  bd_Bit1 :: real
  bd_Bit0Count :: int
  bd_Bit1Count :: int

definition ToBitDistribution :: "float_env \<Rightarrow> bytes \<Rightarrow> bitDistribution" where
  "ToBitDistribution fe arr =
     (if arr = [] then \<lparr>bd_Bit0 = 1 / 2, bd_Bit1 = 1 / 2, bd_Bit0Count = 0, bd_Bit1Count = 0\<rparr>
      else
        let bit0Count = sum_list (map (\<lambda>b. 8 - ones b) arr);
            bit1Count = sum_list (map ones arr)
        in \<lparr>bd_Bit0 = fe_f64 fe (real bit0Count / real (length arr * 8)),
            bd_Bit1 = fe_f64 fe (real bit1Count / real (length arr * 8)),
            bd_Bit0Count = int bit0Count, bd_Bit1Count = int bit1Count\<rparr>)"

definition countBits :: "bytes \<Rightarrow> int \<times> int" where
  "countBits bs =
     (int (sum_list (map (\<lambda>b. length (filter (\<lambda>i. b AND push_bit i 1 = 0) [0..<8])) bs)),
      int (sum_list (map (\<lambda>b. length (filter (\<lambda>i. b AND push_bit i 1 > 0) [0..<8])) bs)))"

definition xorBit :: "bytes \<Rightarrow> nat \<Rightarrow> bytes result" where
  "xorBit bs i =
     (let byteIdx = i div 8; bitIdx = i mod 8
      in if length bs < byteIdx + 1 then Inl (Panic ''When XOR bit, index is out of range'')
         else Inr (bs[byteIdx := bs ! byteIdx XOR push_bit bitIdx 1]))"

text \<open>
  The reservoir of \<open>FlipBits\<close>: one step per bit that matches \<open>src\<close>, in the order of the two
  nested loops. The state is the positions, \<open>pIdx\<close> and \<open>mIdx\<close>; \<open>rF\<close> and \<open>rI\<close> are the draws of
  \<open>mrand.Float64\<close> and \<open>mrand.Intn(toFlip)\<close> at the \<open>mIdx\<close>-th match.
\<close>

definition flip_pick ::
    "float_env \<Rightarrow> (nat \<Rightarrow> real) \<Rightarrow> (nat \<Rightarrow> nat) \<Rightarrow> nat \<Rightarrow> nat list \<times> nat \<times> nat \<Rightarrow> nat
      \<Rightarrow> nat list \<times> nat \<times> nat" where
  "flip_pick fe rF rI toFlip st pos =
     (let (positions, pIdx, mIdx) = st; mIdx = mIdx + 1
      in if pIdx < toFlip then (positions[pIdx := pos], pIdx + 1, mIdx)
         else if rF mIdx < fe_f64 fe (real toFlip / real mIdx)
         then (positions[rI mIdx := pos], pIdx, mIdx)
         else (positions, pIdx, mIdx))"

definition flip_matches :: "bytes \<Rightarrow> u8 \<Rightarrow> nat list" where
  "flip_matches bs src =
     concat (map (\<lambda>i. map (\<lambda>j. 8 * i + 7 - j)
       (filter (\<lambda>j. (src = 0 \<and> bs ! i AND push_bit j 1 = 0) \<or> (src = 1 \<and> bs ! i AND push_bit j 1 \<noteq> 0))
         (rev [0..<8]))) [0..<length bs])"

fun xorBits :: "bytes \<Rightarrow> nat list \<Rightarrow> bytes result" where
  "xorBits bs [] = Inr bs"
| "xorBits bs (pos # ps) = (case xorBit bs pos of Inl e \<Rightarrow> Inl e | Inr bs \<Rightarrow> xorBits bs ps)"

definition FlipBits ::
    "float_env \<Rightarrow> (nat \<Rightarrow> real) \<Rightarrow> (nat \<Rightarrow> nat) \<Rightarrow> bytes \<Rightarrow> u8 \<Rightarrow> real \<Rightarrow> bytes result" where
  "FlipBits fe rF rI bs src ratio =
     (if src \<noteq> 0 \<and> src \<noteq> 1 then Inl (Panic ''FlipBits() has invalid input: src'')
      else if ratio < 0 \<or> ratio > 1 then Inl (Panic ''FlipBits() has invalid input: ratio'')
      else if bs = [] then Inr bs
      else
        let (count0, count1) = countBits bs;
            keep = trunc_real (fe_f64 fe (of_int (count0 + count1) * ratio));
            toFlip = (if src = 0 then count0 - keep else count1 - keep)
        in if toFlip \<le> 0 then Inr bs
           else
             let n = nat toFlip;
                 (positions, _, _) = foldl (flip_pick fe rF rI n) (replicate n 0, 0, 0)
                                       (flip_matches bs src)
             in xorBits bs positions)"

section \<open>Random numbers\<close>

definition scaleDown :: "float_env \<Rightarrow> real \<Rightarrow> real" where
  "scaleDown fe base = fe_f64 fe (sqrt (fe_f64 fe (fe_f64 fe (base * base) * base)))"

text \<open>\<open>r\<close> is the draw of \<open>mrand.Intn(n+1)\<close> and \<open>base\<close> the draw of \<open>mrand.Float64\<close>.\<close>

definition Intn :: "float_env \<Rightarrow> int \<times> real \<Rightarrow> int \<Rightarrow> int result" where
  "Intn fe draw n =
     (if n + 1 \<le> 0 then Inl (Panic ''invalid argument to Intn'')
      else Inr (trunc_real (fe_f64 fe (fe_f64 fe (of_int (fst draw)) * scaleDown fe (snd draw)))))"

definition IntRange :: "float_env \<Rightarrow> int \<times> real \<Rightarrow> int \<Rightarrow> int \<Rightarrow> int result" where
  "IntRange fe draw m n = (case Intn fe draw (n - m) of Inl e \<Rightarrow> Inl e | Inr k \<Rightarrow> Inr (m + k))"

definition Int63n :: "float_env \<Rightarrow> int \<times> real \<Rightarrow> int \<Rightarrow> int result" where
  "Int63n fe draw n =
     (if n + 1 \<le> 0 then Inl (Panic ''invalid argument to Int63n'')
      else Inr (trunc_real (fe_f64 fe (fe_f64 fe (of_int (fst draw)) * scaleDown fe (snd draw)))))"

definition IntRange64 :: "float_env \<Rightarrow> int \<times> real \<Rightarrow> int \<Rightarrow> int \<Rightarrow> int result" where
  "IntRange64 fe draw m n = (case Int63n fe draw (n - m) of Inl e \<Rightarrow> Inl e | Inr k \<Rightarrow> Inr (m + k))"

text \<open>The result is the pair of seconds and nanoseconds given to \<open>time.Unix\<close>.\<close>

definition RandTime :: "float_env \<Rightarrow> int \<times> real \<Rightarrow> int \<Rightarrow> int \<Rightarrow> (int \<times> int) result" where
  "RandTime fe draw beginNano endNano =
     (case IntRange64 fe draw beginNano endNano of
        Inl e \<Rightarrow> Inl e
      | Inr randNano \<Rightarrow> Inr (go_quot randNano 1000000000, go_rem randNano 1000000000))"

text \<open>
  \<open>FixedInt\<close> and \<open>FixedIntV\<close>: an integer from the SHA-256 digest of the hint. The caches of the
  source only remember the value computed for a hint. The version string and the host name are
  arguments.
\<close>

definition fixed_of_digest :: "bytes \<Rightarrow> int" where
  "fixed_of_digest b = uint (get_uint32 (b ! 0 AND 0x7F) (b ! 1) (b ! 2) (b ! 3))"

definition FixedInt :: "int \<Rightarrow> string \<Rightarrow> int" where
  "FixedInt n hint =
     (if n \<le> 0 then 0 else go_rem (fixed_of_digest (Sum256 (string_bytes hint))) n)"

definition FixedIntV :: "string \<Rightarrow> int \<Rightarrow> string \<Rightarrow> int" where
  "FixedIntV appVersion n hint =
     (if n \<le> 0 then 0
      else go_rem (fixed_of_digest (Sum256 (string_bytes (hint @ '' '' @ appVersion)))) n)"

definition FixedIntVH :: "string \<Rightarrow> string \<Rightarrow> int \<Rightarrow> int" where
  "FixedIntVH appVersion hostName n = FixedIntV appVersion n hostName"

section \<open>Lemmas\<close>

lemma toPrintable_printable: "r < 95 \<Longrightarrow> is_printable (toPrintable r c)"
proof -
  assume "r < 95"
  then have "unat (of_nat r + 0x20 :: u8) = r + 32"
    by (simp add: unat_word_ariths unat_of_nat)
  with \<open>r < 95\<close> show ?thesis
    by (auto simp: toPrintable_def is_printable_def PrintableCharSub_def PrintableCharSup_def
        Let_def word_le_nat_alt word_less_nat_alt)
qed

lemma toPrintable_id [simp]: "is_printable c \<Longrightarrow> toPrintable r c = c"
  by (auto simp: toPrintable_def is_printable_def)

lemma rewrite_range_Inr:
  assumes "rewrite_range f b beginIdx endIdx = Inr b'"
  shows "length b' = length b"
    and "i < length b \<Longrightarrow> b' ! i = (if beginIdx \<le> int i \<and> int i < endIdx then f i (b ! i) else b ! i)"
  using assms by (auto simp: rewrite_range_def split: if_splits)

lemma rewrite_range_total:
  "0 \<le> beginIdx \<Longrightarrow> beginIdx \<le> endIdx \<Longrightarrow> endIdx \<le> int (length b)
    \<Longrightarrow> \<exists>b'. rewrite_range f b beginIdx endIdx = Inr b'"
  by (simp add: rewrite_range_def)

text \<open>What the scan with its two counters computes, in terms of printable sublists.\<close>

lemma ex_prefix_Cons:
  "(\<exists>p. prefix p (x # cs) \<and> list_all P p \<and> k \<le> c + length p) \<longleftrightarrow>
     k \<le> c \<or> (P x \<and> (\<exists>p. prefix p cs \<and> list_all P p \<and> k \<le> Suc c + length p))"
proof
  assume "\<exists>p. prefix p (x # cs) \<and> list_all P p \<and> k \<le> c + length p"
  then show "k \<le> c \<or> (P x \<and> (\<exists>p. prefix p cs \<and> list_all P p \<and> k \<le> Suc c + length p))"
    by (auto simp: prefix_Cons)
next
  assume "k \<le> c \<or> (P x \<and> (\<exists>p. prefix p cs \<and> list_all P p \<and> k \<le> Suc c + length p))"
  then show "\<exists>p. prefix p (x # cs) \<and> list_all P p \<and> k \<le> c + length p"
  proof (elim disjE conjE exE)
    assume "k \<le> c"
    then show ?thesis by (intro exI [of _ "[]"]) simp
  next
    fix p assume "P x" "prefix p cs" "list_all P p" "k \<le> Suc c + length p"
    then show ?thesis by (intro exI [of _ "x # p"]) simp
  qed
qed

lemma ex_sublist_Cons:
  "(\<exists>xs. sublist xs (x # cs) \<and> list_all P xs \<and> k \<le> length xs) \<longleftrightarrow>
     (\<exists>p. prefix p (x # cs) \<and> list_all P p \<and> k \<le> 0 + length p)
     \<or> (\<exists>xs. sublist xs cs \<and> list_all P xs \<and> k \<le> length xs)"
  by (auto simp: sublist_Cons_right simp del: prefix_Cons)

lemma maxConsecutive_le_iff:
  "c \<le> m \<Longrightarrow> k \<le> maxConsecutive cs m c \<longleftrightarrow>
     k \<le> m \<or> (\<exists>p. prefix p cs \<and> list_all is_printable p \<and> k \<le> c + length p)
     \<or> (\<exists>xs. sublist xs cs \<and> list_all is_printable xs \<and> k \<le> length xs)"
proof (induction cs arbitrary: m c)
  case (Cons x cs)
  let ?run = "\<lambda>c. \<exists>p. prefix p cs \<and> list_all is_printable p \<and> k \<le> c + length p"
  have weaken: "?run (Suc 0) \<Longrightarrow> ?run (Suc c)" "k \<le> Suc c \<Longrightarrow> ?run (Suc c)"
    by (force, intro exI [of _ "[]"], simp)
  show ?case
  proof (cases "is_printable x")
    case True
    let ?m = "if Suc c > m then Suc c else m"
    have "k \<le> maxConsecutive (x # cs) m c \<longleftrightarrow> k \<le> maxConsecutive cs ?m (Suc c)"
      using True by (simp add: is_printable_def)
    also have "\<dots> \<longleftrightarrow> k \<le> ?m \<or> ?run (Suc c)
        \<or> (\<exists>xs. sublist xs cs \<and> list_all is_printable xs \<and> k \<le> length xs)"
      by (rule Cons.IH) simp
    finally show ?thesis
      unfolding ex_sublist_Cons ex_prefix_Cons using True Cons.prems weaken by auto
  next
    case False
    then have "k \<le> maxConsecutive (x # cs) m c \<longleftrightarrow> k \<le> maxConsecutive cs m 0"
      by (auto simp: is_printable_def)
    also have "\<dots> \<longleftrightarrow> k \<le> m
        \<or> (\<exists>xs. sublist xs cs \<and> list_all is_printable xs \<and> k \<le> length xs)"
      unfolding Cons.IH [OF le0] by (auto intro: prefix_imp_sublist)
    finally show ?thesis
      unfolding ex_sublist_Cons ex_prefix_Cons using False Cons.prems by auto
  qed
qed auto

lemma MaxConsecutive_le_iff:
  "k \<le> MaxConsecutivePrintableLength b \<longleftrightarrow>
     (\<exists>xs. sublist xs b \<and> list_all is_printable xs \<and> k \<le> length xs)"
proof -
  have "k = 0 \<Longrightarrow> \<exists>xs. sublist xs b \<and> list_all is_printable xs \<and> k \<le> length xs"
    by (intro exI [of _ "[]"]) simp
  then show ?thesis
    unfolding MaxConsecutivePrintableLength_def
    by (subst maxConsecutive_le_iff) (auto intro: prefix_imp_sublist)
qed

text \<open>
  A scaled draw: \<open>mrand.Float64\<close> is a multiple of \<open>2 ^ -53\<close> below 1, so the scale is below 1 after
  all roundings and the result of \<open>Intn(n)\<close> is below \<open>n\<close> (or 0).
\<close>

definition intn_draw :: "int \<Rightarrow> int \<times> real \<Rightarrow> bool" where
  "intn_draw n draw \<longleftrightarrow> 0 \<le> fst draw \<and> fst draw \<le> n \<and> 0 \<le> snd draw \<and> snd draw \<le> 1 - 1 / 2 ^ 53"

lemma float_unit:
  "float_env_ok fe \<Longrightarrow> 0 \<le> x \<Longrightarrow> x \<le> 1 - 1 / 2 ^ 53 \<Longrightarrow> 0 \<le> fe_f64 fe x \<and> fe_f64 fe x \<le> 1 - 1 / 2 ^ 53"
  using float_mono [of fe 0 x] float_mono [of fe x "1 - 1 / 2 ^ 53"] float_exact_int [of fe 0]
    float_exact_pred_one [of fe] by simp

lemma mult_below: "0 \<le> x \<Longrightarrow> x \<le> c \<Longrightarrow> 0 \<le> y \<Longrightarrow> y \<le> c \<Longrightarrow> c \<le> 1 \<Longrightarrow> x * y \<le> c" for x y c :: real
  using mult_mono [of x c y 1] by simp

lemma float_sqrt_below_one:
  assumes fe: "float_env_ok fe" and z: "0 \<le> z" "z \<le> 1 - 1 / 2 ^ 53"
  shows "fe_f64 fe (sqrt z) \<le> 1 - 1 / 2 ^ 53"
proof -
  define u :: real where "u = 1 / 2 ^ 53"
  have u: "0 < u" "u < 1" by (simp_all add: u_def)
  have "sqrt z \<le> sqrt (1 - u)" using z by (simp add: u_def)
  moreover have w: "sqrt (1 - u) < 1 - u / 2"
    using u by (intro real_less_lsqrt) (simp_all add: power2_eq_square algebra_simps)
  moreover have "1 - u \<le> sqrt (1 - u)"
    using u by (intro real_le_rsqrt) (simp_all add: power2_eq_square algebra_simps)
  moreover have "\<bar>fe_f64 fe (sqrt (1 - u)) - sqrt (1 - u)\<bar> \<le> \<bar>1 - u - sqrt (1 - u)\<bar>"
    using float_nearest [OF fe, of "2 ^ 53 - 1" 53 "sqrt (1 - u)"]
    by (simp add: diff_divide_distrib u_def)
  ultimately have "fe_f64 fe (sqrt (1 - u)) < 1" by linarith
  then have "fe_f64 fe (sqrt z) < 1" using float_mono [OF fe \<open>sqrt z \<le> sqrt (1 - u)\<close>] by linarith
  then show ?thesis by (rule float_below_one [OF fe])
qed

lemma scaleDown_below_one:
  assumes "float_env_ok fe" "0 \<le> base" "base \<le> 1 - 1 / 2 ^ 53"
  shows "0 \<le> scaleDown fe base \<and> scaleDown fe base \<le> 1 - 1 / 2 ^ 53"
proof -
  let ?c = "1 - 1 / 2 ^ 53 :: real"
  have c: "?c \<le> 1" by simp
  have 1: "0 \<le> fe_f64 fe (base * base) \<and> fe_f64 fe (base * base) \<le> ?c"
    by (rule float_unit [OF assms(1) _ mult_below [OF assms(2,3) assms(2,3) c]])
       (simp add: assms(2))
  have 2: "0 \<le> fe_f64 fe (fe_f64 fe (base * base) * base) \<and> fe_f64 fe (fe_f64 fe (base * base) * base) \<le> ?c"
    by (rule float_unit [OF assms(1) _ mult_below [OF conjunct1 [OF 1] conjunct2 [OF 1] assms(2,3) c]])
       (simp add: assms(2) 1)
  have "0 \<le> fe_f64 fe (sqrt (fe_f64 fe (fe_f64 fe (base * base) * base)))"
    using float_mono [OF assms(1), of 0] float_exact_int [OF assms(1), of 0] 2 by simp
  with float_sqrt_below_one [OF assms(1)] 2 show ?thesis by (simp add: scaleDown_def)
qed

lemma Intn_range:
  assumes fe: "float_env_ok fe" and d: "intn_draw n draw" and n: "0 < n" "n \<le> 2 ^ 53"
  shows "\<exists>k. Intn fe draw n = Inr k \<and> 0 \<le> k \<and> k < n"
proof -
  let ?s = "scaleDown fe (snd draw)" and ?c = "1 - 1 / 2 ^ 53 :: real"
  have d': "0 \<le> fst draw" "fst draw \<le> n" and s: "0 \<le> ?s" "?s \<le> ?c"
    using d scaleDown_below_one [OF fe, of "snd draw"] by (auto simp: intn_draw_def)
  have e: "fe_f64 fe (of_int (fst draw)) = of_int (fst draw)"
    using d' n(2) by (intro float_exact_int [OF fe]) auto
  have "of_int (fst draw) * ?s \<le> of_int n * ?c" using d' s by (intro mult_mono) auto
  then have "fe_f64 fe (of_int (fst draw) * ?s) < of_int n" by (rule float_scaled_less [OF fe n])
  moreover have "0 \<le> fe_f64 fe (of_int (fst draw) * ?s)"
    using float_mono [OF fe, of 0 "of_int (fst draw) * ?s"] float_exact_int [OF fe, of 0] d' s by simp
  ultimately show ?thesis using e n by (simp add: Intn_def trunc_real_def floor_less_iff)
qed

text \<open>
  C40. \<open>FlipBits\<close> flips the mirrored bit: asked to clear the only set bit \<open>j\<close> of a byte, it leaves that
  bit alone and sets bit \<open>7 - j\<close> instead, because the position is counted from the most
  significant bit when it is recorded and from the least significant bit when it is flipped.
\<close>

theorem flip_bits_mirrored:
  assumes "float_env_ok fe" and "j < 8"
  shows "FlipBits fe rF rI [push_bit j 1] 1 0 = Inr [push_bit j 1 XOR push_bit (7 - j) 1]"
proof -
  have f0: "fe_f64 fe 0 = 0"
    using float_exact_int [OF assms(1), of 0] by simp
  have "j \<in> {0, 1, 2, 3, 4, 5, 6, 7}" using assms(2) by auto
  then show ?thesis
    by (elim insertE emptyE)
       (simp_all add: FlipBits_def countBits_def flip_matches_def flip_pick_def xorBit_def
         trunc_real_def f0 upt_rec)
qed

theorem flip_bits_mirrored_witness:
  "FlipBits some_env (\<lambda>_. 0) (\<lambda>_. 0) [0x80] 1 0 = Inr [0x81]"
  using flip_bits_mirrored [OF some_env_ok, of 7 "\<lambda>_. 0" "\<lambda>_. 0"] by simp

end
