(* ===== verification/Channel.thy ===== *)
theory Channel
  imports Prelude
begin

text \<open>
  The interface of a channel: a sender that turns messages into frames and a receiver that turns
  frames back into what it understands of the messages, each with its own state. The law is about
  one message; the locale derives that whole sequences arrive. The block cipher and the stream
  underlay are channels, and so is the tunnel that carries datagrams inside a stream.
\<close>

text \<open>A loop that threads a state through a list and stops at the first error.\<close>

fun run_all :: "('s \<Rightarrow> 'a \<Rightarrow> 's \<times> 'b result) \<Rightarrow> 's \<Rightarrow> 'a list \<Rightarrow> 's \<times> 'b list result" where
  "run_all f s [] = (s, Inr [])"
| "run_all f s (x # xs) =
     (case f s x of
        (s, Inl e) \<Rightarrow> (s, Inl e)
      | (s, Inr y) \<Rightarrow>
          (case run_all f s xs of
             (s, Inl e) \<Rightarrow> (s, Inl e)
           | (s, Inr ys) \<Rightarrow> (s, Inr (y # ys))))"

lemma run_all_append:
  "run_all f s xs = (s', Inr ys) \<Longrightarrow> run_all f s' xs' = (s'', Inr ys')
    \<Longrightarrow> run_all f s (xs @ xs') = (s'', Inr (ys @ ys'))"
  by (induction xs arbitrary: s ys) (auto split: prod.splits sum.splits)

lemma run_all_length: "run_all f s xs = (s', Inr ys) \<Longrightarrow> length ys = length xs"
  by (induction xs arbitrary: s ys) (auto split: prod.splits sum.splits)

locale channel =
  fixes send :: "'s \<Rightarrow> 'd \<times> 'm \<Rightarrow> 's \<times> 'c result"
    and recv :: "'r \<Rightarrow> 'c \<Rightarrow> 'r \<times> 'n result"
    and sync :: "'s \<Rightarrow> 'r \<Rightarrow> bool"
    and sendable :: "'d \<times> 'm \<Rightarrow> bool"
    and view :: "'m \<Rightarrow> 'n"
  assumes message:
    "sync s r \<Longrightarrow> sendable x \<Longrightarrow>
       \<exists>s' r' c. send s x = (s', Inr c) \<and> recv r c = (r', Inr (view (snd x))) \<and> sync s' r'"
begin

lemma messages:
  "sync s r \<Longrightarrow> list_all sendable xs \<Longrightarrow>
     \<exists>s' r' cs. run_all send s xs = (s', Inr cs)
       \<and> run_all recv r cs = (r', Inr (map (view \<circ> snd) xs)) \<and> sync s' r'"
proof (induction xs arbitrary: s r)
  case (Cons x xs)
  then obtain s1 r1 c where 1: "send s x = (s1, Inr c)" "recv r c = (r1, Inr (view (snd x)))"
      "sync s1 r1"
    using message [of s r x] by auto
  moreover obtain s2 r2 cs where "run_all send s1 xs = (s2, Inr cs)"
      "run_all recv r1 cs = (r2, Inr (map (view \<circ> snd) xs))" "sync s2 r2"
    using Cons.IH [OF 1(3)] Cons.prems by auto
  ultimately show ?case by (intro exI [of _ s2] exI [of _ r2] exI [of _ "c # cs"]) simp
qed simp

end

end
