(* ===== verification/Cipher.thy ===== *)
theory Cipher
  imports Bits Channel
begin

text \<open>
  Package \<open>src/pkg/cipher\<close>: the authenticated block cipher with its explicit and implicit nonce
  modes, nonce patterns and user hints (\<open>cipher.go\<close>), key derivation (\<open>keygen.go\<close>), the cache of
  cipher lists (\<open>cache.go\<close>) and decryption with candidate keys (\<open>api.go\<close>).

  The AEAD algorithm (\<open>golang.org/x/crypto/chacha20poly1305\<close>) and the key derivation function
  (\<open>golang.org/x/crypto/pbkdf2\<close>) are arguments. Random bytes, random integers and clock readings
  are arguments too. Times are nanoseconds since the Unix epoch.
\<close>

section \<open>The AEAD algorithm\<close>

record aead =
  ae_NonceSize :: nat
  ae_Overhead :: nat
  ae_Seal :: "bytes \<Rightarrow> bytes \<Rightarrow> bytes \<Rightarrow> bytes"         \<comment> \<open>key, nonce, plaintext\<close>
  ae_Open :: "bytes \<Rightarrow> bytes \<Rightarrow> bytes \<Rightarrow> bytes option"  \<comment> \<open>key, nonce, ciphertext\<close>

text \<open>The documented contract of XChaCha20-Poly1305.\<close>

definition aead_ok :: "aead \<Rightarrow> bool" where
  "aead_ok ae \<longleftrightarrow> ae_NonceSize ae = 24 \<and> ae_Overhead ae = 16
     \<and> (\<forall>k n p. length k = 32 \<and> length n = 24 \<longrightarrow>
          ae_Open ae k n (ae_Seal ae k n p) = Some p
          \<and> length (ae_Seal ae k n p) = length p + 16)"

text \<open>Authenticity among a set of keys: what one key sealed, no other key opens.\<close>

definition authentic :: "aead \<Rightarrow> bytes set \<Rightarrow> bool" where
  "authentic ae K \<longleftrightarrow> (\<forall>k\<in>K. \<forall>k'\<in>K. \<forall>n p. k \<noteq> k' \<longrightarrow> ae_Open ae k' n (ae_Seal ae k n p) = None)"

definition DefaultNonceSize :: nat where "DefaultNonceSize = 24"
definition DefaultOverhead :: nat where "DefaultOverhead = 16"
definition DefaultKeyLen :: nat where "DefaultKeyLen = 32"
definition noncePrefixLenForUserHint :: nat where "noncePrefixLenForUserHint = 16"
definition nonceSuffixLenForUserHint :: nat where "nonceSuffixLenForUserHint = 4"

lemmas cipher_consts =
  DefaultNonceSize_def DefaultOverhead_def DefaultKeyLen_def
  noncePrefixLenForUserHint_def nonceSuffixLenForUserHint_def

section \<open>The block cipher\<close>

datatype AEADType = AES128GCM | AES256GCM | ChaCha20Poly1305 | XChaCha20Poly1305

datatype nonceType =
    NONCE_TYPE_RANDOM | NONCE_TYPE_PRINTABLE | NONCE_TYPE_PRINTABLE_SUBSET | NONCE_TYPE_FIXED

record noncePattern =
  np_type :: nonceType
  np_applyToAllUDPPacket :: bool
  np_minLen :: int
  np_maxLen :: int
  np_customHexStrings :: "string list"

text \<open>\<open>bc_implicitNonce\<close> is empty where the source has a nil or empty slice.\<close>

record aeadBlockCipher =
  bc_aeadType :: AEADType
  bc_enableImplicitNonce :: bool
  bc_key :: bytes
  bc_implicitNonce :: bytes
  bc_userName :: string
  bc_noncePattern :: "noncePattern option"
  bc_noncePatternApplied :: bool

text \<open>
  The random draws of one encryption: the bytes of \<open>crand.Read\<close>, the rewrite length drawn by
  \<open>mrand.Intn\<close>, the printable characters, and the index of the custom prefix.
\<close>

record nonce_draws =
  nd_read :: "bytes result"
  nd_len :: int
  nd_print :: "nat \<Rightarrow> nat"
  nd_idx :: nat

definition newXChaCha20Poly1305BlockCipher :: "bytes \<Rightarrow> aeadBlockCipher result" where
  "newXChaCha20Poly1305BlockCipher key =
     (if length key \<noteq> 32 then Inl (Errorf ''XChaCha20-Poly1305 key length is not 32 bytes'')
      else Inr \<lparr>bc_aeadType = XChaCha20Poly1305, bc_enableImplicitNonce = False, bc_key = key,
        bc_implicitNonce = [], bc_userName = [], bc_noncePattern = None,
        bc_noncePatternApplied = False\<rparr>)"

text \<open>\<open>hex.DecodeString\<close> of the Go library.\<close>

definition hex_digit :: "char \<Rightarrow> u8 option" where
  "hex_digit c =
     (let n = of_char c :: nat
      in if 48 \<le> n \<and> n \<le> 57 then Some (of_nat (n - 48))
         else if 97 \<le> n \<and> n \<le> 102 then Some (of_nat (n - 87))
         else if 65 \<le> n \<and> n \<le> 70 then Some (of_nat (n - 55))
         else None)"

fun hex_decode :: "string \<Rightarrow> bytes option" where
  "hex_decode [] = Some []"
| "hex_decode [c] = None"
| "hex_decode (c # d # s) =
     (case (hex_digit c, hex_digit d, hex_decode s) of
        (Some a, Some b, Some bs) \<Rightarrow> Some ((16 * a + b) # bs)
      | _ \<Rightarrow> None)"

definition nonceRewriteLen :: "aead \<Rightarrow> nonce_draws \<Rightarrow> noncePattern \<Rightarrow> int" where
  "nonceRewriteLen ae d p =
     (let minLen = np_minLen p;
          maxLen = np_maxLen p;
          maxLen = (if maxLen > int (ae_NonceSize ae) then int (ae_NonceSize ae) else maxLen);
          minLen = (if minLen > maxLen then maxLen else minLen)
      in if minLen = maxLen then minLen else minLen + nd_len d)"

text \<open>The switch over the pattern types in \<open>newNonce\<close>.\<close>

definition applyNoncePattern :: "aead \<Rightarrow> nonce_draws \<Rightarrow> noncePattern \<Rightarrow> bytes \<Rightarrow> bytes result" where
  "applyNoncePattern ae d p nonce =
     (case np_type p of
        NONCE_TYPE_RANDOM \<Rightarrow> Inr nonce
      | NONCE_TYPE_PRINTABLE \<Rightarrow> ToPrintableChar (nd_print d) nonce 0 (nonceRewriteLen ae d p)
      | NONCE_TYPE_PRINTABLE_SUBSET \<Rightarrow> ToCommon64Set nonce 0 (nonceRewriteLen ae d p)
      | NONCE_TYPE_FIXED \<Rightarrow>
          if np_customHexStrings p = [] then Inr nonce
          else (case hex_decode (np_customHexStrings p ! nd_idx d) of
                  Some pre \<Rightarrow> Inr (write_at 0 (take (ae_NonceSize ae) pre) nonce)
                | None \<Rightarrow> Inl (Panic ''fail to decode hex string'')))"

definition newNonce ::
    "aead \<Rightarrow> nonce_draws \<Rightarrow> aeadBlockCipher \<Rightarrow> aeadBlockCipher \<times> bytes result" where
  "newNonce ae d c =
     (case nd_read d of
        Inl e \<Rightarrow> (c, Inl e)
      | Inr nonce \<Rightarrow>
          (case bc_noncePattern c of
             None \<Rightarrow> (c, Inr nonce)
           | Some p \<Rightarrow>
               if \<not> bc_enableImplicitNonce c \<and> bc_noncePatternApplied c
                  \<and> \<not> np_applyToAllUDPPacket p
               then (c, Inr nonce)
               else (case applyNoncePattern ae d p nonce of
                       Inl e \<Rightarrow> (c, Inl e)
                     | Inr nonce \<Rightarrow> (c\<lparr>bc_noncePatternApplied := True\<rparr>, Inr nonce))))"

text \<open>The loop of \<open>increaseNonce\<close>, on the bytes from the last one to the first.\<close>

fun increase_le :: "bytes \<Rightarrow> bytes" where
  "increase_le [] = []"
| "increase_le (b # bs) = (if b + 1 \<noteq> 0 then (b + 1) # bs else (b + 1) # increase_le bs)"

definition increaseNonce :: "aeadBlockCipher \<Rightarrow> aeadBlockCipher result" where
  "increaseNonce c =
     (if \<not> bc_enableImplicitNonce c \<or> bc_implicitNonce c = []
      then Inl (Panic ''implicit nonce mode is not enabled'')
      else Inr (c\<lparr>bc_implicitNonce := rev (increase_le (rev (bc_implicitNonce c)))\<rparr>))"

definition addUserHintToNonce :: "aeadBlockCipher \<Rightarrow> bytes \<Rightarrow> bytes result" where
  "addUserHintToNonce c nonce =
     (if bc_userName c = [] then Inr nonce
      else if length nonce < noncePrefixLenForUserHint + nonceSuffixLenForUserHint
      then Inl (Panic ''nonce length is too short'')
      else
        let input = string_bytes (bc_userName c) @ take noncePrefixLenForUserHint nonce;
            output = Sum256 input
        in Inr (take (length nonce - nonceSuffixLenForUserHint) nonce
                @ take nonceSuffixLenForUserHint output))"

definition Encrypt ::
    "aead \<Rightarrow> nonce_draws \<Rightarrow> aeadBlockCipher \<Rightarrow> bytes \<Rightarrow> aeadBlockCipher \<times> bytes result" where
  "Encrypt ae d c plaintext =
     (if bc_enableImplicitNonce c \<and> bc_implicitNonce c \<noteq> []
      then (case increaseNonce c of
              Inl e \<Rightarrow> (c, Inl e)
            | Inr c \<Rightarrow> (c, Inr (ae_Seal ae (bc_key c) (bc_implicitNonce c) plaintext)))
      else
        (case newNonce ae d c of
           (c, Inl (Panic m)) \<Rightarrow> (c, Inl (Panic m))
         | (c, Inl e) \<Rightarrow> (c, Inl (Errorf ''newNonce() failed''))
         | (c, Inr nonce) \<Rightarrow>
             (case addUserHintToNonce c nonce of
                Inl e \<Rightarrow> (c, Inl e)
              | Inr nonce \<Rightarrow>
                  let c = (if bc_enableImplicitNonce c then c\<lparr>bc_implicitNonce := nonce\<rparr> else c);
                      dst = ae_Seal ae (bc_key c) nonce plaintext
                  in (c, Inr (nonce @ dst)))))"

definition EncryptWithNonce :: "aead \<Rightarrow> aeadBlockCipher \<Rightarrow> bytes \<Rightarrow> bytes \<Rightarrow> bytes result" where
  "EncryptWithNonce ae c plaintext nonce =
     (if bc_enableImplicitNonce c
      then Inl (Errorf ''EncryptWithNonce() is not supported when implicit nonce is enabled'')
      else if length nonce \<noteq> ae_NonceSize ae then Inl (Errorf ''want nonce size'')
      else Inr (ae_Seal ae (bc_key c) nonce plaintext))"

definition aead_open_result :: "aead \<Rightarrow> bytes \<Rightarrow> bytes \<Rightarrow> bytes \<Rightarrow> bytes result" where
  "aead_open_result ae key nonce ciphertext =
     (case ae_Open ae key nonce ciphertext of
        None \<Rightarrow> Inl (Errorf ''cipher.AEAD.Open() failed'')
      | Some plaintext \<Rightarrow> Inr plaintext)"

definition Decrypt :: "aead \<Rightarrow> aeadBlockCipher \<Rightarrow> bytes \<Rightarrow> aeadBlockCipher \<times> bytes result" where
  "Decrypt ae c ciphertext =
     (let ns = ae_NonceSize ae in
      if bc_enableImplicitNonce c
      then
        if bc_implicitNonce c = []
        then
          if length ciphertext < ns then (c, Inl (Errorf ''ciphertext is smaller than nonce size''))
          else
            let c = c\<lparr>bc_implicitNonce := take ns ciphertext\<rparr>
            in (c, aead_open_result ae (bc_key c) (bc_implicitNonce c) (drop ns ciphertext))
        else
          (case increaseNonce c of
             Inl e \<Rightarrow> (c, Inl e)
           | Inr c \<Rightarrow> (c, aead_open_result ae (bc_key c) (bc_implicitNonce c) ciphertext))
      else
        if length ciphertext < ns then (c, Inl (Errorf ''ciphertext is smaller than nonce size''))
        else (c, aead_open_result ae (bc_key c) (take ns ciphertext) (drop ns ciphertext)))"

definition DecryptWithNonce :: "aead \<Rightarrow> aeadBlockCipher \<Rightarrow> bytes \<Rightarrow> bytes \<Rightarrow> bytes result" where
  "DecryptWithNonce ae c ciphertext nonce =
     (if bc_enableImplicitNonce c
      then Inl (Errorf ''EncryptWithNonce() is not supported when implicit nonce is enabled'')
      else if length nonce \<noteq> ae_NonceSize ae then Inl (Errorf ''want nonce size'')
      else aead_open_result ae (bc_key c) nonce ciphertext)"

definition Clone :: "aeadBlockCipher \<Rightarrow> aeadBlockCipher result" where
  "Clone c =
     (if bc_aeadType c \<noteq> XChaCha20Poly1305 then Inl (Panic ''invalid AEAD type'')
      else (case newXChaCha20Poly1305BlockCipher (bc_key c) of
              Inl e \<Rightarrow> Inl (Panic ''newXChaCha20Poly1305BlockCipher() failed'')
            | Inr n \<Rightarrow> Inr (n\<lparr>bc_enableImplicitNonce := bc_enableImplicitNonce c,
                bc_implicitNonce := bc_implicitNonce c, bc_userName := bc_userName c,
                bc_noncePattern := bc_noncePattern c\<rparr>)))"

definition SetImplicitNonceMode :: "bool \<Rightarrow> aeadBlockCipher \<Rightarrow> aeadBlockCipher" where
  "SetImplicitNonceMode enable c =
     (let c = c\<lparr>bc_enableImplicitNonce := enable\<rparr>
      in if \<not> enable then c\<lparr>bc_implicitNonce := []\<rparr> else c)"

definition IsStateless :: "aeadBlockCipher \<Rightarrow> bool" where
  "IsStateless c \<longleftrightarrow> \<not> bc_enableImplicitNonce c"

definition SetBlockContext :: "string \<Rightarrow> aeadBlockCipher \<Rightarrow> aeadBlockCipher" where
  "SetBlockContext userName c = c\<lparr>bc_userName := userName\<rparr>"

definition SetNoncePattern :: "noncePattern option \<Rightarrow> aeadBlockCipher \<Rightarrow> aeadBlockCipher" where
  "SetNoncePattern pattern c = c\<lparr>bc_noncePattern := pattern\<rparr>"

section \<open>Keys\<close>

definition KeyIter :: nat where "KeyIter = 64"
definition KeyRefreshInterval :: int where "KeyRefreshInterval = 2 * 60 * 1000000000"

definition HashPassword :: "bytes \<Rightarrow> bytes \<Rightarrow> bytes" where
  "HashPassword rawPassword uniqueValue = Sum256 (rawPassword @ [0x00] @ uniqueValue)"

text \<open>\<open>kdf password salt iter keyLen\<close> is \<open>pbkdf2.Key\<close> with HMAC-SHA-256.\<close>

type_synonym kdf = "bytes \<Rightarrow> bytes \<Rightarrow> nat \<Rightarrow> nat \<Rightarrow> bytes"

definition kdf_ok :: "kdf \<Rightarrow> bool" where
  "kdf_ok kdf \<longleftrightarrow> (\<forall>password salt iter keyLen. length (kdf password salt iter keyLen) = keyLen)"

definition NewKey :: "kdf \<Rightarrow> bytes \<Rightarrow> bytes \<Rightarrow> nat \<Rightarrow> bytes result" where
  "NewKey kdf salt password keyLen =
     (if password = [] then Inl (Errorf ''password is empty'')
      else Inr (kdf password salt KeyIter keyLen))"

text \<open>\<open>Time.Round\<close>, halfway values up; the zero time of Go is a multiple of the interval used here.\<close>

definition time_Round :: "int \<Rightarrow> int \<Rightarrow> int" where
  "time_Round t d = (let r = t mod d in if r + r < d then t - r else t + (d - r))"

definition saltFromTime :: "int \<Rightarrow> bytes list" where
  "saltFromTime t =
     (let rounded = time_Round t KeyRefreshInterval;
          times = [rounded - KeyRefreshInterval, rounded, rounded + KeyRefreshInterval]
      in map (\<lambda>t. Sum256 (put_uint64 (of_int (t div 1000000000)))) times)"

fun newBlockCiphers :: "kdf \<Rightarrow> bytes \<Rightarrow> bool \<Rightarrow> bytes list \<Rightarrow> aeadBlockCipher list result" where
  "newBlockCiphers kdf password stateless [] = Inr []"
| "newBlockCiphers kdf password stateless (salt # salts) =
     (case NewKey kdf salt password DefaultKeyLen of
        Inl e \<Rightarrow> Inl (Errorf ''NewKey() failed'')
      | Inr cipherKey \<Rightarrow>
          (case newXChaCha20Poly1305BlockCipher cipherKey of
             Inl e \<Rightarrow> Inl (Errorf ''newXChaCha20Poly1305BlockCipher() failed'')
           | Inr c \<Rightarrow>
               let c = (if \<not> stateless then SetImplicitNonceMode True c else c)
               in (case newBlockCiphers kdf password stateless salts of
                     Inl e \<Rightarrow> Inl e
                   | Inr cs \<Rightarrow> Inr (c # cs))))"

definition newBlockCipherList ::
    "kdf \<Rightarrow> bytes \<Rightarrow> bool \<Rightarrow> int \<Rightarrow> (aeadBlockCipher list \<times> int) result" where
  "newBlockCipherList kdf password stateless now =
     (case newBlockCiphers kdf password stateless (saltFromTime now) of
        Inl e \<Rightarrow> Inl e
      | Inr cs \<Rightarrow> Inr (cs, now))"

section \<open>The cache of cipher lists\<close>

definition cacheValidInterval :: int where "cacheValidInterval = KeyRefreshInterval div 4"
definition cacheValidMaxJitterMs :: int where "cacheValidMaxJitterMs = 5000"

text \<open>\<open>blockCipherCache\<close>: for a password, the cipher list and the time it was made.\<close>

type_synonym cipher_cache = "bytes \<rightharpoonup> aeadBlockCipher list \<times> int"

fun map_result :: "('a \<Rightarrow> 'b result) \<Rightarrow> 'a list \<Rightarrow> 'b list result" where
  "map_result f [] = Inr []"
| "map_result f (x # xs) =
     (case f x of
        Inl e \<Rightarrow> Inl e
      | Inr y \<Rightarrow> (case map_result f xs of Inl e \<Rightarrow> Inl e | Inr ys \<Rightarrow> Inr (y # ys)))"

definition CloneBlockCiphers :: "aeadBlockCipher list \<Rightarrow> aeadBlockCipher list result" where
  "CloneBlockCiphers blocks = map_result Clone blocks"

text \<open>
  \<open>jitter\<close> is the draw of \<open>mrand.Intn(cacheValidMaxJitterMs)\<close>. A stateless caller gets the ciphers
  of the cache themselves, a stateful one gets copies in implicit nonce mode.
\<close>

definition getBlockCipherList ::
    "kdf \<Rightarrow> cipher_cache \<Rightarrow> int \<Rightarrow> int \<Rightarrow> bytes \<Rightarrow> bool
      \<Rightarrow> cipher_cache \<times> aeadBlockCipher list result" where
  "getBlockCipherList kdf cache jitter now password stateless =
     (let stateful = (\<lambda>cs. case CloneBlockCiphers cs of
              Inl e \<Rightarrow> Inl e
            | Inr blocks \<Rightarrow> Inr (map (SetImplicitNonceMode True) blocks));
          finish = (\<lambda>cs. if stateless then Inr cs else stateful cs);
          cached = (case cache password of
              None \<Rightarrow> None
            | Some (cs, createTime) \<Rightarrow>
                if createTime + (cacheValidInterval - jitter * 1000000) < now then None else Some cs)
      in (case cached of
            Some cs \<Rightarrow> (cache, finish cs)
          | None \<Rightarrow>
              (case newBlockCipherList kdf password True now of
                 Inl e \<Rightarrow> (cache, Inl (Errorf ''newBlockCipherList() failed''))
               | Inr (cs, t) \<Rightarrow> (cache(password \<mapsto> (cs, t)), finish cs))))"

definition BlockCipherFromPassword ::
    "kdf \<Rightarrow> cipher_cache \<Rightarrow> int \<Rightarrow> int \<Rightarrow> bytes \<Rightarrow> bool
      \<Rightarrow> cipher_cache \<times> aeadBlockCipher result" where
  "BlockCipherFromPassword kdf cache jitter now password stateless =
     (case getBlockCipherList kdf cache jitter now password stateless of
        (cache, Inl e) \<Rightarrow> (cache, Inl e)
      | (cache, Inr cs) \<Rightarrow> (cache, Inr (cs ! 1)))"

text \<open>
  \<open>SelectDecrypt\<close> returns the ciphers after the attempts (a stateful cipher keeps the nonce of a
  failed attempt), and the first cipher that succeeds with what it decrypted.
\<close>

fun SelectDecrypt ::
    "aead \<Rightarrow> bytes \<Rightarrow> aeadBlockCipher list \<Rightarrow> aeadBlockCipher list \<times> (aeadBlockCipher \<times> bytes) result" where
  "SelectDecrypt ae data [] = ([], Inl (Errorf ''unable to decrypt from supplied cipher blocks''))"
| "SelectDecrypt ae data (block # blocks) =
     (case Decrypt ae block data of
        (block, Inr decrypted) \<Rightarrow> (block # blocks, Inr (block, decrypted))
      | (block, Inl e) \<Rightarrow>
          (case SelectDecrypt ae data blocks of (blocks, r) \<Rightarrow> (block # blocks, r)))"

definition TryDecrypt ::
    "aead \<Rightarrow> kdf \<Rightarrow> cipher_cache \<Rightarrow> int \<Rightarrow> int \<Rightarrow> bytes \<Rightarrow> bytes \<Rightarrow> bool
      \<Rightarrow> cipher_cache \<times> (aeadBlockCipher \<times> bytes) result" where
  "TryDecrypt ae kdf cache jitter now data password stateless =
     (case getBlockCipherList kdf cache jitter now password stateless of
        (cache, Inl e) \<Rightarrow> (cache, Inl (Errorf ''BlockCipherListFromPassword() failed''))
      | (cache, Inr blocks) \<Rightarrow> (cache, snd (SelectDecrypt ae data blocks)))"

definition CheckUserFromHint :: "bytes \<Rightarrow> bytes \<Rightarrow> bool result" where
  "CheckUserFromHint user nonce =
     (if user = [] then Inl (Panic ''user is empty'')
      else if length nonce < noncePrefixLenForUserHint + nonceSuffixLenForUserHint
      then Inl (Panic ''nonce length is too short'')
      else
        let input = user @ take noncePrefixLenForUserHint nonce;
            output = Sum256 input
        in Inr (take nonceSuffixLenForUserHint output
                = drop (length nonce - nonceSuffixLenForUserHint) nonce))"

section \<open>Nonces\<close>

text \<open>Validated patterns and draws within the documented ranges of the random functions.\<close>

definition pattern_ok :: "noncePattern \<Rightarrow> bool" where
  "pattern_ok p \<longleftrightarrow> 0 \<le> np_minLen p \<and> 0 \<le> np_maxLen p
     \<and> list_all (\<lambda>h. hex_decode h \<noteq> None) (np_customHexStrings p)"

definition cipher_ok :: "aeadBlockCipher \<Rightarrow> bool" where
  "cipher_ok c \<longleftrightarrow> length (bc_key c) = 32 \<and> length (bc_implicitNonce c) \<in> {0, 24}
     \<and> (\<forall>p. bc_noncePattern c = Some p \<longrightarrow> pattern_ok p)"

definition draws_ok :: "noncePattern option \<Rightarrow> nonce_draws \<Rightarrow> bool" where
  "draws_ok pat d \<longleftrightarrow> (\<exists>n. nd_read d = Inr n \<and> length n = 24)
     \<and> (\<forall>p. pat = Some p \<longrightarrow> 0 \<le> nd_len d \<and> nd_len d \<le> min 24 (np_maxLen p) - np_minLen p
          \<or> np_minLen p \<ge> min 24 (np_maxLen p))
     \<and> (\<forall>p. pat = Some p \<longrightarrow> np_customHexStrings p = []
          \<or> nd_idx d < length (np_customHexStrings p))"

lemma nonceRewriteLen_range:
  assumes "aead_ok ae" "pattern_ok p" "draws_ok (Some p) d"
  shows "0 \<le> nonceRewriteLen ae d p \<and> nonceRewriteLen ae d p \<le> 24"
  using assms by (auto simp: nonceRewriteLen_def aead_ok_def pattern_ok_def draws_ok_def Let_def min_def
      split: if_splits)

lemma applyNoncePattern_ok:
  assumes "aead_ok ae" "pattern_ok p" "draws_ok (Some p) d" "length n = 24"
  shows "\<exists>nonce. applyNoncePattern ae d p n = Inr nonce \<and> length nonce = 24"
proof -
  have range: "\<exists>b. rewrite_range f n 0 (nonceRewriteLen ae d p) = Inr b \<and> length b = 24" for f
    using rewrite_range_total [of 0 "nonceRewriteLen ae d p" n f]
      nonceRewriteLen_range [OF assms(1-3)] assms(4)
    by (auto simp: rewrite_range_Inr(1))
  have "np_customHexStrings p = []
      \<or> (\<exists>pre. hex_decode (np_customHexStrings p ! nd_idx d) = Some pre)"
    using assms by (auto simp: pattern_ok_def draws_ok_def list_all_length)
  then show ?thesis
    using range assms(4)
    by (auto simp: applyNoncePattern_def ToPrintableChar_def ToCommon64Set_def length_write_at
        split: nonceType.split)
qed

lemma newNonce_ok:
  assumes "aead_ok ae" "cipher_ok c" "draws_ok (bc_noncePattern c) d"
  shows "\<exists>a nonce. newNonce ae d c = (c\<lparr>bc_noncePatternApplied := a\<rparr>, Inr nonce) \<and> length nonce = 24"
proof -
  obtain n where n: "nd_read d = Inr n" "length n = 24"
    using assms(3) by (auto simp: draws_ok_def)
  show ?thesis
  proof (cases "bc_noncePattern c")
    case None
    with n show ?thesis
      by (intro exI [of _ "bc_noncePatternApplied c"] exI [of _ n]) (simp add: newNonce_def)
  next
    case (Some p)
    then obtain nonce where "applyNoncePattern ae d p n = Inr nonce" "length nonce = 24"
      using applyNoncePattern_ok [of ae p d n] assms n by (auto simp: cipher_ok_def)
    note ap = this
    show ?thesis
    proof (cases "\<not> bc_enableImplicitNonce c \<and> bc_noncePatternApplied c \<and> \<not> np_applyToAllUDPPacket p")
      case True
      with n Some show ?thesis
        by (intro exI [of _ "bc_noncePatternApplied c"] exI [of _ n]) (simp add: newNonce_def)
    next
      case False
      with n Some ap show ?thesis
        by (intro exI [of _ True] exI [of _ nonce]) (auto simp: newNonce_def)
    qed
  qed
qed

lemma addUserHintToNonce_ok:
  assumes "length nonce = 24"
  shows "\<exists>n. addUserHintToNonce c nonce = Inr n \<and> length n = 24
     \<and> (bc_userName c \<noteq> [] \<longrightarrow> CheckUserFromHint (string_bytes (bc_userName c)) n = Inr True)"
  using assms
  by (auto simp: addUserHintToNonce_def CheckUserFromHint_def cipher_consts Let_def string_bytes_def)

lemma Encrypt_explicit:
  assumes "aead_ok ae" "cipher_ok c" "draws_ok (bc_noncePattern c) d"
    and "\<not> (bc_enableImplicitNonce c \<and> bc_implicitNonce c \<noteq> [])"
  shows "\<exists>a n. Encrypt ae d c p =
      ((if bc_enableImplicitNonce c then c\<lparr>bc_noncePatternApplied := a, bc_implicitNonce := n\<rparr>
        else c\<lparr>bc_noncePatternApplied := a\<rparr>), Inr (n @ ae_Seal ae (bc_key c) n p))
    \<and> length n = 24
    \<and> (bc_userName c \<noteq> [] \<longrightarrow> CheckUserFromHint (string_bytes (bc_userName c)) n = Inr True)"
proof -
  obtain a m where m: "newNonce ae d c = (c\<lparr>bc_noncePatternApplied := a\<rparr>, Inr m)" "length m = 24"
    using newNonce_ok [OF assms(1-3)] by blast
  obtain n where "addUserHintToNonce (c\<lparr>bc_noncePatternApplied := a\<rparr>) m = Inr n" "length n = 24"
      "bc_userName c \<noteq> [] \<longrightarrow> CheckUserFromHint (string_bytes (bc_userName c)) n = Inr True"
    using addUserHintToNonce_ok [OF m(2), of "c\<lparr>bc_noncePatternApplied := a\<rparr>"] by auto
  with m assms(4) show ?thesis
    by (intro exI [of _ a] exI [of _ n]) (auto simp: Encrypt_def Let_def)
qed

text \<open>\<open>increaseNonce\<close> is the successor of a big-endian number, modulo its range.\<close>

fun le_value :: "bytes \<Rightarrow> nat" where
  "le_value [] = 0"
| "le_value (b # bs) = unat b + 256 * le_value bs"

definition nonce_value :: "bytes \<Rightarrow> nat" where
  "nonce_value n = le_value (rev n)"

lemma le_value_less: "le_value bs < 256 ^ length bs"
proof (induction bs)
  case (Cons b bs)
  have "unat b < 256" using unsigned_less [of b, where ?'a = nat] by simp
  with Cons show ?case by simp
qed simp

lemma length_increase_le [simp]: "length (increase_le bs) = length bs"
  by (induction bs) auto

lemma le_value_increase: "le_value (increase_le bs) = (le_value bs + 1) mod 256 ^ length bs"
proof (induction bs)
  case (Cons b bs)
  have b: "unat b < 256" using unsigned_less [of b, where ?'a = nat] by simp
  have u: "unat (b + 1) = (unat b + 1) mod 256" by (simp add: unat_word_ariths)
  show ?case
  proof (cases "b + 1 = 0")
    case True
    then have "unat (b + 1) = 0" by simp
    with u b have "unat b = 255" by (cases "unat b + 1 < 256") simp_all
    then have "le_value (b # bs) + 1 = 256 * (le_value bs + 1)" by simp
    with True Cons show ?thesis by (simp add: mult_mod_right)
  next
    case False
    then have "unat (b + 1) \<noteq> 0" by (simp add: unat_eq_0)
    with u b have u': "unat (b + 1) = unat b + 1 \<and> unat b + 1 < 256"
      by (cases "unat b = 255") (simp_all del: unat_eq_zero)
    then have "unat b + 1 + 256 * le_value bs < 256 ^ length (b # bs)"
      using le_value_less [of bs] by simp
    with False u' show ?thesis by simp
  qed
qed simp

lemma nonce_value_increase:
  "nonce_value (rev (increase_le (rev n))) = (nonce_value n + 1) mod 256 ^ length n"
  by (simp add: nonce_value_def le_value_increase)

lemma digit_unique:
  "x < b \<Longrightarrow> y < b \<Longrightarrow> x + b * m = y + b * n \<Longrightarrow> x = y \<and> m = n" for x y b m n :: nat
  by (metis add.commute div_less div_mult_self2 mod_less mod_mult_self2 add_0 less_nat_zero_code)

lemma le_value_inject: "length xs = length ys \<Longrightarrow> le_value xs = le_value ys \<Longrightarrow> xs = ys"
proof (induction xs ys rule: list_induct2)
  case (Cons x xs y ys)
  have "unat x < 256" "unat y < 256"
    using unsigned_less [of x, where ?'a = nat] unsigned_less [of y, where ?'a = nat] by simp_all
  with Cons.prems have "unat x = unat y" "le_value xs = le_value ys"
    using digit_unique [of "unat x" 256 "unat y"] by simp_all
  with Cons.IH show ?case by (simp add: word_unat_eq_iff)
qed simp

section \<open>The cipher as a channel\<close>

text \<open>
  Two ciphers in step: the same key and mode, and in implicit nonce mode the same nonce.
\<close>

definition cipher_sync :: "aead \<Rightarrow> noncePattern option \<Rightarrow> aeadBlockCipher \<Rightarrow> aeadBlockCipher \<Rightarrow> bool" where
  "cipher_sync ae pat s r \<longleftrightarrow> aead_ok ae \<and> cipher_ok s \<and> bc_noncePattern s = pat
     \<and> bc_key s = bc_key r \<and> bc_enableImplicitNonce s = bc_enableImplicitNonce r
     \<and> (bc_enableImplicitNonce s \<longrightarrow> bc_implicitNonce s = bc_implicitNonce r)"

definition Encrypt_step ::
    "aead \<Rightarrow> aeadBlockCipher \<Rightarrow> nonce_draws \<times> bytes \<Rightarrow> aeadBlockCipher \<times> bytes result" where
  "Encrypt_step ae c x = Encrypt ae (fst x) c (snd x)"

lemma aead_roundtrip:
  "aead_ok ae \<Longrightarrow> length k = 32 \<Longrightarrow> length n = 24 \<Longrightarrow> ae_Open ae k n (ae_Seal ae k n p) = Some p"
  by (simp add: aead_ok_def)

lemma length_Seal:
  "aead_ok ae \<Longrightarrow> length k = 32 \<Longrightarrow> length n = 24 \<Longrightarrow> length (ae_Seal ae k n p) = length p + 16"
  by (simp add: aead_ok_def)

lemma aead_sizes: "aead_ok ae \<Longrightarrow> ae_NonceSize ae = 24" "aead_ok ae \<Longrightarrow> ae_Overhead ae = 16"
  by (simp_all add: aead_ok_def)

lemma cipher_message:
  assumes "cipher_sync ae pat s r" and "draws_ok pat d"
  shows "\<exists>s' r' c. Encrypt ae d s p = (s', Inr c) \<and> Decrypt ae r c = (r', Inr p)
     \<and> cipher_sync ae pat s' r'
     \<and> length c = length p + (if bc_enableImplicitNonce s \<and> bc_implicitNonce s \<noteq> [] then 16 else 40)"
proof -
  have sync: "aead_ok ae" "cipher_ok s" "length (bc_key s) = 32" "bc_noncePattern s = pat"
    "bc_key r = bc_key s" "bc_enableImplicitNonce r = bc_enableImplicitNonce s"
    using assms(1) by (auto simp: cipher_sync_def cipher_ok_def)
  show ?thesis
  proof (cases "bc_enableImplicitNonce s \<and> bc_implicitNonce s \<noteq> []")
    case True
    let ?n = "rev (increase_le (rev (bc_implicitNonce s)))"
    have n: "length ?n = 24" "bc_implicitNonce r = bc_implicitNonce s"
      using True assms(1) by (auto simp: cipher_sync_def cipher_ok_def)
    have "Encrypt ae d s p = (s\<lparr>bc_implicitNonce := ?n\<rparr>, Inr (ae_Seal ae (bc_key s) ?n p))"
      using True by (simp add: Encrypt_def increaseNonce_def)
    moreover have "Decrypt ae r (ae_Seal ae (bc_key s) ?n p) = (r\<lparr>bc_implicitNonce := ?n\<rparr>, Inr p)"
      using True sync n
      by (simp add: Decrypt_def increaseNonce_def Let_def aead_open_result_def aead_roundtrip)
    ultimately show ?thesis
      using True sync n assms(1) by (auto simp: cipher_sync_def cipher_ok_def length_Seal)
  next
    case False
    then obtain a n where e: "Encrypt ae d s p =
        ((if bc_enableImplicitNonce s then s\<lparr>bc_noncePatternApplied := a, bc_implicitNonce := n\<rparr>
          else s\<lparr>bc_noncePatternApplied := a\<rparr>), Inr (n @ ae_Seal ae (bc_key s) n p))"
        "length n = 24"
      using Encrypt_explicit [of ae s d p] sync assms(2) by auto
    moreover have "Decrypt ae r (n @ ae_Seal ae (bc_key s) n p) =
        ((if bc_enableImplicitNonce s then r\<lparr>bc_implicitNonce := n\<rparr> else r), Inr p)"
      using False sync e(2) assms(1)
      by (auto simp: Decrypt_def Let_def aead_open_result_def aead_roundtrip aead_sizes cipher_sync_def)
    ultimately show ?thesis
      using False sync assms(1) by (auto simp: cipher_sync_def cipher_ok_def length_Seal)
  qed
qed

interpretation block_cipher: channel "Encrypt_step ae" "Decrypt ae" "cipher_sync ae pat"
    "\<lambda>x. draws_ok pat (fst x)" "\<lambda>p. p" for ae pat
proof
  fix s r :: aeadBlockCipher and x :: "nonce_draws \<times> bytes"
  assume "cipher_sync ae pat s r" "draws_ok pat (fst x)"
  from cipher_message [OF this, of "snd x"]
  show "\<exists>s' r' c. Encrypt_step ae s x = (s', Inr c) \<and> Decrypt ae r c = (r', Inr (snd x))
      \<and> cipher_sync ae pat s' r'"
    by (auto simp: Encrypt_step_def)
qed

section \<open>Keys, clocks and the cache\<close>

definition keys_at :: "kdf \<Rightarrow> bytes \<Rightarrow> int \<Rightarrow> bytes list" where
  "keys_at kdf password t = map (\<lambda>salt. kdf password salt KeyIter DefaultKeyLen) (saltFromTime t)"

definition stateless_cipher :: "aeadBlockCipher \<Rightarrow> bool" where
  "stateless_cipher c \<longleftrightarrow> cipher_ok c \<and> bc_aeadType c = XChaCha20Poly1305
     \<and> \<not> bc_enableImplicitNonce c \<and> bc_implicitNonce c = []"

definition fresh_cipher :: "bool \<Rightarrow> aeadBlockCipher \<Rightarrow> bool" where
  "fresh_cipher stateless c \<longleftrightarrow> cipher_ok c \<and> bc_aeadType c = XChaCha20Poly1305
     \<and> bc_enableImplicitNonce c = (\<not> stateless) \<and> bc_implicitNonce c = []"

text \<open>
  The cache at time \<open>now\<close>: every entry was made in the past, from the keys of that time, and holds
  stateless ciphers. (Their user name and nonce pattern may have been set since.)
\<close>

definition cache_ok :: "kdf \<Rightarrow> int \<Rightarrow> cipher_cache \<Rightarrow> bool" where
  "cache_ok kdf now cache \<longleftrightarrow>
     (\<forall>password cs t. cache password = Some (cs, t) \<longrightarrow>
        t \<le> now \<and> map bc_key cs = keys_at kdf password t \<and> list_all stateless_cipher cs)"

lemma newBlockCiphers_ok:
  assumes "kdf_ok kdf" "password \<noteq> []"
  shows "\<exists>cs. newBlockCiphers kdf password True salts = Inr cs
     \<and> map bc_key cs = map (\<lambda>salt. kdf password salt KeyIter DefaultKeyLen) salts
     \<and> list_all stateless_cipher cs"
proof (induction salts)
  case (Cons salt salts)
  have "length (kdf password salt KeyIter 32) = 32" using assms(1) by (simp add: kdf_ok_def)
  with Cons assms(2) show ?case
    by (auto simp: NewKey_def newXChaCha20Poly1305BlockCipher_def DefaultKeyLen_def
        stateless_cipher_def cipher_ok_def)
qed simp

lemma map_result_all:
  "list_all (\<lambda>x. f x = Inr (g x)) xs \<Longrightarrow> map_result f xs = Inr (map g xs)"
  by (induction xs) auto

lemma Clone_stateless:
  "stateless_cipher c \<Longrightarrow> Clone c = Inr (c\<lparr>bc_noncePatternApplied := False\<rparr>)"
  by (simp add: Clone_def newXChaCha20Poly1305BlockCipher_def stateless_cipher_def cipher_ok_def)

lemma CloneBlockCiphers_stateless:
  "list_all stateless_cipher cs \<Longrightarrow>
     CloneBlockCiphers cs = Inr (map (\<lambda>c. c\<lparr>bc_noncePatternApplied := False\<rparr>) cs)"
  unfolding CloneBlockCiphers_def
  by (rule map_result_all) (auto simp: list_all_iff Clone_stateless)

lemma getBlockCipherList_ok:
  assumes "kdf_ok kdf" "password \<noteq> []" "cache_ok kdf now cache" "0 \<le> jitter"
  shows "\<exists>cs t. getBlockCipherList kdf cache jitter now password stateless
       = (fst (getBlockCipherList kdf cache jitter now password stateless), Inr cs)
     \<and> t \<le> now \<and> now \<le> t + cacheValidInterval
     \<and> map bc_key cs = keys_at kdf password t \<and> list_all (fresh_cipher stateless) cs
     \<and> cache_ok kdf now (fst (getBlockCipherList kdf cache jitter now password stateless))"
proof -
  let ?clone = "map (\<lambda>c. c\<lparr>bc_noncePatternApplied := False\<rparr>) :: aeadBlockCipher list \<Rightarrow> _"
  define fin where "fin cs = (if stateless then cs
      else map (SetImplicitNonceMode True) (?clone cs))" for cs
  have fin: "map bc_key (fin cs) = map bc_key cs \<and> list_all (fresh_cipher stateless) (fin cs)"
    if "list_all stateless_cipher cs" for cs
    using that
    by (auto simp: fin_def list_all_iff fresh_cipher_def stateless_cipher_def SetImplicitNonceMode_def
        cipher_ok_def)
  obtain cs0 where cs0: "newBlockCipherList kdf password True now = Inr (cs0, now)"
      "map bc_key cs0 = keys_at kdf password now" "list_all stateless_cipher cs0"
    using newBlockCiphers_ok [OF assms(1,2), of "saltFromTime now"]
    by (auto simp: newBlockCipherList_def keys_at_def)
  have "0 \<le> cacheValidInterval" by (simp add: cacheValidInterval_def KeyRefreshInterval_def)
  note miss = fin [OF cs0(3)] cs0 CloneBlockCiphers_stateless [OF cs0(3)] this
  have new: "cache_ok kdf now (cache(password \<mapsto> (cs0, now)))"
    using assms(3) cs0 by (auto simp: cache_ok_def)
  show ?thesis
  proof (cases "\<exists>cs t. cache password = Some (cs, t)
      \<and> \<not> t + (cacheValidInterval - jitter * 1000000) < now")
    case True
    then obtain cs t where c: "cache password = Some (cs, t)"
        "\<not> t + (cacheValidInterval - jitter * 1000000) < now" by auto
    then have "t \<le> now" "map bc_key cs = keys_at kdf password t" "list_all stateless_cipher cs"
      using assms(3) by (auto simp: cache_ok_def)
    with c fin [of cs] CloneBlockCiphers_stateless [of cs] assms(3,4) show ?thesis
      by (intro exI [of _ "fin cs"] exI [of _ t])
         (auto simp: getBlockCipherList_def fin_def Let_def)
  next
    case False
    then have "(case cache password of None \<Rightarrow> None
        | Some (cs, createTime) \<Rightarrow>
            if createTime + (cacheValidInterval - jitter * 1000000) < now then None else Some cs) = None"
      by (auto split: option.split)
    with miss new show ?thesis
      by (intro exI [of _ "fin cs0"] exI [of _ now])
         (simp add: getBlockCipherList_def fin_def Let_def)
  qed
qed

text \<open>Rounded clocks at most one interval apart differ by at most one step.\<close>

lemma time_Round_eq:
  "0 < d \<Longrightarrow> even d \<Longrightarrow> time_Round t d = d * ((t + d div 2) div d)"
proof -
  assume d: "0 < d" "even d"
  obtain h where h: "d = 2 * h" using d by auto
  define q r where "q = t div d" and "r = t mod d"
  have t: "t = d * q + r" "0 \<le> r" "r < d" using d by (simp_all add: q_def r_def)
  have R: "time_Round t d = (if r + r < d then t - r else t + (d - r))"
    by (simp add: time_Round_def Let_def r_def)
  show ?thesis
  proof (cases "r + r < d")
    case True
    have "(t + d div 2) div d = q"
      by (rule int_div_pos_eq [where r = "r + h"]) (use t h True in simp_all)
    then show ?thesis unfolding R using True t(1) by simp
  next
    case False
    have "(t + d div 2) div d = q + 1"
      by (rule int_div_pos_eq [where r = "r + h - d"]) (use t h False in \<open>simp_all add: distrib_left\<close>)
    then show ?thesis unfolding R using False t(1) by (simp add: distrib_left)
  qed
qed

lemma div_le_Suc: "0 < d \<Longrightarrow> x \<le> y + d \<Longrightarrow> x div d \<le> y div d + 1" for d x y :: int
  using zdiv_mono1 [of x "y + d" d] by simp

lemma time_Round_close:
  assumes "\<bar>t - t'\<bar> \<le> KeyRefreshInterval"
  shows "time_Round t KeyRefreshInterval - time_Round t' KeyRefreshInterval
     \<in> {- KeyRefreshInterval, 0, KeyRefreshInterval}"
proof -
  let ?d = "KeyRefreshInterval"
  have d: "0 < ?d" "even ?d" by (simp_all add: KeyRefreshInterval_def)
  define q q' where "q = (t + ?d div 2) div ?d" and "q' = (t' + ?d div 2) div ?d"
  have "q \<le> q' + 1" "q' \<le> q + 1"
    unfolding q_def q'_def by (rule div_le_Suc; use assms d in linarith)+
  then have "q = q' - 1 \<or> q = q' \<or> q = q' + 1" by linarith
  moreover have "time_Round t ?d = ?d * q" "time_Round t' ?d = ?d * q'"
    using d by (simp_all add: time_Round_eq q_def q'_def)
  ultimately show ?thesis by (auto simp: right_diff_distrib distrib_left)
qed

lemma keys_overlap:
  assumes "\<bar>t - t'\<bar> \<le> KeyRefreshInterval"
  shows "keys_at kdf password t ! 1 \<in> set (keys_at kdf password t')"
proof -
  define a b where "a = time_Round t KeyRefreshInterval" and "b = time_Round t' KeyRefreshInterval"
  have "a \<in> {b - KeyRefreshInterval, b, b + KeyRefreshInterval}"
    using time_Round_close [OF assms] by (auto simp: a_def b_def)
  then show ?thesis by (auto simp: keys_at_def saltFromTime_def Let_def simp flip: a_def b_def)
qed

lemma SelectDecrypt_finds:
  assumes "aead_ok ae" "authentic ae K" "k \<in> K" "length k = 32" "length n = 24"
    and "list_all (fresh_cipher stateless) cs" "set (map bc_key cs) \<subseteq> K" "k \<in> set (map bc_key cs)"
  shows "\<exists>c. snd (SelectDecrypt ae (n @ ae_Seal ae k n p) cs) = Inr (c, p) \<and> bc_key c = k"
  using assms(6-)
proof (induction cs)
  case (Cons c cs)
  have d: "Decrypt ae c (n @ ae_Seal ae k n p)
      = ((if stateless then c else c\<lparr>bc_implicitNonce := n\<rparr>),
         aead_open_result ae (bc_key c) n (ae_Seal ae k n p))"
    using Cons.prems assms(1,5)
    by (auto simp: Decrypt_def fresh_cipher_def Let_def aead_sizes)
  show ?case
  proof (cases "bc_key c = k")
    case True
    then show ?thesis
      using assms(1,4,5) d by (simp add: aead_open_result_def aead_roundtrip)
  next
    case False
    then have "ae_Open ae (bc_key c) n (ae_Seal ae k n p) = None"
      using assms(2,3) Cons.prems by (auto simp: authentic_def)
    with False d Cons show ?thesis
      by (auto simp: aead_open_result_def split: prod.split)
  qed
qed simp

lemma SelectDecrypt_message:
  assumes "aead_ok ae" "authentic ae K" "k \<in> K" "length k = 32" "length n = 24"
    and "list_all (fresh_cipher True) cs" "set (map bc_key cs) \<subseteq> K"
    and "snd (SelectDecrypt ae (n @ ae_Seal ae k n p) cs) = Inr (c, q)"
  shows "q = p \<and> bc_key c = k \<and> fresh_cipher True c"
  using assms(6-)
proof (induction cs)
  case (Cons b cs)
  have d: "Decrypt ae b (n @ ae_Seal ae k n p) = (b, aead_open_result ae (bc_key b) n (ae_Seal ae k n p))"
    using Cons.prems(1) assms(1,5) by (auto simp: Decrypt_def fresh_cipher_def Let_def aead_sizes)
  show ?case
  proof (cases "bc_key b = k")
    case True
    with d Cons.prems assms(1,4,5) show ?thesis by (auto simp: aead_open_result_def aead_roundtrip)
  next
    case False
    then have "ae_Open ae (bc_key b) n (ae_Seal ae k n p) = None"
      using assms(2,3) Cons.prems(2) by (auto simp: authentic_def)
    with d Cons show ?thesis by (auto simp: aead_open_result_def split: prod.splits)
  qed
qed simp

lemma keys_at_subset: "set (keys_at kdf password t) \<subseteq> range (\<lambda>salt. kdf password salt KeyIter DefaultKeyLen)"
  by (auto simp: keys_at_def)

text \<open>What \<open>TryDecrypt\<close> does with a message that was sealed with a key of the set \<open>K\<close>.\<close>

lemma TryDecrypt_message:
  assumes "aead_ok ae" "kdf_ok kdf" "password \<noteq> []" "cache_ok kdf now cache" "0 \<le> jitter"
    and "authentic ae K" "range (\<lambda>salt. kdf password salt KeyIter DefaultKeyLen) \<subseteq> K"
    and "k \<in> K" "length k = 32" "length n = 24"
    and "TryDecrypt ae kdf cache jitter now (n @ ae_Seal ae k n p) password True = (cache', r)"
  shows "cache_ok kdf now cache'"
    and "r = Inr (c, q) \<Longrightarrow> q = p \<and> bc_key c = k \<and> fresh_cipher True c"
    and "k = keys_at kdf password t ! 1 \<Longrightarrow> \<bar>t - now\<bar> \<le> 90 * 1000000000 \<Longrightarrow> \<not> isl r"
proof -
  obtain cs u where g: "getBlockCipherList kdf cache jitter now password True = (cache', Inr cs)"
      "u \<le> now" "now \<le> u + cacheValidInterval" "map bc_key cs = keys_at kdf password u"
      "list_all (fresh_cipher True) cs" "cache_ok kdf now cache'" "r = snd (SelectDecrypt ae (n @ ae_Seal ae k n p) cs)"
    using getBlockCipherList_ok [OF assms(2-5), of True] assms(11)
    by (auto simp: TryDecrypt_def split: prod.splits)
  then show "cache_ok kdf now cache'" by simp
  have K: "set (map bc_key cs) \<subseteq> K" using keys_at_subset [of kdf password u] assms(7) by (auto simp: g(4))
  then show "r = Inr (c, q) \<Longrightarrow> q = p \<and> bc_key c = k \<and> fresh_cipher True c"
    using SelectDecrypt_message [OF assms(1,6,8-10) g(5)] g(7) by simp
  assume t: "k = keys_at kdf password t ! 1" "\<bar>t - now\<bar> \<le> 90 * 1000000000"
  have "cacheValidInterval = 30 * 1000000000" "KeyRefreshInterval = 120 * 1000000000"
    by (simp_all add: cacheValidInterval_def KeyRefreshInterval_def)
  then have "\<bar>t - u\<bar> \<le> KeyRefreshInterval" using g(2,3) t(2) by linarith
  then have "k \<in> set (map bc_key cs)" by (simp only: t(1) g(4) keys_overlap)
  from SelectDecrypt_finds [OF assms(1,6,8-10) g(5) K this, of p] g(7) show "\<not> isl r" by auto
qed

lemma BlockCipherFromPassword_ok:
  assumes "kdf_ok kdf" "password \<noteq> []" "cache_ok kdf now cache" "0 \<le> jitter"
  obtains c t where "snd (BlockCipherFromPassword kdf cache jitter now password stateless) = Inr c"
    "t \<le> now" "now \<le> t + cacheValidInterval" "bc_key c = keys_at kdf password t ! 1" "fresh_cipher stateless c"
proof -
  obtain cs t where c: "snd (getBlockCipherList kdf cache jitter now password stateless) = Inr cs"
      "t \<le> now" "now \<le> t + cacheValidInterval" "map bc_key cs = keys_at kdf password t"
      "list_all (fresh_cipher stateless) cs"
    using getBlockCipherList_ok [OF assms, of stateless] by (metis snd_conv)
  have "length (keys_at kdf password t) = 3" by (simp add: keys_at_def saltFromTime_def Let_def)
  then have len: "1 < length cs" using c(4) by (metis length_map one_less_numeral_iff semiring_norm(77))
  show ?thesis
  proof (rule that [OF _ c(2,3)])
    show "snd (BlockCipherFromPassword kdf cache jitter now password stateless) = Inr (cs ! 1)"
      using c(1) by (auto simp: BlockCipherFromPassword_def split: prod.split)
    show "bc_key (cs ! 1) = keys_at kdf password t ! 1" using c(4) len by (metis nth_map)
    show "fresh_cipher stateless (cs ! 1)" using c(5) len by (simp add: list_all_length)
  qed
qed

section \<open>Properties\<close>

text \<open>
  A concrete AEAD and key derivation for the witnesses: the ciphertext starts with sixteen bytes of
  the key, and the key is made of sixteen bytes of the salt.
\<close>

definition tag_aead :: aead where
  "tag_aead = \<lparr>ae_NonceSize = 24, ae_Overhead = 16,
     ae_Seal = (\<lambda>k n p. take 16 k @ p),
     ae_Open = (\<lambda>k n c. if take 16 c = take 16 k then Some (drop 16 c) else None)\<rparr>"

definition salt_kdf :: kdf where
  "salt_kdf password salt iter keyLen =
     take keyLen (take 16 (salt @ replicate 16 0) @ replicate keyLen 0)"

definition some_draws :: nonce_draws where
  "some_draws = \<lparr>nd_read = Inr (replicate 24 255), nd_len = 0, nd_print = (\<lambda>_. 0), nd_idx = 0\<rparr>"

lemma some_draws_ok: "draws_ok None some_draws"
  by (simp add: draws_ok_def some_draws_def)

lemma tag_aead_ok: "aead_ok tag_aead"
  by (simp add: aead_ok_def tag_aead_def)

lemma salt_kdf_ok: "kdf_ok salt_kdf"
  by (auto simp: kdf_ok_def salt_kdf_def min_def)

lemma salt_kdf_32: "salt_kdf password salt iter 32 = take 16 (salt @ replicate 16 0) @ replicate 16 0"
proof -
  have "length (take 16 (salt @ replicate 16 (0::u8))) = 16" by simp
  then show ?thesis unfolding salt_kdf_def by (simp only: take_append) simp
qed

lemma tag_authentic: "authentic tag_aead (range (\<lambda>salt. salt_kdf password salt iter 32))"
proof -
  have "take 16 (salt_kdf password salt iter 32) = take 16 (salt @ replicate 16 0)" for salt
    unfolding salt_kdf_32 by (rule take_append_exact) simp
  then show ?thesis
    by (auto simp: authentic_def tag_aead_def salt_kdf_32 simp del: take_append)
qed

text \<open>
  C22. Two ciphers that start in step stay in step: any sequence of plaintexts encrypted by one and
  decrypted in order by the other arrives unchanged, in the stateless mode (a nonce on every
  message) and in the implicit nonce mode (a nonce on the first message only, then counted up on
  both sides), for every nonce pattern and user name.
\<close>

theorem cipher_stream_roundtrip:
  assumes "cipher_sync ae pat s r" and "list_all (\<lambda>x. draws_ok pat (fst x)) xs"
  shows "\<exists>s' r' cs. run_all (Encrypt_step ae) s xs = (s', Inr cs)
     \<and> run_all (Decrypt ae) r cs = (r', Inr (map snd xs)) \<and> cipher_sync ae pat s' r'"
  using block_cipher.messages [OF assms] by (simp add: comp_def)

theorem cipher_stream_roundtrip_witness:
  "\<exists>c s' r' cs. newXChaCha20Poly1305BlockCipher (replicate 32 7) = Inr c
     \<and> run_all (Encrypt_step tag_aead) (SetImplicitNonceMode True c)
         [(some_draws, [1, 2]), (some_draws, []), (some_draws, [3])] = (s', Inr cs)
     \<and> run_all (Decrypt tag_aead) (SetImplicitNonceMode True c) cs = (r', Inr [[1, 2], [], [3]])"
proof -
  obtain c where c: "newXChaCha20Poly1305BlockCipher (replicate 32 7) = Inr c"
    by (simp add: newXChaCha20Poly1305BlockCipher_def)
  then have sync: "cipher_sync tag_aead None (SetImplicitNonceMode True c) (SetImplicitNonceMode True c)"
    by (auto simp: cipher_sync_def tag_aead_ok newXChaCha20Poly1305BlockCipher_def
        SetImplicitNonceMode_def cipher_ok_def)
  let ?xs = "[(some_draws, [1, 2]), (some_draws, []), (some_draws, [3])]"
  have "list_all (\<lambda>x. draws_ok None (fst x)) ?xs" by (simp add: some_draws_ok)
  from cipher_stream_roundtrip [OF sync this] c show ?thesis by (simp del: run_all.simps) blast
qed

text \<open>The nonces that \<open>Encrypt\<close> passes to \<open>Seal\<close> once the implicit nonce is set.\<close>

definition next_nonce :: "bytes \<Rightarrow> bytes" where
  "next_nonce n = rev (increase_le (rev n))"

definition later_nonces :: "bytes \<Rightarrow> nat \<Rightarrow> bytes list" where
  "later_nonces n k = map (\<lambda>i. (next_nonce ^^ Suc i) n) [0..<k]"

lemma length_next_nonces [simp]: "length ((next_nonce ^^ i) n) = length n"
  by (induction i) (simp_all add: next_nonce_def)

lemma nonce_value_less: "length n = 24 \<Longrightarrow> nonce_value n < 2 ^ 192"
  using le_value_less [of "rev n"] by (simp add: nonce_value_def)

lemma nonce_value_later: "length n = 24 \<Longrightarrow> nonce_value ((next_nonce ^^ i) n) = (nonce_value n + i) mod 2 ^ 192"
proof (induction i)
  case 0
  then show ?case using nonce_value_less by simp
next
  case (Suc i)
  have "nonce_value (next_nonce ((next_nonce ^^ i) n)) = (nonce_value ((next_nonce ^^ i) n) + 1) mod 2 ^ 192"
    using Suc.prems nonce_value_increase [of "(next_nonce ^^ i) n"] by (simp add: next_nonce_def)
  then show ?case using Suc by (simp add: mod_simps)
qed

lemma later_nonces_Suc: "later_nonces n (Suc k) = next_nonce n # later_nonces (next_nonce n) k"
  by (simp add: later_nonces_def map_upt_Suc funpow_swap1 comp_def del: upt_Suc)

lemma later_nonces_distinct:
  assumes "length n = 24" "k < 2 ^ 192"
  shows "distinct (n # later_nonces n k)"
proof -
  have le: "i = j" if "(next_nonce ^^ i) n = (next_nonce ^^ j) n" "i \<le> j" "j < 2 ^ 192" for i j
  proof -
    have "(nonce_value n + j) mod 2 ^ 192 = (nonce_value n + i) mod 2 ^ 192"
      using arg_cong [OF that(1), of nonce_value] by (simp only: nonce_value_later [OF assms(1)])
    then have "2 ^ 192 dvd (nonce_value n + j) - (nonce_value n + i)"
      by (rule mod_eq_dvd_iff_nat [THEN iffD1, rotated]) (use that(2) in simp)
    then have "2 ^ 192 dvd j - i" by simp
    with that(2,3) show "i = j" using nat_dvd_not_less [of "j - i" "2 ^ 192"] by fastforce
  qed
  have "i = j" if "(next_nonce ^^ i) n = (next_nonce ^^ j) n" "i < 2 ^ 192" "j < 2 ^ 192" for i j
    using le [OF that(1) _ that(3)] le [OF that(1) [symmetric] _ that(2)] by linarith
  then have "inj_on (\<lambda>i. (next_nonce ^^ i) n) {0..<Suc k}"
    unfolding inj_on_def using assms(2) by (meson atLeastLessThan_iff le_less_trans less_Suc_eq_le)
  moreover have "n # later_nonces n k = map (\<lambda>i. (next_nonce ^^ i) n) [0..<Suc k]"
    by (simp add: later_nonces_def map_upt_Suc comp_def del: upt_Suc)
  ultimately show ?thesis by (metis distinct_map distinct_upt set_upt)
qed

lemma Encrypt_counts:
  "bc_enableImplicitNonce s \<Longrightarrow> length (bc_implicitNonce s) = 24 \<Longrightarrow> run_all (Encrypt_step ae) s xs = (s', Inr cs)
    \<Longrightarrow> cs = map2 (\<lambda>m y. ae_Seal ae (bc_key s) m (snd y)) (later_nonces (bc_implicitNonce s) (length xs)) xs"
proof (induction xs arbitrary: s cs)
  case (Cons x xs)
  let ?s = "s\<lparr>bc_implicitNonce := next_nonce (bc_implicitNonce s)\<rparr>"
  have "bc_implicitNonce s \<noteq> []" using Cons.prems(2) by auto
  then have e: "Encrypt_step ae s x = (?s, Inr (ae_Seal ae (bc_key s) (next_nonce (bc_implicitNonce s)) (snd x)))"
    using Cons.prems(1) by (simp add: Encrypt_step_def Encrypt_def increaseNonce_def next_nonce_def)
  with Cons.prems obtain cs' where r: "run_all (Encrypt_step ae) ?s xs = (s', Inr cs')"
      "cs = ae_Seal ae (bc_key s) (next_nonce (bc_implicitNonce s)) (snd x) # cs'"
    by (auto split: prod.splits sum.splits)
  moreover have "length (bc_implicitNonce ?s) = 24" using Cons.prems(2) length_next_nonces [of 1] by simp
  ultimately show ?case using Cons.IH [of ?s cs'] Cons.prems(1) by (simp add: later_nonces_Suc)
qed simp

text \<open>
  C24. No nonce is used twice with a key: whatever messages a cipher in implicit nonce mode encrypts from the
  first one on, the first is sealed with a new nonce, which is sent with it, and each of the following
  (fewer than \<open>2 ^ 192\<close>) is sealed with the nonce before it plus one, as a 192-bit big-endian number; so the
  nonces that are passed to \<open>Seal\<close> are all different.
\<close>

theorem implicit_nonces_distinct:
  assumes "aead_ok ae" "cipher_ok s" "bc_enableImplicitNonce s" "bc_implicitNonce s = []"
    and "draws_ok (bc_noncePattern s) (fst x)" "length xs < 2 ^ 192"
    and "run_all (Encrypt_step ae) s (x # xs) = (s', Inr cs)"
  shows "\<exists>n ns. length ns = length xs \<and> distinct (n # ns)
     \<and> map nonce_value ns = map (\<lambda>i. (nonce_value n + Suc i) mod 2 ^ 192) [0..<length xs]
     \<and> cs = (n @ ae_Seal ae (bc_key s) n (snd x)) # map2 (\<lambda>m y. ae_Seal ae (bc_key s) m (snd y)) ns xs"
proof -
  obtain a n where e: "Encrypt_step ae s x
      = (s\<lparr>bc_noncePatternApplied := a, bc_implicitNonce := n\<rparr>, Inr (n @ ae_Seal ae (bc_key s) n (snd x)))" and n: "length n = 24"
    using Encrypt_explicit [OF assms(1,2,5), of "snd x"] assms(3,4) by (auto simp: Encrypt_step_def)
  let ?s = "s\<lparr>bc_noncePatternApplied := a, bc_implicitNonce := n\<rparr>"
  obtain cs' where r: "run_all (Encrypt_step ae) ?s xs = (s', Inr cs')" "cs = (n @ ae_Seal ae (bc_key s) n (snd x)) # cs'"
    using assms(7) e by (auto split: prod.splits sum.splits)
  have "cs' = map2 (\<lambda>m y. ae_Seal ae (bc_key s) m (snd y)) (later_nonces n (length xs)) xs"
    using Encrypt_counts [OF _ _ r(1)] assms(3) n by simp
  moreover have "map nonce_value (later_nonces n (length xs)) = map (\<lambda>i. (nonce_value n + Suc i) mod 2 ^ 192) [0..<length xs]"
    unfolding later_nonces_def by (simp only: list.map_comp comp_def nonce_value_later [OF n])
  ultimately show ?thesis
    using r(2) later_nonces_distinct [OF n assms(6)]
    by (intro exI [of _ n] exI [of _ "later_nonces n (length xs)"]) (simp add: later_nonces_def)
qed

definition some_cipher :: aeadBlockCipher where
  "some_cipher = \<lparr>bc_aeadType = XChaCha20Poly1305, bc_enableImplicitNonce = True,
     bc_key = replicate 32 7, bc_implicitNonce = [], bc_userName = ''alice'',
     bc_noncePattern = None, bc_noncePatternApplied = False\<rparr>"

theorem implicit_nonces_distinct_witness:
  "\<exists>s' n m c. run_all (Encrypt_step tag_aead) some_cipher [(some_draws, [1]), (some_draws, [2])]
       = (s', Inr [c, ae_Seal tag_aead (replicate 32 7) m [2]])
     \<and> m \<noteq> n \<and> c = n @ ae_Seal tag_aead (replicate 32 7) n [1]"
proof -
  have c: "cipher_ok some_cipher" "bc_enableImplicitNonce some_cipher" "bc_implicitNonce some_cipher = []"
      "draws_ok (bc_noncePattern some_cipher) (fst (some_draws, [1 :: u8]))" "bc_key some_cipher = replicate 32 7"
    by (simp_all add: some_cipher_def cipher_ok_def some_draws_ok)
  let ?xs = "[(some_draws, [1]), (some_draws, [2])] :: (nonce_draws \<times> bytes) list"
  have "cipher_sync tag_aead None some_cipher some_cipher"
    using c(1) by (simp add: cipher_sync_def tag_aead_ok) (simp add: some_cipher_def)
  moreover have "list_all (\<lambda>x. draws_ok None (fst x)) ?xs" by (simp add: some_draws_ok)
  ultimately obtain s' cs where r: "run_all (Encrypt_step tag_aead) some_cipher ?xs = (s', Inr cs)"
    using block_cipher.messages by meson
  from implicit_nonces_distinct [OF tag_aead_ok c(1-4) _ r] obtain n ns where ns: "length ns = Suc 0" "distinct (n # ns)"
      "cs = (n @ ae_Seal tag_aead (replicate 32 7) n [1]) # map2 (\<lambda>m y. ae_Seal tag_aead (replicate 32 7) m (snd y)) ns [(some_draws, [2])]"
    using c(5) by (auto simp del: run_all.simps)
  then obtain m where "ns = [m]" by (auto simp: length_Suc_conv)
  with ns r show ?thesis by (intro exI [of _ s'] exI [of _ n] exI [of _ m] exI [of _ "n @ ae_Seal tag_aead (replicate 32 7) n [1]"]) (auto simp del: run_all.simps)
qed

text \<open>
  The server recognises the user from the nonce: what a cipher with a user name sends with its
  nonce (every message in stateless mode, the first one in implicit nonce mode) starts with a
  24-byte nonce that \<open>CheckUserFromHint\<close> accepts for that user.
\<close>

theorem user_hint_accepted:
  assumes "aead_ok ae" "cipher_ok c" "draws_ok (bc_noncePattern c) d"
    and "IsStateless c \<or> bc_implicitNonce c = []" "bc_userName c \<noteq> []"
  shows "\<exists>c' m. Encrypt ae d c p = (c', Inr m)
     \<and> CheckUserFromHint (string_bytes (bc_userName c)) (take DefaultNonceSize m) = Inr True"
proof -
  have "\<not> (bc_enableImplicitNonce c \<and> bc_implicitNonce c \<noteq> [])"
    using assms(4) by (auto simp: IsStateless_def)
  from Encrypt_explicit [OF assms(1-3) this, of p] assms(5) show ?thesis
    by (auto simp: DefaultNonceSize_def)
qed

theorem user_hint_accepted_witness:
  "\<exists>c' m. Encrypt tag_aead some_draws (SetImplicitNonceMode False some_cipher) [9] = (c', Inr m)
     \<and> CheckUserFromHint (string_bytes ''alice'') (take DefaultNonceSize m) = Inr True"
proof -
  let ?c = "SetImplicitNonceMode False some_cipher"
  have "cipher_ok ?c" "bc_noncePattern ?c = None" "IsStateless ?c" "bc_userName ?c = ''alice''"
    by (simp_all add: SetImplicitNonceMode_def some_cipher_def cipher_ok_def IsStateless_def)
  then show ?thesis
    using user_hint_accepted [of tag_aead ?c some_draws "[9]"] tag_aead_ok some_draws_ok by auto
qed

text \<open>
  C23. A client and a server that share a password understand each other although their clocks
  differ by up to 90 seconds and both use cached keys: the client's cipher can be made, and
  whatever it encrypts first, the server's \<open>TryDecrypt\<close> decrypts to the same plaintext. The
  AEAD must not open a message sealed with another key derived from the password.
\<close>

theorem password_channel:
  assumes "aead_ok ae" "kdf_ok kdf" "password \<noteq> []"
    and "authentic ae (range (\<lambda>salt. kdf password salt KeyIter DefaultKeyLen))"
    and "cache_ok kdf tc cacheC" "cache_ok kdf ts cacheS" "0 \<le> jc" "0 \<le> js"
    and "\<bar>tc - ts\<bar> \<le> 90 * 1000000000"
  shows "\<exists>c. snd (BlockCipherFromPassword kdf cacheC jc tc password stateless) = Inr c
     \<and> (\<forall>d p. draws_ok (bc_noncePattern c) d \<longrightarrow>
          (\<exists>c' m c''. Encrypt ae d c p = (c', Inr m)
             \<and> snd (TryDecrypt ae kdf cacheS js ts m password stateless) = Inr (c'', p)
             \<and> bc_key c'' = bc_key c))"
proof -
  obtain c t where c: "snd (BlockCipherFromPassword kdf cacheC jc tc password stateless) = Inr c"
      "t \<le> tc" "tc \<le> t + cacheValidInterval" "bc_key c = keys_at kdf password t ! 1" "fresh_cipher stateless c"
    by (rule BlockCipherFromPassword_ok [OF assms(2,3,5,7)])
  obtain cs' t' where s: "snd (getBlockCipherList kdf cacheS js ts password stateless) = Inr cs'"
      "t' \<le> ts" "ts \<le> t' + cacheValidInterval" "map bc_key cs' = keys_at kdf password t'"
      "list_all (fresh_cipher stateless) cs'"
    using getBlockCipherList_ok [OF assms(2,3,6,8), of stateless] by (metis snd_conv)
  have "cacheValidInterval = 30 * 1000000000" "KeyRefreshInterval = 120 * 1000000000"
    by (simp_all add: cacheValidInterval_def KeyRefreshInterval_def)
  then have "\<bar>t - t'\<bar> \<le> KeyRefreshInterval" using c(2,3) s(2,3) assms(9) by linarith
  then have mem: "bc_key c \<in> set (map bc_key cs')" by (simp only: c(4) s(4) keys_overlap)
  have "\<exists>c' m c''. Encrypt ae d c p = (c', Inr m)
      \<and> snd (TryDecrypt ae kdf cacheS js ts m password stateless) = Inr (c'', p)
      \<and> bc_key c'' = bc_key c" if d: "draws_ok (bc_noncePattern c) d" for d p
  proof -
    obtain c' n where e: "Encrypt ae d c p = (c', Inr (n @ ae_Seal ae (bc_key c) n p))" "length n = 24"
      using Encrypt_explicit [OF assms(1) _ d, of p] c(5) by (fastforce simp: fresh_cipher_def)
    obtain c'' where "snd (SelectDecrypt ae (n @ ae_Seal ae (bc_key c) n p) cs') = Inr (c'', p)"
        "bc_key c'' = bc_key c"
      using SelectDecrypt_finds [OF assms(1,4) _ _ e(2) s(5) _ mem, of p] keys_at_subset s(4) mem c(5)
      by (fastforce simp: fresh_cipher_def cipher_ok_def)
    with e s(1) show ?thesis
      by (auto simp: TryDecrypt_def split: prod.split)
  qed
  with c(1) show ?thesis by blast
qed

theorem password_channel_witness:
  "\<exists>c. snd (BlockCipherFromPassword salt_kdf Map.empty 0 0 [1, 2, 3] False) = Inr c
     \<and> (\<forall>d p. draws_ok (bc_noncePattern c) d \<longrightarrow>
          (\<exists>c' m c''. Encrypt tag_aead d c p = (c', Inr m)
             \<and> snd (TryDecrypt tag_aead salt_kdf Map.empty 0 (70 * 1000000000) m [1, 2, 3] False)
               = Inr (c'', p) \<and> bc_key c'' = bc_key c))"
  by (rule password_channel [OF tag_aead_ok salt_kdf_ok])
     (simp_all add: cache_ok_def DefaultKeyLen_def tag_authentic)

end
