(* ===== verification/Padding.thy ===== *)
theory Padding
  imports Cipher Metadata Mathext
begin

text \<open>
  Sizes of packets and padding: the transport kinds (\<open>src/pkg/common/transport_protocol.go\<close>), the
  overhead constants of the underlays, \<open>MaxFragmentSize\<close> of \<open>src/pkg/protocol/segment.go\<close>, and the
  padding of \<open>src/pkg/protocol/padding.go\<close>. Random draws come from a record of draw functions.
\<close>

section \<open>Transport and sizes\<close>

datatype TransportProtocol = UnknownTransport | StreamTransport | PacketTransport

definition maxPDU :: int where "maxPDU = 32 * 1024"

definition packetOverhead :: int where
  "packetOverhead = int (DefaultNonceSize + MetadataLength + DefaultOverhead * 2)"

definition packetNonHeaderPosition :: nat where
  "packetNonHeaderPosition = DefaultNonceSize + MetadataLength + DefaultOverhead"

definition streamOverhead :: int where
  "streamOverhead = int (MetadataLength + DefaultOverhead * 2)"

definition MaxFragmentSize :: "int \<Rightarrow> TransportProtocol \<Rightarrow> int" where
  "MaxFragmentSize mtu transport =
     (if transport = StreamTransport then maxPDU
      else let res = mtu - packetOverhead in Max2 0 res)"

definition MaxPaddingSize :: "int \<Rightarrow> TransportProtocol \<Rightarrow> int \<Rightarrow> int \<Rightarrow> int" where
  "MaxPaddingSize mtu transport fragmentSize existingPaddingSize =
     (if transport = StreamTransport then 255
      else
        let res = mtu - fragmentSize - packetOverhead
        in if res \<le> existingPaddingSize then 0
           else Min2 (res - existingPaddingSize) 255)"

section \<open>Padding\<close>

record asciiPaddingOpts =
  ap_minConsecutiveASCIILen :: int

record entropyPaddingOpts =
  ep_existingData :: bytes
  ep_targetProbability :: real

record paddingOpts =
  po_maxLen :: int
  po_ascii :: "asciiPaddingOpts option"
  po_entropy :: "entropyPaddingOpts option"

text \<open>
  Random sources: \<open>rs_intn n\<close> are the two draws inside \<open>rng.Intn(n)\<close>, \<open>rs_mintn i n\<close> is the
  \<open>i\<close>-th \<open>mrand.Intn(n)\<close>, \<open>rs_read n\<close> are \<open>n\<close> bytes of \<open>crand.Read\<close> and \<open>rs_print\<close> the printable
  characters.
\<close>

record rand_source =
  rs_intn :: "int \<Rightarrow> int \<times> real"
  rs_mintn :: "nat \<Rightarrow> int \<Rightarrow> int"
  rs_read :: "nat \<Rightarrow> bytes"
  rs_print :: "nat \<Rightarrow> nat"

definition rand_ok :: "rand_source \<Rightarrow> bool" where
  "rand_ok rs \<longleftrightarrow> (\<forall>n > 0. intn_draw n (rs_intn rs n))
     \<and> (\<forall>i. \<forall>n > 0. 0 \<le> rs_mintn rs i n \<and> rs_mintn rs i n < n)
     \<and> (\<forall>n. length (rs_read rs n) = n) \<and> (\<forall>i. rs_print rs i < 95)"

text \<open>
  \<open>mrand.Intn(n)\<close> panics for \<open>n <= 0\<close>, and \<open>make([]byte, n)\<close> for a length that is negative or larger than
  an address space.
\<close>

definition mrand_Intn :: "rand_source \<Rightarrow> nat \<Rightarrow> int \<Rightarrow> int result" where
  "mrand_Intn rs i n = (if n \<le> 0 then Inl (Panic ''invalid argument to Intn'') else Inr (rs_mintn rs i n))"

definition make_len :: "int \<Rightarrow> nat result" where
  "make_len n = (if n < 0 \<or> n > 2 ^ 48 then Inl (Panic ''makeslice: len out of range'') else Inr (nat n))"

text \<open>The version and the host name, which decide the constants of a running program.\<close>

record host_env =
  he_appVersion :: string
  he_hostName :: string

definition recommendedConsecutiveASCIILen :: "host_env \<Rightarrow> int" where
  "recommendedConsecutiveASCIILen he = 24 + FixedIntVH (he_appVersion he) (he_hostName he) 17"

definition recommendedTargetProbability :: real where
  "recommendedTargetProbability = 325 / 1000"

definition buildRecommendedPaddingOpts ::
    "host_env \<Rightarrow> rand_source \<Rightarrow> int \<Rightarrow> int \<Rightarrow> string \<Rightarrow> paddingOpts result" where
  "buildRecommendedPaddingOpts he rs maxLen randomDataLen strategySource =
     (let strategy = FixedIntV (he_appVersion he) 2 strategySource
      in if strategy = 0
         then Inr \<lparr>po_maxLen = maxLen,
               po_ascii = Some \<lparr>ap_minConsecutiveASCIILen
                 = Min2 maxLen (recommendedConsecutiveASCIILen he)\<rparr>,
               po_entropy = None\<rparr>
         else
           rbind (make_len randomDataLen) (\<lambda>n.
             Inr \<lparr>po_maxLen = maxLen, po_ascii = None,
               po_entropy = Some \<lparr>ep_existingData = rs_read rs n,
                 ep_targetProbability = recommendedTargetProbability\<rparr>\<rparr>))"

definition asciiPadding :: "float_env \<Rightarrow> rand_source \<Rightarrow> int \<Rightarrow> int \<Rightarrow> bytes result" where
  "asciiPadding fe rs maxLen minLen =
     (if maxLen < minLen
      then Inl (Panic ''Invalid padding options: maxLen is smaller than minConsecutiveASCIILen'')
      else
        rbind (Intn fe (rs_intn rs (maxLen - minLen + 1)) (maxLen - minLen + 1)) (\<lambda>k.
        let len = k + minLen
        in rbind (make_len len) (\<lambda>n.
           rbind (if len > minLen then mrand_Intn rs 0 (len - minLen) else Inr 0) (\<lambda>beginIdx.
           ToPrintableChar (rs_print rs) (rs_read rs n) beginIdx (beginIdx + minLen)))))"

text \<open>The two loops that set or clear \<open>flip\<close> randomly drawn bits of the padding.\<close>

fun flip_loop :: "rand_source \<Rightarrow> (u8 \<Rightarrow> u8 \<Rightarrow> u8) \<Rightarrow> nat \<Rightarrow> bytes \<Rightarrow> bytes result" where
  "flip_loop rs f 0 p = Inr p"
| "flip_loop rs f (Suc i) p =
     rbind (flip_loop rs f i p) (\<lambda>p.
     rbind (mrand_Intn rs i (int (length p) * 8)) (\<lambda>j.
     let byteIndex = nat j div 8;
         bitIndex = nat j mod 8
     in if byteIndex \<ge> length p then Inl (Panic ''index out of range'')
        else Inr (p[byteIndex := f (p ! byteIndex) (push_bit bitIndex 1)])))"

text \<open>The choice of the length of an entropy padding.\<close>

definition entropyLength :: "float_env \<Rightarrow> rand_source \<Rightarrow> int \<Rightarrow> int \<Rightarrow> int result" where
  "entropyLength fe rs maxLen minPaddingBytes =
     (if minPaddingBytes \<ge> maxLen then Inr maxLen
      else (case Intn fe (rs_intn rs (maxLen - minPaddingBytes + 1)) (maxLen - minPaddingBytes + 1) of
              Inl e \<Rightarrow> Inl e
            | Inr k \<Rightarrow> Inr (k + minPaddingBytes)))"

definition entropyPadding ::
    "float_env \<Rightarrow> rand_source \<Rightarrow> int \<Rightarrow> bytes \<Rightarrow> real \<Rightarrow> bytes result" where
  "entropyPadding fe rs maxLen existingData targetProbability =
     (if targetProbability \<le> 0 \<or> targetProbability > 1 / 2
      then Inl (Panic ''Invalid padding options: targetProbability is out of range (0.0, 0.5]'')
      else
        let f = fe_f64 fe;
            bd = ToBitDistribution fe existingData;
            existing = int (length existingData);
            (lowerBit, lowerBitCount) =
              (if bd_Bit1 bd < bd_Bit0 bd then (1 :: u8, bd_Bit1Count bd) else (0, bd_Bit0Count bd));
            minPaddingBits = trunc_real (f (f (f (of_int lowerBitCount) / f targetProbability)
                               - f (of_int (existing * 8))));
            minPaddingBits = Max2 minPaddingBits 0;
            minPaddingBytes = go_quot (minPaddingBits + 7) 8
        in (case entropyLength fe rs maxLen minPaddingBytes of
              Inl e \<Rightarrow> Inl e
            | Inr len \<Rightarrow>
                rbind (make_len len) (\<lambda>n.
                  let p = replicate n (0 :: u8);
                      flip = Max2 (trunc_real (f (f (f (of_int (existing + len)) * 8)
                               * f targetProbability)) - lowerBitCount) 0;
                      flip = Min2 flip (len * 8)
                  in if lowerBit = 0
                     then flip_loop rs (\<lambda>b m. b AND NOT m) (nat flip) (FillBytes p 0xFF)
                     else flip_loop rs (\<lambda>b m. b OR m) (nat flip) p)))"

definition newPadding :: "float_env \<Rightarrow> rand_source \<Rightarrow> paddingOpts \<Rightarrow> bytes result" where
  "newPadding fe rs opts =
     (case po_ascii opts of
        Some a \<Rightarrow> asciiPadding fe rs (po_maxLen opts) (ap_minConsecutiveASCIILen a)
      | None \<Rightarrow>
          (case po_entropy opts of
             Some e \<Rightarrow>
               entropyPadding fe rs (po_maxLen opts) (ep_existingData e) (ep_targetProbability e)
           | None \<Rightarrow> Inl (Panic ''Detailed padding options are not provided'')))"

section \<open>Lemmas\<close>

lemma size_consts [simp]: "packetOverhead = 88" "packetNonHeaderPosition = 72" "streamOverhead = 64"
  by (simp_all add: packetOverhead_def packetNonHeaderPosition_def streamOverhead_def
      MetadataLength_def cipher_consts)

lemma fixed_of_digest_nonneg: "0 \<le> fixed_of_digest b"
  by (simp add: fixed_of_digest_def)

lemma FixedIntV_range: "0 < n \<Longrightarrow> 0 \<le> FixedIntV v n h \<and> FixedIntV v n h < n"
  by (simp add: FixedIntV_def fixed_of_digest_nonneg)

lemma recommended_nonneg: "24 \<le> recommendedConsecutiveASCIILen he \<and> recommendedConsecutiveASCIILen he \<le> 40"
  using FixedIntV_range [of 17 "he_appVersion he" "he_hostName he"]
  by (simp add: recommendedConsecutiveASCIILen_def FixedIntVH_def)

text \<open>No bit is drawn from an empty padding: the number of flips is bounded by the number of bits.\<close>

lemma flip_loop_ok:
  assumes "rand_ok rs" "n \<le> length p * 8"
  shows "\<exists>q. flip_loop rs f n p = Inr q \<and> length q = length p"
  using assms(2)
proof (induction n)
  case (Suc n)
  then obtain q where q: "flip_loop rs f n p = Inr q" "length q = length p" by auto
  have pos: "0 < int (length p) * 8" using Suc.prems by linarith
  define j where "j = rs_mintn rs n (int (length p) * 8)"
  have "0 \<le> j \<and> j < int (length p) * 8" using assms(1) pos by (simp add: rand_ok_def j_def)
  then have "nat j div 8 < length p" by linarith
  moreover have "mrand_Intn rs n (int (length p) * 8) = Inr j" using pos by (simp add: mrand_Intn_def j_def)
  ultimately show ?case using q by (simp add: Let_def)
qed simp

lemma Intn_rand:
  "float_env_ok fe \<Longrightarrow> rand_ok rs \<Longrightarrow> 0 < n \<Longrightarrow> n \<le> 2 ^ 53
    \<Longrightarrow> \<exists>k. Intn fe (rs_intn rs n) n = Inr k \<and> 0 \<le> k \<and> k < n"
  by (rule Intn_range) (auto simp: rand_ok_def)

lemma asciiPadding_ok:
  assumes fe: "float_env_ok fe" and rs: "rand_ok rs" and l: "0 \<le> minLen" "minLen \<le> maxLen" "maxLen < 2 ^ 48"
  shows "\<exists>p. asciiPadding fe rs maxLen minLen = Inr p \<and> minLen \<le> int (length p)
     \<and> int (length p) \<le> maxLen \<and> nat minLen \<le> MaxConsecutivePrintableLength p"
proof -
  have "0 < maxLen - minLen + 1" "maxLen - minLen + 1 \<le> 2 ^ 53" using l by auto
  then obtain k where k: "Intn fe (rs_intn rs (maxLen - minLen + 1)) (maxLen - minLen + 1) = Inr k"
      "0 \<le> k" "k < maxLen - minLen + 1"
    using Intn_rand [OF fe rs] by blast
  define n p b where "n = k + minLen" and "p = rs_read rs (nat (k + minLen))"
    and "b = (if n > minLen then rs_mintn rs 0 (n - minLen) else 0)"
  have p: "int (length p) = n" using rs k l by (simp add: p_def n_def rand_ok_def)
  have n: "make_len n = Inr (nat n)" using k l by (simp add: make_len_def n_def)
  have first: "(if n > minLen then mrand_Intn rs 0 (n - minLen) else Inr 0) = Inr b"
    by (simp add: b_def mrand_Intn_def)
  have b: "0 \<le> b" "b + minLen \<le> n"
  proof -
    have "0 \<le> rs_mintn rs 0 (n - minLen) \<and> rs_mintn rs 0 (n - minLen) < n - minLen" if "n > minLen"
      using rs that by (simp add: rand_ok_def)
    then show "0 \<le> b" "b + minLen \<le> n" using k by (auto simp: b_def n_def)
  qed
  obtain q where q: "ToPrintableChar (rs_print rs) p b (b + minLen) = Inr q"
    using rewrite_range_total [of b "b + minLen" p] b l p by (auto simp: ToPrintableChar_def)
  note q' = rewrite_range_Inr [OF q [unfolded ToPrintableChar_def]]
  have "list_all is_printable (take (nat minLen) (drop (nat b) q))"
    using rs b p q' l by (auto simp: list_all_length rand_ok_def toPrintable_printable)
  moreover have "sublist (take (nat minLen) (drop (nat b) q)) q"
    by (metis append_take_drop_id sublist_appendI)
  moreover have "nat minLen \<le> length (take (nat minLen) (drop (nat b) q))"
    using b p q'(1) l by simp
  ultimately have "nat minLen \<le> MaxConsecutivePrintableLength q"
    unfolding MaxConsecutive_le_iff by blast
  moreover have "asciiPadding fe rs maxLen minLen = ToPrintableChar (rs_print rs) p b (b + minLen)"
    unfolding asciiPadding_def k(1) rbind_simps Let_def n_def [symmetric] n first p_def using l by simp
  ultimately show ?thesis
    using k p q q'(1) l by (intro exI [of _ q]) (simp add: n_def)
qed

lemma entropyLength_ok:
  assumes "float_env_ok fe" "rand_ok rs" "0 \<le> maxLen" "maxLen < 2 ^ 52" "0 \<le> m"
  shows "\<exists>n. entropyLength fe rs maxLen m = Inr n \<and> 0 \<le> n \<and> n \<le> maxLen"
proof (cases "m \<ge> maxLen")
  case False
  then have "0 < maxLen - m + 1" "maxLen - m + 1 \<le> 2 ^ 53" using assms by auto
  from Intn_rand [OF assms(1,2) this] False assms(5) show ?thesis by (auto simp: entropyLength_def)
qed (use assms in \<open>simp add: entropyLength_def\<close>)

lemma entropyPadding_ok:
  assumes "float_env_ok fe" "rand_ok rs" "0 \<le> maxLen" "maxLen < 2 ^ 48" and t: "0 < t" "t \<le> 1 / 2"
  shows "\<exists>p. entropyPadding fe rs maxLen d t = Inr p \<and> int (length p) \<le> maxLen"
proof -
  define bd where "bd = ToBitDistribution fe d"
  obtain lb lc where l: "(if bd_Bit1 bd < bd_Bit0 bd then (1 :: u8, bd_Bit1Count bd)
      else (0, bd_Bit0Count bd)) = (lb, lc)" by fastforce
  define m where "m = go_quot (Max2 (trunc_real (fe_f64 fe (fe_f64 fe (fe_f64 fe (of_int lc)
      / fe_f64 fe t) - fe_f64 fe (of_int (int (length d) * 8))))) 0 + 7) 8"
  have "0 \<le> m" by (simp add: m_def)
  then obtain n where n: "entropyLength fe rs maxLen m = Inr n" "0 \<le> n" "n \<le> maxLen"
    using entropyLength_ok [OF assms(1,2,3) _ , of m] assms(4) by auto
  define k where "k = nat (Min2 (Max2 (trunc_real (fe_f64 fe (fe_f64 fe (fe_f64 fe (of_int (int (length d) + n)) * 8)
      * fe_f64 fe t)) - lc) 0) (n * 8))"
  have "k \<le> length p * 8" if "length p = nat n" for p :: bytes using that n(2) by (simp add: k_def nat_le_iff)
  from flip_loop_ok [OF assms(2) this] have
    flips: "\<exists>q. flip_loop rs f k p = Inr q \<and> length q = nat n" if "length p = nat n" for f p using that by metis
  have "make_len n = Inr (nat n)" using n assms(4) by (simp add: make_len_def)
  then have "entropyPadding fe rs maxLen d t
      = (if lb = 0 then flip_loop rs (\<lambda>b m. b AND NOT m) k (FillBytes (replicate (nat n) 0) 0xFF)
         else flip_loop rs (\<lambda>b m. b OR m) k (replicate (nat n) 0))"
    using n(1) t unfolding m_def k_def
    by (simp add: entropyPadding_def Let_def l [unfolded bd_def])
  moreover obtain q q' where "flip_loop rs (\<lambda>b m. b AND NOT m) k (FillBytes (replicate (nat n) 0) 0xFF) = Inr q"
      "flip_loop rs (\<lambda>b m. b OR m) k (replicate (nat n) 0) = Inr q'" "length q = nat n" "length q' = nat n"
    using flips [of "FillBytes (replicate (nat n) 0) 0xFF" "\<lambda>b m. b AND NOT m"] flips [of "replicate (nat n) 0" "\<lambda>b m. b OR m"]
    by (auto simp: FillBytes_def)
  ultimately show ?thesis using n(2,3) by (cases "lb = 0") simp_all
qed

lemma newPadding_recommended:
  assumes "float_env_ok fe" "rand_ok rs" "0 \<le> maxLen" "maxLen \<le> 255" "0 \<le> randomDataLen" "randomDataLen \<le> 2 ^ 48"
  obtains p where "rbind (buildRecommendedPaddingOpts he rs maxLen randomDataLen src) (newPadding fe rs) = Inr p"
    "int (length p) \<le> maxLen"
    "FixedIntV (he_appVersion he) 2 src = 0 \<Longrightarrow>
       nat (min maxLen (recommendedConsecutiveASCIILen he)) \<le> MaxConsecutivePrintableLength p"
proof (cases "FixedIntV (he_appVersion he) 2 src = 0")
  case True
  then show ?thesis
    using that asciiPadding_ok [OF assms(1,2), of "min maxLen (recommendedConsecutiveASCIILen he)" maxLen]
      assms(3,4) recommended_nonneg [of he]
    by (auto simp: newPadding_def buildRecommendedPaddingOpts_def)
next
  case False
  then show ?thesis
    using that entropyPadding_ok [OF assms(1-3), of "325 / 1000"] assms(4-6)
    by (auto simp: newPadding_def buildRecommendedPaddingOpts_def recommendedTargetProbability_def make_len_def)
qed

section \<open>Properties\<close>

text \<open>
  C39. The recommended padding is always made and fits: for every strategy source, host and random
  draws, and every length of the random data that can be allocated, neither \<open>buildRecommendedPaddingOpts\<close>
  nor \<open>newPadding\<close> of its options panics (by a draw below a bound that is not positive, an index out of range, a slice that cannot
  be made or one of the checks of the options), the padding has at most \<open>maxLen\<close> bytes, and
  with the ASCII strategy the padding has a run of printable characters of the recommended
  length (or of \<open>maxLen\<close> if that is shorter). The bound matters: the length is sent in one byte.
\<close>

theorem recommended_padding_ok:
  assumes "float_env_ok fe" "rand_ok rs" "0 \<le> maxLen" "maxLen \<le> 255" "0 \<le> randomDataLen" "randomDataLen \<le> 2 ^ 48"
  shows "\<exists>p. rbind (buildRecommendedPaddingOpts he rs maxLen randomDataLen src) (newPadding fe rs) = Inr p
     \<and> int (length p) \<le> maxLen
     \<and> (FixedIntV (he_appVersion he) 2 src = 0 \<longrightarrow>
          nat (min maxLen (recommendedConsecutiveASCIILen he)) \<le> MaxConsecutivePrintableLength p)"
  by (rule newPadding_recommended [OF assms, of he src]) blast

definition some_rand :: rand_source where
  "some_rand = \<lparr>rs_intn = (\<lambda>n. (n, 1 / 2)), rs_mintn = (\<lambda>i n. 0), rs_read = (\<lambda>n. replicate n 0x90),
     rs_print = (\<lambda>i. 7)\<rparr>"

lemma some_rand_ok: "rand_ok some_rand"
  by (auto simp: rand_ok_def some_rand_def intn_draw_def)

theorem recommended_padding_ok_witness:
  "\<exists>p. rbind (buildRecommendedPaddingOpts
       \<lparr>he_appVersion = ''3.26.0'', he_hostName = ''host''\<rparr> some_rand 0 64 ''alice'') (newPadding some_env some_rand) = Inr p
     \<and> p = []"
  using recommended_padding_ok [OF some_env_ok some_rand_ok, of 0 64
      "\<lparr>he_appVersion = ''3.26.0'', he_hostName = ''host''\<rparr>" "''alice''"] by auto

end
