(* ===== verification/Metrics.thy ===== *)
theory Metrics
  imports Mathext "HOL-Library.Sublist"
begin

text \<open>
  Package \<open>src/pkg/metrics\<close>: counters with a rolled-up history (\<open>counter.go\<close>), gauges
  (\<open>gauge.go\<close>), metric groups and the registry (\<open>metric.go\<close>, \<open>registry.go\<close>), and the conversion to and
  from the dump format (\<open>export.go\<close>). Times are nanoseconds since the Unix epoch, except in the
  history, which has milliseconds; \<open>now\<close> is the clock. Values and deltas are \<open>int64\<close>, and sums of
  them wrap around (\<open>i64\<close>). Log output and files are not modelled.
\<close>

section \<open>Counter\<close>

definition rollUpInterval :: u64 where "rollUpInterval = 1000"
definition rollUpToSecond :: int where "rollUpToSecond = 2 * 1000000000"
definition rollUpSecondToMinute :: int where "rollUpSecondToMinute = 120 * 1000000000"
definition rollUpMinuteToHour :: int where "rollUpMinuteToHour = 120 * 60 * 1000000000"
definition rollUpHourToDay :: int where "rollUpHourToDay = 8 * 24 * 60 * 60 * 1000000000"

lemmas rollUp_consts =
  rollUpToSecond_def rollUpSecondToMinute_def rollUpMinuteToHour_def rollUpHourToDay_def

text \<open>\<open>time.UnixMilli(ms)\<close> and \<open>Time.UnixMilli()\<close>.\<close>

definition UnixMilli :: "int \<Rightarrow> int" where "UnixMilli ms = ms * 1000000"
definition toUnixMilli :: "int \<Rightarrow> int" where "toUnixMilli t = t div 1000000"

datatype RollUpLabel =
    NO_ROLL_UP | ROLL_UP_TO_SECOND | ROLL_UP_TO_MINUTE | ROLL_UP_TO_HOUR | ROLL_UP_TO_DAY

record history =
  h_timeUnixMilli :: int
  h_delta :: int
  h_rollUp :: RollUpLabel

record counter =
  co_name :: string
  co_value :: int
  co_timeSeries :: bool
  co_history :: "history list"
  co_op :: u64

datatype MetricType = COUNTER | COUNTER_TIME_SERIES | GAUGE

definition counter_Name :: "counter \<Rightarrow> counter \<times> string" where
  "counter_Name c = (c\<lparr>co_op := co_op c + 1\<rparr>, co_name c)"

definition counter_Type :: "counter \<Rightarrow> counter \<times> MetricType" where
  "counter_Type c =
     (c\<lparr>co_op := co_op c + 1\<rparr>, if co_timeSeries c then COUNTER_TIME_SERIES else COUNTER)"

definition counter_Load :: "counter \<Rightarrow> counter \<times> int" where
  "counter_Load c = (c\<lparr>co_op := co_op c + 1\<rparr>, co_value c)"

definition counter_Store :: "counter \<Rightarrow> int \<Rightarrow> counter result" where
  "counter_Store c val = Inl (Panic ''Store() is not supported by Counter'')"

text \<open>\<open>Time.Truncate\<close>: the zero time of Go is a multiple of every duration used here.\<close>

definition truncate_time :: "int \<Rightarrow> int \<Rightarrow> int" where
  "truncate_time d t = t - t mod d"

text \<open>
  The loop of \<open>doRollUp\<close>: \<open>cur\<close> (\<open>last\<close> in the source) is the aggregate that is being built; the result is the part of the
  new history that the rest of the loop appends.
\<close>

fun rollUp_loop ::
    "RollUpLabel \<Rightarrow> RollUpLabel \<Rightarrow> int \<Rightarrow> int \<Rightarrow> int \<Rightarrow> history option \<Rightarrow> history list \<Rightarrow> history list" where
  "rollUp_loop fromLabel toLabel dur trunc now cur [] =
     (case cur of Some l \<Rightarrow> [l] | None \<Rightarrow> [])"
| "rollUp_loop fromLabel toLabel dur trunc now cur (h # hs) =
     (if h_rollUp h \<noteq> fromLabel \<or> now - UnixMilli (h_timeUnixMilli h) \<le> dur
      then (case cur of Some l \<Rightarrow> [l] | None \<Rightarrow> []) @
           h # rollUp_loop fromLabel toLabel dur trunc now None hs
      else
        let t = truncate_time trunc (h_timeUnixMilli h);
            fresh = \<lparr>h_timeUnixMilli = t, h_delta = h_delta h, h_rollUp = toLabel\<rparr>
        in (case cur of
              None \<Rightarrow> rollUp_loop fromLabel toLabel dur trunc now (Some fresh) hs
            | Some l \<Rightarrow>
                if h_timeUnixMilli l = t
                then rollUp_loop fromLabel toLabel dur trunc now
                       (Some (l\<lparr>h_delta := i64 (h_delta l + h_delta h)\<rparr>)) hs
                else l # rollUp_loop fromLabel toLabel dur trunc now (Some fresh) hs))"

definition doRollUp ::
    "RollUpLabel \<Rightarrow> RollUpLabel \<Rightarrow> int \<Rightarrow> int \<Rightarrow> int \<Rightarrow> counter \<Rightarrow> counter" where
  "doRollUp fromLabel toLabel dur trunc now c =
     c\<lparr>co_history := rollUp_loop fromLabel toLabel dur trunc now None (co_history c)\<rparr>"

definition rollUp :: "int \<Rightarrow> counter \<Rightarrow> counter" where
  "rollUp now c =
     (if co_op c mod rollUpInterval \<noteq> 0 then c
      else
        let c = doRollUp NO_ROLL_UP ROLL_UP_TO_SECOND rollUpToSecond 1000 now c;
            c = doRollUp ROLL_UP_TO_SECOND ROLL_UP_TO_SECOND rollUpToSecond 1000 now c;
            c = doRollUp ROLL_UP_TO_SECOND ROLL_UP_TO_MINUTE rollUpSecondToMinute 60000 now c;
            c = doRollUp ROLL_UP_TO_MINUTE ROLL_UP_TO_MINUTE rollUpSecondToMinute 60000 now c;
            c = doRollUp ROLL_UP_TO_MINUTE ROLL_UP_TO_HOUR rollUpMinuteToHour 3600000 now c;
            c = doRollUp ROLL_UP_TO_HOUR ROLL_UP_TO_HOUR rollUpMinuteToHour 3600000 now c;
            c = doRollUp ROLL_UP_TO_HOUR ROLL_UP_TO_DAY rollUpHourToDay 86400000 now c;
            c = doRollUp ROLL_UP_TO_DAY ROLL_UP_TO_DAY rollUpHourToDay 86400000 now c
        in c)"

definition addWithTime :: "counter \<Rightarrow> int \<Rightarrow> int \<Rightarrow> counter \<times> int" where
  "addWithTime c delta now =
     (let c = c\<lparr>co_op := co_op c + 1\<rparr>
      in if delta = 0 then (c, co_value c)
         else
           let c = c\<lparr>co_value := i64 (co_value c + delta)\<rparr>;
               c = (if co_timeSeries c
                    then rollUp now (c\<lparr>co_history := co_history c @
                           [\<lparr>h_timeUnixMilli = toUnixMilli now, h_delta = delta, h_rollUp = NO_ROLL_UP\<rparr>]\<rparr>)
                    else c)
           in (c, co_value c))"

definition counter_Add :: "counter \<Rightarrow> int \<Rightarrow> int \<Rightarrow> (counter \<times> int) result" where
  "counter_Add c delta now =
     (if delta < 0 then Inl (Panic ''Can't add a negative value to Counter'')
      else Inr (addWithTime c delta now))"

text \<open>\<open>sort.Search\<close> of the Go library: binary search for the first index where \<open>f\<close> holds.\<close>

function sort_Search_loop :: "(nat \<Rightarrow> bool) \<Rightarrow> nat \<Rightarrow> nat \<Rightarrow> nat" where
  "sort_Search_loop f i j =
     (if i < j
      then let h = (i + j) div 2
           in if \<not> f h then sort_Search_loop f (h + 1) j else sort_Search_loop f i h
      else i)"
  by auto
termination
  by (relation "measure (\<lambda>(f, i, j). j - i)") auto

declare sort_Search_loop.simps [simp del]

definition sort_Search :: "nat \<Rightarrow> (nat \<Rightarrow> bool) \<Rightarrow> nat" where
  "sort_Search n f = sort_Search_loop f 0 n"

definition DeltaBetween :: "counter \<Rightarrow> int \<Rightarrow> int \<Rightarrow> (counter \<times> int) result" where
  "DeltaBetween c t1 t2 =
     (if t2 < t1 then Inl (Panic ''t2 must be later than t1'')
      else if \<not> co_timeSeries c then Inl (Panic ''is not a time series Counter'')
      else
        let c = c\<lparr>co_op := co_op c + 1\<rparr>;
            n = length (co_history c);
            t1Idx = sort_Search n (\<lambda>i. UnixMilli (h_timeUnixMilli (co_history c ! i)) > t1);
            t2Idx = sort_Search n (\<lambda>i. UnixMilli (h_timeUnixMilli (co_history c ! i)) > t2)
        in Inr (c, foldl (\<lambda>sum i. i64 (sum + h_delta (co_history c ! i))) 0 [t1Idx..<t2Idx]))"

text \<open>\<open>None\<close> is the zero time.\<close>

definition LastUpdateTime :: "counter \<Rightarrow> (counter \<times> int option) result" where
  "LastUpdateTime c =
     (if \<not> co_timeSeries c then Inl (Panic ''is not a time series Counter'')
      else Inr (c\<lparr>co_op := co_op c + 1\<rparr>,
                if co_history c = [] then None
                else Some (UnixMilli (h_timeUnixMilli (last (co_history c))))))"

section \<open>Gauge, groups and the registry\<close>

record gauge =
  ga_name :: string
  ga_value :: int

definition gauge_Add :: "gauge \<Rightarrow> int \<Rightarrow> gauge \<times> int" where
  "gauge_Add g delta = (let g = g\<lparr>ga_value := i64 (ga_value g + delta)\<rparr> in (g, ga_value g))"

definition gauge_Store :: "gauge \<Rightarrow> int \<Rightarrow> gauge" where
  "gauge_Store g val = g\<lparr>ga_value := val\<rparr>"

datatype metric = Counter_m counter | Gauge_m gauge

record metricGroup =
  mg_name :: string
  mg_metrics :: "string \<rightharpoonup> metric"
  mg_enableLogging :: bool

type_synonym registry = "string \<rightharpoonup> metricGroup"

definition newMetric :: "string \<Rightarrow> MetricType \<Rightarrow> metric" where
  "newMetric name t =
     (case t of
        COUNTER \<Rightarrow> Counter_m \<lparr>co_name = name, co_value = 0, co_timeSeries = False, co_history = [], co_op = 0\<rparr>
      | COUNTER_TIME_SERIES \<Rightarrow>
          Counter_m \<lparr>co_name = name, co_value = 0, co_timeSeries = True, co_history = [], co_op = 0\<rparr>
      | GAUGE \<Rightarrow> Gauge_m \<lparr>ga_name = name, ga_value = 0\<rparr>)"

definition RegisterMetric :: "registry \<Rightarrow> string \<Rightarrow> string \<Rightarrow> MetricType \<Rightarrow> registry \<times> metric" where
  "RegisterMetric reg groupName metricName metricType =
     (let group = (case reg groupName of
            Some g \<Rightarrow> g
          | None \<Rightarrow> \<lparr>mg_name = groupName, mg_metrics = Map.empty, mg_enableLogging = False\<rparr>);
          group = group\<lparr>mg_enableLogging := True\<rparr>;
          m = (case mg_metrics group metricName of
                 Some m \<Rightarrow> m | None \<Rightarrow> newMetric metricName metricType);
          group = group\<lparr>mg_metrics := (mg_metrics group)(metricName \<mapsto> m)\<rparr>
      in (reg(groupName \<mapsto> group), m))"

definition GetMetricGroupByName :: "registry \<Rightarrow> string \<Rightarrow> metricGroup option" where
  "GetMetricGroupByName reg groupName = reg groupName"

definition GetMetric :: "metricGroup \<Rightarrow> string \<Rightarrow> metric option" where
  "GetMetric g name = mg_metrics g name"

definition EnableLogging :: "metricGroup \<Rightarrow> metricGroup" where
  "EnableLogging g = g\<lparr>mg_enableLogging := True\<rparr>"

definition DisableLogging :: "metricGroup \<Rightarrow> metricGroup" where
  "DisableLogging g = g\<lparr>mg_enableLogging := False\<rparr>"

section \<open>The dump format\<close>

datatype pb_MetricType = PB_UNSPECIFIED | PB_COUNTER | PB_COUNTER_TIME_SERIES | PB_GAUGE

record pb_Metric =
  pm_name :: string
  pm_type :: pb_MetricType
  pm_value :: int
  pm_history :: "history list"

text \<open>\<open>Name\<close>, \<open>Type\<close> (twice) and \<open>Load\<close> each count as an operation of a counter.\<close>

fun ToMetricPB :: "metric \<Rightarrow> metric \<times> pb_Metric" where
  "ToMetricPB (Counter_m c) =
     (Counter_m (c\<lparr>co_op := co_op c + 4\<rparr>),
      if co_timeSeries c
      then \<lparr>pm_name = co_name c, pm_type = PB_COUNTER_TIME_SERIES, pm_value = co_value c,
            pm_history = co_history c\<rparr>
      else \<lparr>pm_name = co_name c, pm_type = PB_COUNTER, pm_value = co_value c, pm_history = []\<rparr>)"
| "ToMetricPB (Gauge_m g) =
     (Gauge_m g,
      \<lparr>pm_name = ga_name g, pm_type = PB_GAUGE, pm_value = ga_value g, pm_history = []\<rparr>)"

definition loadCounterFromMetricPB :: "counter \<Rightarrow> pb_Metric \<Rightarrow> int \<Rightarrow> counter result" where
  "loadCounterFromMetricPB dst src now =
     (let (dst, name) = counter_Name dst
      in if pm_name src \<noteq> name then Inr dst
         else
           let (dst, matches) =
             (if pm_type src = PB_COUNTER
              then (let (dst, t) = counter_Type dst in (dst, t = COUNTER))
              else if pm_type src = PB_COUNTER_TIME_SERIES
              then (let (dst, t) = counter_Type dst in (dst, t = COUNTER_TIME_SERIES))
              else (dst, False))
           in if \<not> matches then Inr dst
              else
                let (dst, v) = counter_Load dst;
                    delta = Max2 0 (i64 (pm_value src - v))
                in (case counter_Add dst delta now of
                      Inl e \<Rightarrow> Inl e
                    | Inr (dst, _) \<Rightarrow> Inr (dst\<lparr>co_history := pm_history src\<rparr>)))"

definition loadGaugeFromMetricPB :: "gauge \<Rightarrow> pb_Metric \<Rightarrow> gauge" where
  "loadGaugeFromMetricPB dst src =
     (if pm_name src \<noteq> ga_name dst then dst else gauge_Store dst (pm_value src))"

definition FromMetricPB :: "pb_Metric \<Rightarrow> int \<Rightarrow> metric result" where
  "FromMetricPB src now =
     (let counter = (\<lambda>ts. case loadCounterFromMetricPB
            \<lparr>co_name = pm_name src, co_value = 0, co_timeSeries = ts, co_history = [], co_op = 0\<rparr> src now of
            Inl e \<Rightarrow> Inl e | Inr c \<Rightarrow> Inr (Counter_m c))
      in (case pm_type src of
            PB_UNSPECIFIED \<Rightarrow> Inl (Errorf ''metric type is invalid'')
          | PB_COUNTER \<Rightarrow> counter False
          | PB_COUNTER_TIME_SERIES \<Rightarrow> counter True
          | PB_GAUGE \<Rightarrow>
              Inr (Gauge_m (loadGaugeFromMetricPB \<lparr>ga_name = pm_name src, ga_value = 0\<rparr> src))))"

section \<open>The history invariant\<close>

text \<open>The unit in milliseconds that the times with a label are multiples of.\<close>

fun label_unit :: "RollUpLabel \<Rightarrow> int" where
  "label_unit NO_ROLL_UP = 1"
| "label_unit ROLL_UP_TO_SECOND = 1000"
| "label_unit ROLL_UP_TO_MINUTE = 60000"
| "label_unit ROLL_UP_TO_HOUR = 3600000"
| "label_unit ROLL_UP_TO_DAY = 86400000"

text \<open>
  An earlier entry is not later in time and not labelled finer, and times are multiples of the unit.
\<close>

definition hist_le :: "history \<Rightarrow> history \<Rightarrow> bool" where
  "hist_le g h \<longleftrightarrow> h_timeUnixMilli g \<le> h_timeUnixMilli h
     \<and> label_unit (h_rollUp h) \<le> label_unit (h_rollUp g)"

definition hist_aligned :: "history \<Rightarrow> bool" where
  "hist_aligned h \<longleftrightarrow> label_unit (h_rollUp h) dvd h_timeUnixMilli h"

definition hist_ok :: "history list \<Rightarrow> bool" where
  "hist_ok hs \<longleftrightarrow> sorted_wrt hist_le hs \<and> list_all hist_aligned hs"

definition hist_sum :: "history list \<Rightarrow> int" where
  "hist_sum hs = sum_list (map h_delta hs)"

definition opt_list :: "'a option \<Rightarrow> 'a list" where
  "opt_list x = (case x of Some l \<Rightarrow> [l] | None \<Rightarrow> [])"

lemma opt_list_simps [simp]: "opt_list None = []" "opt_list (Some x) = [x]"
  by (simp_all add: opt_list_def)

lemma label_unit_cases:
  "label_unit a \<le> label_unit b \<longleftrightarrow> label_unit a dvd label_unit b"
  by (cases a; cases b) simp_all

lemma hist_sum_simps [simp]:
  "hist_sum [] = 0" "hist_sum (h # hs) = h_delta h + hist_sum hs" "hist_sum (gs @ hs) = hist_sum gs + hist_sum hs"
  by (simp_all add: hist_sum_def)

lemma i64_tail: "i64 a = i64 b \<Longrightarrow> i64 (c + a) = i64 (c + b)"
  by (metis i64_i64(3))

lemma rollUp_loop_sum:
  "i64 (hist_sum (rollUp_loop f t d u now cur hs)) = i64 (hist_sum (opt_list cur) + hist_sum hs)"
proof (induction hs arbitrary: cur)
  case (Cons h hs)
  let ?loop = "\<lambda>cur. hist_sum (rollUp_loop f t d u now cur hs)"
  let ?new = "\<lparr>h_timeUnixMilli = truncate_time u (h_timeUnixMilli h), h_delta = h_delta h, h_rollUp = t\<rparr>"
  have none: "i64 (c + (h_delta h + ?loop None)) = i64 (c + (h_delta h + hist_sum hs))" for c
    using Cons [of None] by (intro i64_tail) simp
  have some: "i64 (c + ?loop (Some l)) = i64 (c + (h_delta l + hist_sum hs))" for c l
    using Cons [of "Some l"] by (intro i64_tail) simp
  show ?case
  proof (cases "h_rollUp h \<noteq> f \<or> now - UnixMilli (h_timeUnixMilli h) \<le> d")
    case True
    then show ?thesis using none [of 0] none by (cases cur) simp_all
  next
    case False
    show ?thesis
    proof (cases cur)
      case None
      then show ?thesis using False some [of 0 ?new] by (simp add: Let_def)
    next
      case (Some l)
      have "i64 (i64 (h_delta l + h_delta h) + hist_sum hs) = i64 (h_delta l + (h_delta h + hist_sum hs))"
        by (simp add: add.assoc)
      then show ?thesis
        using Some False some [of "h_delta l" ?new] some [of 0 "l\<lparr>h_delta := i64 (h_delta l + h_delta h)\<rparr>"]
        by (simp add: Let_def)
    qed
  qed
qed (simp add: opt_list_def split: option.split)

lemma truncate_time_props:
  "0 < d \<Longrightarrow> d dvd truncate_time d t" "0 < d \<Longrightarrow> truncate_time d t \<le> t"
  "0 < d \<Longrightarrow> s \<le> t \<Longrightarrow> truncate_time d s \<le> truncate_time d t"
  "0 < d \<Longrightarrow> d dvd s \<Longrightarrow> s \<le> t \<Longrightarrow> s \<le> truncate_time d t"
proof -
  assume d: "0 < d"
  have eq: "truncate_time d x = d * (x div d)" for x by (simp add: truncate_time_def minus_mod_eq_mult_div)
  show "d dvd truncate_time d t" by (simp add: eq)
  show "truncate_time d t \<le> t" using d by (simp add: truncate_time_def)
  show mono: "s \<le> t \<Longrightarrow> truncate_time d s \<le> truncate_time d t" for s
    using d by (simp add: eq zdiv_mono1)
  show "d dvd s \<Longrightarrow> s \<le> t \<Longrightarrow> s \<le> truncate_time d t"
    using mono [of s] by (simp add: truncate_time_def)
qed

text \<open>
  Up to the deltas, a roll-up replaces every entry by its image and merges neighbours: the times and
  labels of the result are a subsequence of those of the images.
\<close>

definition hist_key :: "history \<Rightarrow> int \<times> RollUpLabel" where
  "hist_key h = (h_timeUnixMilli h, h_rollUp h)"

definition rolled :: "RollUpLabel \<Rightarrow> int \<Rightarrow> int \<Rightarrow> history \<Rightarrow> bool" where
  "rolled f dur now h \<longleftrightarrow> h_rollUp h = f \<and> dur < now - UnixMilli (h_timeUnixMilli h)"

definition roll_image :: "RollUpLabel \<Rightarrow> RollUpLabel \<Rightarrow> int \<Rightarrow> int \<Rightarrow> int \<Rightarrow> history \<Rightarrow> history" where
  "roll_image f t dur u now h =
     (if rolled f dur now h
      then h\<lparr>h_timeUnixMilli := truncate_time u (h_timeUnixMilli h), h_rollUp := t\<rparr> else h)"

definition key_le :: "int \<times> RollUpLabel \<Rightarrow> int \<times> RollUpLabel \<Rightarrow> bool" where
  "key_le a b \<longleftrightarrow> fst a \<le> fst b \<and> label_unit (snd b) \<le> label_unit (snd a)"

definition key_aligned :: "int \<times> RollUpLabel \<Rightarrow> bool" where
  "key_aligned a \<longleftrightarrow> label_unit (snd a) dvd fst a"

lemma hist_keys: "hist_le g h = key_le (hist_key g) (hist_key h)" "hist_aligned h = key_aligned (hist_key h)"
  by (simp_all add: hist_le_def key_le_def hist_key_def hist_aligned_def key_aligned_def)

lemma hist_le_eq: "hist_le = (\<lambda>g h. key_le (hist_key g) (hist_key h))"
  by (intro ext) (rule hist_keys(1))

lemma subseq_skip_second: "subseq xs (a # ys) \<Longrightarrow> subseq xs (a # b # ys)"
  by (erule subseq_order.trans) (simp add: list_emb_Cons)

lemma rollUp_loop_keys:
  "subseq (map hist_key (rollUp_loop f t d u now cur hs))
     (map hist_key (opt_list cur @ map (roll_image f t d u now) hs))"
proof (induction hs arbitrary: cur)
  case Nil
  then show ?case by (cases cur) simp_all
next
  case (Cons h hs)
  note IH = Cons.IH [of None] Cons.IH [of "Some _"]
  show ?case
  proof (cases "rolled f d now h")
    case False
    then have "h_rollUp h \<noteq> f \<or> now - UnixMilli (h_timeUnixMilli h) \<le> d"
      by (auto simp: rolled_def)
    with False IH(1) show ?thesis by (cases cur) (simp_all add: roll_image_def)
  next
    case True
    let ?h = "\<lparr>h_timeUnixMilli = truncate_time u (h_timeUnixMilli h), h_delta = h_delta h, h_rollUp = t\<rparr>"
    have key: "hist_key (roll_image f t d u now h) = hist_key ?h"
      using True by (simp add: roll_image_def hist_key_def)
    have c: "\<not> (h_rollUp h \<noteq> f \<or> now - UnixMilli (h_timeUnixMilli h) \<le> d)"
      using True by (auto simp: rolled_def)
    show ?thesis
    proof (cases cur)
      case None
      then show ?thesis using c key IH(2) [of ?h] by (simp add: Let_def)
    next
      case (Some l)
      have "hist_key (l\<lparr>h_delta := x\<rparr>) = hist_key l" for x by (simp add: hist_key_def)
      then show ?thesis
        using c key Some IH(2) [of ?h] IH(2) [of "l\<lparr>h_delta := i64 (h_delta l + h_delta h)\<rparr>"]
        by (auto simp: Let_def intro: subseq_skip_second)
    qed
  qed
qed

lemma subseq_subset: "subseq xs ys \<Longrightarrow> set xs \<subseteq> set ys"
  by (induction rule: list_emb.induct) auto

lemma sorted_wrt_subseq: "subseq xs ys \<Longrightarrow> sorted_wrt P ys \<Longrightarrow> sorted_wrt P xs"
proof (induction rule: list_emb.induct)
  case (list_emb_Cons2 x y xs ys)
  then have "set xs \<subseteq> set ys" by (simp add: subseq_subset)
  with list_emb_Cons2 show ?case by auto
qed auto

lemma roll_images_sorted:
  assumes "hist_ok hs" and u: "u = label_unit t"
    and nxt: "\<And>l. label_unit f < label_unit l \<Longrightarrow> label_unit t \<le> label_unit l"
    and ft: "label_unit f \<le> label_unit t"
  shows "sorted_wrt hist_le (map (roll_image f t d u now) hs)"
proof -
  have u0: "0 < u" unfolding u by (cases t) simp_all
  have "hist_le (roll_image f t d u now g) (roll_image f t d u now h)"
    if "hist_le g h" "hist_aligned g" for g h
  proof (cases "rolled f d now h")
    case h: True
    show ?thesis
    proof (cases "rolled f d now g")
      case True
      with h that u0 show ?thesis by (simp add: roll_image_def hist_le_def truncate_time_props)
    next
      case False
      with h that(1) have "label_unit f < label_unit (h_rollUp g)"
        by (cases f; cases "h_rollUp g") (auto simp: rolled_def hist_le_def UnixMilli_def)
      then have "label_unit t \<le> label_unit (h_rollUp g)" by (rule nxt)
      then have "u dvd h_timeUnixMilli g"
        using that(2) by (auto simp: u label_unit_cases hist_aligned_def intro: dvd_trans)
      with h False that u0 \<open>label_unit t \<le> label_unit (h_rollUp g)\<close> show ?thesis
        by (simp add: roll_image_def hist_le_def truncate_time_props)
    qed
  next
    case False
    then show ?thesis
      using that truncate_time_props(2) [OF u0, of "h_timeUnixMilli g"] ft
      by (auto simp: roll_image_def hist_le_def rolled_def)
  qed
  moreover have "sorted_wrt hist_le hs" "list_all hist_aligned hs" using assms(1) by (simp_all add: hist_ok_def)
  ultimately show ?thesis by (induction hs) auto
qed

lemma doRollUp_ok:
  assumes "hist_ok (co_history c)" "u = label_unit t" "label_unit f \<le> label_unit t"
    and "\<And>l. label_unit f < label_unit l \<Longrightarrow> label_unit t \<le> label_unit l"
    and "list_all (\<lambda>h. h_timeUnixMilli h \<le> m) (co_history c)"
  shows "hist_ok (co_history (doRollUp f t d u now c))"
    and "i64 (hist_sum (co_history (doRollUp f t d u now c))) = i64 (hist_sum (co_history c))"
    and "list_all (\<lambda>h. h_timeUnixMilli h \<le> m) (co_history (doRollUp f t d u now c))"
proof -
  let ?hs = "co_history c" and ?im = "roll_image f t d u now"
  let ?r = "rollUp_loop f t d u now None ?hs"
  have u0: "0 < u" unfolding assms(2) by (cases t) simp_all
  have sub: "subseq (map hist_key ?r) (map hist_key (map ?im ?hs))"
    using rollUp_loop_keys [of f t d u now None ?hs] by simp
  have keys: "\<exists>g \<in> set ?hs. hist_key h = hist_key (?im g)" if "h \<in> set ?r" for h
    using subseq_subset [OF sub] that by auto
  have "sorted_wrt key_le (map hist_key (map ?im ?hs))"
    using roll_images_sorted [OF assms(1,2,4,3), of d now] by (simp add: sorted_wrt_map hist_le_eq)
  from sorted_wrt_subseq [OF sub this] have "sorted_wrt hist_le ?r"
    by (simp add: sorted_wrt_map hist_le_eq)
  moreover have al: "hist_aligned (?im g)" "h_timeUnixMilli (?im g) \<le> h_timeUnixMilli g" if "g \<in> set ?hs" for g
    using assms(1) that u0 truncate_time_props(1,2) [OF u0, of "h_timeUnixMilli g"]
    by (auto simp: roll_image_def hist_aligned_def hist_ok_def list_all_iff assms(2) simp del: label_unit.simps)
  then have "list_all hist_aligned ?r"
    using keys by (fastforce simp: list_all_iff hist_keys)
  ultimately show "hist_ok (co_history (doRollUp f t d u now c))"
    by (simp add: doRollUp_def hist_ok_def)
  show "i64 (hist_sum (co_history (doRollUp f t d u now c))) = i64 (hist_sum (co_history c))"
    by (simp add: doRollUp_def rollUp_loop_sum)
  have "h_timeUnixMilli h \<le> m" if "h \<in> set ?r" for h
    using keys [OF that] al(2) assms(5) by (force simp: hist_key_def list_all_iff)
  then show "list_all (\<lambda>h. h_timeUnixMilli h \<le> m) (co_history (doRollUp f t d u now c))"
    by (simp add: doRollUp_def list_all_iff)
qed

definition counter_inv :: "int \<Rightarrow> counter \<Rightarrow> bool" where
  "counter_inv now c \<longleftrightarrow> hist_ok (co_history c) \<and> i64 (hist_sum (co_history c)) = co_value c
     \<and> list_all (\<lambda>h. h_timeUnixMilli h \<le> toUnixMilli now) (co_history c)"

lemma doRollUp_frame [simp]:
  "co_value (doRollUp f t d u now c) = co_value c" "co_timeSeries (doRollUp f t d u now c) = co_timeSeries c"
  "co_op (doRollUp f t d u now c) = co_op c" "co_name (doRollUp f t d u now c) = co_name c"
  by (simp_all add: doRollUp_def)

lemma doRollUp_inv:
  assumes "counter_inv m c" "u = label_unit t" "label_unit f \<le> label_unit t"
    and "\<And>l. label_unit f < label_unit l \<Longrightarrow> label_unit t \<le> label_unit l"
  shows "counter_inv m (doRollUp f t d u now c)"
  using assms doRollUp_ok [of c u t f "toUnixMilli m" d now] by (simp add: counter_inv_def)

lemma rollUp_inv: "counter_inv m c \<Longrightarrow> counter_inv m (rollUp now c)"
proof -
  have "label_unit NO_ROLL_UP < label_unit l \<Longrightarrow> label_unit ROLL_UP_TO_SECOND \<le> label_unit l"
    "label_unit ROLL_UP_TO_SECOND < label_unit l \<Longrightarrow> label_unit ROLL_UP_TO_MINUTE \<le> label_unit l"
    "label_unit ROLL_UP_TO_MINUTE < label_unit l \<Longrightarrow> label_unit ROLL_UP_TO_HOUR \<le> label_unit l"
    "label_unit ROLL_UP_TO_HOUR < label_unit l \<Longrightarrow> label_unit ROLL_UP_TO_DAY \<le> label_unit l" for l
    by (cases l; simp)+
  then show "counter_inv m c \<Longrightarrow> counter_inv m (rollUp now c)"
    unfolding rollUp_def Let_def
    by (auto intro!: doRollUp_inv simp del: label_unit.simps) (simp_all add: order_less_imp_le)
qed

lemma rollUp_frame [simp]:
  "co_value (rollUp now c) = co_value c" "co_timeSeries (rollUp now c) = co_timeSeries c"
  "co_name (rollUp now c) = co_name c"
  by (simp_all add: rollUp_def Let_def)

lemma addWithTime_inv:
  assumes "counter_inv m c" "co_timeSeries c" "m \<le> now"
  shows "counter_inv now (fst (addWithTime c delta now))"
    and "co_timeSeries (fst (addWithTime c delta now))"
    and "co_value (fst (addWithTime c delta now)) = i64 (co_value c + delta)"
proof -
  have mono: "toUnixMilli m \<le> toUnixMilli now" using assms(3) by (simp add: toUnixMilli_def zdiv_mono1)
  then have "counter_inv now (c\<lparr>co_op := n\<rparr>)" for n
    using assms(1) by (fastforce simp: counter_inv_def list_all_iff)
  moreover have "counter_inv now (c\<lparr>co_op := n, co_value := i64 (co_value c + delta), co_history := co_history c @
      [\<lparr>h_timeUnixMilli = toUnixMilli now, h_delta = delta, h_rollUp = NO_ROLL_UP\<rparr>]\<rparr>)" if "delta \<noteq> 0" for n
  proof -
    have "1 \<le> label_unit l" for l by (cases l) simp_all
    moreover have "i64 (hist_sum (co_history c) + delta) = i64 (co_value c + delta)"
      using assms(1) by (metis counter_inv_def i64_i64(2))
    ultimately show ?thesis
      using assms mono
      by (auto simp: counter_inv_def hist_ok_def sorted_wrt_append hist_le_def hist_aligned_def
          list_all_iff intro: order_trans)
  qed
  ultimately show "counter_inv now (fst (addWithTime c delta now))"
    using assms(2) by (simp add: addWithTime_def Let_def rollUp_inv)
  show "co_timeSeries (fst (addWithTime c delta now))"
    "co_value (fst (addWithTime c delta now)) = i64 (co_value c + delta)"
    using assms(1,2) i64_i64(1) [of "hist_sum (co_history c)"] by (simp_all add: addWithTime_def Let_def counter_inv_def)
qed

section \<open>Binary search\<close>

lemma sort_Search_loop_spec:
  assumes "\<And>x y. x \<le> y \<Longrightarrow> y < n \<Longrightarrow> f x \<Longrightarrow> f y"
    and "i \<le> j" "j \<le> n" "\<And>x. x < i \<Longrightarrow> \<not> f x" "\<And>x. j \<le> x \<Longrightarrow> x < n \<Longrightarrow> f x"
  shows "i \<le> sort_Search_loop f i j \<and> sort_Search_loop f i j \<le> j
     \<and> (\<forall>x < n. f x \<longleftrightarrow> sort_Search_loop f i j \<le> x)"
  using assms
proof (induction f i j rule: sort_Search_loop.induct)
  case (1 f i j)
  define h where "h = (i + j) div 2"
  show ?case
  proof (cases "i < j")
    case False
    then have e: "sort_Search_loop f i j = i" by (subst sort_Search_loop.simps) simp
    have "f x \<longleftrightarrow> i \<le> x" if "x < n" for x
      using "1.prems"(2) "1.prems"(4) [of x] "1.prems"(5) [of x] False that by (cases "i \<le> x") simp_all
    with e "1.prems"(2) show ?thesis by simp
  next
    case True
    then have h: "i \<le> h" "h < j" by (auto simp: h_def)
    show ?thesis
    proof (cases "f h")
      case t: True
      have "i \<le> sort_Search_loop f i h \<and> sort_Search_loop f i h \<le> h
          \<and> (\<forall>x < n. f x \<longleftrightarrow> sort_Search_loop f i h \<le> x)"
      proof (rule 1(2) [OF True h_def])
        show "f x" if "h \<le> x" "x < n" for x using "1.prems"(1) t that by blast
      qed (use t h "1.prems" in \<open>simp_all\<close>)
      moreover have "sort_Search_loop f i j = sort_Search_loop f i h"
        using True t by (subst sort_Search_loop.simps) (simp add: h_def)
      ultimately show ?thesis using h by simp
    next
      case t: False
      then have "\<not> f x" if "x < h + 1" for x
        using "1.prems"(1) [of x h] that h "1.prems"(3) by auto
      then have "h + 1 \<le> sort_Search_loop f (h + 1) j \<and> sort_Search_loop f (h + 1) j \<le> j
          \<and> (\<forall>x < n. f x \<longleftrightarrow> sort_Search_loop f (h + 1) j \<le> x)"
        using 1(1) [OF True h_def t "1.prems"(1)] h "1.prems"(3,5) by simp
      moreover have "sort_Search_loop f i j = sort_Search_loop f (h + 1) j"
        using True t by (subst sort_Search_loop.simps) (simp add: h_def)
      ultimately show ?thesis using h by simp
    qed
  qed
qed

lemma sort_Search_spec:
  assumes "\<And>x y. x \<le> y \<Longrightarrow> y < n \<Longrightarrow> f x \<Longrightarrow> f y"
  shows "sort_Search n f \<le> n" "x < n \<Longrightarrow> f x \<longleftrightarrow> sort_Search n f \<le> x"
  using sort_Search_loop_spec [of n f 0 n] assms by (auto simp: sort_Search_def)

lemma filter_upt: "b \<le> n \<Longrightarrow> filter (\<lambda>i. a \<le> i \<and> i < b) [0..<n] = [a..<b]"
  by (rule sorted_distinct_set_unique) (auto simp: sorted_wrt_filter)

lemma filter_interval:
  assumes "b \<le> length xs" "\<And>i. i < length xs \<Longrightarrow> P (xs ! i) \<longleftrightarrow> a \<le> i \<and> i < b"
  shows "filter P xs = map ((!) xs) [a..<b]"
proof -
  have "filter P xs = filter P (map ((!) xs) [0..<length xs])" by (simp add: map_nth)
  also have "\<dots> = map ((!) xs) (filter (\<lambda>i. P (xs ! i)) [0..<length xs])"
    by (simp add: filter_map comp_def)
  also have "filter (\<lambda>i. P (xs ! i)) [0..<length xs] = filter (\<lambda>i. a \<le> i \<and> i < b) [0..<length xs]"
    using assms(2) by (intro filter_cong) auto
  finally show ?thesis using assms(1) by (simp add: filter_upt)
qed

lemma foldl_i64: "foldl (\<lambda>sum i. i64 (sum + f i)) 0 is = i64 (sum_list (map f is))"
proof -
  have "foldl (\<lambda>sum i. i64 (sum + f i)) (i64 a) is = i64 (a + sum_list (map f is))" for a
    by (induction "is" arbitrary: a) (simp_all add: add.assoc)
  from this [of 0] show ?thesis by (simp add: i64_id)
qed

lemma DeltaBetween_filter:
  assumes "hist_ok (co_history c)" "co_timeSeries c" "t1 \<le> t2"
  shows "\<exists>c'. DeltaBetween c t1 t2 = Inr (c', i64 (hist_sum (filter
     (\<lambda>h. t1 < UnixMilli (h_timeUnixMilli h) \<and> UnixMilli (h_timeUnixMilli h) \<le> t2) (co_history c))))"
proof -
  let ?hs = "co_history c" and ?T = "\<lambda>i. UnixMilli (h_timeUnixMilli (co_history c ! i))"
  have mono: "?T x \<le> ?T y" if "x \<le> y" "y < length ?hs" for x y
    using assms(1) that by (cases "x = y") (auto simp: hist_ok_def sorted_wrt_iff_nth_less hist_le_def UnixMilli_def)
  define a where "a = sort_Search (length ?hs) (\<lambda>i. ?T i > t1)"
  define b where "b = sort_Search (length ?hs) (\<lambda>i. ?T i > t2)"
  have a: "x < length ?hs \<Longrightarrow> ?T x > t1 \<longleftrightarrow> a \<le> x" for x
    unfolding a_def by (rule sort_Search_spec(2)) (use mono in \<open>auto intro: less_le_trans\<close>)
  have b: "b \<le> length ?hs" "x < length ?hs \<Longrightarrow> ?T x > t2 \<longleftrightarrow> b \<le> x" for x
    unfolding b_def by (rule sort_Search_spec; use mono in \<open>auto intro: less_le_trans\<close>)+
  have "filter (\<lambda>h. t1 < UnixMilli (h_timeUnixMilli h) \<and> UnixMilli (h_timeUnixMilli h) \<le> t2) ?hs
      = map ((!) ?hs) [a..<b]"
  proof (rule filter_interval [OF b(1)])
    fix i assume "i < length ?hs"
    from a [OF this] b(2) [OF this] show "t1 < ?T i \<and> ?T i \<le> t2 \<longleftrightarrow> a \<le> i \<and> i < b" by auto
  qed
  then show ?thesis
    using assms(2,3) by (simp add: DeltaBetween_def Let_def hist_sum_def comp_def a_def b_def foldl_i64)
qed

section \<open>Properties\<close>

fun counter_run :: "counter \<Rightarrow> (int \<times> int) list \<Rightarrow> counter" where
  "counter_run c [] = c"
| "counter_run c ((delta, now) # xs) = counter_run (fst (addWithTime c delta now)) xs"

lemma counter_run_inv:
  "counter_inv m c \<Longrightarrow> co_timeSeries c \<Longrightarrow> sorted (m # map snd xs)
    \<Longrightarrow> hist_ok (co_history (counter_run c xs))
      \<and> i64 (hist_sum (co_history (counter_run c xs))) = co_value (counter_run c xs)
      \<and> co_timeSeries (counter_run c xs)
      \<and> co_value (counter_run c xs) = i64 (co_value c + sum_list (map fst xs))"
proof (induction xs arbitrary: m c)
  case Nil
  then have "i64 (co_value c) = co_value c" by (metis counter_inv_def i64_i64(1))
  with Nil show ?case by (simp add: counter_inv_def)
next
  case (Cons x xs)
  obtain d t where x: "x = (d, t)" by fastforce
  note add = addWithTime_inv [of m c t d]
  have "sorted (t # map snd xs)" "m \<le> t" using Cons.prems x by auto
  with Cons.IH [of t "fst (addWithTime c d t)"] add Cons.prems x show ?case by (simp add: add.assoc)
qed



text \<open>
  A metric survives the dump: for every metric with a non-negative 64-bit value (a counter has
  another one only after an overflow), \<open>FromMetricPB\<close> of \<open>ToMetricPB\<close> gives a metric with the same name, value, type and, for
  a time series, the same history.
\<close>

fun same_metric :: "metric \<Rightarrow> metric \<Rightarrow> bool" where
  "same_metric (Counter_m c) (Counter_m d) \<longleftrightarrow> co_name c = co_name d \<and> co_value c = co_value d
     \<and> co_timeSeries c = co_timeSeries d \<and> (co_timeSeries c \<longrightarrow> co_history c = co_history d)"
| "same_metric (Gauge_m g) (Gauge_m h) \<longleftrightarrow> g = h"
| "same_metric _ _ \<longleftrightarrow> False"

fun metric_value_ok :: "metric \<Rightarrow> bool" where
  "metric_value_ok (Counter_m c) \<longleftrightarrow> 0 \<le> co_value c \<and> co_value c < 2 ^ 63"
| "metric_value_ok (Gauge_m g) \<longleftrightarrow> True"

theorem metric_dump_roundtrip:
  assumes "metric_value_ok m"
  shows "\<exists>m'. FromMetricPB (snd (ToMetricPB m)) now = Inr m' \<and> same_metric m m'"
proof (cases m)
  case (Counter_m c)
  then show ?thesis
    using assms
    by (simp add: FromMetricPB_def loadCounterFromMetricPB_def counter_Name_def counter_Type_def
        counter_Load_def counter_Add_def addWithTime_def Let_def i64_id split: prod.split)
next
  case (Gauge_m g)
  then show ?thesis
    by (simp add: FromMetricPB_def loadGaugeFromMetricPB_def gauge_Store_def Let_def)
qed

theorem metric_dump_roundtrip_witness:
  "\<exists>m'. FromMetricPB (snd (ToMetricPB (Counter_m \<lparr>co_name = ''x'', co_value = 5, co_timeSeries = True,
       co_history = [\<lparr>h_timeUnixMilli = 9, h_delta = 5, h_rollUp = NO_ROLL_UP\<rparr>], co_op = 3\<rparr>))) 77 = Inr m'"
  using metric_dump_roundtrip [of "Counter_m \<lparr>co_name = ''x'', co_value = 5, co_timeSeries = True,
       co_history = [\<lparr>h_timeUnixMilli = 9, h_delta = 5, h_rollUp = NO_ROLL_UP\<rparr>], co_op = 3\<rparr>" 77] by auto

end
