(* ===== verification/Segment.thy ===== *)
theory Segment
  imports Padding
begin

text \<open>
  Segments and the segment tree of \<open>src/pkg/protocol/segment.go\<close>. The B-tree that stores the segments
  (\<open>github.com/google/btree\<close>) is an argument \<open>bt\<close>: for a comparison, a record of the operations of the
  trees that it makes, with the documented contract \<open>btree_ok\<close>. The segment tree passes its own
  comparison, \<open>segmentLessFunc\<close>. The two event channels of a segment tree have capacity one and are booleans.
  The tree holds pointers: where the source changes a segment during an iteration, the model puts
  the changed segment, which has the same sequence number, in the place of the old one.
\<close>

section \<open>Segment\<close>

record segment =
  seg_metadata :: metadata
  seg_payload :: bytes
  seg_transport :: TransportProtocol
  seg_ackCount :: u8
  seg_txCount :: u8
  seg_txTime :: int
  seg_txTimeout :: int
  seg_block :: "aeadBlockCipher option"

definition seg_Protocol :: "segment \<Rightarrow> u8" where
  "seg_Protocol s = metadata_Protocol (seg_metadata s)"

definition seg_SessionID :: "segment \<Rightarrow> u32 result" where
  "seg_SessionID s =
     (case seg_metadata s of
        DataAck_md das \<Rightarrow> Inr (das_sessionID das)
      | Session_md ss \<Rightarrow> Inr (ss_sessionID ss))"

definition seg_Seq :: "segment \<Rightarrow> u32 result" where
  "seg_Seq s =
     (case seg_metadata s of
        DataAck_md das \<Rightarrow> Inr (das_seq das)
      | Session_md ss \<Rightarrow> Inr (ss_seq ss))"

text \<open>The sequence number, where the source drops the error of \<open>Seq()\<close>.\<close>

definition seq_of :: "segment \<Rightarrow> u32" where
  "seq_of s = (case seg_Seq s of Inr n \<Rightarrow> n | Inl e \<Rightarrow> 0)"

definition seg_Fragment :: "segment \<Rightarrow> u8" where
  "seg_Fragment s =
     (case seg_metadata s of DataAck_md das \<Rightarrow> das_fragment das | Session_md ss \<Rightarrow> 0)"

definition seg_Less :: "segment \<Rightarrow> segment \<Rightarrow> bool result" where
  "seg_Less s other =
     (case seg_Seq s of
        Inl e \<Rightarrow> Inl (Panic ''Seq() failed'')
      | Inr mySeq \<Rightarrow>
          (case seg_Seq other of
             Inl e \<Rightarrow> Inl (Panic ''Seq() failed'')
           | Inr otherSeq \<Rightarrow> Inr (mySeq < otherSeq)))"

lemma seg_Less_seq: "seg_Less s t = Inr (seq_of s < seq_of t)"
  by (cases "seg_metadata s"; cases "seg_metadata t") (simp_all add: seg_Less_def seq_of_def seg_Seq_def)

definition segmentLessFunc :: "segment \<Rightarrow> segment \<Rightarrow> bool result" where
  "segmentLessFunc a b = seg_Less a b"

section \<open>The B-tree\<close>

record 't btree_ops =
  bt_New :: 't
  bt_Len :: "'t \<Rightarrow> nat"
  bt_ReplaceOrInsert :: "'t \<Rightarrow> segment \<Rightarrow> 't \<times> segment option"
  bt_DeleteMin :: "'t \<Rightarrow> 't \<times> segment option"
  bt_Min :: "'t \<Rightarrow> segment option"
  bt_Max :: "'t \<Rightarrow> segment option"
  bt_Clear :: "'t \<Rightarrow> 't"
  bt_Items :: "'t \<Rightarrow> segment list"   \<comment> \<open>what \<open>Ascend\<close> visits, in order\<close>

text \<open>
  The library: the comparison that \<open>btree.NewG\<close> is given decides the operations of the trees that it
  makes.
\<close>

type_synonym 't btree = "(segment \<Rightarrow> segment \<Rightarrow> bool) \<Rightarrow> 't btree_ops"

text \<open>Insertion into a list in ascending order, replacing an item that is neither less nor greater.\<close>

fun insert_by :: "('a \<Rightarrow> 'a \<Rightarrow> bool) \<Rightarrow> 'a \<Rightarrow> 'a list \<Rightarrow> 'a list" where
  "insert_by lt s [] = [s]"
| "insert_by lt s (x # xs) =
     (if lt s x then s # x # xs
      else if lt x s then x # insert_by lt s xs
      else s # xs)"

text \<open>A strict weak order, which the library asks of the comparison.\<close>

definition strict_weak_order :: "('a \<Rightarrow> 'a \<Rightarrow> bool) \<Rightarrow> bool" where
  "strict_weak_order lt \<longleftrightarrow> (\<forall>a. \<not> lt a a) \<and> (\<forall>a b c. lt a b \<longrightarrow> lt b c \<longrightarrow> lt a c)
     \<and> (\<forall>a b c. lt a b \<longrightarrow> lt a c \<or> lt c b)"

text \<open>
  The documented contract, for every comparison that is a strict weak order: the items are kept in
  ascending order, \<open>ReplaceOrInsert\<close> adds an item or replaces the one that is equal to it and returns
  that one, \<open>DeleteMin\<close>, \<open>Min\<close> and \<open>Max\<close> work on the ends, \<open>Clear\<close> removes all.
\<close>

definition btree_laws :: "(segment \<Rightarrow> segment \<Rightarrow> bool) \<Rightarrow> 't btree_ops \<Rightarrow> bool" where
  "btree_laws lt bt \<longleftrightarrow>
     bt_Items bt (bt_New bt) = []
   \<and> (\<forall>t. sorted_wrt lt (bt_Items bt t) \<and> bt_Len bt t = length (bt_Items bt t)
        \<and> bt_Items bt (bt_Clear bt t) = []
        \<and> bt_Min bt t = (case bt_Items bt t of [] \<Rightarrow> None | x # _ \<Rightarrow> Some x)
        \<and> bt_Max bt t = (if bt_Items bt t = [] then None else Some (last (bt_Items bt t)))
        \<and> snd (bt_DeleteMin bt t) = bt_Min bt t
        \<and> bt_Items bt (fst (bt_DeleteMin bt t)) = tl (bt_Items bt t)
        \<and> (\<forall>s. bt_Items bt (fst (bt_ReplaceOrInsert bt t s)) = insert_by lt s (bt_Items bt t)
             \<and> snd (bt_ReplaceOrInsert bt t s) = find (\<lambda>x. \<not> lt x s \<and> \<not> lt s x) (bt_Items bt t)))"

definition btree_ok :: "'t btree \<Rightarrow> bool" where
  "btree_ok bt \<longleftrightarrow> (\<forall>lt. strict_weak_order lt \<longrightarrow> btree_laws lt (bt lt))"

section \<open>The segment tree\<close>

text \<open>The operations of the trees that \<open>btree.NewG(4, segmentLessFunc)\<close> makes.\<close>

definition segmentOps :: "'t btree \<Rightarrow> 't btree_ops" where
  "segmentOps bt = bt (\<lambda>a b. segmentLessFunc a b = Inr True)"

record 't segmentTree =
  st_tr :: 't
  st_cap :: int
  st_chanEmptyEvent :: bool
  st_chanNotEmptyEvent :: bool

definition newSegmentTree :: "'t btree \<Rightarrow> int \<Rightarrow> 't segmentTree result" where
  "newSegmentTree bt capacity =
     (if capacity \<le> 0 then Inl (Panic ''segment tree capacity is <= 0'')
      else Inr \<lparr>st_tr = bt_New (segmentOps bt), st_cap = capacity, st_chanEmptyEvent = False,
        st_chanNotEmptyEvent = False\<rparr>)"

definition notifyEmpty :: "'t segmentTree \<Rightarrow> 't segmentTree" where
  "notifyEmpty t = t\<lparr>st_chanEmptyEvent := True\<rparr>"

definition notifyNotEmpty :: "'t segmentTree \<Rightarrow> 't segmentTree" where
  "notifyNotEmpty t = t\<lparr>st_chanNotEmptyEvent := True\<rparr>"

definition st_Len :: "'t btree \<Rightarrow> 't segmentTree \<Rightarrow> int" where
  "st_Len bt t = int (bt_Len (segmentOps bt) (st_tr t))"

definition Remaining :: "'t btree \<Rightarrow> 't segmentTree \<Rightarrow> int" where
  "Remaining bt t = st_cap t - int (bt_Len (segmentOps bt) (st_tr t))"

definition checkProtocolType :: "segment \<Rightarrow> bool" where
  "checkProtocolType seg \<longleftrightarrow>
     seg_Protocol seg \<in> {openSessionRequest, openSessionResponse, closeSessionRequest,
       closeSessionResponse, dataClientToServer, dataServerToClient}"

definition Insert :: "'t btree \<Rightarrow> 't segmentTree \<Rightarrow> segment \<Rightarrow> ('t segmentTree \<times> bool) result" where
  "Insert bt t seg =
     (case seg_Seq seg of
        Inl e \<Rightarrow> Inl (Panic ''Failed to get sequence number'')
      | Inr _ \<Rightarrow>
          if \<not> checkProtocolType seg
          then Inl (Panic ''Inserting segment with unsupported type to the segment tree'')
          else if int (bt_Len (segmentOps bt) (st_tr t)) \<ge> st_cap t then Inr (notifyNotEmpty t, False)
          else
            let (tr, prev) = bt_ReplaceOrInsert (segmentOps bt) (st_tr t) seg;
                t = t\<lparr>st_tr := tr\<rparr>
            in Inr (if prev \<noteq> None then t else notifyNotEmpty t, True))"

definition notifyLen :: "'t btree \<Rightarrow> 't segmentTree \<Rightarrow> 't segmentTree" where
  "notifyLen bt t = (if bt_Len (segmentOps bt) (st_tr t) > 0 then notifyNotEmpty t else notifyEmpty t)"

definition st_DeleteMin :: "'t btree \<Rightarrow> 't segmentTree \<Rightarrow> ('t segmentTree \<times> segment option) result" where
  "st_DeleteMin bt t =
     (if bt_Len (segmentOps bt) (st_tr t) = 0 then Inr (t, None)
      else
        (case bt_DeleteMin (segmentOps bt) (st_tr t) of
           (tr, None) \<Rightarrow> Inl (Panic ''segmentTree.DeleteMin() is called when the tree is empty'')
         | (tr, Some seg) \<Rightarrow> Inr (notifyLen bt (t\<lparr>st_tr := tr\<rparr>), Some seg)))"

text \<open>\<open>DeleteMinIf\<close> returns the smallest segment, and whether it was deleted.\<close>

definition DeleteMinIf ::
    "'t btree \<Rightarrow> 't segmentTree \<Rightarrow> (segment \<Rightarrow> bool) \<Rightarrow> ('t segmentTree \<times> segment option \<times> bool) result" where
  "DeleteMinIf bt t si =
     (if bt_Len (segmentOps bt) (st_tr t) = 0 then Inr (t, None, False)
      else
        (case bt_Min (segmentOps bt) (st_tr t) of
           None \<Rightarrow> Inl (Panic ''segmentTree.Min() is called when the tree is empty'')
         | Some seg \<Rightarrow>
             if si seg
             then (case bt_DeleteMin (segmentOps bt) (st_tr t) of
                     (tr, None) \<Rightarrow> Inl (Panic ''segmentTree.DeleteMin() is called when the tree is empty'')
                   | (tr, Some seg) \<Rightarrow> Inr (notifyLen bt (t\<lparr>st_tr := tr\<rparr>), Some seg, True))
             else Inr (notifyLen bt t, Some seg, False)))"

definition DeleteAll :: "'t btree \<Rightarrow> 't segmentTree \<Rightarrow> 't segmentTree" where
  "DeleteAll bt t = notifyEmpty (t\<lparr>st_tr := bt_Clear (segmentOps bt) (st_tr t)\<rparr>)"

text \<open>
  \<open>Ascend\<close> with an iterator that threads a state, may change the segment, and says whether to go on.
\<close>

fun ascend_loop ::
    "(segment \<Rightarrow> 'a \<Rightarrow> segment \<times> 'a \<times> bool) \<Rightarrow> segment list \<Rightarrow> 'a \<Rightarrow> segment list \<times> 'a" where
  "ascend_loop si [] a = ([], a)"
| "ascend_loop si (x # xs) a =
     (case si x a of
        (x', a', go) \<Rightarrow>
          if go then (case ascend_loop si xs a' of (ys, a'') \<Rightarrow> (x' # ys, a'')) else ([x'], a'))"

definition Ascend ::
    "'t btree \<Rightarrow> 't segmentTree \<Rightarrow> (segment \<Rightarrow> 'a \<Rightarrow> segment \<times> 'a \<times> bool) \<Rightarrow> 'a \<Rightarrow> 't segmentTree \<times> 'a" where
  "Ascend bt t si a =
     (if bt_Len (segmentOps bt) (st_tr t) = 0 then (t, a)
      else
        let (changed, a) = ascend_loop si (bt_Items (segmentOps bt) (st_tr t)) a
        in (t\<lparr>st_tr := foldl (\<lambda>tr x. fst (bt_ReplaceOrInsert (segmentOps bt) tr x)) (st_tr t) changed\<rparr>, a))"

definition MinSeq :: "'t btree \<Rightarrow> 't segmentTree \<Rightarrow> u32 result" where
  "MinSeq bt t = (case bt_Min (segmentOps bt) (st_tr t) of None \<Rightarrow> Inl ErrEmpty | Some seg \<Rightarrow> seg_Seq seg)"

definition MaxSeq :: "'t btree \<Rightarrow> 't segmentTree \<Rightarrow> u32 result" where
  "MaxSeq bt t = (case bt_Max (segmentOps bt) (st_tr t) of None \<Rightarrow> Inl ErrEmpty | Some seg \<Rightarrow> seg_Seq seg)"

section \<open>The order of the segments\<close>

text \<open>In terms of the sequence numbers: an ascending list, and insertion into it.\<close>

definition ascending :: "segment list \<Rightarrow> bool" where
  "ascending xs \<longleftrightarrow> sorted_wrt (\<lambda>a b. seq_of a < seq_of b) xs"

fun seg_insert :: "segment \<Rightarrow> segment list \<Rightarrow> segment list" where
  "seg_insert s [] = [s]"
| "seg_insert s (x # xs) =
     (if seq_of s < seq_of x then s # x # xs
      else if seq_of s = seq_of x then s # xs
      else x # seg_insert s xs)"

lemma segmentLessFunc_seq: "(\<lambda>a b. segmentLessFunc a b = Inr True) = (\<lambda>a b. seq_of a < seq_of b)"
  by (simp add: segmentLessFunc_def seg_Less_seq)

lemma insert_by_seq: "insert_by (\<lambda>a b. seq_of a < seq_of b) s xs = seg_insert s xs"
  by (induction xs) auto

lemma segmentLessFunc_order: "strict_weak_order (\<lambda>a b. segmentLessFunc a b = Inr True)"
  unfolding segmentLessFunc_seq strict_weak_order_def by auto

text \<open>What the contract of the library gives for the comparison of the segment tree.\<close>

lemma segment_laws:
  assumes "btree_ok bt"
  shows "bt_Items (segmentOps bt) (bt_New (segmentOps bt)) = []"
    and "ascending (bt_Items (segmentOps bt) t)"
    and "bt_Len (segmentOps bt) t = length (bt_Items (segmentOps bt) t)"
    and "bt_Items (segmentOps bt) (bt_Clear (segmentOps bt) t) = []"
    and "bt_Min (segmentOps bt) t = (case bt_Items (segmentOps bt) t of [] \<Rightarrow> None | x # _ \<Rightarrow> Some x)"
    and "bt_Max (segmentOps bt) t
       = (if bt_Items (segmentOps bt) t = [] then None else Some (last (bt_Items (segmentOps bt) t)))"
    and "snd (bt_DeleteMin (segmentOps bt) t) = bt_Min (segmentOps bt) t"
    and "bt_Items (segmentOps bt) (fst (bt_DeleteMin (segmentOps bt) t)) = tl (bt_Items (segmentOps bt) t)"
    and "bt_Items (segmentOps bt) (fst (bt_ReplaceOrInsert (segmentOps bt) t s)) = seg_insert s (bt_Items (segmentOps bt) t)"
proof -
  have "btree_laws (\<lambda>a b. segmentLessFunc a b = Inr True) (segmentOps bt)"
    using assms segmentLessFunc_order by (simp add: btree_ok_def segmentOps_def)
  then have laws: "btree_laws (\<lambda>a b. seq_of a < seq_of b) (segmentOps bt)" by (simp only: segmentLessFunc_seq)
  from laws show "ascending (bt_Items (segmentOps bt) t)" by (simp add: btree_laws_def ascending_def)
  from laws show "bt_Items (segmentOps bt) (fst (bt_ReplaceOrInsert (segmentOps bt) t s)) = seg_insert s (bt_Items (segmentOps bt) t)"
    by (simp add: btree_laws_def insert_by_seq)
  from laws show "bt_Items (segmentOps bt) (bt_New (segmentOps bt)) = []"
    "bt_Len (segmentOps bt) t = length (bt_Items (segmentOps bt) t)"
    "bt_Items (segmentOps bt) (bt_Clear (segmentOps bt) t) = []"
    "bt_Min (segmentOps bt) t = (case bt_Items (segmentOps bt) t of [] \<Rightarrow> None | x # _ \<Rightarrow> Some x)"
    "bt_Max (segmentOps bt) t
       = (if bt_Items (segmentOps bt) t = [] then None else Some (last (bt_Items (segmentOps bt) t)))"
    "snd (bt_DeleteMin (segmentOps bt) t) = bt_Min (segmentOps bt) t"
    "bt_Items (segmentOps bt) (fst (bt_DeleteMin (segmentOps bt) t)) = tl (bt_Items (segmentOps bt) t)"
    by (simp_all add: btree_laws_def)
qed

section \<open>The tree as an ordered list\<close>

definition items :: "'t btree \<Rightarrow> 't segmentTree \<Rightarrow> segment list" where
  "items bt t = bt_Items (segmentOps bt) (st_tr t)"

named_theorems tree_simps \<open>operations of the segment tree in terms of its items\<close>

lemma seq_of_md:
  "seg_metadata s = DataAck_md das \<Longrightarrow> seq_of s = das_seq das"
  "seg_metadata s = Session_md ss \<Longrightarrow> seq_of s = ss_seq ss"
  by (simp_all add: seq_of_def seg_Seq_def)

lemma seg_Seq_eq: "seg_Seq s = Inr (seq_of s)"
  by (cases "seg_metadata s") (simp_all add: seq_of_def seg_Seq_def)

lemma ascending_simps [simp]:
  "ascending []" "ascending (x # xs) \<longleftrightarrow> (\<forall>y \<in> set xs. seq_of x < seq_of y) \<and> ascending xs"
  by (simp_all add: ascending_def)

lemma ascending_distinct: "ascending xs \<Longrightarrow> distinct (map seq_of xs)"
  by (induction xs) auto

lemma set_seg_insert:
  "ascending xs \<Longrightarrow> set (seg_insert s xs) = insert s {x \<in> set xs. seq_of x \<noteq> seq_of s}"
  by (induction xs) (auto simp: order_less_le)

lemma ascending_seg_insert [simp]: "ascending xs \<Longrightarrow> ascending (seg_insert s xs)"
  by (induction xs) (auto simp: set_seg_insert)

lemma length_seg_insert:
  "length (seg_insert s xs) \<le> length xs + 1" "length xs \<le> length (seg_insert s xs)"
  by (induction xs) auto

lemma seg_insert_last: "\<forall>x \<in> set xs. seq_of x < seq_of s \<Longrightarrow> seg_insert s xs = xs @ [s]"
  by (induction xs) auto

lemma items_ascending [simp]: "btree_ok bt \<Longrightarrow> ascending (items bt t)"
  by (simp add: segment_laws items_def)

lemma st_Len_items [tree_simps]: "btree_ok bt \<Longrightarrow> st_Len bt t = int (length (items bt t))"
  by (simp add: segment_laws items_def st_Len_def)

lemma bt_Len_items: "btree_ok bt \<Longrightarrow> bt_Len (segmentOps bt) (st_tr t) = length (items bt t)"
  by (simp add: segment_laws items_def)

lemma Remaining_items [tree_simps]: "btree_ok bt \<Longrightarrow> Remaining bt t = st_cap t - int (length (items bt t))"
  by (simp add: segment_laws items_def Remaining_def)

lemma notify_simps [simp]:
  "items bt (notifyEmpty t) = items bt t" "items bt (notifyNotEmpty t) = items bt t"
  "items bt (notifyLen bt' t) = items bt t"
  "st_cap (notifyEmpty t) = st_cap t" "st_cap (notifyNotEmpty t) = st_cap t" "st_cap (notifyLen bt t) = st_cap t"
  by (simp_all add: items_def notifyEmpty_def notifyNotEmpty_def notifyLen_def)

lemma newSegmentTree_items:
  "btree_ok bt \<Longrightarrow> newSegmentTree bt cap = Inr t \<Longrightarrow> items bt t = [] \<and> st_cap t = cap \<and> 0 < cap"
  by (auto simp: newSegmentTree_def items_def segment_laws split: if_splits)

lemma Insert_cases:
  assumes "btree_ok bt" "checkProtocolType seg"
  obtains (full) t' where "Insert bt t seg = Inr (t', False)" "int (length (items bt t)) \<ge> st_cap t"
      "items bt t' = items bt t" "st_cap t' = st_cap t"
  | (added) t' where "Insert bt t seg = Inr (t', True)" "int (length (items bt t)) < st_cap t"
      "items bt t' = seg_insert seg (items bt t)" "st_cap t' = st_cap t"
proof (cases "int (length (items bt t)) \<ge> st_cap t")
  case True
  then show thesis
    using full assms by (simp add: Insert_def seg_Seq_eq bt_Len_items)
next
  case False
  obtain tr prev where r: "bt_ReplaceOrInsert (segmentOps bt) (st_tr t) seg = (tr, prev)" by fastforce
  have "bt_Items (segmentOps bt) tr = seg_insert seg (items bt t)"
    using assms(1) r unfolding items_def by (metis fst_conv segment_laws(9))
  then have "items bt (t\<lparr>st_tr := tr\<rparr>) = seg_insert seg (items bt t)"
    by (simp add: items_def)
  with False r assms show thesis
    by (intro added [of "if prev \<noteq> None then t\<lparr>st_tr := tr\<rparr> else notifyNotEmpty (t\<lparr>st_tr := tr\<rparr>)"])
       (simp_all add: Insert_def seg_Seq_eq bt_Len_items)
qed

lemma bt_min_items:
  assumes "btree_ok bt"
  shows "bt_Min (segmentOps bt) (st_tr t) = (case items bt t of [] \<Rightarrow> None | x # _ \<Rightarrow> Some x)"
    and "bt_Max (segmentOps bt) (st_tr t) = (if items bt t = [] then None else Some (last (items bt t)))"
    and "snd (bt_DeleteMin (segmentOps bt) (st_tr t)) = (case items bt t of [] \<Rightarrow> None | x # _ \<Rightarrow> Some x)"
    and "bt_Items (segmentOps bt) (fst (bt_DeleteMin (segmentOps bt) (st_tr t))) = tl (items bt t)"
  using assms by (simp_all add: segment_laws items_def)

lemma DeleteMin_Nil [tree_simps]: "btree_ok bt \<Longrightarrow> items bt t = [] \<Longrightarrow> st_DeleteMin bt t = Inr (t, None)"
  by (simp add: st_DeleteMin_def bt_Len_items)

lemma DeleteMin_Cons:
  assumes "btree_ok bt" "items bt t = x # xs"
  obtains t' where "st_DeleteMin bt t = Inr (t', Some x)" "items bt t' = xs" "st_cap t' = st_cap t"
proof -
  obtain tr m where d: "bt_DeleteMin (segmentOps bt) (st_tr t) = (tr, m)" by fastforce
  then have "m = Some x" "bt_Items (segmentOps bt) tr = xs"
    using bt_min_items(3,4) [OF assms(1), of t] assms(2) by simp_all
  then have "items bt (t\<lparr>st_tr := tr\<rparr>) = xs" by (simp add: items_def)
  with d \<open>m = Some x\<close> assms show thesis
    by (intro that [of "notifyLen bt (t\<lparr>st_tr := tr\<rparr>)"]) (simp_all add: st_DeleteMin_def bt_Len_items)
qed

lemma DeleteMinIf_Nil [tree_simps]:
  "btree_ok bt \<Longrightarrow> items bt t = [] \<Longrightarrow> DeleteMinIf bt t si = Inr (t, None, False)"
  by (simp add: DeleteMinIf_def bt_Len_items)

lemma DeleteMinIf_keep:
  assumes "btree_ok bt" "items bt t = x # xs" "\<not> si x"
  obtains t' where "DeleteMinIf bt t si = Inr (t', Some x, False)" "items bt t' = x # xs" "st_cap t' = st_cap t"
  using assms by (intro that [of "notifyLen bt t"]) (simp_all add: DeleteMinIf_def bt_Len_items bt_min_items)

lemma DeleteMinIf_delete:
  assumes "btree_ok bt" "items bt t = x # xs" "si x"
  obtains t' where "DeleteMinIf bt t si = Inr (t', Some x, True)" "items bt t' = xs" "st_cap t' = st_cap t"
proof -
  obtain tr m where d: "bt_DeleteMin (segmentOps bt) (st_tr t) = (tr, m)" by fastforce
  then have "m = Some x" "bt_Items (segmentOps bt) tr = xs"
    using bt_min_items(3,4) [OF assms(1), of t] assms(2) by simp_all
  then have "items bt (t\<lparr>st_tr := tr\<rparr>) = xs" by (simp add: items_def)
  with d \<open>m = Some x\<close> assms show thesis
    by (intro that [of "notifyLen bt (t\<lparr>st_tr := tr\<rparr>)"])
       (simp_all add: DeleteMinIf_def bt_Len_items bt_min_items(1))
qed

lemma DeleteAll_items [tree_simps]:
  "btree_ok bt \<Longrightarrow> items bt (DeleteAll bt t) = []" "st_cap (DeleteAll bt t) = st_cap t"
  by (simp_all add: DeleteAll_def items_def segment_laws notifyEmpty_def)

lemma MinSeq_items [tree_simps]:
  "btree_ok bt \<Longrightarrow> MinSeq bt t = (case items bt t of [] \<Rightarrow> Inl ErrEmpty | x # _ \<Rightarrow> Inr (seq_of x))"
  by (simp add: MinSeq_def bt_min_items seg_Seq_eq split: list.split)

lemma MaxSeq_items [tree_simps]:
  "btree_ok bt \<Longrightarrow> MaxSeq bt t = (if items bt t = [] then Inl ErrEmpty else Inr (seq_of (last (items bt t))))"
  by (simp add: MaxSeq_def bt_min_items seg_Seq_eq)

lemma seg_insert_replace:
  "ascending (xs @ x # ys) \<Longrightarrow> seq_of s = seq_of x \<Longrightarrow> seg_insert s (xs @ x # ys) = xs @ s # ys"
  by (induction xs) (auto simp: ascending_def)

lemma replace_prefix:
  assumes "btree_ok bt" "map seq_of cs = map seq_of ys" "bt_Items (segmentOps bt) tr = xs @ ys @ zs"
  shows "bt_Items (segmentOps bt) (foldl (\<lambda>tr x. fst (bt_ReplaceOrInsert (segmentOps bt) tr x)) tr cs) = xs @ cs @ zs"
  using assms(2,3)
proof (induction cs ys arbitrary: xs tr rule: list_induct2')
  case (4 c cs y ys)
  let ?tr = "fst (bt_ReplaceOrInsert (segmentOps bt) tr c)"
  have "ascending (xs @ y # (ys @ zs))" using assms(1) "4.prems"(2) by (metis append_Cons segment_laws(2))
  then have "seg_insert c (xs @ y # (ys @ zs)) = xs @ c # (ys @ zs)"
    by (rule seg_insert_replace) (use "4.prems"(1) in simp)
  then have "bt_Items (segmentOps bt) ?tr = (xs @ [c]) @ ys @ zs"
    using assms(1) "4.prems"(2) by (simp add: segment_laws)
  from "4.IH" [OF _ this] "4.prems"(1) show ?case by simp
qed simp_all

lemma ascend_loop_prefix:
  assumes "\<And>x a. seq_of (fst (si x a)) = seq_of x"
  shows "\<exists>ys zs. xs = ys @ zs \<and> map seq_of (fst (ascend_loop si xs a)) = map seq_of ys"
proof (induction xs arbitrary: a)
  case (Cons x xs)
  obtain x' a' go where s: "si x a = (x', a', go)" by (metis prod_cases3)
  with assms [of x a] have x': "seq_of x' = seq_of x" by simp
  from Cons.IH [of a'] obtain ys zs where y: "xs = ys @ zs"
      "map seq_of (fst (ascend_loop si xs a')) = map seq_of ys" by blast
  show ?case
  proof (cases go)
    case True
    with s x' y have "x # xs = (x # ys) @ zs
        \<and> map seq_of (fst (ascend_loop si (x # xs) a)) = map seq_of (x # ys)"
      by (auto split: prod.split)
    then show ?thesis by blast
  next
    case False
    with s x' have "x # xs = [x] @ xs \<and> map seq_of (fst (ascend_loop si (x # xs) a)) = map seq_of [x]"
      by simp
    then show ?thesis by blast
  qed
qed simp

lemma Ascend_items:
  assumes "btree_ok bt" "\<And>x a. seq_of (fst (si x a)) = seq_of x"
  shows "items bt (fst (Ascend bt t si a)) =
      fst (ascend_loop si (items bt t) a) @ drop (length (fst (ascend_loop si (items bt t) a))) (items bt t)"
    and "st_cap (fst (Ascend bt t si a)) = st_cap t"
    and "snd (Ascend bt t si a) = snd (ascend_loop si (items bt t) a)"
proof -
  obtain cs b where l: "ascend_loop si (items bt t) a = (cs, b)" by fastforce
  obtain ys zs where p: "items bt t = ys @ zs" "map seq_of cs = map seq_of ys"
    using ascend_loop_prefix [where si = si and xs = "items bt t" and a = a] assms(2) l by fastforce
  then have len: "length cs = length ys" by (metis length_map)
  have "bt_Items (segmentOps bt) (foldl (\<lambda>tr x. fst (bt_ReplaceOrInsert (segmentOps bt) tr x)) (st_tr t) cs) = cs @ zs"
    using replace_prefix [OF assms(1) p(2), of "st_tr t" "[]" zs] p(1) by (simp add: items_def)
  with l p len show "items bt (fst (Ascend bt t si a)) =
      fst (ascend_loop si (items bt t) a) @ drop (length (fst (ascend_loop si (items bt t) a))) (items bt t)"
    "st_cap (fst (Ascend bt t si a)) = st_cap t"
    "snd (Ascend bt t si a) = snd (ascend_loop si (items bt t) a)"
    using assms(1) by (auto simp: Ascend_def bt_Len_items items_def)
qed

text \<open>A loop that empties a tree by \<open>DeleteMin\<close>; \<open>bt_Len + 1\<close> rounds are enough.\<close>

fun drain_loop :: "'t btree \<Rightarrow> nat \<Rightarrow> 't segmentTree \<Rightarrow> ('t segmentTree \<times> segment list) result" where
  "drain_loop bt 0 t = Inr (t, [])"
| "drain_loop bt (Suc n) t =
     (case st_DeleteMin bt t of
        Inl e \<Rightarrow> Inl e
      | Inr (t, None) \<Rightarrow> Inr (t, [])
      | Inr (t, Some seg) \<Rightarrow>
          (case drain_loop bt n t of Inl e \<Rightarrow> Inl e | Inr (t, segs) \<Rightarrow> Inr (t, seg # segs)))"

definition drain :: "'t btree \<Rightarrow> 't segmentTree \<Rightarrow> ('t segmentTree \<times> segment list) result" where
  "drain bt t = drain_loop bt (Suc (bt_Len (segmentOps bt) (st_tr t))) t"

section \<open>The contract of an ordered store\<close>

text \<open>
  What a session relies on: a bounded store of segments in ascending order of their sequence
  numbers, whose content is seen as a list.
\<close>

fun insert_all :: "('s \<Rightarrow> segment \<Rightarrow> ('s \<times> bool) result) \<Rightarrow> 's \<Rightarrow> segment list \<Rightarrow> 's result" where
  "insert_all ins s [] = Inr s"
| "insert_all ins s (x # xs) = (case ins s x of Inl e \<Rightarrow> Inl e | Inr (s, _) \<Rightarrow> insert_all ins s xs)"

locale ordered_store =
  fixes ok :: "'s \<Rightarrow> bool"
    and abs :: "'s \<Rightarrow> segment list"
    and cap :: "'s \<Rightarrow> int"
    and insert :: "'s \<Rightarrow> segment \<Rightarrow> ('s \<times> bool) result"
    and empty_out :: "'s \<Rightarrow> ('s \<times> segment list) result"
  assumes ascending_abs: "ok s \<Longrightarrow> ascending (abs s)"
    and insert_law: "ok s \<Longrightarrow> checkProtocolType x \<Longrightarrow> int (length (abs s)) < cap s \<Longrightarrow>
      \<exists>s'. insert s x = Inr (s', True) \<and> ok s' \<and> abs s' = seg_insert x (abs s) \<and> cap s' = cap s"
    and insert_full: "ok s \<Longrightarrow> checkProtocolType x \<Longrightarrow> cap s \<le> int (length (abs s)) \<Longrightarrow>
      \<exists>s'. insert s x = Inr (s', False) \<and> ok s' \<and> abs s' = abs s \<and> cap s' = cap s"
    and empty_law: "ok s \<Longrightarrow> \<exists>s'. empty_out s = Inr (s', abs s) \<and> ok s' \<and> abs s' = [] \<and> cap s' = cap s"
begin

lemma insert_all_abs:
  "ok s \<Longrightarrow> list_all checkProtocolType xs \<Longrightarrow> int (length (abs s) + length xs) \<le> cap s
    \<Longrightarrow> \<exists>s'. insert_all insert s xs = Inr s' \<and> ok s' \<and> abs s' = foldl (\<lambda>l x. seg_insert x l) (abs s) xs"
proof (induction xs arbitrary: s)
  case (Cons x xs)
  then obtain s1 where s1: "insert s x = Inr (s1, True)" "ok s1" "abs s1 = seg_insert x (abs s)" "cap s1 = cap s"
    using insert_law [of s x] by auto
  moreover have "int (length (abs s1) + length xs) \<le> cap s1"
    using Cons.prems s1 length_seg_insert(1) [of x "abs s"] by simp
  ultimately show ?case using Cons.IH [of s1] Cons.prems by auto
qed simp

lemma insert_then_empty:
  assumes "ok s" "list_all checkProtocolType xs" "int (length (abs s) + length xs) \<le> cap s"
  shows "\<exists>s1 s2. insert_all insert s xs = Inr s1
     \<and> empty_out s1 = Inr (s2, foldl (\<lambda>l x. seg_insert x l) (abs s) xs) \<and> ok s2 \<and> abs s2 = []"
  using insert_all_abs [OF assms] empty_law by metis

end

lemma drain_loop_items:
  "btree_ok bt \<Longrightarrow> length (items bt t) < n \<Longrightarrow>
     \<exists>t'. drain_loop bt n t = Inr (t', items bt t) \<and> items bt t' = [] \<and> st_cap t' = st_cap t"
proof (induction n arbitrary: t)
  case (Suc n)
  show ?case
  proof (cases "items bt t")
    case Nil
    with Suc show ?thesis by (simp add: tree_simps)
  next
    case (Cons x xs)
    from Suc.prems(1) Cons obtain t1 where t1: "st_DeleteMin bt t = Inr (t1, Some x)" "items bt t1 = xs"
        "st_cap t1 = st_cap t" by (rule DeleteMin_Cons)
    with Suc.IH [of t1] Suc.prems Cons show ?thesis by auto
  qed
qed simp

lemma drain_items:
  "btree_ok bt \<Longrightarrow> \<exists>t'. drain bt t = Inr (t', items bt t) \<and> items bt t' = [] \<and> st_cap t' = st_cap t"
  unfolding drain_def by (rule drain_loop_items) (simp_all add: bt_Len_items)

interpretation segment_tree: ordered_store "\<lambda>_. btree_ok bt" "items bt" st_cap "Insert bt" "drain bt" for bt
proof
  fix s :: "'a segmentTree" and x assume a: "btree_ok bt" "checkProtocolType x"
  { assume l: "int (length (items bt s)) < st_cap s"
    from a show "\<exists>s'. Insert bt s x = Inr (s', True) \<and> btree_ok bt
        \<and> items bt s' = seg_insert x (items bt s) \<and> st_cap s' = st_cap s"
      by (rule Insert_cases [of bt x s]) (use a l in auto) }
  { assume l: "st_cap s \<le> int (length (items bt s))"
    from a show "\<exists>s'. Insert bt s x = Inr (s', False) \<and> btree_ok bt
        \<and> items bt s' = items bt s \<and> st_cap s' = st_cap s"
      by (rule Insert_cases [of bt x s]) (use a l in auto) }
qed (use drain_items in auto)

section \<open>Properties\<close>

lemma fold_insert_asc: "ascending l \<Longrightarrow> ascending (foldl (\<lambda>l x. seg_insert x l) l xs)"
  by (induction xs arbitrary: l) simp_all

lemma fold_insert_set:
  "ascending l \<Longrightarrow> y \<in> set (foldl (\<lambda>l x. seg_insert x l) l xs) \<longleftrightarrow>
     (\<exists>as bs. xs = as @ y # bs \<and> (\<forall>b \<in> set bs. seq_of b \<noteq> seq_of y))
     \<or> y \<in> set l \<and> (\<forall>b \<in> set xs. seq_of b \<noteq> seq_of y)"
proof (induction xs arbitrary: l)
  case (Cons x xs)
  have "(\<exists>as bs. x # xs = as @ y # bs \<and> (\<forall>b \<in> set bs. seq_of b \<noteq> seq_of y)) \<longleftrightarrow>
      (x = y \<and> (\<forall>b \<in> set xs. seq_of b \<noteq> seq_of y))
      \<or> (\<exists>as bs. xs = as @ y # bs \<and> (\<forall>b \<in> set bs. seq_of b \<noteq> seq_of y))"
    by (auto simp: Cons_eq_append_conv)
  with Cons show ?case by (auto simp: set_seg_insert)
qed auto

text \<open>
  C26. A segment tree puts segments in order and drops repeats: whatever segments of insertable kinds are
  inserted into a new tree within its capacity, in whatever order, emptying it returns each
  sequence number once, in strictly ascending order, with the segment that was inserted last for it.
\<close>

theorem segment_tree_orders:
  assumes "btree_ok bt" "newSegmentTree bt capacity = Inr t"
    and "list_all checkProtocolType xs" "int (length xs) \<le> capacity"
  shows "\<exists>t1 t2 ys. insert_all (Insert bt) t xs = Inr t1 \<and> drain bt t1 = Inr (t2, ys) \<and> ascending ys
     \<and> (\<forall>y. y \<in> set ys \<longleftrightarrow>
          (\<exists>as bs. xs = as @ y # bs \<and> (\<forall>b \<in> set bs. seq_of b \<noteq> seq_of y)))"
proof -
  have t: "items bt t = []" "st_cap t = capacity"
    using newSegmentTree_items [OF assms(1,2)] by simp_all
  with segment_tree.insert_then_empty [OF assms(1,3), of t] assms(4) show ?thesis
    by (auto simp: fold_insert_asc fold_insert_set)
qed

text \<open>A concrete B-tree for the witnesses: a list that is put in order when it is read.\<close>

definition in_order_by :: "('a \<Rightarrow> 'a \<Rightarrow> bool) \<Rightarrow> 'a list \<Rightarrow> 'a list" where
  "in_order_by lt xs = foldl (\<lambda>l x. insert_by lt x l) [] xs"

definition list_btree :: "segment list btree" where
  "list_btree lt = \<lparr>bt_New = [], bt_Len = (\<lambda>t. length (in_order_by lt t)),
     bt_ReplaceOrInsert = (\<lambda>t s. (t @ [s], find (\<lambda>x. \<not> lt x s \<and> \<not> lt s x) (in_order_by lt t))),
     bt_DeleteMin = (\<lambda>t. (tl (in_order_by lt t), case in_order_by lt t of [] \<Rightarrow> None | x # _ \<Rightarrow> Some x)),
     bt_Min = (\<lambda>t. case in_order_by lt t of [] \<Rightarrow> None | x # _ \<Rightarrow> Some x),
     bt_Max = (\<lambda>t. if in_order_by lt t = [] then None else Some (last (in_order_by lt t))),
     bt_Clear = (\<lambda>t. []), bt_Items = in_order_by lt\<rparr>"

lemma set_insert_by: "set (insert_by lt s xs) \<subseteq> insert s (set xs)"
  by (induction xs) auto

lemma sorted_insert_by:
  assumes "strict_weak_order lt" "sorted_wrt lt xs"
  shows "sorted_wrt lt (insert_by lt s xs)"
  using assms(2)
proof (induction xs)
  case (Cons x xs)
  note laws = assms(1) [unfolded strict_weak_order_def]
  have "lt s y" if "lt s x \<or> \<not> lt x s" "y \<in> set xs" for y
    using laws that Cons.prems by (metis list.set_intros(2) sorted_wrt.simps(2))
  with Cons set_insert_by [of lt s xs] show ?case by auto
qed simp

lemma insert_by_last:
  assumes "strict_weak_order lt" "\<forall>x \<in> set xs. lt x s"
  shows "insert_by lt s xs = xs @ [s]"
proof -
  have "\<not> lt s x" if "lt x s" for x using assms(1) that unfolding strict_weak_order_def by blast
  with assms(2) show ?thesis by (induction xs) auto
qed

lemma in_order_sorted: "strict_weak_order lt \<Longrightarrow> sorted_wrt lt (in_order_by lt xs)"
proof -
  assume o: "strict_weak_order lt"
  have "sorted_wrt lt l \<Longrightarrow> sorted_wrt lt (foldl (\<lambda>l x. insert_by lt x l) l xs)" for l
    by (induction xs arbitrary: l) (simp_all add: sorted_insert_by [OF o])
  then show ?thesis by (simp add: in_order_by_def)
qed

lemma in_order_of_sorted:
  assumes "strict_weak_order lt" "sorted_wrt lt xs"
  shows "in_order_by lt xs = xs"
proof -
  have "sorted_wrt lt (l @ xs) \<Longrightarrow> foldl (\<lambda>l x. insert_by lt x l) l xs = l @ xs" for l
  proof (induction xs arbitrary: l)
    case (Cons x xs)
    have "insert_by lt x l = l @ [x]"
      using Cons.prems by (intro insert_by_last [OF assms(1)]) (auto simp: sorted_wrt_append)
    with Cons show ?case by simp
  qed simp
  from this [of "[]"] assms(2) show ?thesis by (simp add: in_order_by_def)
qed

lemma list_btree_ok: "btree_ok list_btree"
proof -
  have "in_order_by lt (tl (in_order_by lt t)) = tl (in_order_by lt t)" if "strict_weak_order lt" for lt :: "segment \<Rightarrow> segment \<Rightarrow> bool" and t
  proof -
    have "sorted_wrt lt (tl (in_order_by lt t))"
      using in_order_sorted [OF that, of t] by (cases "in_order_by lt t") simp_all
    then show ?thesis by (rule in_order_of_sorted [OF that])
  qed
  moreover have "in_order_by lt (t @ [s]) = insert_by lt s (in_order_by lt t)" "in_order_by lt [] = []"
    for lt :: "segment \<Rightarrow> segment \<Rightarrow> bool" and t s by (simp_all add: in_order_by_def)
  ultimately show ?thesis
    unfolding btree_ok_def using in_order_sorted by (auto simp: btree_laws_def list_btree_def)
qed

text \<open>The same list read with the comparison of the segment tree.\<close>

definition in_order :: "segment list \<Rightarrow> segment list" where
  "in_order xs = foldl (\<lambda>l x. seg_insert x l) [] xs"

lemma in_order_by_seq: "in_order_by (\<lambda>a b. segmentLessFunc a b = Inr True) = in_order"
  by (rule ext) (simp add: in_order_by_def in_order_def segmentLessFunc_seq insert_by_seq)

lemmas in_order_by_less = in_order_by_seq [unfolded segmentLessFunc_seq]

lemma list_btree_simps:
  "bt_New (segmentOps list_btree) = []" "bt_Len (segmentOps list_btree) t = length (in_order t)"
  "fst (bt_ReplaceOrInsert (segmentOps list_btree) t s) = t @ [s]"
  "bt_ReplaceOrInsert (segmentOps list_btree) t s = (t @ [s], find (\<lambda>x. seq_of x = seq_of s) (in_order t))"
  "bt_DeleteMin (segmentOps list_btree) t = (tl (in_order t), case in_order t of [] \<Rightarrow> None | x # _ \<Rightarrow> Some x)"
  "bt_Min (segmentOps list_btree) t = (case in_order t of [] \<Rightarrow> None | x # _ \<Rightarrow> Some x)"
  "bt_Items (segmentOps list_btree) t = in_order t" "in_order [] = []" "in_order [x] = [x]"
proof -
  have "find (\<lambda>x. \<not> seq_of x < seq_of s \<and> \<not> seq_of s < seq_of x) xs = find (\<lambda>x. seq_of x = seq_of s) xs" for xs
    by (rule find_cong) auto
  then show "bt_ReplaceOrInsert (segmentOps list_btree) t s = (t @ [s], find (\<lambda>x. seq_of x = seq_of s) (in_order t))"
    by (simp add: list_btree_def segmentOps_def segmentLessFunc_seq in_order_by_less)
qed (simp_all add: list_btree_def segmentOps_def in_order_by_seq in_order_def)

definition data_segment :: "u32 \<Rightarrow> bytes \<Rightarrow> segment" where
  "data_segment n p = \<lparr>seg_metadata = DataAck_md (zero_dataAckStruct\<lparr>das_protocol := dataClientToServer,
     das_seq := n, das_payloadLen := of_nat (length p)\<rparr>), seg_payload = p,
     seg_transport = PacketTransport, seg_ackCount = 0, seg_txCount = 0, seg_txTime = 0,
     seg_txTimeout = 0, seg_block = None\<rparr>"

theorem segment_tree_orders_witness:
  "\<exists>t t1 t2 ys. newSegmentTree list_btree 8 = Inr t
     \<and> insert_all (Insert list_btree) t [data_segment 2 [5], data_segment 1 [7], data_segment 2 [6]] = Inr t1
     \<and> drain list_btree t1 = Inr (t2, ys)
     \<and> map seq_of ys = [1, 2] \<and> set ys = {data_segment 1 [7], data_segment 2 [6]}"
proof -
  let ?xs = "[data_segment 2 [5], data_segment 1 [7], data_segment 2 [6]]"
  obtain t where t: "newSegmentTree list_btree 8 = Inr t" by (simp add: newSegmentTree_def)
  have "checkProtocolType (data_segment n p)" for n p
    by (simp add: checkProtocolType_def data_segment_def seg_Protocol_def)
  then have "list_all checkProtocolType ?xs" by simp
  from segment_tree_orders [OF list_btree_ok t this] obtain t1 t2 ys where
    r: "insert_all (Insert list_btree) t ?xs = Inr t1" "drain list_btree t1 = Inr (t2, ys)" "ascending ys"
    and ys: "\<forall>y. y \<in> set ys \<longleftrightarrow> (\<exists>as bs. ?xs = as @ y # bs \<and> (\<forall>b \<in> set bs. seq_of b \<noteq> seq_of y))"
    by (auto simp del: insert_all.simps)
  have q: "seq_of (data_segment n p) = n" for n p by (simp add: data_segment_def seq_of_def seg_Seq_def)
  have "y = data_segment 1 [7] \<or> y = data_segment 2 [6]" if "?xs = as @ y # bs" "\<forall>b \<in> set bs. seq_of b \<noteq> seq_of y" for as y bs
    using that by (auto simp: Cons_eq_append_conv q)
  moreover have "data_segment 1 [7] \<in> set ys"
    by (rule ys [THEN spec, THEN iffD2], rule exI [of _ "[data_segment 2 [5]]"], rule exI [of _ "[data_segment 2 [6]]"])
       (simp add: q)
  moreover have "data_segment 2 [6] \<in> set ys"
    by (rule ys [THEN spec, THEN iffD2], rule exI [of _ "[data_segment 2 [5], data_segment 1 [7]]"], rule exI [of _ "[]"])
       simp
  ultimately have set: "set ys = {data_segment 1 [7], data_segment 2 [6]}" using ys by blast
  then have "seq_of ` set ys = set [1, 2]" using q by auto
  moreover have "sorted (map seq_of ys) \<and> distinct (map seq_of ys)"
    using r(3) ascending_distinct [OF r(3)] by (auto simp: ascending_def sorted_wrt_map intro: sorted_wrt_mono_rel [rotated])
  ultimately have "map seq_of ys = [1, 2]"
    by (intro sorted_distinct_set_unique) auto
  with t r(1,2) set show ?thesis by (auto simp del: insert_all.simps)
qed

end
