(* ===== verification/Session.thy ===== *)
theory Session
  imports Segment Congestion Metrics
begin

text \<open>
  Sessions (\<open>src/pkg/protocol/session.go\<close>): the multiplexed connections with their state machine, send
  and receive queues, retransmission, acknowledgement and flow control.

  A session is a record. Channels without data are booleans (closed or not), the locks are left out
  because every definition is a critical section of the source, and the clock is the field \<open>se_now\<close>
  (nanoseconds), which the environment moves. The argument \<open>ev\<close> holds the surroundings: the B-tree
  library, floating point, the outcome of the underlay's \<open>writeOneSegment\<close> for a segment, and what the
  other goroutines do while \<open>closeWithError\<close> waits. Two fields are ghosts: \<open>se_wire\<close> lists the
  segments that the underlay wrote, \<open>se_sent\<close> the payloads of the segments that got a sequence number. Where a \<open>select\<close> has several ready cases, the model takes the first in the order
  of the source. Log output is left out.
\<close>

section \<open>State\<close>

definition segmentTreeCapacity :: int where "segmentTreeCapacity = 4096"
definition segmentTreeRecvQueueCapacity :: int where "segmentTreeRecvQueueCapacity = 1024 * 1024"
definition minWindowSize :: u32 where "minWindowSize = 16"
definition maxWindowSize :: u32 where "maxWindowSize = 4096"
definition serverRespTimeout :: int where "serverRespTimeout = 10 * Second"
definition sessionHeartbeatInterval :: int where "sessionHeartbeatInterval = 5 * Second"
definition periodicOutputInterval :: int where "periodicOutputInterval = Millisecond"
definition earlyRetransmission :: u8 where "earlyRetransmission = 3"
definition earlyRetransmissionLimit :: u8 where "earlyRetransmissionLimit = 1"
definition txTimeoutBackOff :: real where "txTimeoutBackOff = 3 / 2"
definition maxBackOffDuration :: int where "maxBackOffDuration = 10 * Second"
definition txCountLimit :: u8 where "txCountLimit = 20"

type_synonym sessionState = int

definition sessionInit :: sessionState where "sessionInit = 0"
definition sessionAttached :: sessionState where "sessionAttached = 1"
definition sessionEstablished :: sessionState where "sessionEstablished = 2"
definition sessionClosed :: sessionState where "sessionClosed = 3"

lemmas session_states = sessionInit_def sessionAttached_def sessionEstablished_def sessionClosed_def

definition sessionState_String :: "sessionState \<Rightarrow> string" where
  "sessionState_String ss =
     (if ss = sessionInit then ''INITIALIZED''
      else if ss = sessionAttached then ''ATTACHED''
      else if ss = sessionEstablished then ''ESTABLISHED''
      else if ss = sessionClosed then ''CLOSED''
      else ''UNKNOWN'')"

text \<open>Quotas of a user: days and megabytes (\<open>appctlpb.User\<close>).\<close>

record quota =
  qu_days :: int
  qu_megabytes :: int

type_synonym users = "(string \<times> quota list) list"

record 't session =
  se_block :: "aeadBlockCipher option"
  se_id :: u32
  se_isClient :: bool
  se_mtu :: int
  se_transportProtocol :: TransportProtocol
  se_state :: sessionState
  se_status :: u8
  se_users :: users
  se_userName :: "string option"
  se_openSessionRequestSent :: bool
  se_closeRequested :: bool
  se_closedChan :: bool
  se_readDeadline :: int
  se_writeDeadline :: int
  se_inputHasErr :: bool
  se_outputHasErr :: bool
  se_sendQueue :: "'t segmentTree"
  se_sendBuf :: "'t segmentTree"
  se_recvBuf :: "'t segmentTree"
  se_recvQueue :: "'t segmentTree"
  se_recvChan :: "segment list"
  se_nextSend :: u32
  se_nextRecv :: u32
  se_lastSend :: u32
  se_lastRXTime :: int
  se_lastTXTime :: int
  se_nextRetransmissionTime :: int
  se_ackOnDataRecv :: bool
  se_unreadBuf :: bytes
  se_uploadBytes :: bool      \<comment> \<open>the metric has been registered\<close>
  se_downloadBytes :: bool
  se_rttStat :: rttStats
  se_cubic :: cubicSendAlgorithm
  se_remoteWindowSize :: u32
  se_registry :: registry     \<comment> \<open>the global metrics\<close>
  se_currEstablished :: int   \<comment> \<open>the gauge \<open>metrics.CurrEstablished\<close>\<close>
  se_now :: int
  se_wire :: "segment list"
  se_sent :: "bytes list"

record 't senv =
  ev_bt :: "'t btree"
  ev_fe :: float_env
  ev_write :: "'t session \<Rightarrow> segment \<Rightarrow> unit result"
  ev_wait :: "'t session \<Rightarrow> 't session"

text \<open>\<open>time.Now().UnixMicro()\<close>.\<close>

definition UnixMicro :: "'t session \<Rightarrow> int" where
  "UnixMicro s = se_now s div 1000"

definition Microseconds :: "int \<Rightarrow> int" where
  "Microseconds d = go_quot d 1000"

definition NewSession ::
    "'t btree \<Rightarrow> registry \<Rightarrow> int \<Rightarrow> int \<Rightarrow> u32 \<Rightarrow> bool \<Rightarrow> int \<Rightarrow> users \<Rightarrow> 't session result" where
  "NewSession bt reg established now sid isClient mtu us =
     (case SetRTOMultiplier (SetMaxAckDelay NewRTTStats periodicOutputInterval) txTimeoutBackOff of
        Inl e \<Rightarrow> Inl e
      | Inr rttStat \<Rightarrow>
     (case newSegmentTree bt segmentTreeCapacity of
        Inl e \<Rightarrow> Inl e
      | Inr tree \<Rightarrow>
     (case newSegmentTree bt segmentTreeRecvQueueCapacity of
        Inl e \<Rightarrow> Inl e
      | Inr recvQueue \<Rightarrow>
     (case NewCubicSendAlgorithm minWindowSize maxWindowSize of
        Inl e \<Rightarrow> Inl e
      | Inr cubic \<Rightarrow> Inr
     \<lparr>se_block = None, se_id = sid, se_isClient = isClient, se_mtu = mtu,
      se_transportProtocol = UnknownTransport, se_state = sessionInit, se_status = statusOK,
      se_users = us, se_userName = None, se_openSessionRequestSent = False,
      se_closeRequested = False, se_closedChan = False, se_readDeadline = 0, se_writeDeadline = 0,
      se_inputHasErr = False, se_outputHasErr = False, se_sendQueue = tree, se_sendBuf = tree,
      se_recvBuf = tree, se_recvQueue = recvQueue, se_recvChan = [], se_nextSend = 0,
      se_nextRecv = 0, se_lastSend = 0, se_lastRXTime = now div 1000, se_lastTXTime = now div 1000,
      se_nextRetransmissionTime = 0, se_ackOnDataRecv = False, se_unreadBuf = [],
      se_uploadBytes = False, se_downloadBytes = False, se_rttStat = rttStat, se_cubic = cubic,
      se_remoteWindowSize = minWindowSize, se_registry = reg, se_currEstablished = established,
      se_now = now, se_wire = [], se_sent = []\<rparr>))))"

section \<open>State machine\<close>

definition isState :: "'t session \<Rightarrow> sessionState \<Rightarrow> bool" where
  "isState s target \<longleftrightarrow> se_state s = target"

definition isStateBefore :: "'t session \<Rightarrow> sessionState \<Rightarrow> bool \<Rightarrow> bool" where
  "isStateBefore s target inc \<longleftrightarrow> (if inc then se_state s \<le> target else se_state s < target)"

definition isStateAfter :: "'t session \<Rightarrow> sessionState \<Rightarrow> bool \<Rightarrow> bool" where
  "isStateAfter s target inc \<longleftrightarrow> (if inc then se_state s \<ge> target else se_state s > target)"

definition forwardStateTo :: "'t session \<Rightarrow> sessionState \<Rightarrow> 't session" where
  "forwardStateTo s next = (if next \<le> se_state s then s else s\<lparr>se_state := next\<rparr>)"

definition UserName :: "'t session \<Rightarrow> string" where
  "UserName s = (case se_userName s of Some u \<Rightarrow> u | None \<Rightarrow> '''')"

text \<open>A deadline is microseconds since the epoch; \<open>None\<close> is the zero time.\<close>

definition deadline_micros :: "int option \<Rightarrow> int" where
  "deadline_micros t = (case t of None \<Rightarrow> 0 | Some ns \<Rightarrow> ns div 1000)"

definition SetDeadline :: "'t session \<Rightarrow> int option \<Rightarrow> 't session" where
  "SetDeadline s t = s\<lparr>se_readDeadline := deadline_micros t, se_writeDeadline := deadline_micros t\<rparr>"

definition SetReadDeadline :: "'t session \<Rightarrow> int option \<Rightarrow> 't session" where
  "SetReadDeadline s t = s\<lparr>se_readDeadline := deadline_micros t\<rparr>"

definition SetWriteDeadline :: "'t session \<Rightarrow> int option \<Rightarrow> 't session" where
  "SetWriteDeadline s t = s\<lparr>se_writeDeadline := deadline_micros t\<rparr>"

definition deadline_passed :: "'t session \<Rightarrow> int \<Rightarrow> bool" where
  "deadline_passed s d \<longleftrightarrow> d \<noteq> 0 \<and> d * 1000 \<le> se_now s"

text \<open>How many more packets the session can send and receive.\<close>

definition sendWindowSize :: "'t senv \<Rightarrow> 't session \<Rightarrow> int" where
  "sendWindowSize ev s =
     Max2 0 (Min2 (uint (CongestionWindowSize (se_cubic s)) - st_Len (ev_bt ev) (se_sendBuf s))
              (uint (se_remoteWindowSize s)))"

definition receiveWindowSize :: "'t senv \<Rightarrow> 't session \<Rightarrow> int" where
  "receiveWindowSize ev s =
     Max2 0 (uint (CongestionWindowSize (se_cubic s)) - st_Len (ev_bt ev) (se_recvBuf s))"

section \<open>Segment trees of a session\<close>

text \<open>The operations on the four trees, lifted to the session.\<close>

definition sendQueue_Insert :: "'t senv \<Rightarrow> 't session \<Rightarrow> segment \<Rightarrow> 't session \<times> bool result" where
  "sendQueue_Insert ev s seg =
     (case Insert (ev_bt ev) (se_sendQueue s) seg of
        Inl e \<Rightarrow> (s, Inl e) | Inr (t, b) \<Rightarrow> (s\<lparr>se_sendQueue := t\<rparr>, Inr b))"

definition sendBuf_Insert :: "'t senv \<Rightarrow> 't session \<Rightarrow> segment \<Rightarrow> 't session \<times> bool result" where
  "sendBuf_Insert ev s seg =
     (case Insert (ev_bt ev) (se_sendBuf s) seg of
        Inl e \<Rightarrow> (s, Inl e) | Inr (t, b) \<Rightarrow> (s\<lparr>se_sendBuf := t\<rparr>, Inr b))"

definition recvBuf_Insert :: "'t senv \<Rightarrow> 't session \<Rightarrow> segment \<Rightarrow> 't session \<times> bool result" where
  "recvBuf_Insert ev s seg =
     (case Insert (ev_bt ev) (se_recvBuf s) seg of
        Inl e \<Rightarrow> (s, Inl e) | Inr (t, b) \<Rightarrow> (s\<lparr>se_recvBuf := t\<rparr>, Inr b))"

definition recvQueue_Insert :: "'t senv \<Rightarrow> 't session \<Rightarrow> segment \<Rightarrow> 't session \<times> bool result" where
  "recvQueue_Insert ev s seg =
     (case Insert (ev_bt ev) (se_recvQueue s) seg of
        Inl e \<Rightarrow> (s, Inl e) | Inr (t, b) \<Rightarrow> (s\<lparr>se_recvQueue := t\<rparr>, Inr b))"

definition sendQueue_DeleteMin :: "'t senv \<Rightarrow> 't session \<Rightarrow> 't session \<times> segment option result" where
  "sendQueue_DeleteMin ev s =
     (case st_DeleteMin (ev_bt ev) (se_sendQueue s) of
        Inl e \<Rightarrow> (s, Inl e) | Inr (t, m) \<Rightarrow> (s\<lparr>se_sendQueue := t\<rparr>, Inr m))"

definition sendQueue_DeleteMinIf ::
    "'t senv \<Rightarrow> 't session \<Rightarrow> (segment \<Rightarrow> bool) \<Rightarrow> 't session \<times> (segment option \<times> bool) result" where
  "sendQueue_DeleteMinIf ev s si =
     (case DeleteMinIf (ev_bt ev) (se_sendQueue s) si of
        Inl e \<Rightarrow> (s, Inl e) | Inr (t, m) \<Rightarrow> (s\<lparr>se_sendQueue := t\<rparr>, Inr m))"

definition sendBuf_DeleteMinIf ::
    "'t senv \<Rightarrow> 't session \<Rightarrow> (segment \<Rightarrow> bool) \<Rightarrow> 't session \<times> (segment option \<times> bool) result" where
  "sendBuf_DeleteMinIf ev s si =
     (case DeleteMinIf (ev_bt ev) (se_sendBuf s) si of
        Inl e \<Rightarrow> (s, Inl e) | Inr (t, m) \<Rightarrow> (s\<lparr>se_sendBuf := t\<rparr>, Inr m))"

definition recvBuf_DeleteMinIf ::
    "'t senv \<Rightarrow> 't session \<Rightarrow> (segment \<Rightarrow> bool) \<Rightarrow> 't session \<times> (segment option \<times> bool) result" where
  "recvBuf_DeleteMinIf ev s si =
     (case DeleteMinIf (ev_bt ev) (se_recvBuf s) si of
        Inl e \<Rightarrow> (s, Inl e) | Inr (t, m) \<Rightarrow> (s\<lparr>se_recvBuf := t\<rparr>, Inr m))"

definition session_segment :: "'t session \<Rightarrow> u8 \<Rightarrow> u8 \<Rightarrow> bytes \<Rightarrow> segment" where
  "session_segment s protocol status payload =
     \<lparr>seg_metadata = Session_md (zero_sessionStruct\<lparr>ss_protocol := protocol, ss_sessionID := se_id s,
        ss_seq := se_nextSend s, ss_statusCode := status, ss_payloadLen := of_nat (length payload)\<rparr>),
      seg_payload = payload, seg_transport = se_transportProtocol s, seg_ackCount = 0,
      seg_txCount = 0, seg_txTime = 0, seg_txTimeout = 0, seg_block = None\<rparr>"

text \<open>\<open>s.nextSend++\<close> after a segment with this payload has been built.\<close>

definition take_seq :: "'t session \<Rightarrow> bytes \<Rightarrow> 't session" where
  "take_seq s payload = s\<lparr>se_nextSend := se_nextSend s + 1, se_sent := se_sent s @ [payload]\<rparr>"

section \<open>Output\<close>

definition session_output :: "'t senv \<Rightarrow> 't session \<Rightarrow> segment \<Rightarrow> 't session \<times> unit result" where
  "session_output ev s seg =
     (let sent = (\<lambda>s. s\<lparr>se_wire := se_wire s @ [seg], se_lastSend := seq_of seg,
                          se_lastTXTime := UnixMicro s\<rparr>)
      in (case se_transportProtocol s of
            StreamTransport \<Rightarrow>
              (case ev_write ev s seg of
                 Inl (Panic m) \<Rightarrow> (s, Inl (Panic m))
               | Inl e \<Rightarrow> (s, Inl (Errorf ''TCPUnderlay.writeOneSegment() failed''))
               | Inr _ \<Rightarrow> (sent s, Inr ()))
          | PacketTransport \<Rightarrow>
              (case ev_write ev s seg of
                 Inl (Panic m) \<Rightarrow> (s, Inl (Panic m))
               | Inl ErrNotReady \<Rightarrow> (s, Inr ())
               | Inl e \<Rightarrow> (s, Inl (Errorf ''UDPUnderlay.writeOneSegment() failed''))
               | Inr _ \<Rightarrow> (sent s, Inr ()))
          | UnknownTransport \<Rightarrow> (s, Inl (Errorf ''unsupported transport protocol''))))"

text \<open>
  \<open>closeWithError\<close> with \<open>err\<close> or, for a graceful close, without. Its end clears the sending side and
  marks the session closed; before that the close request is written directly, unless the output
  loop has sent it. An error of that write is only logged.
\<close>

definition close_finish :: "'t senv \<Rightarrow> 't session \<Rightarrow> 't session \<times> unit result" where
  "close_finish ev s =
     (let s = s\<lparr>se_sendQueue := DeleteAll (ev_bt ev) (se_sendQueue s),
              se_sendBuf := DeleteAll (ev_bt ev) (se_sendBuf s)\<rparr>;
          s = forwardStateTo s sessionClosed;
          s = s\<lparr>se_closedChan := True, se_currEstablished := se_currEstablished s - 1\<rparr>
      in (s, Inr ()))"

definition close_force :: "'t senv \<Rightarrow> 't session \<Rightarrow> segment \<Rightarrow> 't session \<times> unit result" where
  "close_force ev s seg =
     (case session_output ev s seg of
        (s, Inl (Panic m)) \<Rightarrow> (s, Inl (Panic m))
      | (s, _) \<Rightarrow> close_finish ev s)"

definition closeWithError :: "'t senv \<Rightarrow> 't session \<Rightarrow> go_error option \<Rightarrow> 't session \<times> unit result" where
  "closeWithError ev s err =
     (if se_closeRequested s then (s, Inr ())
      else
        let s = s\<lparr>se_closeRequested := True\<rparr>;
            gracefulClose = (err = None)
        in if isState s sessionAttached \<or> isState s sessionEstablished
           then
             let closeRequestSeq = se_nextSend s;
                 seg = session_segment s closeSessionRequest (se_status s) [];
                 s = take_seq s []
             in if gracefulClose
                then sbind (sendQueue_Insert ev s seg) (\<lambda>s inserted.
                       if \<not> inserted then close_force ev s seg
                       else
                         let s = ev_wait ev s
                         in if se_lastSend s \<ge> closeRequestSeq then close_finish ev s
                            else close_force ev s seg)
                else close_force ev s seg
           else close_finish ev s)"

definition session_Close :: "'t senv \<Rightarrow> 't session \<Rightarrow> 't session \<times> unit result" where
  "session_Close ev s = closeWithError ev s None"

text \<open>A loop reports an output error: \<open>outputErr\<close> is closed and the session is closed.\<close>

definition output_failed :: "'t senv \<Rightarrow> 't session \<Rightarrow> go_error \<Rightarrow> 't session \<times> unit result" where
  "output_failed ev s e =
     (if is_panic (Inl e :: unit result) then (s, Inl e)
      else closeWithError ev (s\<lparr>se_outputHasErr := True\<rparr>) (Some e))"

text \<open>The loop of \<open>runOutputOnceStream\<close>; it runs at most once per segment of the queue and once more.\<close>

fun output_stream_loop :: "'t senv \<Rightarrow> nat \<Rightarrow> 't session \<Rightarrow> 't session \<times> unit result" where
  "output_stream_loop ev 0 s = (s, Inr ())"
| "output_stream_loop ev (Suc n) s =
     sbind (sendQueue_DeleteMin ev s) (\<lambda>s m.
       case m of
         None \<Rightarrow> (s, Inr ())
       | Some seg \<Rightarrow>
           (case session_output ev s seg of
              (s, Inl e) \<Rightarrow> output_failed ev s e
            | (s, Inr _) \<Rightarrow> output_stream_loop ev n s))"

definition runOutputOnceStream :: "'t senv \<Rightarrow> 't session \<Rightarrow> 't session \<times> unit result" where
  "runOutputOnceStream ev s =
     (if se_outputHasErr s then (s, Inr ())
      else output_stream_loop ev (Suc (bt_Len (segmentOps (ev_bt ev)) (st_tr (se_sendQueue s)))) s)"

text \<open>
  The timeout of a transmission:
  \<open>min(RTO * time.Duration(math.Pow(txTimeoutBackOff, txCount)), maxBackOffDuration)\<close>.
\<close>

definition tx_timeout :: "'t senv \<Rightarrow> 't session \<Rightarrow> u8 \<Rightarrow> int" where
  "tx_timeout ev s txCount =
     Min2 (RTO (ev_fe ev) (se_rttStat s)
             * trunc_real (fe_f64 (ev_fe ev) (txTimeoutBackOff ^ unat txCount)))
          maxBackOffDuration"

definition set_unAckSeq :: "u32 \<Rightarrow> segment \<Rightarrow> segment" where
  "set_unAckSeq n seg =
     (case seg_metadata seg of
        DataAck_md das \<Rightarrow>
          if isDataAckProtocol (das_protocol das)
          then seg\<lparr>seg_metadata := DataAck_md (das\<lparr>das_unAckSeq := n\<rparr>)\<rparr> else seg
      | Session_md ss \<Rightarrow> seg)"

text \<open>The state of one round of \<open>runOutputOncePacket\<close>: its local variables.\<close>

record 't round =
  ro_s :: "'t session"
  ro_closeSessionReason :: "go_error option"
  ro_hasLoss :: bool
  ro_hasTimeout :: bool
  ro_totalTransmissionCount :: int
  ro_nextTX :: int

text \<open>The function given to \<open>sendBuf.Ascend\<close>: decides about one unacknowledged segment.\<close>

definition resend_one :: "'t senv \<Rightarrow> segment \<Rightarrow> 't round \<Rightarrow> segment \<times> 't round \<times> bool" where
  "resend_one ev iter r =
     (let r = r\<lparr>ro_nextTX := Min2 (ro_nextTX r) (seg_txTime iter + Microseconds (seg_txTimeout iter))\<rparr>;
          s = ro_s r
      in if seg_txCount iter \<ge> txCountLimit
         then (iter, r\<lparr>ro_s := s\<lparr>se_outputHasErr := True\<rparr>,
                 ro_closeSessionReason := Some (Errorf ''too many retransmission'')\<rparr>, False)
         else
           let early = seg_ackCount iter \<ge> earlyRetransmission
                       \<and> seg_txCount iter \<le> earlyRetransmissionLimit
           in if early \<or> UnixMicro s - seg_txTime iter > Microseconds (seg_txTimeout iter)
              then
                let r = (if early then r\<lparr>ro_hasLoss := True\<rparr> else r\<lparr>ro_hasTimeout := True\<rparr>);
                    iter = iter\<lparr>seg_ackCount := 0, seg_txCount := seg_txCount iter + 1,
                                seg_txTime := UnixMicro s\<rparr>;
                    iter = iter\<lparr>seg_txTimeout := tx_timeout ev s (seg_txCount iter)\<rparr>;
                    iter = set_unAckSeq (se_nextRecv s) iter
                in (case session_output ev s iter of
                      (s, Inl e) \<Rightarrow> (iter, r\<lparr>ro_s := s\<lparr>se_outputHasErr := True\<rparr>,
                        ro_closeSessionReason := Some e\<rparr>, False)
                    | (s, Inr _) \<Rightarrow> (iter, r\<lparr>ro_s := s,
                        ro_totalTransmissionCount := ro_totalTransmissionCount r + 1\<rparr>, True))
              else (iter, r, True))"

definition MaxInt64 :: int where "MaxInt64 = 2 ^ 63 - 1"

text \<open>The first part of \<open>runOutputOncePacket\<close>: resend what is due.\<close>

definition resend_part :: "'t senv \<Rightarrow> 't session \<Rightarrow> 't session \<times> int result" where
  "resend_part ev s =
     (if UnixMicro s \<ge> se_nextRetransmissionTime s
      then
        let (t, r) = Ascend (ev_bt ev) (se_sendBuf s) (resend_one ev)
              \<lparr>ro_s = s, ro_closeSessionReason = None, ro_hasLoss = False, ro_hasTimeout = False,
               ro_totalTransmissionCount = 0, ro_nextTX = MaxInt64\<rparr>;
            s = (ro_s r)\<lparr>se_sendBuf := t\<rparr>;
            s = s\<lparr>se_nextRetransmissionTime :=
                  (if ro_nextTX r \<noteq> MaxInt64 then ro_nextTX r else UnixMicro s + 10000)\<rparr>;
            closed = (case ro_closeSessionReason r of
                        None \<Rightarrow> (s, Inr ())
                      | Some (Panic m) \<Rightarrow> (s, Inl (Panic m))
                      | Some e \<Rightarrow> closeWithError ev s (Some e))
        in sbind closed (\<lambda>s _.
             let s = (if ro_hasTimeout r then s\<lparr>se_cubic := fst (OnTimeout (se_cubic s))\<rparr>
                      else if ro_hasLoss r
                      then s\<lparr>se_cubic := fst (OnLoss (ev_fe ev) (se_cubic s) (UnixMicro s))\<rparr>
                      else s)
             in (s, Inr (ro_totalTransmissionCount r)))
      else (s, Inr 0))"

text \<open>The loop that moves segments from the send queue to the send buffer and transmits them.\<close>

fun send_new_loop :: "'t senv \<Rightarrow> nat \<Rightarrow> int \<Rightarrow> 't session \<Rightarrow> 't session \<times> unit result" where
  "send_new_loop ev 0 cnt s = (s, Inr ())"
| "send_new_loop ev (Suc n) cnt s =
     (if Remaining (ev_bt ev) (se_sendBuf s) \<le> 1 then (s, Inr ())
      else sbind (sendQueue_DeleteMinIf ev s (\<lambda>_. cnt < sendWindowSize ev s)) (\<lambda>s (m, deleted).
        (case m of
           Some seg \<Rightarrow>
             if \<not> deleted then (s, Inr ())
             else
               let seg = seg\<lparr>seg_txCount := seg_txCount seg + 1, seg_txTime := UnixMicro s\<rparr>;
                   seg = seg\<lparr>seg_txTimeout := tx_timeout ev s (seg_txCount seg)\<rparr>;
                   seg = set_unAckSeq (se_nextRecv s) seg
               in sbind (sendBuf_Insert ev s seg) (\<lambda>s inserted.
                    if \<not> inserted
                    then output_failed ev s (Errorf ''output() failed: insert to send buffer failed'')
                    else (case session_output ev s seg of
                            (s, Inl e) \<Rightarrow> output_failed ev s e
                          | (s, Inr _) \<Rightarrow> send_new_loop ev n (cnt + 1) s))
         | None \<Rightarrow> (s, Inr ()))))"

definition send_new_part :: "'t senv \<Rightarrow> int \<Rightarrow> 't session \<Rightarrow> 't session \<times> unit result" where
  "send_new_part ev cnt s =
     (let skipSendNewSegment = sendWindowSize ev s \<le> 0
      in if st_Len (ev_bt ev) (se_sendQueue s) > 0 \<and> \<not> skipSendNewSegment
         then send_new_loop ev (Suc (bt_Len (segmentOps (ev_bt ev)) (st_tr (se_sendQueue s)))) cnt s
         else (s, Inr ()))"

definition ack_segment :: "'t senv \<Rightarrow> 't session \<Rightarrow> segment" where
  "ack_segment ev s =
     \<lparr>seg_metadata = DataAck_md (zero_dataAckStruct\<lparr>
        das_protocol := (if se_isClient s then ackClientToServer else ackServerToClient),
        das_sessionID := se_id s,
        das_seq := of_int (Max2 0 (uint (se_nextSend s) - 1)),
        das_unAckSeq := se_nextRecv s,
        das_windowSize := of_int (receiveWindowSize ev s)\<rparr>),
      seg_payload = [], seg_transport = se_transportProtocol s, seg_ackCount = 0, seg_txCount = 0,
      seg_txTime = 0, seg_txTimeout = 0, seg_block = None\<rparr>"

text \<open>The last part: an acknowledgement or a heartbeat.\<close>

definition ack_part :: "'t senv \<Rightarrow> 't session \<Rightarrow> 't session \<times> unit result" where
  "ack_part ev s =
     (let exceedHeartbeatInterval =
            UnixMicro s - se_lastTXTime s > Microseconds sessionHeartbeatInterval
      in if se_ackOnDataRecv s \<or> exceedHeartbeatInterval
         then sbind (case session_output ev s (ack_segment ev s) of
                       (s, Inl e) \<Rightarrow> output_failed ev s e
                     | (s, Inr _) \<Rightarrow> (s, Inr ()))
                    (\<lambda>s _. (s\<lparr>se_ackOnDataRecv := False\<rparr>, Inr ()))
         else (s, Inr ()))"

definition runOutputOncePacket :: "'t senv \<Rightarrow> 't session \<Rightarrow> 't session \<times> unit result" where
  "runOutputOncePacket ev s =
     (if se_outputHasErr s then (s, Inr ())
      else sbind (resend_part ev s) (\<lambda>s cnt.
             sbind (send_new_part ev cnt s) (\<lambda>s _. ack_part ev s)))"

text \<open>One round of \<open>runOutputLoop\<close>; \<open>tick\<close> says whether the ticker has fired.\<close>

definition runOutputOnce :: "'t senv \<Rightarrow> bool \<Rightarrow> 't session \<Rightarrow> 't session \<times> unit result" where
  "runOutputOnce ev tick s =
     (if se_closedChan s then (s, Inr ())
      else (case se_transportProtocol s of
              StreamTransport \<Rightarrow>
                if st_chanNotEmptyEvent (se_sendQueue s)
                then runOutputOnceStream ev
                       (s\<lparr>se_sendQueue := (se_sendQueue s)\<lparr>st_chanNotEmptyEvent := False\<rparr>\<rparr>)
                else (s, Inl Blocked)
            | PacketTransport \<Rightarrow>
                if tick then runOutputOncePacket ev s
                else if st_chanNotEmptyEvent (se_sendQueue s)
                then runOutputOncePacket ev
                       (s\<lparr>se_sendQueue := (se_sendQueue s)\<lparr>st_chanNotEmptyEvent := False\<rparr>\<rparr>)
                else (s, Inl Blocked)
            | UnknownTransport \<Rightarrow>
                closeWithError ev (s\<lparr>se_outputHasErr := True\<rparr>)
                  (Some (Errorf ''unsupported transport protocol''))))"

section \<open>Metrics and quotas\<close>

definition UserMetricGroup :: "string \<Rightarrow> string" where
  "UserMetricGroup userName = ''user - '' @ userName"

definition UserMetricUploadBytes :: string where "UserMetricUploadBytes = ''UploadBytes''"
definition UserMetricDownloadBytes :: string where "UserMetricDownloadBytes = ''DownloadBytes''"

text \<open>Update one metric of the registry in place.\<close>

definition registry_put :: "registry \<Rightarrow> string \<Rightarrow> string \<Rightarrow> metric \<Rightarrow> registry" where
  "registry_put reg g name m =
     (case reg g of None \<Rightarrow> reg
      | Some grp \<Rightarrow> reg(g \<mapsto> grp\<lparr>mg_metrics := (mg_metrics grp)(name \<mapsto> m)\<rparr>))"

text \<open>\<open>Add\<close> on the registered byte counter of the user of the session.\<close>

definition add_user_bytes :: "'t session \<Rightarrow> string \<Rightarrow> int \<Rightarrow> 't session" where
  "add_user_bytes s name n =
     (let g = UserMetricGroup (case se_block s of Some b \<Rightarrow> bc_userName b | None \<Rightarrow> [])
      in (case se_registry s g of
            Some grp \<Rightarrow>
              (case mg_metrics grp name of
                 Some (Counter_m c) \<Rightarrow>
                   s\<lparr>se_registry := registry_put (se_registry s) g name
                       (Counter_m (fst (addWithTime c n (se_now s))))\<rparr>
               | _ \<Rightarrow> s)
          | None \<Rightarrow> s))"

text \<open>The loop over the quotas: the traffic of the last days in whole megabytes against the limit.\<close>

fun check_quotas :: "int \<Rightarrow> counter \<Rightarrow> counter \<Rightarrow> quota list \<Rightarrow> bool result" where
  "check_quotas now up down [] = Inr True"
| "check_quotas now up down (q # qs) =
     (let since = now + i64 (- qu_days q * 24 * 3600 * Second)
      in (case DeltaBetween up since now of
            Inl e \<Rightarrow> Inl e
          | Inr (up, a) \<Rightarrow>
              (case DeltaBetween down since now of
                 Inl e \<Rightarrow> Inl e
               | Inr (down, b) \<Rightarrow>
                   if go_quot (i64 (a + b)) 1048576 > qu_megabytes q then Inr False
                   else check_quotas now up down qs)))"

text \<open>\<open>checkQuota\<close>; the error of the source, which its caller only logs, is left out.\<close>

definition checkQuota :: "'t session \<Rightarrow> string \<Rightarrow> bool result" where
  "checkQuota s userName =
     (if se_users s = [] then Inr True
      else (case map_of (se_users s) userName of
              None \<Rightarrow> Inr True
            | Some quotas \<Rightarrow>
                if quotas = [] then Inr True
                else (case GetMetricGroupByName (se_registry s) (UserMetricGroup userName) of
                        None \<Rightarrow> Inr True
                      | Some grp \<Rightarrow>
                          (case GetMetric grp UserMetricUploadBytes of
                             None \<Rightarrow> Inr True
                           | Some up \<Rightarrow>
                               (case GetMetric grp UserMetricDownloadBytes of
                                  None \<Rightarrow> Inr True
                                | Some down \<Rightarrow>
                                    (case (up, down) of
                                       (Counter_m u, Counter_m d) \<Rightarrow> check_quotas (se_now s) u d quotas
                                     | _ \<Rightarrow> Inl (Panic ''interface conversion'')))))))"

section \<open>Input\<close>

text \<open>
  Removing acknowledged segments from the send buffer: every removal is a round-trip sample and an
  acknowledgement for the congestion window. At most one round per segment and one more.
\<close>

fun ack_loop :: "'t senv \<Rightarrow> nat \<Rightarrow> u32 \<Rightarrow> 't session \<Rightarrow> 't session \<times> unit result" where
  "ack_loop ev 0 unAckSeq s = (s, Inr ())"
| "ack_loop ev (Suc n) unAckSeq s =
     sbind (sendBuf_DeleteMinIf ev s (\<lambda>iter. seq_of iter < unAckSeq)) (\<lambda>s (m, deleted).
       case m of
         Some seg2 \<Rightarrow>
           if \<not> deleted then (s, Inr ())
           else ack_loop ev n unAckSeq
                  (s\<lparr>se_rttStat := UpdateRTT (ev_fe ev) (se_rttStat s)
                       ((UnixMicro s - seg_txTime seg2) * Microsecond),
                    se_cubic := fst (OnAck (ev_fe ev) (se_cubic s) (UnixMicro s))\<rparr>)
       | None \<Rightarrow> (s, Inr ()))"

definition delete_acked :: "'t senv \<Rightarrow> u32 \<Rightarrow> 't session \<Rightarrow> 't session \<times> unit result" where
  "delete_acked ev unAckSeq s =
     ack_loop ev (Suc (bt_Len (segmentOps (ev_bt ev)) (st_tr (se_sendBuf s)))) unAckSeq s"

text \<open>Moving segments that are due from the receive buffer to the receive queue.\<close>

definition move_segment :: "'t senv \<Rightarrow> 't session \<Rightarrow> segment \<Rightarrow> 't session \<times> unit result" where
  "move_segment ev s seg3 =
     sbind (recvQueue_Insert ev s seg3) (\<lambda>s inserted.
       if \<not> inserted
       then (s, Inl (Errorf ''inputData() failed: insert to receive queue failed''))
       else
         let s = s\<lparr>se_nextRecv := se_nextRecv s + 1\<rparr>
         in (case seg_metadata seg3 of
               DataAck_md das \<Rightarrow> (s\<lparr>se_remoteWindowSize := ucast (das_windowSize das)\<rparr>, Inr ())
             | Session_md _ \<Rightarrow> (s, Inr ())))"

fun move_loop :: "'t senv \<Rightarrow> nat \<Rightarrow> 't session \<Rightarrow> 't session \<times> unit result" where
  "move_loop ev 0 s = (s, Inr ())"
| "move_loop ev (Suc n) s =
     (if Remaining (ev_bt ev) (se_recvQueue s) \<le> 1 then (s, Inr ())
      else sbind (recvBuf_DeleteMinIf ev s (\<lambda>iter. seq_of iter \<le> se_nextRecv s)) (\<lambda>s (m, deleted).
        case m of
          None \<Rightarrow> (s, Inr ())
        | Some seg3 \<Rightarrow>
            if \<not> deleted then (s, Inr ())
            else if seq_of seg3 = se_nextRecv s
            then sbind (move_segment ev s seg3) (\<lambda>s _. move_loop ev n s)
            else move_loop ev n s))"

text \<open>
  The first half of \<open>inputData\<close>: deliver a segment, to the receive queue of a stream or to the receive
  buffer of a packet session, after the acknowledgement it carries. A full receive buffer or queue
  makes the goroutine wait.
\<close>

definition deliver_stream :: "'t senv \<Rightarrow> 't session \<Rightarrow> segment \<Rightarrow> 't session \<times> unit result" where
  "deliver_stream ev s seg =
     (if Remaining (ev_bt ev) (se_recvQueue s) \<le> 1 then (s, Inl Blocked)
      else sbind (recvQueue_Insert ev s seg) (\<lambda>s inserted.
             if \<not> inserted
             then (s, Inl (Errorf ''inputData() failed: insert to receive queue failed''))
             else (s, Inr ())))"

definition carried_ack :: "'t senv \<Rightarrow> 't session \<Rightarrow> segment \<Rightarrow> 't session \<times> unit result" where
  "carried_ack ev s seg =
     (case seg_metadata seg of
        DataAck_md das \<Rightarrow>
          sbind (delete_acked ev (das_unAckSeq das) s) (\<lambda>s _.
            (s\<lparr>se_remoteWindowSize := ucast (das_windowSize das)\<rparr>, Inr ()))
      | Session_md _ \<Rightarrow> (s, Inr ()))"

definition move_all :: "'t senv \<Rightarrow> 't session \<Rightarrow> 't session \<times> unit result" where
  "move_all ev s =
     sbind (move_loop ev (Suc (bt_Len (segmentOps (ev_bt ev)) (st_tr (se_recvBuf s)))) s)
       (\<lambda>s _. (s\<lparr>se_ackOnDataRecv := True\<rparr>, Inr ()))"

definition deliver_packet :: "'t senv \<Rightarrow> 't session \<Rightarrow> segment \<Rightarrow> 't session \<times> unit result" where
  "deliver_packet ev s seg =
     (if Remaining (ev_bt ev) (se_recvBuf s) \<le> 1 then (s, Inl Blocked)
      else sbind (recvBuf_Insert ev s seg) (\<lambda>s inserted.
             if \<not> inserted
             then (s, Inl (Errorf ''inputData() failed: insert to receive buffer failed''))
             else move_all ev s))"

definition deliver :: "'t senv \<Rightarrow> 't session \<Rightarrow> segment \<Rightarrow> 't session \<times> unit result" where
  "deliver ev s seg =
     (case se_transportProtocol s of
        StreamTransport \<Rightarrow> deliver_stream ev s seg
      | PacketTransport \<Rightarrow> sbind (carried_ack ev s seg) (\<lambda>s _. deliver_packet ev s seg)
      | UnknownTransport \<Rightarrow> (s, Inl (Errorf ''unsupported transport protocol'')))"

text \<open>The second half: a server answers an open session request.\<close>

definition open_response :: "'t senv \<Rightarrow> 't session \<Rightarrow> 't session \<times> unit result" where
  "open_response ev s =
     (let seg4 = session_segment s openSessionResponse 0 [];
          s = take_seq s []
      in sbind (sendQueue_Insert ev s seg4) (\<lambda>s inserted.
           if \<not> inserted
           then (s, Inl (Errorf ''inputData() failed: insert to send queue failed''))
           else (forwardStateTo s sessionEstablished, Inr ())))"

definition answer_open :: "'t senv \<Rightarrow> 't session \<Rightarrow> 't session \<times> unit result" where
  "answer_open ev s =
     (if UserName s \<noteq> []
      then (case checkQuota s (UserName s) of
              Inl e \<Rightarrow> (s, Inl e)
            | Inr quotaOK \<Rightarrow>
                if \<not> quotaOK
                then session_Close ev (s\<lparr>se_status := statusQuotaExhausted\<rparr>)
                else open_response ev s)
      else open_response ev s)"

definition inputData :: "'t senv \<Rightarrow> 't session \<Rightarrow> segment \<Rightarrow> 't session \<times> unit result" where
  "inputData ev s seg =
     sbind (deliver ev s seg) (\<lambda>s _.
       if \<not> se_isClient s \<and> seg_Protocol seg = openSessionRequest \<and> isState s sessionAttached
       then answer_open ev s
       else (s, Inr ()))"

definition bump_ack :: "u32 \<Rightarrow> segment \<Rightarrow> unit \<Rightarrow> segment \<times> unit \<times> bool" where
  "bump_ack unAckSeq iter a =
     (if seq_of iter > unAckSeq then (iter, (), False)
      else if seq_of iter = unAckSeq then (iter\<lparr>seg_ackCount := seg_ackCount iter + 1\<rparr>, (), True)
      else (iter, (), True))"

definition inputAck :: "'t senv \<Rightarrow> 't session \<Rightarrow> segment \<Rightarrow> 't session \<times> unit result" where
  "inputAck ev s seg =
     (case se_transportProtocol s of
        StreamTransport \<Rightarrow> (s, Inr ())
      | PacketTransport \<Rightarrow>
          (case seg_metadata seg of
             Session_md _ \<Rightarrow> (s, Inl (Panic ''interface conversion''))
           | DataAck_md das \<Rightarrow>
               sbind (delete_acked ev (das_unAckSeq das) s) (\<lambda>s _.
                 let s = s\<lparr>se_remoteWindowSize := ucast (das_windowSize das)\<rparr>;
                     t = fst (Ascend (ev_bt ev) (se_sendBuf s) (bump_ack (das_unAckSeq das)) ())
                 in (s\<lparr>se_sendBuf := t\<rparr>, Inr ())))
      | UnknownTransport \<Rightarrow> (s, Inl (Errorf ''unsupported transport protocol'')))"

definition inputClose :: "'t senv \<Rightarrow> 't session \<Rightarrow> segment \<Rightarrow> 't session \<times> unit result" where
  "inputClose ev s seg =
     (if seg_Protocol seg = closeSessionRequest
      then
        let seg2 = session_segment s closeSessionResponse statusOK [];
            s = take_seq s []
        in (case session_output ev s seg2 of
              (s, Inl (Panic m)) \<Rightarrow> (s, Inl (Panic m))
            | (s, Inl e) \<Rightarrow> (s, Inl (Errorf ''output() failed''))
            | (s, Inr _) \<Rightarrow> session_Close ev s)
      else if seg_Protocol seg = closeSessionResponse then session_Close ev s
      else (s, Inr ()))"

definition accepts_protocol :: "'t session \<Rightarrow> u8 \<Rightarrow> bool" where
  "accepts_protocol s protocol \<longleftrightarrow>
     (if se_isClient s
      then protocol \<in> {openSessionResponse, dataServerToClient, ackServerToClient,
             closeSessionRequest, closeSessionResponse}
      else protocol \<in> {openSessionRequest, dataClientToServer, ackClientToServer,
             closeSessionRequest, closeSessionResponse})"

text \<open>The part of \<open>input\<close> that deals with the cipher that decrypted the segment.\<close>

definition adopt_block :: "'t session \<Rightarrow> segment \<Rightarrow> 't session \<times> unit result" where
  "adopt_block s seg =
     (case seg_block seg of
        None \<Rightarrow> (s, Inr ())
      | Some block \<Rightarrow>
          let nextUserName = bc_userName block;
              bad = (case se_block s of
                       None \<Rightarrow> False
                     | Some b \<Rightarrow> bc_userName b = [] \<or> nextUserName = [] \<or> bc_userName b \<noteq> nextUserName)
          in if bad then (s, Inl (Panic ''cipher block user name''))
             else
               let s = s\<lparr>se_block := Some block\<rparr>;
                   s = (if UserName s = [] \<and> nextUserName \<noteq> []
                        then s\<lparr>se_userName := Some nextUserName\<rparr> else s);
                   g = UserMetricGroup nextUserName;
                   s = (if \<not> se_isClient s \<and> \<not> se_uploadBytes s
                        then s\<lparr>se_uploadBytes := True, se_registry := fst (RegisterMetric
                               (se_registry s) g UserMetricUploadBytes COUNTER_TIME_SERIES)\<rparr> else s);
                   s = (if \<not> se_isClient s \<and> \<not> se_downloadBytes s
                        then s\<lparr>se_downloadBytes := True, se_registry := fst (RegisterMetric
                               (se_registry s) g UserMetricDownloadBytes COUNTER_TIME_SERIES)\<rparr> else s)
               in (s, Inr ()))"

definition input :: "'t senv \<Rightarrow> 't session \<Rightarrow> segment \<Rightarrow> 't session \<times> unit result" where
  "input ev s seg =
     (let protocol = seg_Protocol seg
      in if \<not> accepts_protocol s protocol then (s, Inl ErrInvalidArgument)
         else sbind (adopt_block s seg) (\<lambda>s _.
           let s = s\<lparr>se_lastRXTime := UnixMicro s\<rparr>
           in if protocol \<in> {openSessionRequest, openSessionResponse, dataServerToClient, dataClientToServer}
              then inputData ev s seg
              else if protocol \<in> {ackServerToClient, ackClientToServer} then inputAck ev s seg
              else if protocol \<in> {closeSessionRequest, closeSessionResponse} then inputClose ev s seg
              else (s, Inr ())))"

text \<open>One round of \<open>runInputLoop\<close> with the next segment of \<open>recvChan\<close>.\<close>

definition input_failed :: "'t senv \<Rightarrow> 't session \<Rightarrow> go_error \<Rightarrow> 't session \<times> unit result" where
  "input_failed ev s e =
     sbind (closeWithError ev (s\<lparr>se_inputHasErr := True\<rparr>) (Some e))
       (\<lambda>s _. (s, Inl (Errorf ''input() failed'')))"

definition runInputOnce :: "'t senv \<Rightarrow> 't session \<Rightarrow> 't session \<times> unit result" where
  "runInputOnce ev s =
     (if se_closedChan s then (s, Inr ())
      else (case se_recvChan s of
              [] \<Rightarrow> (s, Inl Blocked)
            | seg # rest \<Rightarrow>
                (case input ev (s\<lparr>se_recvChan := rest\<rparr>) seg of
                   (s, Inr _) \<Rightarrow> (s, Inr ())
                 | (s', Inl Blocked) \<Rightarrow> (s, Inl Blocked)
                 | (s, Inl (Panic m)) \<Rightarrow> (s, Inl (Panic m))
                 | (s, Inl e) \<Rightarrow> input_failed ev s e)))"

section \<open>Read\<close>

text \<open>What \<open>Read\<close> does with a segment it takes from the receive queue.\<close>

definition read_segment :: "'t session \<Rightarrow> segment \<Rightarrow> 't session" where
  "read_segment s seg =
     (let s = (if se_isClient s \<and> seg_Protocol seg = openSessionResponse \<and> isState s sessionAttached
               then forwardStateTo s sessionEstablished else s)
      in s\<lparr>se_unreadBuf := se_unreadBuf s @ seg_payload seg\<rparr>)"

text \<open>The end of \<open>Read\<close>: copy at most \<open>n\<close> bytes out of \<open>unreadBuf\<close>.\<close>

definition read_copy :: "'t session \<Rightarrow> nat \<Rightarrow> 't session \<times> bytes result" where
  "read_copy s n =
     (let b = take n (se_unreadBuf s);
          s = s\<lparr>se_unreadBuf := drop n (se_unreadBuf s), se_readDeadline := 0\<rparr>;
          s = (if \<not> se_isClient s \<and> se_uploadBytes s
               then add_user_bytes s UserMetricUploadBytes (int (length b)) else s)
      in (s, Inr b))"

text \<open>The \<open>select\<close> of \<open>Read\<close> when there is nothing to read.\<close>

definition read_select :: "'t session \<Rightarrow> 't session \<times> bytes result" where
  "read_select s =
     (if se_closedChan s then (s\<lparr>se_readDeadline := 0\<rparr>, Inl EOF)
      else if se_inputHasErr s then (s\<lparr>se_readDeadline := 0\<rparr>, Inl ErrUnexpectedEOF)
      else if deadline_passed s (se_readDeadline s) then (s\<lparr>se_readDeadline := 0\<rparr>, Inl ErrTimeout)
      else (s\<lparr>se_recvQueue := (se_recvQueue s)\<lparr>st_chanNotEmptyEvent := False\<rparr>\<rparr>, Inl Blocked))"

definition session_Read :: "'t senv \<Rightarrow> 't session \<Rightarrow> nat \<Rightarrow> 't session \<times> bytes result" where
  "session_Read ev s n =
     (if se_unreadBuf s \<noteq> [] then read_copy s n
      else if st_Len (ev_bt ev) (se_recvQueue s) > 0
      then (case drain (ev_bt ev) (se_recvQueue s) of
              Inl e \<Rightarrow> (s, Inl e)
            | Inr (t, segs) \<Rightarrow>
                let s = foldl read_segment (s\<lparr>se_recvQueue := t\<rparr>) segs
                in if se_unreadBuf s \<noteq> [] then read_copy s n else read_select s)
      else read_select s)"

section \<open>Write\<close>

text \<open>
  A writer waits for others: the schedule is the list of what the other goroutines do while it
  sleeps, one entry per sleep. When it is used up, the writer is \<open>Blocked\<close>.
\<close>

type_synonym 't schedule = "('t session \<Rightarrow> 't session) list"

text \<open>The three error cases of the \<open>select\<close> statements of \<open>writeChunk\<close>.\<close>

definition write_error :: "'t session \<Rightarrow> go_error option" where
  "write_error s =
     (if se_closedChan s then Some EOF
      else if se_outputHasErr s then Some ErrClosedPipe
      else if deadline_passed s (se_writeDeadline s) then Some ErrTimeout
      else None)"

fun wait_room :: "'t senv \<Rightarrow> 't schedule \<Rightarrow> int \<Rightarrow> 't session \<Rightarrow> 't session \<times> 't schedule result" where
  "wait_room ev sch nFragment s =
     (if Remaining (ev_bt ev) (se_sendQueue s) > nFragment then (s, Inr sch)
      else (case write_error s of
              Some e \<Rightarrow> (s, Inl e)
            | None \<Rightarrow> (case sch of
                          [] \<Rightarrow> (s, Inl Blocked)
                        | f # fs \<Rightarrow> wait_room ev fs nFragment (f s))))"

declare wait_room.simps [simp del]

definition fragment_segment :: "'t senv \<Rightarrow> 't session \<Rightarrow> nat \<Rightarrow> bytes \<Rightarrow> segment" where
  "fragment_segment ev s i part =
     \<lparr>seg_metadata = DataAck_md (zero_dataAckStruct\<lparr>
        das_protocol := (if se_isClient s then dataClientToServer else dataServerToClient),
        das_sessionID := se_id s, das_seq := se_nextSend s, das_unAckSeq := se_nextRecv s,
        das_windowSize := of_int (receiveWindowSize ev s), das_fragment := of_nat i,
        das_payloadLen := of_nat (length part)\<rparr>),
      seg_payload = part, seg_transport = se_transportProtocol s, seg_ackCount = 0,
      seg_txCount = 0, seg_txTime = 0, seg_txTimeout = 0, seg_block = None\<rparr>"

text \<open>The loop over the fragments, from \<open>nFragment - 1\<close> down to 0.\<close>

fun write_fragments ::
    "'t senv \<Rightarrow> nat \<Rightarrow> nat \<Rightarrow> bytes \<Rightarrow> 't session \<Rightarrow> 't session \<times> unit result" where
  "write_fragments ev fragmentSize 0 ptr s = (s, Inr ())"
| "write_fragments ev fragmentSize (Suc i) ptr s =
     (case write_error s of
        Some e \<Rightarrow> (s, Inl e)
      | None \<Rightarrow>
          let partLen = Min2 fragmentSize (length ptr);
              seg = fragment_segment ev s i (take partLen ptr);
              s = take_seq s (take partLen ptr)
          in sbind (sendQueue_Insert ev s seg) (\<lambda>s inserted.
               if \<not> inserted then (s, Inl (Errorf ''insert to send queue failed''))
               else write_fragments ev fragmentSize i (drop partLen ptr) s))"

text \<open>The wait at the end of \<open>writeChunk\<close>, until the send queue is empty or has moved.\<close>

fun wait_moving :: "'t senv \<Rightarrow> 't schedule \<Rightarrow> u32 \<Rightarrow> 't session \<Rightarrow> 't session \<times> 't schedule result" where
  "wait_moving ev sch seqBeforeWrite s =
     (if st_chanEmptyEvent (se_sendQueue s)
      then (s\<lparr>se_sendQueue := (se_sendQueue s)\<lparr>st_chanEmptyEvent := False\<rparr>\<rparr>, Inr sch)
      else (case MinSeq (ev_bt ev) (se_sendQueue s) of
              Inl _ \<Rightarrow> (s, Inr sch)
            | Inr seqAfterWrite \<Rightarrow>
                if seqAfterWrite > seqBeforeWrite then (s, Inr sch)
                else (case sch of
                        [] \<Rightarrow> (s, Inl Blocked)
                      | f # fs \<Rightarrow> wait_moving ev fs seqBeforeWrite (f s))))"

declare wait_moving.simps [simp del]

definition writeChunk ::
    "'t senv \<Rightarrow> 't schedule \<Rightarrow> bytes \<Rightarrow> 't session \<Rightarrow> 't session \<times> (nat \<times> 't schedule) result" where
  "writeChunk ev sch b s =
     (if int (length b) > maxPDU then (s, Inl ErrShortWrite)
      else
        let seqBeforeWrite = (case MinSeq (ev_bt ev) (se_sendQueue s) of Inr n \<Rightarrow> n | Inl _ \<Rightarrow> 0);
            fragmentSize = MaxFragmentSize (se_mtu s) (se_transportProtocol s)
        in if int (length b) > fragmentSize \<and> fragmentSize = 0
           then (s, Inl (Panic ''integer divide by zero''))
           else
             let nFragment = (if int (length b) > fragmentSize
                              then go_quot (int (length b) - 1) fragmentSize + 1 else 1)
             in sbind (wait_room ev sch nFragment s) (\<lambda>s sch.
                  sbind (write_fragments ev (nat fragmentSize) (nat nFragment) b s) (\<lambda>s _.
                    sbind (wait_moving ev sch seqBeforeWrite s) (\<lambda>s sch.
                      let s = (if se_isClient s
                               then s\<lparr>se_readDeadline := (se_now s + serverRespTimeout) div 1000\<rparr>
                               else s)
                      in (s, Inr (length b, sch))))))"

text \<open>The loop of \<open>Write\<close> over chunks; the result is the number of bytes written and the error.\<close>

function write_loop ::
    "'t senv \<Rightarrow> 't schedule \<Rightarrow> bytes \<Rightarrow> nat \<Rightarrow> 't session \<Rightarrow> 't session \<times> nat \<times> go_error option" where
  "write_loop ev sch b n s =
     (if b = [] then (s, n, None)
      else
        let sizeToSend = Min2 (length b) (nat maxPDU)
        in (case writeChunk ev sch (take sizeToSend b) s of
              (s, Inl e) \<Rightarrow> (s, n, Some e)
            | (s, Inr (sent, sch)) \<Rightarrow>
                if sent = 0 then (s, n, None)
                else write_loop ev sch (drop sizeToSend b) (n + sizeToSend) s))"
  by pat_completeness auto
termination
  by (relation "measure (\<lambda>(ev, sch, b, n, s). length b)") (auto simp: maxPDU_def)

declare write_loop.simps [simp del]

text \<open>Everything of \<open>Write\<close> between its guards and the end, where the write deadline is cleared.\<close>

definition write_open :: "'t senv \<Rightarrow> bytes \<Rightarrow> 't session \<Rightarrow> 't session \<times> (nat option) result" where
  "write_open ev b s =
     (if se_isClient s \<and> isState s sessionAttached \<and> \<not> se_openSessionRequestSent s
      then
        let payload = (if length b \<le> MaxSessionOpenPayload then b else []);
            s = s\<lparr>se_openSessionRequestSent := True\<rparr>;
            seg = session_segment s openSessionRequest 0 payload;
            s = take_seq s payload
        in sbind (sendQueue_Insert ev s seg) (\<lambda>s inserted.
             if \<not> inserted then (s, Inl (Errorf ''insert to send queue failed''))
             else (s, Inr (if payload \<noteq> [] then Some (length payload) else None)))
      else (s, Inr None))"

definition session_Write ::
    "'t senv \<Rightarrow> 't schedule \<Rightarrow> bytes \<Rightarrow> 't session \<Rightarrow> 't session \<times> nat \<times> go_error option" where
  "session_Write ev sch b s =
     (if se_closeRequested s then (s, 0, Some ErrClosedPipe)
      else if isStateBefore s sessionAttached False
      then (s, 0, Some (Errorf ''is not ready for Write()''))
      else if isStateAfter s sessionClosed True then (s, 0, Some ErrClosedPipe)
      else
        (case write_open ev b s of
           (s, Inl e) \<Rightarrow> (s\<lparr>se_writeDeadline := 0\<rparr>, 0, Some e)
         | (s, Inr (Some n)) \<Rightarrow> (s\<lparr>se_writeDeadline := 0\<rparr>, n, None)
         | (s, Inr None) \<Rightarrow>
             (case write_loop ev sch b 0 s of
                (s, n, Some e) \<Rightarrow> (s\<lparr>se_writeDeadline := 0\<rparr>, n, Some e)
              | (s, n, None) \<Rightarrow>
                  let s = (if \<not> se_isClient s \<and> se_downloadBytes s
                           then add_user_bytes s UserMetricDownloadBytes (int n) else s)
                  in (s\<lparr>se_writeDeadline := 0\<rparr>, n, None))))"

section \<open>Attaching\<close>

text \<open>The part of \<open>AddSession\<close> of a stream or packet underlay that changes the session.\<close>

definition attach :: "TransportProtocol \<Rightarrow> 't session \<Rightarrow> 't session" where
  "attach transport s =
     forwardStateTo (s\<lparr>se_transportProtocol := transport,
       se_currEstablished := se_currEstablished s + 1\<rparr>) sessionAttached"

end
