(* ===== verification/Sending.thy ===== *)
theory Sending
  imports Session "HOL-Library.Sublist"
begin

text \<open>
  What the sending side of a session keeps. The operations of a session that send (output, closing,
  the answer to an open request) change it only by a few elementary steps. A predicate \<open>I\<close> on sessions
  that these steps keep, together with a predicate \<open>known\<close> on segments, is kept by the operations. The
  locale is interpreted twice: for the numbering of the segments here, and for the receiving side,
  which none of these operations touch, in the theory of the receiving side.
\<close>

section \<open>The elementary steps\<close>

text \<open>Two sessions that agree on the trees, the numbering and what has been received.\<close>

definition same_core :: "'t session \<Rightarrow> 't session \<Rightarrow> bool" where
  "same_core s t \<longleftrightarrow>
     se_sendQueue t = se_sendQueue s \<and> se_sendBuf t = se_sendBuf s \<and> se_recvBuf t = se_recvBuf s
   \<and> se_recvQueue t = se_recvQueue s \<and> se_nextSend t = se_nextSend s \<and> se_nextRecv t = se_nextRecv s
   \<and> se_unreadBuf t = se_unreadBuf s \<and> se_wire t = se_wire s \<and> se_sent t = se_sent s
   \<and> se_mtu t = se_mtu s \<and> se_transportProtocol t = se_transportProtocol s
   \<and> se_id t = se_id s \<and> se_isClient t = se_isClient s"

lemma adopt_block_core: "same_core s (fst (adopt_block s seg))"
proof (cases "seg_block seg")
  case (Some b)
  then show ?thesis by (cases "se_block s") (simp_all add: same_core_def adopt_block_def Let_def)
qed (simp add: same_core_def adopt_block_def)

lemma ascend_loop_invariant:
  assumes "P a" "\<And>x a. x \<in> set xs \<Longrightarrow> P a \<Longrightarrow> P (fst (snd (si x a))) \<and> Q (fst (si x a))"
  shows "P (snd (ascend_loop si xs a)) \<and> (\<forall>y \<in> set (fst (ascend_loop si xs a)). Q y)"
  using assms
proof (induction xs arbitrary: a)
  case (Cons x xs)
  obtain x' a' go where s: "si x a = (x', a', go)" by (metis prod_cases3)
  have "P a'" "Q x'" using Cons.prems(2) [of x a] Cons.prems(1) s by auto
  with Cons.IH [of a'] Cons.prems(2) s show ?case by (auto split: prod.split)
qed simp

lemma Insert_subset:
  assumes "btree_ok bt" "Insert bt q seg = Inr (q', b)"
  shows "set (items bt q') \<subseteq> insert seg (set (items bt q))"
proof (cases "checkProtocolType seg")
  case True
  from assms(1) True show ?thesis
  proof (rule Insert_cases [of bt seg q])
  qed (use assms in \<open>auto simp: set_seg_insert\<close>)
next
  case False
  with assms(2) show ?thesis by (simp add: Insert_def seg_Seq_eq)
qed

lemma DeleteMinIf_subset:
  assumes bt: "btree_ok bt" and del: "DeleteMinIf bt q si = Inr (q', m, d)"
  shows "set (items bt q') \<subseteq> set (items bt q)"
    and "m = Some x \<Longrightarrow> x \<in> set (items bt q)"
proof -
  have "set (items bt q') \<subseteq> set (items bt q)
      \<and> (m = Some x \<longrightarrow> x \<in> set (items bt q))"
  proof (cases "items bt q")
    case Nil
    with del bt show ?thesis by (auto simp: tree_simps)
  next
    case (Cons y ys)
    show ?thesis
    proof (cases "si y")
      case True
      from bt Cons True obtain t' where "DeleteMinIf bt q si = Inr (t', Some y, True)"
          "items bt t' = ys" by (rule DeleteMinIf_delete)
      with del Cons show ?thesis by auto
    next
      case False
      from bt Cons False obtain t' where "DeleteMinIf bt q si = Inr (t', Some y, False)"
          "items bt t' = y # ys" by (rule DeleteMinIf_keep)
      with del Cons show ?thesis by auto
    qed
  qed
  then show "set (items bt q') \<subseteq> set (items bt q)"
    and "m = Some x \<Longrightarrow> x \<in> set (items bt q)" by simp_all
qed

locale sending =
  fixes ev :: "'t senv" and I :: "'t session \<Rightarrow> bool" and known :: "bytes list \<Rightarrow> segment \<Rightarrow> bool"
  assumes bt: "I s \<Longrightarrow> btree_ok (ev_bt ev)"
    and same: "I s \<Longrightarrow> same_core s t \<Longrightarrow> I t"
    and take: "I s \<Longrightarrow> I (take_seq s [])"
    and known_new: "I s \<Longrightarrow> seq_of seg = se_nextSend s \<Longrightarrow> seg_payload seg = [] \<Longrightarrow> known (se_sent s @ [[]]) seg"
    and known_mono: "known ps seg \<Longrightarrow> known (ps @ qs) seg"
    and known_like: "known ps seg \<Longrightarrow> seq_of seg' = seq_of seg \<Longrightarrow> seg_payload seg' = seg_payload seg
      \<Longrightarrow> seg_Protocol seg' = seg_Protocol seg \<Longrightarrow> known ps seg'"
    and known_ack: "\<not> checkProtocolType seg \<Longrightarrow> known ps seg"
    and wire: "I s \<Longrightarrow> known (se_sent s) seg \<Longrightarrow> I (s\<lparr>se_wire := se_wire s @ [seg]\<rparr>)"
    and queue_put: "I s \<Longrightarrow> \<forall>x \<in> set (items (ev_bt ev) q). known (se_sent s) x \<Longrightarrow> I (s\<lparr>se_sendQueue := q\<rparr>)"
    and buf_put: "I s \<Longrightarrow> \<forall>x \<in> set (items (ev_bt ev) q). known (se_sent s) x \<Longrightarrow> I (s\<lparr>se_sendBuf := q\<rparr>)"
    and queue_known: "I s \<Longrightarrow> x \<in> set (items (ev_bt ev) (se_sendQueue s)) \<Longrightarrow> known (se_sent s) x"
    and buf_known: "I s \<Longrightarrow> x \<in> set (items (ev_bt ev) (se_sendBuf s)) \<Longrightarrow> known (se_sent s) x"
    and wait: "I s \<Longrightarrow> I (ev_wait ev s) \<and> (\<exists>qs. se_sent (ev_wait ev s) = se_sent s @ qs)"
begin

lemma upd [simp]:
  assumes "I s"
  shows "I (s\<lparr>se_closeRequested := b\<rparr>)" "I (s\<lparr>se_status := st\<rparr>)" "I (s\<lparr>se_outputHasErr := b\<rparr>)"
    "I (s\<lparr>se_inputHasErr := b\<rparr>)" "I (s\<lparr>se_remoteWindowSize := w\<rparr>)" "I (s\<lparr>se_ackOnDataRecv := b\<rparr>)"
    "I (s\<lparr>se_lastRXTime := n\<rparr>)" "I (s\<lparr>se_cubic := c\<rparr>)" "I (s\<lparr>se_rttStat := r, se_cubic := c\<rparr>)"
    "I (s\<lparr>se_recvChan := ch\<rparr>)" "I (s\<lparr>se_now := n\<rparr>)"
    "I (s\<lparr>se_nextRetransmissionTime := n\<rparr>)" "I (forwardStateTo s st')"
    "I (s\<lparr>se_closedChan := b, se_currEstablished := n\<rparr>)"
  by (rule same [OF assms], simp add: same_core_def forwardStateTo_def)+

lemma output_keeps: "I s \<Longrightarrow> known (se_sent s) seg \<Longrightarrow> I (fst (session_output ev s seg))"
proof -
  assume "I s" "known (se_sent s) seg"
  then have "I (s\<lparr>se_wire := se_wire s @ [seg]\<rparr>)" by (rule wire)
  then have "I (s\<lparr>se_wire := se_wire s @ [seg], se_lastSend := seq_of seg, se_lastTXTime := UnixMicro s\<rparr>)"
    by (rule same) (simp add: same_core_def)
  with \<open>I s\<close> show ?thesis
    by (simp add: session_output_def Let_def split: TransportProtocol.split sum.split go_error.split)
qed

lemma output_sent: "se_sent (fst (session_output ev s seg)) = se_sent s"
  by (simp add: session_output_def Let_def split: TransportProtocol.split sum.split go_error.split)

lemma queue_insert_keeps: "I s \<Longrightarrow> known (se_sent s) seg \<Longrightarrow> I (fst (sendQueue_Insert ev s seg))"
proof (cases "Insert (ev_bt ev) (se_sendQueue s) seg")
  case (Inr a)
  assume a: "I s" "known (se_sent s) seg"
  obtain q b where q: "a = (q, b)" by fastforce
  have "\<forall>x \<in> set (items (ev_bt ev) q). known (se_sent s) x"
    using a q Inr queue_known [OF a(1)] Insert_subset [OF bt [OF a(1)], of "se_sendQueue s" seg q b] by auto
  with a(1) have "I (s\<lparr>se_sendQueue := q\<rparr>)" by (rule queue_put)
  with Inr q show ?thesis by (simp add: sendQueue_Insert_def)
qed (simp add: sendQueue_Insert_def)

lemma buf_insert_keeps: "I s \<Longrightarrow> known (se_sent s) seg \<Longrightarrow> I (fst (sendBuf_Insert ev s seg))"
proof (cases "Insert (ev_bt ev) (se_sendBuf s) seg")
  case (Inr a)
  assume a: "I s" "known (se_sent s) seg"
  obtain q b where q: "a = (q, b)" by fastforce
  have "\<forall>x \<in> set (items (ev_bt ev) q). known (se_sent s) x"
    using a q Inr buf_known [OF a(1)] Insert_subset [OF bt [OF a(1)], of "se_sendBuf s" seg q b] by auto
  with a(1) have "I (s\<lparr>se_sendBuf := q\<rparr>)" by (rule buf_put)
  with Inr q show ?thesis by (simp add: sendBuf_Insert_def)
qed (simp add: sendBuf_Insert_def)

lemma insert_sent [simp]:
  "se_sent (fst (sendQueue_Insert ev s seg)) = se_sent s" "se_sent (fst (sendBuf_Insert ev s seg)) = se_sent s"
  by (simp_all add: sendQueue_Insert_def sendBuf_Insert_def split: sum.split prod.split)

lemma queue_delete_keeps:
  assumes "I s" "sendQueue_DeleteMinIf ev s si = (t, r)"
  shows "I t" "r = Inr (Some x, d) \<Longrightarrow> known (se_sent t) x"
proof -
  have "I t \<and> (r = Inr (Some x, d) \<longrightarrow> known (se_sent t) x)"
  proof (cases "DeleteMinIf (ev_bt ev) (se_sendQueue s) si")
    case (Inr a)
    then show ?thesis
      using assms DeleteMinIf_subset [OF bt [OF assms(1)], where q = "se_sendQueue s" and si = si] queue_known [OF assms(1)]
      by (cases a) (fastforce simp: sendQueue_DeleteMinIf_def intro!: queue_put)
  qed (use assms in \<open>auto simp: sendQueue_DeleteMinIf_def\<close>)
  then show "I t" "r = Inr (Some x, d) \<Longrightarrow> known (se_sent t) x" by simp_all
qed

lemma queue_deleteMin_keeps:
  assumes "I s" "sendQueue_DeleteMin ev s = (t, r)"
  shows "I t" "r = Inr (Some x) \<Longrightarrow> known (se_sent t) x"
proof -
  have "I t \<and> (r = Inr (Some x) \<longrightarrow> known (se_sent t) x)"
  proof (cases "items (ev_bt ev) (se_sendQueue s)")
    case Nil
    then show ?thesis
      using assms bt [OF assms(1)] queue_put [of s "se_sendQueue s"] by (auto simp: sendQueue_DeleteMin_def tree_simps)
  next
    case (Cons y ys)
    from DeleteMin_Cons [OF bt [OF assms(1)] Cons] obtain q where
      q: "st_DeleteMin (ev_bt ev) (se_sendQueue s) = Inr (q, Some y)" "items (ev_bt ev) q = ys" by blast
    then show ?thesis
      using assms queue_known [OF assms(1)] Cons by (auto simp: sendQueue_DeleteMin_def intro!: queue_put)
  qed
  then show "I t" "r = Inr (Some x) \<Longrightarrow> known (se_sent t) x" by simp_all
qed

lemma buf_delete_keeps: "I s \<Longrightarrow> I (fst (sendBuf_DeleteMinIf ev s si))"
proof (cases "DeleteMinIf (ev_bt ev) (se_sendBuf s) si")
  case (Inr a)
  moreover assume "I s"
  ultimately show ?thesis
    using DeleteMinIf_subset [OF bt [OF \<open>I s\<close>], where q = "se_sendBuf s" and si = si] buf_known [OF \<open>I s\<close>]
    by (cases a) (fastforce simp: sendBuf_DeleteMinIf_def intro!: buf_put)
qed (simp add: sendBuf_DeleteMinIf_def)

lemma sbind_keeps:
  "I (fst m) \<Longrightarrow> (\<And>t a. m = (t, Inr a) \<Longrightarrow> I t \<Longrightarrow> I (fst (f t a))) \<Longrightarrow> I (fst (sbind m f))"
  by (auto simp: sbind_def split: prod.splits sum.splits)

end

section \<open>Closing and output\<close>

context sending
begin

lemma close_finish_keeps: "I s \<Longrightarrow> I (fst (close_finish ev s))"
  unfolding close_finish_def Let_def fst_conv
  by (intro upd buf_put queue_put) (simp_all add: tree_simps bt)

lemma close_force_keeps: "I s \<Longrightarrow> known (se_sent s) seg \<Longrightarrow> I (fst (close_force ev s seg))"
  using output_keeps [of s seg]
  by (auto simp: close_force_def close_finish_keeps split: prod.splits sum.splits go_error.splits)

lemma known_session_segment:
  "I s \<Longrightarrow> known (se_sent s @ [[]]) (session_segment s p st [])"
  by (rule known_new) (simp_all add: session_segment_def seq_of_md)

lemma take_seq_sent [simp]: "se_sent (take_seq s p) = se_sent s @ [p]"
  by (simp add: take_seq_def)

lemma closeWithError_keeps:
  assumes "I s0"
  shows "I (fst (closeWithError ev s0 err))"
proof -
  let ?s = "s0\<lparr>se_closeRequested := True\<rparr>"
  let ?seg = "session_segment ?s closeSessionRequest (se_status s0) []"
  let ?t = "take_seq ?s []"
  have t: "I ?t" using assms by (intro take) simp
  have k: "known (se_sent ?t) ?seg" using known_session_segment [of ?s] assms by simp
  have q: "I (fst (sendQueue_Insert ev ?t ?seg))" using t k by (rule queue_insert_keeps)
  have "I (fst (sbind (sendQueue_Insert ev ?t ?seg) (\<lambda>s inserted.
      if \<not> inserted then close_force ev s ?seg
      else let s = ev_wait ev s in
        if se_lastSend s \<ge> se_nextSend s0 then close_finish ev s else close_force ev s ?seg)))"
  proof (rule sbind_keeps)
    fix u and b :: bool assume u: "sendQueue_Insert ev ?t ?seg = (u, Inr b)" "I u"
    then have ku: "known (se_sent u) ?seg" using k insert_sent(1) [of ?t ?seg] by simp
    have w: "I (ev_wait ev u)" "known (se_sent (ev_wait ev u)) ?seg"
      using wait [OF u(2)] known_mono [OF ku] by auto
    show "I (fst (if \<not> b then close_force ev u ?seg
      else let s = ev_wait ev u in
        if se_lastSend s \<ge> se_nextSend s0 then close_finish ev s else close_force ev s ?seg))"
      by (simp add: Let_def close_force_keeps [OF u(2) ku] close_force_keeps [OF w] close_finish_keeps [OF w(1)])
  qed (rule q)
  then show ?thesis
    using assms t k close_force_keeps [OF t k] close_finish_keeps [of ?s]
    by (simp add: closeWithError_def Let_def)
qed

lemma session_Close_keeps: "I s \<Longrightarrow> I (fst (session_Close ev s))"
  by (simp add: session_Close_def closeWithError_keeps)

lemma output_failed_keeps: "I s \<Longrightarrow> I (fst (output_failed ev s e))"
  by (simp add: output_failed_def closeWithError_keeps)

lemma output_stream_loop_keeps: "I s \<Longrightarrow> I (fst (output_stream_loop ev n s))"
proof (induction n arbitrary: s)
  case (Suc n)
  obtain t r where d: "sendQueue_DeleteMin ev s = (t, r)" by fastforce
  note dk = queue_deleteMin_keeps [OF Suc.prems d]
  show ?case
  proof (cases r)
    case (Inr m)
    show ?thesis
    proof (cases m)
      case (Some seg)
      then have "I (fst (session_output ev t seg))" using dk Inr by (intro output_keeps) simp_all
      with Some d Inr Suc.IH show ?thesis
        by (auto simp: output_failed_keeps split: prod.split sum.split)
    qed (use d Inr dk in simp)
  qed (use d dk in simp)
qed simp

lemma runOutputOnceStream_keeps: "I s \<Longrightarrow> I (fst (runOutputOnceStream ev s))"
  unfolding runOutputOnceStream_def using output_stream_loop_keeps [of s] by (simp del: output_stream_loop.simps)

lemma set_unAckSeq_like [simp]:
  "seq_of (set_unAckSeq n seg) = seq_of seg" "seg_payload (set_unAckSeq n seg) = seg_payload seg"
  "seg_Protocol (set_unAckSeq n seg) = seg_Protocol seg"
  by (simp_all add: set_unAckSeq_def seq_of_def seg_Seq_def seg_Protocol_def split: metadata.split)

lemma resend_one_like: "seq_of (fst (resend_one ev x r)) = seq_of x"
  "seg_payload (fst (resend_one ev x r)) = seg_payload x"
  "seg_Protocol (fst (resend_one ev x r)) = seg_Protocol x"
  by (simp_all add: resend_one_def Let_def split: prod.split sum.split)
     (simp_all add: seq_of_def seg_Seq_def seg_Protocol_def split: prod.split sum.split)

lemma resend_one_keeps:
  assumes "I (ro_s r)" "known (se_sent (ro_s r)) x"
  shows "I (ro_s (fst (snd (resend_one ev x r))))"
    and "se_sent (ro_s (fst (snd (resend_one ev x r)))) = se_sent (ro_s r)"
proof -
  let ?s = "ro_s r"
  let ?y = "x\<lparr>seg_ackCount := 0, seg_txCount := seg_txCount x + 1, seg_txTime := UnixMicro ?s\<rparr>"
  let ?z = "set_unAckSeq (se_nextRecv ?s) (?y\<lparr>seg_txTimeout := tx_timeout ev ?s (seg_txCount x + 1)\<rparr>)"
  have z: "known (se_sent ?s) ?z"
    by (rule known_like [OF assms(2)]) (simp_all, simp_all add: seq_of_def seg_Seq_def seg_Protocol_def)
  have "I (ro_s (fst (snd (resend_one ev x r))))
      \<and> se_sent (ro_s (fst (snd (resend_one ev x r)))) = se_sent ?s"
    using output_keeps [OF assms(1) z] output_sent [of ?s ?z] assms(1)
    by (auto simp: resend_one_def Let_def split: prod.split sum.split)
  then show "I (ro_s (fst (snd (resend_one ev x r))))"
    "se_sent (ro_s (fst (snd (resend_one ev x r)))) = se_sent (ro_s r)" by simp_all
qed

lemma resend_ascend_keeps:
  assumes "I s" "ro_s r = s" "Ascend (ev_bt ev) (se_sendBuf s) (resend_one ev) r = (q, r')"
  shows "I ((ro_s r')\<lparr>se_sendBuf := q\<rparr>)"
proof -
  let ?xs = "items (ev_bt ev) (se_sendBuf s)"
  let ?loop = "ascend_loop (resend_one ev) ?xs r"
  have "(I (ro_s (snd ?loop)) \<and> se_sent (ro_s (snd ?loop)) = se_sent s)
      \<and> (\<forall>y \<in> set (fst ?loop). known (se_sent s) y)"
  proof (rule ascend_loop_invariant [where P = "\<lambda>r. I (ro_s r) \<and> se_sent (ro_s r) = se_sent s"])
    fix x and r :: "'t round"
    assume a: "x \<in> set ?xs" "I (ro_s r) \<and> se_sent (ro_s r) = se_sent s"
    then have k: "known (se_sent s) x" using buf_known [OF assms(1)] by simp
    have "known (se_sent s) (fst (resend_one ev x r))"
      by (rule known_like [OF k resend_one_like])
    with a k resend_one_keeps [of r x]
    show "(I (ro_s (fst (snd (resend_one ev x r))))
        \<and> se_sent (ro_s (fst (snd (resend_one ev x r)))) = se_sent s)
      \<and> known (se_sent s) (fst (resend_one ev x r))" by simp
  qed (use assms in simp)
  moreover have "items (ev_bt ev) q = fst ?loop @ drop (length (fst ?loop)) ?xs" "r' = snd ?loop"
    using Ascend_items(1,3) [OF bt [OF assms(1)], where si = "resend_one ev" and t = "se_sendBuf s" and a = r]
      assms(3) resend_one_like(1) by simp_all
  ultimately show ?thesis
    using buf_known [OF assms(1)] by (intro buf_put) (auto dest: in_set_dropD)
qed

lemma resend_part_keeps: "I s \<Longrightarrow> I (fst (resend_part ev s))"
proof (cases "UnixMicro s \<ge> se_nextRetransmissionTime s")
  case True
  assume "I s"
  let ?r = "\<lparr>ro_s = s, ro_closeSessionReason = None, ro_hasLoss = False, ro_hasTimeout = False,
               ro_totalTransmissionCount = 0, ro_nextTX = MaxInt64\<rparr>"
  obtain q r where a: "Ascend (ev_bt ev) (se_sendBuf s) (resend_one ev) ?r = (q, r)" by fastforce
  have i: "I ((ro_s r)\<lparr>se_sendBuf := q, se_nextRetransmissionTime := n\<rparr>)" for n
    using resend_ascend_keeps [OF \<open>I s\<close> _ a] by simp
  show ?thesis
    unfolding resend_part_def Let_def if_P [OF True] a case_prod_conv
    by (rule sbind_keeps)
       (auto simp: i closeWithError_keeps split: option.split go_error.split)
qed (simp add: resend_part_def)

lemma queue_delete_bind:
  fixes g :: "'t session \<Rightarrow> segment option \<Rightarrow> bool \<Rightarrow> 't session \<times> unit result"
  assumes "I s" "\<And>t x d. I t \<Longrightarrow> (\<And>y. x = Some y \<Longrightarrow> known (se_sent t) y) \<Longrightarrow> I (fst (g t x d))"
  shows "I (fst (sbind (sendQueue_DeleteMinIf ev s si) (\<lambda>s (m, deleted). g s m deleted)))"
proof (rule sbind_keeps)
  obtain t r where d: "sendQueue_DeleteMinIf ev s si = (t, r)" by fastforce
  note q = queue_delete_keeps [OF assms(1) d]
  show "I (fst (sendQueue_DeleteMinIf ev s si))" using q d by simp
  fix u a assume "sendQueue_DeleteMinIf ev s si = (u, Inr a)" "I u"
  with q d assms(2) show "I (fst (case a of (m, deleted) \<Rightarrow> g u m deleted))" by (cases a) auto
qed

lemma send_new_loop_keeps: "I s \<Longrightarrow> I (fst (send_new_loop ev n cnt s))"
proof (induction n arbitrary: s cnt)
  case (Suc n)
  have "I (fst (let seg = seg\<lparr>seg_txCount := seg_txCount seg + 1, seg_txTime := UnixMicro t\<rparr>;
                   seg = seg\<lparr>seg_txTimeout := tx_timeout ev t (seg_txCount seg)\<rparr>;
                   seg = set_unAckSeq (se_nextRecv t) seg
               in sbind (sendBuf_Insert ev t seg) (\<lambda>s inserted.
                    if \<not> inserted
                    then output_failed ev s (Errorf ''output() failed: insert to send buffer failed'')
                    else (case session_output ev s seg of
                            (s, Inl e) \<Rightarrow> output_failed ev s e
                          | (s, Inr _) \<Rightarrow> send_new_loop ev n (cnt + 1) s))))"
    if t: "I t" "known (se_sent t) seg" for t seg cnt
  proof -
    let ?z = "set_unAckSeq (se_nextRecv t) (seg\<lparr>seg_txCount := seg_txCount seg + 1,
       seg_txTime := UnixMicro t, seg_txTimeout := tx_timeout ev t (seg_txCount seg + 1)\<rparr>)"
    have z: "known (se_sent t) ?z"
      by (rule known_like [OF t(2)]) (simp_all, simp_all add: seq_of_def seg_Seq_def seg_Protocol_def)
    have o: "I (fst (session_output ev u ?z))" if "sendBuf_Insert ev t ?z = (u, Inr b)" "I u" for u b
      using that z insert_sent(2) [of t ?z] by (intro output_keeps) simp_all
    show ?thesis
      unfolding Let_def
    proof (rule sbind_keeps)
    qed (use buf_insert_keeps [OF t(1) z] o Suc.IH in
        \<open>force simp: output_failed_keeps split: prod.split sum.split\<close>)+
  qed
  then show ?case
    using Suc.prems unfolding send_new_loop.simps by (auto intro!: queue_delete_bind split: option.split)
qed simp

lemma send_new_part_keeps: "I s \<Longrightarrow> I (fst (send_new_part ev cnt s))"
  unfolding send_new_part_def Let_def using send_new_loop_keeps [of s]
  by (simp del: send_new_loop.simps)

lemma known_ack_segment: "known ps (ack_segment ev s)"
  by (rule known_ack) (simp add: checkProtocolType_def seg_Protocol_def ack_segment_def protocol_defs)

lemma ack_part_keeps: "I s \<Longrightarrow> I (fst (ack_part ev s))"
  using output_keeps [OF _ known_ack_segment, of s s]
  by (auto simp: ack_part_def Let_def output_failed_keeps intro!: sbind_keeps split: prod.splits sum.splits)

lemma runOutputOncePacket_keeps: "I s \<Longrightarrow> I (fst (runOutputOncePacket ev s))"
  by (auto simp: runOutputOncePacket_def intro!: sbind_keeps resend_part_keeps send_new_part_keeps ack_part_keeps)

lemma runOutputOnce_keeps: "I s \<Longrightarrow> I (fst (runOutputOnce ev tick s))"
proof -
  assume "I s"
  moreover from this have "I (s\<lparr>se_sendQueue := (se_sendQueue s)\<lparr>st_chanNotEmptyEvent := False\<rparr>\<rparr>)"
    by (rule queue_put) (use queue_known [OF \<open>I s\<close>] in \<open>simp add: items_def\<close>)
  ultimately show ?thesis
    by (simp add: runOutputOnce_def runOutputOnceStream_keeps runOutputOncePacket_keeps
        closeWithError_keeps split: TransportProtocol.split)
qed

end

section \<open>Acknowledgements, closing and open requests that come in\<close>

context sending
begin

lemma ack_loop_keeps: "I s \<Longrightarrow> I (fst (ack_loop ev n u s))"
proof (induction n arbitrary: s)
  case (Suc n)
  then show ?case
    unfolding ack_loop.simps
    by (intro sbind_keeps buf_delete_keeps) (auto split: option.split)
qed simp

lemma delete_acked_keeps: "I s \<Longrightarrow> I (fst (delete_acked ev u s))"
  unfolding delete_acked_def by (rule ack_loop_keeps)

lemma bump_ack_like: "seq_of (fst (bump_ack u x a)) = seq_of x"
  "seg_payload (fst (bump_ack u x a)) = seg_payload x" "seg_Protocol (fst (bump_ack u x a)) = seg_Protocol x"
  by (simp_all add: bump_ack_def seq_of_def seg_Seq_def seg_Protocol_def)

lemma bump_keeps: "I s \<Longrightarrow> I (s\<lparr>se_sendBuf := fst (Ascend (ev_bt ev) (se_sendBuf s) (bump_ack u) ())\<rparr>)"
proof -
  assume "I s"
  let ?xs = "items (ev_bt ev) (se_sendBuf s)"
  let ?loop = "ascend_loop (bump_ack u) ?xs ()"
  have "True \<and> (\<forall>y \<in> set (fst ?loop). known (se_sent s) y)"
  proof (rule ascend_loop_invariant [where P = "\<lambda>_. True"])
    fix x and a :: unit assume "x \<in> set ?xs"
    then show "True \<and> known (se_sent s) (fst (bump_ack u x a))"
      using known_like [OF buf_known [OF \<open>I s\<close>] bump_ack_like] by simp
  qed simp
  then have "\<forall>y \<in> set (items (ev_bt ev) (fst (Ascend (ev_bt ev) (se_sendBuf s) (bump_ack u) ()))). known (se_sent s) y"
    using buf_known [OF \<open>I s\<close>] by (auto simp: Ascend_items(1) [OF bt [OF \<open>I s\<close>] bump_ack_like(1)] dest: in_set_dropD)
  with \<open>I s\<close> show ?thesis by (rule buf_put)
qed

lemma inputAck_keeps: "I s \<Longrightarrow> I (fst (inputAck ev s seg))"
proof -
  have "I (t\<lparr>se_remoteWindowSize := w, se_sendBuf := fst (Ascend (ev_bt ev) (se_sendBuf t) (bump_ack u) ())\<rparr>)"
    if "I t" for t u w
    using bump_keeps [of "t\<lparr>se_remoteWindowSize := w\<rparr>"] that by simp
  then show "I s \<Longrightarrow> I (fst (inputAck ev s seg))"
    unfolding inputAck_def Let_def
    by (auto split: TransportProtocol.split metadata.split intro!: sbind_keeps delete_acked_keeps)
qed

lemma inputClose_keeps: "I s \<Longrightarrow> I (fst (inputClose ev s seg))"
proof -
  assume "I s"
  let ?seg = "session_segment s closeSessionResponse statusOK []"
  obtain t r where o: "session_output ev (take_seq s []) ?seg = (t, r)" by fastforce
  have "I (fst (session_output ev (take_seq s []) ?seg))"
    using known_session_segment [OF \<open>I s\<close>] by (intro output_keeps take \<open>I s\<close>) simp
  then have "I t" using o by simp
  have "I (fst (case r of Inl (Panic m) \<Rightarrow> (t, Inl (Panic m))
      | Inl e \<Rightarrow> (t, Inl (Errorf ''output() failed'')) | Inr _ \<Rightarrow> session_Close ev t))"
    using \<open>I t\<close> by (simp add: session_Close_keeps split: sum.split go_error.split)
  with \<open>I s\<close> show ?thesis
    by (simp add: inputClose_def Let_def o session_Close_keeps)
qed

lemma open_response_keeps: "I s \<Longrightarrow> I (fst (open_response ev s))"
  unfolding open_response_def Let_def
  by (intro sbind_keeps queue_insert_keeps take) (simp_all add: known_session_segment)

lemma answer_open_keeps: "I s \<Longrightarrow> I (fst (answer_open ev s))"
  by (simp add: answer_open_def open_response_keeps session_Close_keeps split: sum.split)

lemma carried_ack_keeps: "I s \<Longrightarrow> I (fst (carried_ack ev s seg))"
  unfolding carried_ack_def by (auto intro!: sbind_keeps delete_acked_keeps split: metadata.split)

lemma adopt_block_keeps: "I s \<Longrightarrow> I (fst (adopt_block s seg))"
  by (erule same) (rule adopt_block_core)

end

section \<open>When the receiving side does not matter\<close>

text \<open>Two sessions that agree on what has been numbered and sent.\<close>

definition same_send :: "'t session \<Rightarrow> 't session \<Rightarrow> bool" where
  "same_send s t \<longleftrightarrow>
     se_sendQueue t = se_sendQueue s \<and> se_sendBuf t = se_sendBuf s \<and> se_nextSend t = se_nextSend s
   \<and> se_wire t = se_wire s \<and> se_sent t = se_sent s
   \<and> se_mtu t = se_mtu s \<and> se_transportProtocol t = se_transportProtocol s
   \<and> se_id t = se_id s \<and> se_isClient t = se_isClient s"

lemma same_send_refl [simp]: "same_send s s"
  by (simp add: same_send_def)

lemma same_send_trans: "same_send s t \<Longrightarrow> same_send t u \<Longrightarrow> same_send s u"
  by (simp add: same_send_def)

lemma same_send_sbind:
  "same_send s (fst m) \<Longrightarrow> (\<And>t a. m = (t, Inr a) \<Longrightarrow> same_send s t \<Longrightarrow> same_send s (fst (f t a)))
    \<Longrightarrow> same_send s (fst (sbind m f))"
  by (auto simp: sbind_def split: prod.splits sum.splits)

lemma same_send_upd [simp]:
  "same_send s (t\<lparr>se_recvBuf := q\<rparr>) = same_send s t" "same_send s (t\<lparr>se_recvQueue := q\<rparr>) = same_send s t"
  "same_send s (t\<lparr>se_nextRecv := n\<rparr>) = same_send s t" "same_send s (t\<lparr>se_unreadBuf := b\<rparr>) = same_send s t"
  "same_send s (t\<lparr>se_remoteWindowSize := w\<rparr>) = same_send s t"
  "same_send s (t\<lparr>se_readDeadline := i\<rparr>) = same_send s t" "same_send s (t\<lparr>se_registry := r\<rparr>) = same_send s t"
  "same_send s (t\<lparr>se_ackOnDataRecv := b'\<rparr>) = same_send s t" "same_send s (forwardStateTo t st) = same_send s t"
  by (simp_all add: same_send_def forwardStateTo_def)

lemma same_send_add_user_bytes [simp]: "same_send s (add_user_bytes t name n) = same_send s t"
  by (simp add: add_user_bytes_def Let_def same_send_def split: option.split metric.split)

lemma recv_trees_same_send [simp]:
  "same_send s (fst (recvBuf_Insert ev t seg)) = same_send s t"
  "same_send s (fst (recvQueue_Insert ev t seg)) = same_send s t"
  "same_send s (fst (recvBuf_DeleteMinIf ev t si)) = same_send s t"
  by (simp_all add: recvBuf_Insert_def recvQueue_Insert_def recvBuf_DeleteMinIf_def split: sum.split prod.split)

lemma move_segment_same_send: "same_send s t \<Longrightarrow> same_send s (fst (move_segment ev t seg))"
  unfolding move_segment_def Let_def by (rule same_send_sbind) (simp_all split: metadata.split)

lemma move_loop_same_send: "same_send s t \<Longrightarrow> same_send s (fst (move_loop ev n t))"
proof (induction n arbitrary: t)
  case (Suc n)
  have "same_send s (fst (sbind (move_segment ev t seg) (\<lambda>s _. move_loop ev n s)))" if "same_send s t" for t seg
    by (rule same_send_sbind [OF move_segment_same_send [OF that]]) (rule Suc.IH)
  then have "same_send s (fst (sbind (recvBuf_DeleteMinIf ev t si) (\<lambda>s (m, deleted).
      case m of None \<Rightarrow> (s, Inr ())
      | Some seg3 \<Rightarrow> if \<not> deleted then (s, Inr ())
          else if seq_of seg3 = se_nextRecv s then sbind (move_segment ev s seg3) (\<lambda>s _. move_loop ev n s)
          else move_loop ev n s)))" for si
    using Suc by (intro same_send_sbind) (simp_all split: prod.split option.split)
  with Suc.prems show ?case by simp
qed simp

lemma deliver_packet_same_send: "same_send s (fst (deliver_packet ev s seg))"
proof -
  have "same_send s (fst (move_all ev t))" if "same_send s t" for t
    unfolding move_all_def by (rule same_send_sbind [OF move_loop_same_send [OF that]]) simp
  then show ?thesis
    unfolding deliver_packet_def by (simp add: same_send_sbind)
qed

lemma deliver_stream_same_send: "same_send s (fst (deliver_stream ev s seg))"
  unfolding deliver_stream_def by (simp add: same_send_sbind)

lemma session_Read_same_send: "same_send s (fst (session_Read ev s n))"
proof -
  have seg: "same_send s (read_segment t x) = same_send s t" for s t :: "'a session" and x
    by (simp add: read_segment_def Let_def)
  have segs: "same_send s (foldl read_segment t xs) = same_send s t" for s t :: "'a session" and xs
    by (induction xs arbitrary: t) (simp_all add: seg)
  have "same_send s (fst (read_copy t n)) = same_send s t" "same_send s (fst (read_select t)) = same_send s t"
    for s t :: "'a session" and n
    by (simp_all add: read_copy_def read_select_def Let_def)
  then show ?thesis
    by (simp add: session_Read_def Let_def segs split: sum.split prod.split)
qed

locale sending_only = sending +
  assumes send: "I s \<Longrightarrow> same_send s t \<Longrightarrow> I t"
begin

lemma deliver_keeps: "I s \<Longrightarrow> I (fst (deliver ev s seg))"
proof -
  assume "I s"
  have "I (fst (sbind (carried_ack ev s seg) (\<lambda>s _. deliver_packet ev s seg)))"
    using \<open>I s\<close> by (rule sbind_keeps [OF carried_ack_keeps]) (rule send, assumption, rule deliver_packet_same_send)
  moreover have "I (fst (deliver_stream ev s seg))"
    using \<open>I s\<close> by (rule send) (rule deliver_stream_same_send)
  ultimately show ?thesis
    using \<open>I s\<close> by (simp add: deliver_def split: TransportProtocol.split)
qed

lemma input_keeps: "I s \<Longrightarrow> I (fst (input ev s seg))"
  unfolding input_def inputData_def Let_def
  by (auto intro!: sbind_keeps adopt_block_keeps deliver_keeps answer_open_keeps inputAck_keeps inputClose_keeps)

lemma runInputOnce_keeps: "I s \<Longrightarrow> I (fst (runInputOnce ev s))"
proof (cases "se_recvChan s")
  case (Cons seg rest)
  assume "I s"
  obtain t r where i: "input ev (s\<lparr>se_recvChan := rest\<rparr>) seg = (t, r)" by fastforce
  then have "I t" using input_keeps [of "s\<lparr>se_recvChan := rest\<rparr>" seg] \<open>I s\<close> by simp
  then have "I (fst (input_failed ev t e))" for e
    unfolding input_failed_def by (intro sbind_keeps closeWithError_keeps) simp_all
  with \<open>I s\<close> \<open>I t\<close> i Cons show ?thesis
    by (cases r; cases "projl r") (simp_all add: runInputOnce_def)
qed (simp add: runInputOnce_def)

lemma session_Read_keeps: "I s \<Longrightarrow> I (fst (session_Read ev s n))"
  by (erule send) (rule session_Read_same_send)

end

section \<open>The numbering of the segments\<close>

text \<open>
  A segment that can enter a tree carries the payload that got its sequence number.
\<close>

definition carries :: "bytes list \<Rightarrow> segment \<Rightarrow> bool" where
  "carries ps seg \<longleftrightarrow> (checkProtocolType seg \<longrightarrow>
     (\<exists>i < length ps. seq_of seg = of_nat i \<and> seg_payload seg = ps ! i))"

definition numbered :: "'t senv \<Rightarrow> 't session \<Rightarrow> bool" where
  "numbered ev s \<longleftrightarrow> se_nextSend s = of_nat (length (se_sent s))
     \<and> (\<forall>x \<in> set (items (ev_bt ev) (se_sendQueue s)). carries (se_sent s) x)
     \<and> (\<forall>x \<in> set (items (ev_bt ev) (se_sendBuf s)). carries (se_sent s) x)
     \<and> (\<forall>x \<in> set (se_wire s). carries (se_sent s) x)"

text \<open>
  Since the session was \<open>s0\<close>, only segments without payload have been numbered; the size limit and the
  transport have not changed.
\<close>

definition grown :: "'t session \<Rightarrow> 't session \<Rightarrow> bool" where
  "grown s0 s \<longleftrightarrow> (\<exists>qs. se_sent s = se_sent s0 @ qs \<and> concat qs = [])
     \<and> se_mtu s = se_mtu s0 \<and> se_transportProtocol s = se_transportProtocol s0
     \<and> se_id s = se_id s0 \<and> se_isClient s = se_isClient s0"

text \<open>The receiving side of a session.\<close>

definition rview :: "'t session \<Rightarrow> 't segmentTree \<times> 't segmentTree \<times> u32 \<times> bytes \<times> TransportProtocol" where
  "rview s = (se_recvBuf s, se_recvQueue s, se_nextRecv s, se_unreadBuf s, se_transportProtocol s)"

text \<open>
  The surroundings of a session: the B-tree keeps its contract, and what the other goroutines do
  while a close waits (the output loop runs) numbers no payload and leaves the receiving side alone.
\<close>

definition env_ok :: "'t senv \<Rightarrow> bool" where
  "env_ok ev \<longleftrightarrow> btree_ok (ev_bt ev)
     \<and> (\<forall>s. (numbered ev s \<longrightarrow> numbered ev (ev_wait ev s))
          \<and> grown s (ev_wait ev s) \<and> rview (ev_wait ev s) = rview s)"

lemma env_ok_wait:
  assumes "env_ok ev"
  shows "numbered ev s \<Longrightarrow> numbered ev (ev_wait ev s)" "grown s (ev_wait ev s)"
    "rview (ev_wait ev s) = rview s"
  using assms unfolding env_ok_def by blast+

lemma carries_mono: "carries ps seg \<Longrightarrow> carries (ps @ qs) seg"
  by (fastforce simp: carries_def nth_append)

lemma grown_refl [simp]: "grown s s"
  by (simp add: grown_def)

lemma grown_trans: "grown s0 s \<Longrightarrow> grown s t \<Longrightarrow> grown s0 t"
  by (auto simp: grown_def)

lemma numbered_take_seq: "numbered ev s \<Longrightarrow> numbered ev (take_seq s p)"
  by (auto simp: numbered_def take_seq_def carries_mono)

lemma grown_take_seq: "grown s0 s \<Longrightarrow> grown s0 (take_seq s [])"
proof -
  assume "grown s0 s"
  then obtain qs where "se_sent s = se_sent s0 @ qs" "concat qs = []" unfolding grown_def by blast
  then have "se_sent (take_seq s []) = se_sent s0 @ (qs @ [[]]) \<and> concat (qs @ [[]]) = []"
    by (simp add: take_seq_def)
  with \<open>grown s0 s\<close> show ?thesis unfolding grown_def by (auto simp: take_seq_def)
qed

interpretation numbering: sending_only ev "\<lambda>s. env_ok ev \<and> numbered ev s \<and> grown s0 s" carries for ev s0
proof
  fix s seg assume "env_ok ev \<and> numbered ev s \<and> grown s0 s" "seq_of seg = se_nextSend s" "seg_payload seg = []"
  then show "carries (se_sent s @ [[]]) seg"
    by (auto simp: carries_def numbered_def intro: exI [of _ "length (se_sent s)"])
next
  fix qs seg seg' assume "carries qs seg" "seq_of seg' = seq_of seg" "seg_payload seg' = seg_payload seg"
    "seg_Protocol seg' = seg_Protocol seg"
  then show "carries qs seg'" by (simp add: carries_def checkProtocolType_def)
next
  fix qs and seg assume "\<not> checkProtocolType seg"
  then show "carries qs seg" by (simp add: carries_def)
next
  fix s :: "'a session" assume s: "env_ok ev \<and> numbered ev s \<and> grown s0 s"
  then show "btree_ok (ev_bt ev)" by (simp add: env_ok_def)
  from s show "env_ok ev \<and> numbered ev (take_seq s []) \<and> grown s0 (take_seq s [])"
    by (simp add: numbered_take_seq grown_take_seq)
  from s have "grown s (ev_wait ev s)" by (blast dest: env_ok_wait)
  moreover from s this have "grown s0 (ev_wait ev s)" by (blast intro: grown_trans)
  ultimately show "(env_ok ev \<and> numbered ev (ev_wait ev s) \<and> grown s0 (ev_wait ev s))
      \<and> (\<exists>qs. se_sent (ev_wait ev s) = se_sent s @ qs)"
    using s env_ok_wait [of ev s] unfolding grown_def by blast
qed (simp_all add: numbered_def grown_def same_core_def same_send_def carries_mono)

declare numbering.upd [simp del]

end
