(* ===== verification/Receiving.thy ===== *)
theory Receiving
  imports Sending
begin

text \<open>
  The receiving side of a packet session: segments that arrive in any order, repeated or late, are
  read by the application as the bytes the peer wrote, in order and without repetition.
\<close>

section \<open>What does not touch the receiving side\<close>

interpretation recv_frame: sending ev "\<lambda>s. env_ok ev \<and> rview s = v" "\<lambda>_ _. True" for ev v
proof
  fix s :: "'a session" assume s: "env_ok ev \<and> rview s = v"
  then show "btree_ok (ev_bt ev)" by (simp add: env_ok_def)
  show "(env_ok ev \<and> rview (ev_wait ev s) = v) \<and> (\<exists>qs. se_sent (ev_wait ev s) = se_sent s @ qs)"
    using s env_ok_wait [of ev s] unfolding grown_def by blast
qed (simp_all add: rview_def same_core_def take_seq_def)

declare recv_frame.upd [simp del]

section \<open>The invariant\<close>

text \<open>
  The payloads that the peer numbered are \<open>ps\<close>. The first \<open>k\<close> have been accepted in order, of these
  the first \<open>j\<close> have left the receive queue. \<open>R\<close> is what the application has read, and \<open>A\<close> holds the
  numbers of segments that have been accepted.
\<close>

definition rinv :: "'t btree \<Rightarrow> bytes list \<Rightarrow> nat set \<Rightarrow> bytes \<Rightarrow> nat \<Rightarrow> nat \<Rightarrow> 't session \<Rightarrow> bool" where
  "rinv bt ps A R j k s \<longleftrightarrow>
     A \<subseteq> {..<length ps} \<and> se_transportProtocol s = PacketTransport \<and> j \<le> k \<and> k \<le> length ps \<and> se_nextRecv s = of_nat k
   \<and> st_cap (se_recvQueue s) = segmentTreeRecvQueueCapacity
   \<and> map seq_of (items bt (se_recvQueue s)) = map of_nat [j..<k]
   \<and> map seg_payload (items bt (se_recvQueue s)) = map (\<lambda>i. ps ! i) [j..<k]
   \<and> R @ se_unreadBuf s = concat (take j ps)
   \<and> (\<forall>x \<in> set (items bt (se_recvBuf s)). checkProtocolType x \<and> carries ps x)
   \<and> (\<forall>i \<in> A. i < k \<or> of_nat i \<in> seq_of ` set (items bt (se_recvBuf s)))"

text \<open>No segment that is due waits in the receive buffer.\<close>

definition settled :: "'t btree \<Rightarrow> 't session \<Rightarrow> bool" where
  "settled bt s \<longleftrightarrow> st_cap (se_recvQueue s) - int (length (items bt (se_recvQueue s))) \<le> 1
     \<or> (\<forall>x \<in> set (items bt (se_recvBuf s)). se_nextRecv s < seq_of x)"

lemma of_nat_u32_eq: "i < 2 ^ 32 \<Longrightarrow> j < 2 ^ 32 \<Longrightarrow> (of_nat i = (of_nat j :: u32)) = (i = j)"
  by (simp add: word_of_nat_eq_iff take_bit_nat_eq_self)

lemma of_nat_u32_less: "i < 2 ^ 32 \<Longrightarrow> j < 2 ^ 32 \<Longrightarrow> (of_nat i < (of_nat j :: u32)) = (i < j)"
  by (simp add: word_less_nat_alt unsigned_of_nat take_bit_nat_eq_self)

text \<open>Taking the due segment into the receive queue.\<close>

lemma move_segment_rinv:
  assumes "btree_ok bt" "ev_bt ev = bt" "rinv bt ps A R j k s" "length ps < 2 ^ 32"
    and "checkProtocolType seg" "carries ps seg" "seq_of seg = se_nextRecv s"
    and room: "st_cap (se_recvQueue s) > int (length (items bt (se_recvQueue s)))"
  shows "\<exists>s'. move_segment ev s seg = (s', Inr ()) \<and> rinv bt ps (insert k A) R j (Suc k) s'
     \<and> se_recvBuf s' = se_recvBuf s \<and> st_cap (se_recvQueue s') = st_cap (se_recvQueue s)"
proof -
  have k: "k < length ps" "seg_payload seg = ps ! k"
  proof -
    from assms(5,6) obtain i where "i < length ps" "seq_of seg = of_nat i" "seg_payload seg = ps ! i"
      unfolding carries_def by blast
    moreover from this have "i = k" using assms(3,4,7) of_nat_u32_eq [of i k] by (simp add: rinv_def)
    ultimately show "k < length ps" "seg_payload seg = ps ! k" by simp_all
  qed
  have below: "\<forall>x \<in> set (items bt (se_recvQueue s)). seq_of x < seq_of seg"
  proof
    fix x assume "x \<in> set (items bt (se_recvQueue s))"
    then have "seq_of x \<in> set (map seq_of (items bt (se_recvQueue s)))" by simp
    also have "map seq_of (items bt (se_recvQueue s)) = map of_nat [j..<k]" using assms(3) by (simp add: rinv_def)
    finally obtain i where "i < k" "seq_of x = of_nat i" by auto
    then show "seq_of x < seq_of seg"
      using assms(3,4,7) k by (simp add: rinv_def of_nat_u32_less)
  qed
  from assms(1,5) obtain q where q: "Insert bt (se_recvQueue s) seg = Inr (q, True)"
      "items bt q = items bt (se_recvQueue s) @ [seg]" "st_cap q = st_cap (se_recvQueue s)"
    by (rule Insert_cases [of bt seg "se_recvQueue s"]) (use room seg_insert_last [OF below] in auto)
  have upt: "[j..<Suc k] = [j..<k] @ [k]" using assms(3) by (simp add: rinv_def)
  show ?thesis
    using assms(2,3,7) q k upt
    by (cases "seg_metadata seg")
       (auto simp: move_segment_def recvQueue_Insert_def rinv_def Let_def simp del: upt_Suc)
qed

text \<open>The loop that moves all due segments.\<close>

lemma rinv_drop:
  assumes "rinv bt ps A R j k s" "items bt (se_recvBuf s) = x # xs" "seq_of x \<le> se_nextRecv s"
    "items bt q = xs" "length ps < 2 ^ 32"
  shows "rinv bt ps (if seq_of x = se_nextRecv s then A - {k} else A) R j k (s\<lparr>se_recvBuf := q\<rparr>)"
proof -
  have old: "i < k" if i: "i \<in> A" "seq_of x = of_nat i" "seq_of x \<noteq> se_nextRecv s \<or> i \<noteq> k" for i
  proof -
    have "k \<le> length ps" "i < length ps" "se_nextRecv s = of_nat k" using assms(1) i(1) by (auto simp: rinv_def)
    then show ?thesis
      using i(2,3) assms(3,5) of_nat_u32_less [of i k] of_nat_u32_eq [of i k] by (auto simp: order_le_less)
  qed
  have "\<forall>i \<in> (if seq_of x = se_nextRecv s then A - {k} else A). i < k \<or> of_nat i \<in> seq_of ` set xs"
  proof
    fix i assume i: "i \<in> (if seq_of x = se_nextRecv s then A - {k} else A)"
    then have "i < k \<or> seq_of x = of_nat i \<or> of_nat i \<in> seq_of ` set xs"
      using assms(1,2) by (auto simp: rinv_def split: if_splits)
    with i old [of i] show "i < k \<or> of_nat i \<in> seq_of ` set xs" by (auto split: if_splits)
  qed
  with assms(1,2,4) show ?thesis by (auto simp: rinv_def split: if_splits)
qed

lemma rinv_mono: "rinv bt ps A R j k s \<Longrightarrow> B \<subseteq> A \<Longrightarrow> rinv bt ps B R j k s"
  by (auto simp: rinv_def)

lemma recvBuf_delete:
  assumes "btree_ok (ev_bt ev)" "items (ev_bt ev) (se_recvBuf s) = x # xs"
  obtains q where "recvBuf_DeleteMinIf ev s si = (s\<lparr>se_recvBuf := q\<rparr>, Inr (Some x, si x))"
    "items (ev_bt ev) q = (if si x then xs else x # xs)"
proof (cases "si x")
  case True
  from assms True obtain q where "DeleteMinIf (ev_bt ev) (se_recvBuf s) si = Inr (q, Some x, True)"
    "items (ev_bt ev) q = xs" by (rule DeleteMinIf_delete)
  with True show thesis by (intro that) (simp_all add: recvBuf_DeleteMinIf_def)
next
  case False
  from assms False obtain q where "DeleteMinIf (ev_bt ev) (se_recvBuf s) si = Inr (q, Some x, False)"
    "items (ev_bt ev) q = x # xs" by (rule DeleteMinIf_keep)
  with False show thesis by (intro that) (simp_all add: recvBuf_DeleteMinIf_def)
qed

lemma move_loop_rinv:
  assumes "btree_ok (ev_bt ev)" "length ps < 2 ^ 32"
    and "rinv (ev_bt ev) ps A R j k s" "length (items (ev_bt ev) (se_recvBuf s)) < n"
  shows "\<exists>s' k'. move_loop ev n s = (s', Inr ()) \<and> rinv (ev_bt ev) ps A R j k' s'
     \<and> settled (ev_bt ev) s' \<and> st_cap (se_recvQueue s') = st_cap (se_recvQueue s)"
  using assms(3,4)
proof (induction n arbitrary: s k A)
  case (Suc n)
  let ?bt = "ev_bt ev"
  show ?case
  proof (cases "Remaining ?bt (se_recvQueue s) \<le> 1 \<or> items ?bt (se_recvBuf s) = []")
    case True
    have "s\<lparr>se_recvBuf := se_recvBuf s\<rparr> = s" by simp
    with True Suc.prems assms(1) show ?thesis
      by (auto simp: settled_def tree_simps recvBuf_DeleteMinIf_def)
  next
    case False
    then obtain x xs where x: "items ?bt (se_recvBuf s) = x # xs" by (cases "items ?bt (se_recvBuf s)") auto
    from assms(1) x obtain q where
      q: "recvBuf_DeleteMinIf ev s (\<lambda>iter. seq_of iter \<le> se_nextRecv s)
          = (s\<lparr>se_recvBuf := q\<rparr>, Inr (Some x, seq_of x \<le> se_nextRecv s))"
         "items ?bt q = (if seq_of x \<le> se_nextRecv s then xs else x # xs)" by (rule recvBuf_delete)
    let ?s = "s\<lparr>se_recvBuf := q\<rparr>"
    consider (late) "\<not> seq_of x \<le> se_nextRecv s" | (due) "seq_of x = se_nextRecv s"
      | (old) "seq_of x \<le> se_nextRecv s" "seq_of x \<noteq> se_nextRecv s" by blast
    then show ?thesis
    proof cases
      case late
      have "\<forall>y \<in> set (x # xs). se_nextRecv s < seq_of y"
        using late items_ascending [OF assms(1), of "se_recvBuf s"] x by auto
      with late q x False Suc.prems have "rinv ?bt ps A R j k ?s \<and> settled ?bt ?s"
        by (simp add: rinv_def settled_def)
      with late q False show ?thesis by auto
    next
      case old
      with rinv_drop [OF Suc.prems(1) x _ _ assms(2), of q] q have "rinv ?bt ps A R j k ?s" by simp
      from Suc.IH [OF this] Suc.prems(2) old q x False show ?thesis by auto
    next
      case due
      with rinv_drop [OF Suc.prems(1) x _ _ assms(2), of q] q have i: "rinv ?bt ps (A - {k}) R j k ?s" by simp
      have x_ok: "checkProtocolType x" "carries ps x" using Suc.prems(1) x by (simp_all add: rinv_def)
      obtain t where t: "move_segment ev ?s x = (t, Inr ())" "rinv ?bt ps (insert k (A - {k})) R j (Suc k) t"
          "se_recvBuf t = q" "st_cap (se_recvQueue t) = st_cap (se_recvQueue s)"
        using move_segment_rinv [OF assms(1) refl i assms(2) x_ok] due False assms(1)
        by (auto simp: tree_simps)
      from t(2) have "rinv ?bt ps A R j (Suc k) t" by (rule rinv_mono) blast
      from Suc.IH [OF this] Suc.prems(2) due q x t False show ?thesis by auto
    qed
  qed
qed simp

section \<open>Input\<close>

text \<open>
  The input loop moves due segments on as long as the receive queue has room for more than one: if it
  is left with room (\<open>f\<close>), no segment that is due stays in the receive buffer.
\<close>

definition roomy :: "'t btree \<Rightarrow> 't session \<Rightarrow> bool" where
  "roomy bt s \<longleftrightarrow> 1 < Remaining bt (se_recvQueue s)"

definition prompt :: "'t btree \<Rightarrow> bool \<Rightarrow> 't session \<Rightarrow> bool" where
  "prompt bt f s \<longleftrightarrow> (f \<longrightarrow> (\<forall>x \<in> set (items bt (se_recvBuf s)). se_nextRecv s < seq_of x))"

lemma settled_prompt: "btree_ok bt \<Longrightarrow> settled bt s \<Longrightarrow> prompt bt (roomy bt s) s"
  by (auto simp: settled_def prompt_def roomy_def tree_simps)

text \<open>A queue without room holds as many segments as the peer has numbered, up to one.\<close>

lemma not_roomy:
  assumes "btree_ok bt" "rinv bt ps A R j k s" "\<not> roomy bt s"
  shows "segmentTreeRecvQueueCapacity \<le> int (length ps) + 1"
proof -
  have "map seq_of (items bt (se_recvQueue s)) = map of_nat [j..<k]" "k \<le> length ps"
    using assms(2) by (simp_all add: rinv_def)
  then have "length (items bt (se_recvQueue s)) \<le> length ps"
    by (metis diff_le_self dual_order.trans length_map length_upt)
  with assms show ?thesis by (simp add: roomy_def tree_simps rinv_def)
qed

text \<open>The segments that go to \<open>inputData\<close>.\<close>

definition is_data :: "segment \<Rightarrow> bool" where
  "is_data seg \<longleftrightarrow>
     seg_Protocol seg \<in> {openSessionRequest, openSessionResponse, dataServerToClient, dataClientToServer}"

lemma is_data_check: "is_data seg \<Longrightarrow> checkProtocolType seg"
  by (auto simp: is_data_def checkProtocolType_def)

lemma carries_index:
  assumes "carries ps seg" "checkProtocolType seg" "length ps < 2 ^ 32"
  shows "unat (seq_of seg) < length ps" "of_nat (unat (seq_of seg)) = seq_of seg"
proof -
  obtain i where "i < length ps" "seq_of seg = of_nat i" using assms by (auto simp: carries_def)
  then show "unat (seq_of seg) < length ps" using assms(3) by (simp add: unsigned_of_nat take_bit_nat_eq_self)
qed simp

lemma rinv_rview: "rview s = rview t \<Longrightarrow> rinv bt ps A R j k s = rinv bt ps A R j k t"
  "rview s = rview t \<Longrightarrow> prompt bt f s = prompt bt f t" "rview s = rview t \<Longrightarrow> roomy bt s = roomy bt t"
  by (simp_all add: rview_def rinv_def prompt_def roomy_def)

lemma recvBuf_insert_rinv:
  assumes "btree_ok (ev_bt ev)" "rinv (ev_bt ev) ps A R j k s" "carries ps seg" "is_data seg" "length ps < 2 ^ 32"
    and "1 < Remaining (ev_bt ev) (se_recvBuf s)"
  obtains q where "recvBuf_Insert ev s seg = (s\<lparr>se_recvBuf := q\<rparr>, Inr True)"
    "rinv (ev_bt ev) ps (insert (unat (seq_of seg)) A) R j k (s\<lparr>se_recvBuf := q\<rparr>)"
proof -
  let ?bt = "ev_bt ev"
  from assms(1) is_data_check [OF assms(4)] obtain q where q: "Insert ?bt (se_recvBuf s) seg = Inr (q, True)"
      "items ?bt q = seg_insert seg (items ?bt (se_recvBuf s))"
    by (rule Insert_cases [of ?bt seg "se_recvBuf s"]) (use assms(1,6) in \<open>auto simp: tree_simps\<close>)
  have set_q: "set (items ?bt q) = insert seg {x \<in> set (items ?bt (se_recvBuf s)). seq_of x \<noteq> seq_of seg}"
    using q(2) set_seg_insert [OF items_ascending [OF assms(1)]] by simp
  then have "seq_of ` set (items ?bt q) = insert (seq_of seg) (seq_of ` set (items ?bt (se_recvBuf s)))" by auto
  with set_q assms(2,3) is_data_check [OF assms(4)] carries_index [OF assms(3) _ assms(5)]
  have "rinv ?bt ps (insert (unat (seq_of seg)) A) R j k (s\<lparr>se_recvBuf := q\<rparr>)"
    by (auto simp: rinv_def)
  with q(1) show thesis by (intro that) (simp_all add: recvBuf_Insert_def)
qed

lemma deliver_packet_rinv:
  assumes "btree_ok (ev_bt ev)" "rinv (ev_bt ev) ps A R j k s" "carries ps seg" "is_data seg" "length ps < 2 ^ 32"
  shows "deliver_packet ev s seg = (s, Inl Blocked)
     \<or> (\<exists>s' k'. deliver_packet ev s seg = (s', Inr ())
          \<and> rinv (ev_bt ev) ps (insert (unat (seq_of seg)) A) R j k' s' \<and> prompt (ev_bt ev) (roomy (ev_bt ev) s') s')"
proof (cases "Remaining (ev_bt ev) (se_recvBuf s) \<le> 1")
  case False
  let ?bt = "ev_bt ev" let ?A = "insert (unat (seq_of seg)) A"
  from False have "1 < Remaining ?bt (se_recvBuf s)" by simp
  from recvBuf_insert_rinv [OF assms this] obtain q where
    q: "recvBuf_Insert ev s seg = (s\<lparr>se_recvBuf := q\<rparr>, Inr True)" "rinv ?bt ps ?A R j k (s\<lparr>se_recvBuf := q\<rparr>)" .
  obtain t k' where t: "move_loop ev (Suc (bt_Len (segmentOps ?bt) (st_tr q))) (s\<lparr>se_recvBuf := q\<rparr>) = (t, Inr ())"
      "rinv ?bt ps ?A R j k' t" "settled ?bt t"
    using move_loop_rinv [OF assms(1,5) q(2), of "Suc (bt_Len (segmentOps ?bt) (st_tr q))"]
    by (auto simp: bt_Len_items [OF assms(1)] simp del: move_loop.simps)
  let ?t = "t\<lparr>se_ackOnDataRecv := True\<rparr>"
  have "rinv ?bt ps ?A R j k' ?t" "prompt ?bt (roomy ?bt ?t) ?t"
    using t(2) settled_prompt [OF assms(1) t(3)] by (simp_all add: rinv_def prompt_def roomy_def)
  with False q(1) t(1) show ?thesis
    by (auto simp: deliver_packet_def move_all_def simp del: move_loop.simps)
qed (simp add: deliver_packet_def)

lemma input_rview:
  assumes "env_ok ev"
  shows "rview (fst (carried_ack ev s seg)) = rview s" "rview (fst (answer_open ev s)) = rview s"
    "rview (fst (adopt_block s seg)) = rview s" "rview (fst (inputAck ev s seg)) = rview s"
    "rview (fst (inputClose ev s seg)) = rview s"
  using assms
  by (blast intro: conjunct2 [OF recv_frame.carried_ack_keeps] conjunct2 [OF recv_frame.answer_open_keeps]
      conjunct2 [OF recv_frame.adopt_block_keeps] conjunct2 [OF recv_frame.inputAck_keeps]
      conjunct2 [OF recv_frame.inputClose_keeps])+

definition rok :: "'t btree \<Rightarrow> bytes list \<Rightarrow> nat set \<Rightarrow> bytes \<Rightarrow> bool \<Rightarrow> 't session \<Rightarrow> bool" where
  "rok bt ps A R f s \<longleftrightarrow> (\<exists>j k. rinv bt ps A R j k s) \<and> prompt bt f s"

lemma rokI: "rinv bt ps A R j k s \<Longrightarrow> prompt bt f s \<Longrightarrow> rok bt ps A R f s"
  unfolding rok_def by blast

lemma rok_rview: "rview s = rview t \<Longrightarrow> rok bt ps A R f s = rok bt ps A R f t"
  by (simp add: rok_def rinv_rview [of s t])

lemma rok_mono: "rok bt ps A R f s \<Longrightarrow> B \<subseteq> A \<Longrightarrow> rok bt ps B R f s"
  by (auto simp: rok_def intro: rinv_mono)

lemma rok_less: "rok bt ps A R f s \<Longrightarrow> rok bt ps A R (f \<and> g) s" "rok bt ps A R g s \<Longrightarrow> rok bt ps A R (f \<and> g) s"
  by (auto simp: rok_def prompt_def)

lemma deliver_rok:
  assumes "env_ok ev" "rok (ev_bt ev) ps A R f s" "carries ps seg" "is_data seg" "length ps < 2 ^ 32"
  shows "rok (ev_bt ev) ps (if isl (snd (deliver ev s seg)) then A else insert (unat (seq_of seg)) A) R
           (f \<and> roomy (ev_bt ev) (fst (deliver ev s seg))) (fst (deliver ev s seg))"
proof -
  let ?bt = "ev_bt ev"
  have bt: "btree_ok ?bt" using assms(1) by (simp add: env_ok_def)
  have packet: "se_transportProtocol s = PacketTransport" using assms(2) by (auto simp: rok_def rinv_def)
  obtain t r where t: "carried_ack ev s seg = (t, r)" by fastforce
  with input_rview(1) [OF assms(1), of s seg] have rt: "rview t = rview s" by simp
  then have rok: "rok ?bt ps A R f t" using rok_rview [of t s] assms(2) by simp
  then obtain j k where "rinv ?bt ps A R j k t" by (auto simp: rok_def)
  from deliver_packet_rinv [OF bt this assms(3-5)] rok
  have "rok ?bt ps (if isl (snd (deliver_packet ev t seg)) then A else insert (unat (seq_of seg)) A) R
      (f \<and> roomy ?bt (fst (deliver_packet ev t seg))) (fst (deliver_packet ev t seg))"
    by (elim disjE exE conjE) (simp_all add: rok_less(1) rok_less(2) [OF rokI])
  with rok t packet show ?thesis by (cases r) (simp_all add: deliver_def rok_less)
qed

lemma input_rok:
  assumes "env_ok ev" "rok (ev_bt ev) ps A R f s" "carries ps seg" "length ps < 2 ^ 32"
  shows "rok (ev_bt ev) ps
    (if snd (input ev s seg) = Inr () \<and> is_data seg then insert (unat (seq_of seg)) A else A) R
    (f \<and> roomy (ev_bt ev) (fst (input ev s seg))) (fst (input ev s seg))"
proof -
  let ?rok = "\<lambda>A s. rok (ev_bt ev) ps A R (f \<and> roomy (ev_bt ev) s) s" let ?A = "insert (unat (seq_of seg)) A"
  obtain u r where u: "adopt_block s seg = (u, r)" by fastforce
  define t where "t = u\<lparr>se_lastRXTime := UnixMicro u\<rparr>"
  have "rview u = rview s" using input_rview(3) [OF assms(1), of s seg] u by simp
  then have "rview t = rview s" "?rok A u" using rok_rview [of u s] assms(2) by (simp_all add: t_def rview_def rok_less)
  then have t: "rok (ev_bt ev) ps A R f t" using rok_rview [of t s] assms(2) by simp
  then have keep: "?rok A (fst (inputAck ev t seg))" "?rok A (fst (inputClose ev t seg))" "?rok A t"
    using rok_rview [OF input_rview(4) [OF assms(1)]] rok_rview [OF input_rview(5) [OF assms(1)]] by (simp_all add: rok_less)
  have data: "?rok (if isl (snd (inputData ev t seg)) then A else ?A) (fst (inputData ev t seg))" if "is_data seg"
  proof -
    obtain v q where v: "deliver ev t seg = (v, q)" by fastforce
    with deliver_rok [OF assms(1) t assms(3) that assms(4)] have vr: "?rok (if isl q then A else ?A) v" by simp
    moreover have "?rok B (fst (answer_open ev v)) = ?rok B v" for B
      using rok_rview [OF input_rview(2) [OF assms(1), of v]] rinv_rview(3) [OF input_rview(2) [OF assms(1), of v]] by simp
    moreover have "?rok ?A w \<Longrightarrow> ?rok A w" for w by (erule rok_mono) blast
    ultimately show ?thesis
      using v by (cases q) (auto simp: inputData_def)
  qed
  then have "?rok (if snd (inputData ev t seg) = Inr () then ?A else A) (fst (inputData ev t seg))" if "is_data seg"
    using that by (cases "snd (inputData ev t seg)") auto
  with keep u \<open>?rok A u\<close> rok_less(1) [OF assms(2)] show ?thesis
    by (cases r) (auto simp: input_def Let_def t_def is_data_def)
qed

section \<open>Read\<close>

lemma read_segments:
  "rview (foldl read_segment s segs) =
     (se_recvBuf s, se_recvQueue s, se_nextRecv s, se_unreadBuf s @ concat (map seg_payload segs), se_transportProtocol s)"
  by (induction segs arbitrary: s) (simp_all add: rview_def read_segment_def forwardStateTo_def Let_def)

lemma read_copy_spec:
  "snd (read_copy s n) = Inr (take n (se_unreadBuf s))"
  "rview (fst (read_copy s n)) =
     (se_recvBuf s, se_recvQueue s, se_nextRecv s, drop n (se_unreadBuf s), se_transportProtocol s)"
  by (simp_all add: read_copy_def rview_def add_user_bytes_def Let_def split: option.split metric.split)

lemma read_copy_rok:
  assumes "rok bt ps A R f s"
  shows "rok bt ps A (R @ take n (se_unreadBuf s)) f (fst (read_copy s n))"
proof -
  have "rview (fst (read_copy s n)) = rview (s\<lparr>se_unreadBuf := drop n (se_unreadBuf s)\<rparr>)"
    using read_copy_spec(2) [of s n] by (simp add: rview_def)
  moreover have "rok bt ps A (R @ take n (se_unreadBuf s)) f (s\<lparr>se_unreadBuf := drop n (se_unreadBuf s)\<rparr>)"
    using assms by (auto simp: rok_def rinv_def prompt_def)
  ultimately show ?thesis using rok_rview by blast
qed

lemma read_select_rok:
  assumes "rok bt ps A R f s"
  shows "rok bt ps A R f (fst (read_select s))" "isl (snd (read_select s))"
  using assms by (auto simp: read_select_def rok_def rinv_def prompt_def items_def)

lemma take_through:
  assumes "j \<le> k" "k \<le> length ps"
  shows "concat (take j ps) @ concat (map (\<lambda>i. ps ! i) [j..<k]) = concat (take k ps)"
proof -
  have "map (\<lambda>i. ps ! i) [j..<k] = drop j (take k ps)"
    using assms by (intro nth_equalityI) simp_all
  moreover have "take k ps = take j ps @ drop j (take k ps)"
    using assms(1) append_take_drop_id [of j "take k ps"] by (simp add: min_def)
  ultimately show ?thesis by (metis concat_append)
qed

lemma drain_rok:
  assumes "btree_ok bt" "rok bt ps A R f s" "se_unreadBuf s = []" "drain bt (se_recvQueue s) = Inr (q, segs)"
  shows "rok bt ps A R f (foldl read_segment (s\<lparr>se_recvQueue := q\<rparr>) segs)"
proof -
  let ?s = "foldl read_segment (s\<lparr>se_recvQueue := q\<rparr>) segs"
  have d: "segs = items bt (se_recvQueue s)" "items bt q = []" "st_cap q = st_cap (se_recvQueue s)"
    using drain_items [OF assms(1), of "se_recvQueue s"] assms(4) by auto
  obtain j k where r: "rinv bt ps A R j k s" using assms(2) by (auto simp: rok_def)
  then have "R @ concat (map seg_payload segs) = concat (take k ps)"
    using assms(3) d(1) take_through [of j k ps] by (simp add: rinv_def)
  with r d have "rinv bt ps A R k k ?s"
    using read_segments [of "s\<lparr>se_recvQueue := q\<rparr>" segs] assms(3) by (simp add: rinv_def rview_def)
  moreover have "prompt bt f ?s"
    using assms(2) read_segments [of "s\<lparr>se_recvQueue := q\<rparr>" segs] by (simp add: rok_def prompt_def rview_def)
  ultimately show ?thesis by (rule rokI)
qed

lemma read_end_rok:
  assumes "rok bt ps A R f s" "(if se_unreadBuf s \<noteq> [] then read_copy s n else read_select s) = (s', r)"
  shows "rok bt ps A (case r of Inr b \<Rightarrow> R @ b | Inl e \<Rightarrow> R) f s'"
proof (cases "se_unreadBuf s = []")
  case True
  with assms(2) have "read_select s = (s', r)" by simp
  with read_select_rok [OF assms(1)] show ?thesis by (cases r) simp_all
next
  case False
  with assms(2) have "read_copy s n = (s', r)" by simp
  with read_copy_rok [OF assms(1), of n] read_copy_spec(1) [of s n] show ?thesis by simp
qed

lemma session_Read_rok:
  assumes "btree_ok (ev_bt ev)" "rok (ev_bt ev) ps A R f s" "session_Read ev s n = (s', r)"
  shows "rok (ev_bt ev) ps A (case r of Inr b \<Rightarrow> R @ b | Inl e \<Rightarrow> R) f s'"
proof (cases "se_unreadBuf s = [] \<and> 0 < st_Len (ev_bt ev) (se_recvQueue s)")
  case True
  then obtain q segs where d: "drain (ev_bt ev) (se_recvQueue s) = Inr (q, segs)"
    using drain_items [OF assms(1)] by blast
  show ?thesis
    by (rule read_end_rok [OF drain_rok [OF assms(1,2) _ d]])
       (use True assms(3) d in \<open>simp_all add: session_Read_def Let_def\<close>)
next
  case False
  show ?thesis
    by (rule read_end_rok [OF assms(2)]) (use False assms(3) in \<open>auto simp: session_Read_def\<close>)
qed

end
