(* ===== verification/Writing.thy ===== *)
theory Writing
  imports Receiving
begin

text \<open>
  \<open>Write\<close> of a session: the bytes of a successful call are numbered in full and in order, of a call that
  fails a part from the front; meanwhile the other goroutines of the session run.
\<close>

section \<open>What the other goroutines do\<close>

text \<open>
  Between two checks of a waiting writer the output loop and the input loop run, the session may be
  closed, and time passes.
\<close>

inductive_set others :: "'t senv \<Rightarrow> ('t session \<Rightarrow> 't session) set" for ev where
  o_output: "(\<lambda>s. fst (runOutputOnce ev tick s)) \<in> others ev"
| o_input: "(\<lambda>s. fst (input ev s seg)) \<in> others ev"
| o_close: "(\<lambda>s. fst (session_Close ev s)) \<in> others ev"
| o_read: "(\<lambda>s. fst (session_Read ev s n)) \<in> others ev"
| o_clock: "(\<lambda>s. s\<lparr>se_now := t\<rparr>) \<in> others ev"
| o_more: "f \<in> others ev \<Longrightarrow> g \<in> others ev \<Longrightarrow> g \<circ> f \<in> others ev"

lemma others_keep:
  assumes "f \<in> others ev" "env_ok ev \<and> numbered ev s \<and> grown s0 s"
  shows "env_ok ev \<and> numbered ev (f s) \<and> grown s0 (f s)"
  using assms
proof (induction arbitrary: s rule: others.induct)
  case (o_output tick)
  then show ?case by (rule numbering.runOutputOnce_keeps)
next
  case (o_input seg)
  then show ?case by (rule numbering.input_keeps)
next
  case o_close
  then show ?case by (rule numbering.session_Close_keeps)
next
  case (o_read n)
  then show ?case by (rule numbering.session_Read_keeps)
next
  case (o_clock t)
  then show ?case by (rule numbering.upd(11))
next
  case (o_more f g)
  from o_more.IH(2) [OF o_more.IH(1) [OF o_more.prems]] show ?case by simp
qed

text \<open>What a part of \<open>Write\<close> does to a session: the bytes \<open>b\<close> are numbered.\<close>

definition adds :: "'t senv \<Rightarrow> 't session \<Rightarrow> bytes \<Rightarrow> 't session \<Rightarrow> bool" where
  "adds ev s b t \<longleftrightarrow> numbered ev t \<and> (\<exists>qs. se_sent t = se_sent s @ qs \<and> concat qs = b)
     \<and> se_mtu t = se_mtu s \<and> se_transportProtocol t = se_transportProtocol s
     \<and> se_id t = se_id s \<and> se_isClient t = se_isClient s"

lemma adds_refl: "numbered ev s \<Longrightarrow> adds ev s [] s"
  by (simp add: adds_def)

lemma adds_numbered: "adds ev s b t \<Longrightarrow> numbered ev t"
  by (simp add: adds_def)

lemma adds_trans: "adds ev s b t \<Longrightarrow> adds ev t c u \<Longrightarrow> adds ev s (b @ c) u"
  by (force simp: adds_def)

lemma adds_same: "adds ev s b t \<Longrightarrow> same_send t u \<Longrightarrow> adds ev s b u"
  by (simp add: adds_def same_send_def numbered_def)

lemma others_adds:
  assumes "env_ok ev" "f \<in> others ev" "numbered ev s"
  shows "adds ev s [] (f s)"
proof -
  have "grown s (f s)" "numbered ev (f s)" using others_keep [OF assms(2), of s s] assms by simp_all
  then show ?thesis by (auto simp: adds_def grown_def)
qed

section \<open>The parts of Write\<close>

lemma wait_room_adds:
  assumes "env_ok ev" "set sch \<subseteq> others ev" "numbered ev s" "wait_room ev sch n s = (t, r)"
  shows "adds ev s [] t \<and> (\<forall>sch'. r = Inr sch' \<longrightarrow> set sch' \<subseteq> others ev)"
  using assms(2-4)
proof (induction sch arbitrary: s)
  case Nil
  then show ?case
    by (subst (asm) wait_room.simps) (auto simp: adds_refl split: if_splits option.splits)
next
  case (Cons f sch)
  have f: "adds ev s [] (f s)" using others_adds [OF assms(1)] Cons.prems by simp
  from Cons.prems(3) consider (now) "t = s" "r = Inr (f # sch) \<or> isl r" | (later) "wait_room ev sch n (f s) = (t, r)"
    by (subst (asm) (2) wait_room.simps) (auto split: if_splits option.splits)
  then show ?case
  proof cases
    case now
    with Cons.prems show ?thesis by (auto simp: adds_refl)
  next
    case later
    from Cons.IH [OF _ adds_numbered [OF f] later] Cons.prems(1) adds_trans [OF f] show ?thesis by auto
  qed
qed

lemma wait_moving_adds:
  assumes "env_ok ev" "set sch \<subseteq> others ev" "numbered ev s" "wait_moving ev sch n s = (t, r)"
  shows "adds ev s [] t \<and> (\<forall>sch'. r = Inr sch' \<longrightarrow> set sch' \<subseteq> others ev)"
  using assms(2-4)
proof (induction sch arbitrary: s)
  case Nil
  then show ?case
    by (subst (asm) wait_moving.simps) (auto simp: adds_def numbered_def items_def split: if_splits sum.splits)
next
  case (Cons f sch)
  have f: "adds ev s [] (f s)" using others_adds [OF assms(1)] Cons.prems by simp
  from Cons.prems(3) consider
      (now) "adds ev s [] t" "r = Inr (f # sch) \<or> isl r" | (later) "wait_moving ev sch n (f s) = (t, r)"
    by (subst (asm) (2) wait_moving.simps)
       (use Cons.prems(2) in \<open>auto simp: adds_def numbered_def items_def split: if_splits sum.splits\<close>)
  then show ?case
  proof cases
    case now
    with Cons.prems show ?thesis by auto
  next
    case later
    from Cons.IH [OF _ adds_numbered [OF f] later] Cons.prems(1) adds_trans [OF f] show ?thesis by auto
  qed
qed

lemma number_adds:
  assumes "env_ok ev" "numbered ev s" "seq_of seg = se_nextSend s"
  shows "adds ev s (seg_payload seg) (fst (sendQueue_Insert ev (take_seq s (seg_payload seg)) seg))"
proof -
  let ?t = "take_seq s (seg_payload seg)"
  have "carries (se_sent ?t) seg"
    using assms(2,3) by (auto simp: carries_def numbered_def take_seq_def intro: exI [of _ "length (se_sent s)"])
  then have "grown ?t (fst (sendQueue_Insert ev ?t seg)) \<and> numbered ev (fst (sendQueue_Insert ev ?t seg))"
    using numbering.queue_insert_keeps [of ev ?t ?t seg] assms(1) numbered_take_seq [OF assms(2)] by simp
  moreover have "adds ev s (seg_payload seg) ?t"
    using numbered_take_seq [OF assms(2)] by (simp add: adds_def take_seq_def)
  ultimately show ?thesis by (auto simp: adds_def grown_def)
qed

lemma fragment_segment_fields [simp]:
  "seg_payload (fragment_segment ev s i p) = p" "seq_of (fragment_segment ev s i p) = se_nextSend s"
  by (simp_all add: fragment_segment_def seq_of_def seg_Seq_def)

lemma write_fragments_adds:
  assumes "env_ok ev" "numbered ev s" "write_fragments ev fs n ptr s = (t, r)"
  shows "\<exists>c. adds ev s c t \<and> prefix c ptr \<and> (r = Inr () \<longrightarrow> c = take (n * fs) ptr)"
  using assms(2,3)
proof (induction n arbitrary: ptr s)
  case 0
  then show ?case by (auto intro: adds_refl)
next
  case (Suc n)
  show ?case
  proof (cases "write_error s")
    case None
    let ?k = "Min2 fs (length ptr)"
    let ?seg = "fragment_segment ev s n (take ?k ptr)"
    obtain u q where u: "sendQueue_Insert ev (take_seq s (take ?k ptr)) ?seg = (u, q)" by fastforce
    have k: "take ?k ptr = take fs ptr" "drop ?k ptr = drop fs ptr" by (auto simp: Min2_min min_def)
    have a: "adds ev s (take fs ptr) u" using number_adds [OF assms(1) Suc.prems(1), of ?seg] u k by simp
    show ?thesis
    proof (cases "q = Inr True")
      case True
      then have "write_fragments ev fs n (drop fs ptr) u = (t, r)"
        using Suc.prems(2) None u k by (simp add: Let_def)
      from Suc.IH [OF adds_numbered [OF a] this] obtain c where c: "adds ev u c t" "prefix c (drop fs ptr)"
        "r = Inr () \<longrightarrow> c = take (n * fs) (drop fs ptr)" by blast
      have "prefix (take fs ptr @ c) (take fs ptr @ drop fs ptr)" using c(2) by (simp only: same_prefix_prefix)
      with adds_trans [OF a c(1)] c(3) show ?thesis by (auto simp: take_add)
    next
      case False
      then have "t = u" "r \<noteq> Inr ()" using Suc.prems(2) None u k by (cases q; auto simp: Let_def)+
      with a take_is_prefix show ?thesis by blast
    qed
  qed (use Suc.prems in \<open>auto intro!: exI [of _ "[]"] adds_refl\<close>)
qed

lemma fragments_cover:
  fixes l f :: int
  assumes "0 < f"
  shows "l \<le> (if l > f then go_quot (l - 1) f + 1 else 1) * f" "0 < (if l > f then go_quot (l - 1) f + 1 else 1)"
proof -
  have "go_quot (l - 1) f = (l - 1) div f" if "l > f"
    using that assms by (intro go_quot_nonneg) simp_all
  moreover have "l \<le> (l - 1) div f * f + f"
    using assms div_mult_mod_eq [of "l - 1" f] pos_mod_bound [of f "l - 1"] by linarith
  moreover have "0 \<le> (l - 1) div f" if "l > f" using that assms by (simp add: pos_imp_zdiv_nonneg_iff)
  ultimately show "l \<le> (if l > f then go_quot (l - 1) f + 1 else 1) * f"
    "0 < (if l > f then go_quot (l - 1) f + 1 else 1)" by (auto simp: distrib_right)
qed

lemma writeChunk_adds:
  assumes "env_ok ev" "set sch \<subseteq> others ev" "numbered ev s" "writeChunk ev sch b s = (t, r)"
    and "0 < MaxFragmentSize (se_mtu s) (se_transportProtocol s)"
  shows "\<exists>c. adds ev s c t \<and> prefix c b
     \<and> (\<forall>n sch'. r = Inr (n, sch') \<longrightarrow> c = b \<and> n = length b \<and> set sch' \<subseteq> others ev)"
proof (cases "int (length b) > maxPDU")
  case False
  let ?fs = "MaxFragmentSize (se_mtu s) (se_transportProtocol s)"
  define nf where "nf = (if int (length b) > ?fs then go_quot (int (length b) - 1) ?fs + 1 else 1)"
  have nf: "int (length b) \<le> nf * ?fs" "0 < nf"
    unfolding nf_def using fragments_cover [OF assms(5), of "int (length b)"] by simp_all
  obtain n0 where w: "sbind (wait_room ev sch nf s) (\<lambda>s sch.
      sbind (write_fragments ev (nat ?fs) (nat nf) b s) (\<lambda>s _.
        sbind (wait_moving ev sch n0 s) (\<lambda>s sch.
          let s = (if se_isClient s then s\<lparr>se_readDeadline := (se_now s + serverRespTimeout) div 1000\<rparr> else s)
          in (s, Inr (length b, sch))))) = (t, r)"
    using assms(4,5) False by (auto simp: writeChunk_def Let_def nf_def [symmetric])
  obtain s1 r1 where s1: "wait_room ev sch nf s = (s1, r1)" by fastforce
  note a1 = wait_room_adds [OF assms(1-3) s1]
  show ?thesis
  proof (cases r1)
    case (Inl e)
    with w s1 a1 show ?thesis by auto
  next
    case (Inr sch1)
    obtain s2 r2 where s2: "write_fragments ev (nat ?fs) (nat nf) b s1 = (s2, r2)" by fastforce
    from write_fragments_adds [OF assms(1) _ s2] a1 obtain c where
      c: "adds ev s1 c s2" "prefix c b" "r2 = Inr () \<longrightarrow> c = take (nat nf * nat ?fs) b"
      using adds_numbered by blast
    have len: "length b \<le> nat nf * nat ?fs"
      using nf assms(5) by (metis nat_int nat_mult_distrib nat_mono order_less_imp_le)
    have a2: "adds ev s c s2" using adds_trans a1 c(1) by fastforce
    show ?thesis
    proof (cases r2)
      case (Inl e)
      with w s1 Inr s2 c a2 show ?thesis by auto
    next
      case Inr2: (Inr x)
      obtain s3 r3 where s3: "wait_moving ev sch1 n0 s2 = (s3, r3)" by fastforce
      have a3: "adds ev s2 [] s3" "\<forall>sch'. r3 = Inr sch' \<longrightarrow> set sch' \<subseteq> others ev"
        using wait_moving_adds [OF assms(1) _ adds_numbered [OF a2] s3] a1 Inr by auto
      have "same_send s3 t" using w s1 Inr s2 Inr2 s3 by (cases r3) (auto simp: Let_def split: if_splits)
      then have "adds ev s c t" using adds_same adds_trans [OF a2 a3(1)] by auto
      moreover have "c = b" using c(3) Inr2 len by simp
      moreover have "\<forall>n sch'. r = Inr (n, sch') \<longrightarrow> n = length b \<and> set sch' \<subseteq> others ev"
        using w s1 Inr s2 Inr2 s3 a3(2) by (cases r3) (auto simp: Let_def split: if_splits)
      ultimately show ?thesis by auto
    qed
  qed
qed (use assms in \<open>auto simp: writeChunk_def intro!: exI [of _ "[]"] adds_refl\<close>)

section \<open>Write\<close>

lemma write_loop_adds:
  assumes "env_ok ev" "set sch \<subseteq> others ev" "numbered ev s"
    and "0 < MaxFragmentSize (se_mtu s) (se_transportProtocol s)" "write_loop ev sch b n s = (t, m, e)"
  shows "\<exists>c. adds ev s c t \<and> prefix c b \<and> (e = None \<longrightarrow> c = b \<and> m = n + length b)
     \<and> n \<le> m \<and> m \<le> n + length c"
  using assms(2-5)
proof (induction b arbitrary: sch n s rule: length_induct)
  case (1 b)
  show ?case
  proof (cases "b = []")
    case True
    with "1.prems" show ?thesis by (subst (asm) write_loop.simps) (auto intro!: exI [of _ "[]"] adds_refl)
  next
    case False
    define k where "k = Min2 (length b) (nat maxPDU)"
    obtain u r where u: "writeChunk ev sch (take k b) s = (u, r)" by fastforce
    obtain c where c: "adds ev s c u" "prefix c (take k b)"
        "\<forall>n sch'. r = Inr (n, sch') \<longrightarrow> c = take k b \<and> n = length (take k b) \<and> set sch' \<subseteq> others ev"
      using writeChunk_adds [OF assms(1) "1.prems"(1,2) u "1.prems"(3)] by blast
    have k: "0 < k" "k \<le> length b" using False by (auto simp: k_def maxPDU_def)
    have unfold: "(case (u, r) of (s, Inl e) \<Rightarrow> (s, n, Some e)
        | (s, Inr (sent, sch)) \<Rightarrow> if sent = 0 then (s, n, None) else write_loop ev sch (drop k b) (n + k) s) = (t, m, e)"
      using "1.prems"(4) False u unfolding k_def
      by (subst (asm) write_loop.simps) (simp add: Let_def del: Min2_min)
    show ?thesis
    proof (cases r)
      case (Inl x)
      then have "t = u" "m = n" "e = Some x"
        using unfold by simp_all
      moreover have "prefix c b" using c(2) take_is_prefix prefix_order.trans by blast
      ultimately show ?thesis using c(1) by auto
    next
      case (Inr p)
      obtain sent sch' where p: "p = (sent, sch')" by fastforce
      have c': "c = take k b" "sent = k" "set sch' \<subseteq> others ev" using c(3) Inr p k by auto
      have w: "write_loop ev sch' (drop k b) (n + k) u = (t, m, e)"
        using unfold Inr p c'(2) k by simp
      have fs: "0 < MaxFragmentSize (se_mtu u) (se_transportProtocol u)" using c(1) "1.prems"(3) by (simp add: adds_def)
      have shorter: "length (drop k b) < length b" using k by simp
      obtain d where d: "adds ev u d t" "prefix d (drop k b)"
          "e = None \<longrightarrow> d = drop k b \<and> m = n + k + length (drop k b)" "n + k \<le> m" "m \<le> n + k + length d"
        using "1.IH" [rule_format, OF shorter c'(3) adds_numbered [OF c(1)] fs w] by blast
      have "prefix (c @ d) (take k b @ drop k b)" using d(2) c'(1) by (simp only: same_prefix_prefix)
      with adds_trans [OF c(1) d(1)] d(3-5) c'(1) k show ?thesis by (intro exI [of _ "c @ d"]) auto
    qed
  qed
qed

lemma session_segment_fields [simp]:
  "seg_payload (session_segment s p st pl) = pl" "seq_of (session_segment s p st pl) = se_nextSend s"
  by (simp_all add: session_segment_def seq_of_def seg_Seq_def)

lemma write_open_adds:
  assumes "env_ok ev" "numbered ev s" "write_open ev b s = (t, r)"
  shows "\<exists>c. adds ev s c t \<and> (c = [] \<or> c = b) \<and> (\<forall>n. r = Inr (Some n) \<longrightarrow> c = b \<and> n = length b)
     \<and> (r = Inr None \<longrightarrow> c = [])"
proof (cases "se_isClient s \<and> isState s sessionAttached \<and> \<not> se_openSessionRequestSent s")
  case True
  define p where "p = (if length b \<le> MaxSessionOpenPayload then b else [])"
  let ?s = "s\<lparr>se_openSessionRequestSent := True\<rparr>"
  let ?seg = "session_segment ?s openSessionRequest 0 p"
  have "numbered ev ?s" using assms(2) by (simp add: numbered_def)
  from number_adds [OF assms(1) this, of ?seg]
  have "adds ev s p (fst (sendQueue_Insert ev (take_seq ?s p) ?seg))" by (simp add: adds_def)
  moreover have "sbind (sendQueue_Insert ev (take_seq ?s p) ?seg) (\<lambda>s inserted.
      if \<not> inserted then (s, Inl (Errorf ''insert to send queue failed''))
      else (s, Inr (if p \<noteq> [] then Some (length p) else None))) = (t, r)"
    using assms(3) unfolding write_open_def if_P [OF True] Let_def p_def [symmetric] .
  ultimately have "adds ev s p t" "r = Inl (Errorf ''insert to send queue failed'') \<or> isl r
      \<or> r = Inr (if p \<noteq> [] then Some (length p) else None)"
    by (auto simp: sbind_def split: prod.splits sum.splits if_splits)
  moreover have "p = [] \<or> p = b" by (simp add: p_def)
  ultimately show ?thesis by (intro exI [of _ p]) (auto split: if_splits)
next
  case False
  with assms show ?thesis by (auto simp: write_open_def intro!: exI [of _ "[]"] adds_refl)
qed

lemma session_Write_adds:
  assumes "env_ok ev" "set sch \<subseteq> others ev" "numbered ev s"
    and "0 < MaxFragmentSize (se_mtu s) (se_transportProtocol s)" "session_Write ev sch b s = (t, n, e)"
  shows "\<exists>c. adds ev s c t \<and> prefix c b \<and> (e = None \<longrightarrow> c = b \<and> n = length b) \<and> n \<le> length c"
proof (cases "se_closeRequested s \<or> isStateBefore s sessionAttached False \<or> isStateAfter s sessionClosed True")
  case True
  then have "t = s" "n = 0" "e \<noteq> None" using assms(5) by (auto simp: session_Write_def split: if_splits)
  with adds_refl [OF assms(3)] show ?thesis by auto
next
  case False
  have upd: "adds ev s c (u\<lparr>se_writeDeadline := d\<rparr>) = adds ev s c u"
    "adds ev s c (add_user_bytes u g i) = adds ev s c u" for c u d g i
    by (simp_all add: adds_def numbered_def add_user_bytes_def Let_def split: option.split metric.split)
  obtain u r where u: "write_open ev b s = (u, r)" by fastforce
  from write_open_adds [OF assms(1,3) this] obtain c where
    c: "adds ev s c u" "c = [] \<or> c = b" "\<forall>n. r = Inr (Some n) \<longrightarrow> c = b \<and> n = length b" "r = Inr None \<longrightarrow> c = []" by blast
  consider (err) x where "r = Inl x" | (opened) k where "r = Inr (Some k)" | (go) "r = Inr None"
    by (metis option.exhaust sum.exhaust)
  then show ?thesis
  proof cases
    case err
    with False assms(5) u c show ?thesis by (auto simp: session_Write_def upd)
  next
    case opened
    with False assms(5) u c show ?thesis by (auto simp: session_Write_def upd)
  next
    case go
    obtain v m x where v: "write_loop ev sch b 0 u = (v, m, x)" by (metis prod_cases3)
    have fs: "0 < MaxFragmentSize (se_mtu u) (se_transportProtocol u)" using c(1) assms(4) by (simp add: adds_def)
    from write_loop_adds [OF assms(1,2) adds_numbered [OF c(1)] fs v] obtain d where
      d: "adds ev u d v" "prefix d b" "x = None \<longrightarrow> d = b \<and> m = length b" "m \<le> length d" by auto
    have "adds ev s d v" using adds_trans [OF c(1) d(1)] c(4) go by simp
    with False assms(5) u go v d show ?thesis
      by (cases x) (auto simp: session_Write_def upd split: if_splits)
  qed
qed

end
