(* ===== verification/Delivery.thy ===== *)
theory Delivery
  imports Writing
begin

text \<open>
  Two sessions and the packet network between them. One session writes, the other reads; the network
  may lose, repeat, delay and reorder what the first one sends. What the reader gets is what the
  writer wrote.
\<close>

section \<open>Two sessions and a network\<close>

text \<open>
  \<open>W\<close> collects what was written: all bytes of a successful call, and of a call that failed those that
  had been numbered. \<open>R\<close> collects what was read. \<open>A\<close> holds the sequence numbers of the segments that
  the reader's input loop has accepted. \<open>full\<close> says whether an input has ever left the reader's receive
  queue with room for at most one segment, where \<open>inputData\<close> leaves segments that are due in the receive
  buffer.
\<close>

record ('t, 'u) net =
  nt_writer :: "'t session"
  nt_reader :: "'u session"
  nt_W :: bytes
  nt_R :: bytes
  nt_A :: "nat set"
  nt_full :: bool

definition fresh_session :: "'t senv \<Rightarrow> 't session \<Rightarrow> bool" where
  "fresh_session ev s \<longleftrightarrow> (\<exists>reg est now sid isClient mtu us s0.
     NewSession (ev_bt ev) reg est now sid isClient mtu us = Inr s0 \<and> s = attach PacketTransport s0)"

text \<open>The bytes that were numbered between two states of a session.\<close>

definition numbered_bytes :: "'t session \<Rightarrow> 't session \<Rightarrow> bytes" where
  "numbered_bytes s t = concat (drop (length (se_sent s)) (se_sent t))"

text \<open>
  What a sender means by a segment: padding lengths and time stamp belong to the underlay that writes
  it. The network leaves the message as it is.
\<close>

definition strip_metadata :: "metadata \<Rightarrow> metadata" where
  "strip_metadata md =
     (case md of
        Session_md ss \<Rightarrow> Session_md (ss\<lparr>ss_timestamp := 0, ss_suffixLen := 0\<rparr>)
      | DataAck_md das \<Rightarrow> DataAck_md (das\<lparr>das_timestamp := 0, das_prefixLen := 0, das_suffixLen := 0\<rparr>))"

definition message :: "segment \<Rightarrow> metadata \<times> bytes" where
  "message seg = (strip_metadata (seg_metadata seg), seg_payload seg)"

definition same_message :: "segment \<Rightarrow> segment \<Rightarrow> bool" where
  "same_message x y \<longleftrightarrow> message x = message y"

inductive net_reach :: "'t senv \<Rightarrow> 'u senv \<Rightarrow> ('t, 'u) net \<Rightarrow> bool" for ev ev' where
  n_start: "fresh_session ev s \<Longrightarrow> fresh_session ev' r \<Longrightarrow>
    0 < MaxFragmentSize (se_mtu s) PacketTransport \<Longrightarrow>
    net_reach ev ev' \<lparr>nt_writer = s, nt_reader = r, nt_W = [], nt_R = [], nt_A = {}, nt_full = False\<rparr>"
| n_write: "net_reach ev ev' c \<Longrightarrow> set sch \<subseteq> others ev \<Longrightarrow>
    session_Write ev sch b (nt_writer c) = (s, n, e) \<Longrightarrow>
    net_reach ev ev' (c\<lparr>nt_writer := s,
      nt_W := nt_W c @ (if e = None then b else numbered_bytes (nt_writer c) s)\<rparr>)"
| n_writer: "net_reach ev ev' c \<Longrightarrow> f \<in> others ev \<Longrightarrow>
    net_reach ev ev' (c\<lparr>nt_writer := f (nt_writer c)\<rparr>)"
| n_transfer: "net_reach ev ev' c \<Longrightarrow> x \<in> set (se_wire (nt_writer c)) \<Longrightarrow> same_message x y \<Longrightarrow>
    input ev' (nt_reader c) y = (r, res) \<Longrightarrow>
    net_reach ev ev' (c\<lparr>nt_reader := r,
      nt_A := (if res = Inr () \<and> is_data y then insert (unat (seq_of y)) (nt_A c) else nt_A c),
      nt_full := nt_full c \<or> \<not> roomy (ev_bt ev') r\<rparr>)"
| n_read: "net_reach ev ev' c \<Longrightarrow> session_Read ev' (nt_reader c) n = (r, res) \<Longrightarrow>
    net_reach ev ev' (c\<lparr>nt_reader := r,
      nt_R := (case res of Inr b \<Rightarrow> nt_R c @ b | Inl e \<Rightarrow> nt_R c)\<rparr>)"
| n_reader: "net_reach ev ev' c \<Longrightarrow> rview r = rview (nt_reader c) \<Longrightarrow>
    net_reach ev ev' (c\<lparr>nt_reader := r\<rparr>)"

text \<open>The rest of what the reader's session does is of the last kind.\<close>

lemma reader_steps:
  assumes "env_ok ev"
  shows "rview (fst (runOutputOnce ev tick s)) = rview s" "rview (fst (session_Close ev s)) = rview s"
    "rview (fst (write_open ev b s)) = rview s" "rview (s\<lparr>se_now := t\<rparr>) = rview s"
proof -
  show "rview (fst (runOutputOnce ev tick s)) = rview s" "rview (fst (session_Close ev s)) = rview s"
    using assms by (blast intro: conjunct2 [OF recv_frame.runOutputOnce_keeps] conjunct2 [OF recv_frame.session_Close_keeps])+
  show "rview (fst (write_open ev b s)) = rview s" "rview (s\<lparr>se_now := t\<rparr>) = rview s"
    by (auto simp: write_open_def sendQueue_Insert_def sbind_def rview_def take_seq_def Let_def
        split: sum.splits prod.splits)
qed

section \<open>The invariant\<close>

definition net_inv :: "'t senv \<Rightarrow> 'u senv \<Rightarrow> ('t, 'u) net \<Rightarrow> bool" where
  "net_inv ev ev' c \<longleftrightarrow>
     numbered ev (nt_writer c) \<and> concat (se_sent (nt_writer c)) = nt_W c
   \<and> 0 < MaxFragmentSize (se_mtu (nt_writer c)) (se_transportProtocol (nt_writer c))
   \<and> (length (se_sent (nt_writer c)) < 2 ^ 32 \<longrightarrow>
        rok (ev_bt ev') (se_sent (nt_writer c)) (nt_A c) (nt_R c) (\<not> nt_full c) (nt_reader c)
        \<and> (nt_full c \<longrightarrow> segmentTreeRecvQueueCapacity \<le> int (length (se_sent (nt_writer c))) + 1))"

lemma NewSession_fields:
  assumes "btree_ok bt" "NewSession bt reg est now sid isClient mtu us = Inr s"
  shows "se_sent s = []" "se_wire s = []" "se_nextSend s = 0" "se_nextRecv s = 0" "se_unreadBuf s = []"
    "items bt (se_sendQueue s) = []" "items bt (se_sendBuf s) = []"
    "items bt (se_recvBuf s) = []" "items bt (se_recvQueue s) = []"
    "st_cap (se_recvQueue s) = segmentTreeRecvQueueCapacity"
  using assms(2) newSegmentTree_items [OF assms(1)]
  by (auto simp: NewSession_def split: sum.splits)

lemma fresh_fields:
  assumes "btree_ok (ev_bt ev)" "fresh_session ev s"
  shows "se_sent s = []" "se_wire s = []" "se_nextSend s = 0" "se_nextRecv s = 0" "se_unreadBuf s = []"
    "items (ev_bt ev) (se_sendQueue s) = []" "items (ev_bt ev) (se_sendBuf s) = []"
    "items (ev_bt ev) (se_recvBuf s) = []" "items (ev_bt ev) (se_recvQueue s) = []"
    "st_cap (se_recvQueue s) = segmentTreeRecvQueueCapacity" "se_transportProtocol s = PacketTransport"
proof -
  obtain reg est now sid isClient mtu us s0 where
    s0: "NewSession (ev_bt ev) reg est now sid isClient mtu us = Inr s0" "s = attach PacketTransport s0"
    using assms(2) unfolding fresh_session_def by blast
  show "se_sent s = []" "se_wire s = []" "se_nextSend s = 0" "se_nextRecv s = 0" "se_unreadBuf s = []"
    "items (ev_bt ev) (se_sendQueue s) = []" "items (ev_bt ev) (se_sendBuf s) = []"
    "items (ev_bt ev) (se_recvBuf s) = []" "items (ev_bt ev) (se_recvQueue s) = []"
    "st_cap (se_recvQueue s) = segmentTreeRecvQueueCapacity" "se_transportProtocol s = PacketTransport"
    using NewSession_fields [OF assms(1) s0(1)] s0(2) by (simp_all add: attach_def forwardStateTo_def)
qed

lemma rok_more: "rok bt ps A R f s \<Longrightarrow> rok bt (ps @ qs) A R f s"
proof -
  assume r: "rok bt ps A R f s"
  then obtain j k where i: "rinv bt ps A R j k s" by (auto simp: rok_def)
  then have "map (\<lambda>i. (ps @ qs) ! i) [j..<k] = map (\<lambda>i. ps ! i) [j..<k]"
    by (simp add: rinv_def nth_append)
  with i have "rinv bt (ps @ qs) A R j k s"
    by (auto simp: rinv_def carries_mono take_append)
  then show ?thesis using r by (intro rokI) (auto simp: rok_def prompt_def)
qed

lemma writer_step:
  assumes "net_inv ev ev' c" "adds ev (nt_writer c) b s"
  shows "net_inv ev ev' (c\<lparr>nt_writer := s, nt_W := nt_W c @ b\<rparr>)"
proof -
  obtain qs where qs: "se_sent s = se_sent (nt_writer c) @ qs" "concat qs = b" using assms(2) by (auto simp: adds_def)
  with assms rok_more [of _ "se_sent (nt_writer c)" "nt_A c" "nt_R c" "\<not> nt_full c" "nt_reader c" qs] show ?thesis
    by (auto simp: net_inv_def adds_def)
qed

lemma message_fields:
  "message x = message y \<Longrightarrow> seq_of x = seq_of y \<and> seg_Protocol x = seg_Protocol y \<and> seg_payload x = seg_payload y"
proof -
  have ss: "ss_seq (ss\<lparr>ss_timestamp := 0, ss_suffixLen := 0\<rparr>) = ss_seq ss"
    "ss_protocol (ss\<lparr>ss_timestamp := 0, ss_suffixLen := 0\<rparr>) = ss_protocol ss" for ss by simp_all
  have das: "das_seq (das\<lparr>das_timestamp := 0, das_prefixLen := 0, das_suffixLen := 0\<rparr>) = das_seq das"
    "das_protocol (das\<lparr>das_timestamp := 0, das_prefixLen := 0, das_suffixLen := 0\<rparr>) = das_protocol das" for das by simp_all
  assume "message x = message y"
  then show ?thesis
    by (cases "seg_metadata x"; cases "seg_metadata y")
      (auto simp: message_def strip_metadata_def seq_of_def seg_Seq_def seg_Protocol_def,
       (metis ss das)+)
qed

lemma carries_same_message: "carries ps x \<Longrightarrow> same_message x y \<Longrightarrow> carries ps y"
  using message_fields [of x y] by (simp add: carries_def same_message_def checkProtocolType_def)

lemma net_reach_inv:
  assumes "env_ok ev" "env_ok ev'" "net_reach ev ev' c"
  shows "net_inv ev ev' c"
  using assms(3)
proof induction
  case (n_start s r)
  have bt: "btree_ok (ev_bt ev)" "btree_ok (ev_bt ev')" using assms(1,2) by (simp_all add: env_ok_def)
  have "rinv (ev_bt ev') [] {} [] 0 0 r" "prompt (ev_bt ev') True r"
    using fresh_fields [OF bt(2) n_start(2)] by (simp_all add: rinv_def prompt_def)
  then have "rok (ev_bt ev') [] {} [] True r" by (rule rokI)
  with fresh_fields [OF bt(1) n_start(1)] n_start(3) show ?case by (simp add: net_inv_def numbered_def)
next
  case (n_write c sch b s n e)
  have c: "numbered ev (nt_writer c)" "0 < MaxFragmentSize (se_mtu (nt_writer c)) (se_transportProtocol (nt_writer c))"
    using n_write.IH by (simp_all add: net_inv_def)
  obtain d where d: "adds ev (nt_writer c) d s" "e = None \<longrightarrow> d = b"
    using session_Write_adds [OF assms(1) n_write(2) c n_write(3)] by blast
  then have "d = (if e = None then b else numbered_bytes (nt_writer c) s)"
    by (auto simp: adds_def numbered_bytes_def)
  with writer_step [OF n_write.IH d(1)] show ?case by simp
next
  case (n_writer c f)
  have "numbered ev (nt_writer c)" using n_writer.IH by (simp add: net_inv_def)
  from writer_step [OF n_writer.IH others_adds [OF assms(1) n_writer(2) this]] show ?case by simp
next
  case (n_transfer c x y r res)
  let ?ps = "se_sent (nt_writer c)"
  let ?A = "if res = Inr () \<and> is_data y then insert (unat (seq_of y)) (nt_A c) else nt_A c"
  have "carries ?ps y" using n_transfer carries_same_message by (auto simp: net_inv_def numbered_def)
  then have "rok (ev_bt ev') ?ps ?A (nt_R c) (\<not> nt_full c \<and> roomy (ev_bt ev') r) r" if "length ?ps < 2 ^ 32"
    using n_transfer.IH n_transfer(4) that input_rok [OF assms(2), of ?ps "nt_A c" "nt_R c" "\<not> nt_full c" "nt_reader c" y]
    by (simp add: net_inv_def)
  moreover from this have "segmentTreeRecvQueueCapacity \<le> int (length ?ps) + 1" if "length ?ps < 2 ^ 32" "\<not> roomy (ev_bt ev') r"
    using not_roomy [of "ev_bt ev'"] assms(2) that by (fastforce simp: rok_def env_ok_def)
  ultimately show ?case using n_transfer.IH by (auto simp: net_inv_def)
next
  case (n_read c n r res)
  have "btree_ok (ev_bt ev')" using assms(2) by (simp add: env_ok_def)
  with n_read session_Read_rok show ?case by (fastforce simp: net_inv_def)
next
  case (n_reader c r)
  then show ?case using rok_rview [OF n_reader(2)] by (simp add: net_inv_def)
qed

section \<open>Properties\<close>

text \<open>What a session has received in order and the application has not read yet.\<close>

definition readable :: "'t btree \<Rightarrow> 't session \<Rightarrow> bytes" where
  "readable bt s = se_unreadBuf s @ concat (map seg_payload (items bt (se_recvQueue s)))"

lemma rinv_readable: "rinv bt ps A R j k s \<Longrightarrow> R @ readable bt s = concat (take k ps)"
  using take_through [of j k ps] by (simp add: rinv_def readable_def) (metis append.assoc)

lemma read_progress:
  assumes "btree_ok (ev_bt ev)" "readable (ev_bt ev) s \<noteq> []" "0 < n"
  shows "\<exists>r b. session_Read ev s n = (r, Inr b) \<and> b \<noteq> []"
proof -
  have copy: "\<exists>r b. read_copy t n = (r, Inr b) \<and> b \<noteq> []" if "se_unreadBuf t \<noteq> []" for t :: "'a session"
    using read_copy_spec(1) [of t n] that assms(3) by (cases "read_copy t n") simp
  show ?thesis
  proof (cases "se_unreadBuf s = []")
    case True
    obtain q where d: "drain (ev_bt ev) (se_recvQueue s) = Inr (q, items (ev_bt ev) (se_recvQueue s))"
      using drain_items [OF assms(1)] by blast
    let ?t = "foldl read_segment (s\<lparr>se_recvQueue := q\<rparr>) (items (ev_bt ev) (se_recvQueue s))"
    have "se_unreadBuf ?t = readable (ev_bt ev) s"
      using read_segments [of "s\<lparr>se_recvQueue := q\<rparr>"] True by (simp add: rview_def readable_def)
    moreover have "items (ev_bt ev) (se_recvQueue s) \<noteq> []" using assms(2) True by (auto simp: readable_def)
    ultimately show ?thesis
      using copy [of ?t] d True assms(1,2) by (simp add: session_Read_def tree_simps Let_def)
  next
    case False
    with copy [OF False] show ?thesis by (simp add: session_Read_def)
  qed
qed

text \<open>
  C1. Reliable, ordered delivery over an unreliable network: in every run of two packet sessions, whatever
  the network loses, repeats, delays or reorders and however the goroutines interleave, the bytes
  the reader has got are a prefix of the bytes the writer wrote, until the 32-bit sequence numbers are
  used up.
\<close>

theorem delivery_in_order:
  assumes "env_ok ev" "env_ok ev'" "net_reach ev ev' c" "length (se_sent (nt_writer c)) < 2 ^ 32"
  shows "prefix (nt_R c) (nt_W c)"
proof -
  have inv: "net_inv ev ev' c" using assms(1-3) by (rule net_reach_inv)
  then obtain j k where "rinv (ev_bt ev') (se_sent (nt_writer c)) (nt_A c) (nt_R c) j k (nt_reader c)"
    using assms(4) by (auto simp: net_inv_def rok_def)
  then have "prefix (nt_R c) (concat (take k (se_sent (nt_writer c))))" using rinv_readable by (metis prefixI)
  also have "prefix \<dots> (concat (se_sent (nt_writer c)))"
    by (metis append_take_drop_id concat_append prefixI)
  finally show ?thesis using inv by (simp add: net_inv_def)
qed

text \<open>
  C2. Nothing is held back while the reader keeps up: once the reader's input loop has accepted every
  segment of the writer at least once, in any order, and no input has ever left its receive queue full
  (with room for at most one segment; the queue holds \<open>2 ^ 20\<close>, so this takes at least \<open>2 ^ 20 - 1\<close> segments
  that wait to be read), everything written has been read or is ready to be read, and as long as
  something is missing the next \<open>Read\<close> returns bytes. This holds until the 32-bit sequence numbers are used
  up; a queue that was full is necessary for anything to be held back, and fewer than \<open>2 ^ 20 - 1\<close> segments in
  all cannot fill it.
\<close>

theorem delivery_complete:
  assumes "env_ok ev" "env_ok ev'" "net_reach ev ev' c"
    and "length (se_sent (nt_writer c)) < 2 ^ 32"
    and "\<not> nt_full c \<or> int (length (se_sent (nt_writer c))) + 1 < segmentTreeRecvQueueCapacity"
    and "{..<length (se_sent (nt_writer c))} \<subseteq> nt_A c"
  shows "nt_R c @ readable (ev_bt ev') (nt_reader c) = nt_W c
     \<and> (nt_R c \<noteq> nt_W c \<and> 0 < n \<longrightarrow> (\<exists>r b. session_Read ev' (nt_reader c) n = (r, Inr b) \<and> b \<noteq> []))"
proof -
  let ?ps = "se_sent (nt_writer c)" let ?bt = "ev_bt ev'" let ?r = "nt_reader c"
  have inv: "net_inv ev ev' c" using assms(1-3) by (rule net_reach_inv)
  have "\<not> nt_full c" using inv assms(4,5) by (auto simp: net_inv_def)
  then obtain j k where r: "rinv ?bt ?ps (nt_A c) (nt_R c) j k ?r" and p: "prompt ?bt True ?r"
    using inv assms(4) by (auto simp: net_inv_def rok_def)
  have "k = length ?ps"
  proof (rule ccontr)
    assume "k \<noteq> length ?ps"
    then have k: "k < length ?ps" using r by (simp add: rinv_def)
    then have "k \<in> nt_A c" using assms(6) by auto
    then have "of_nat k \<in> seq_of ` set (items ?bt (se_recvBuf ?r))" using r by (auto simp: rinv_def)
    moreover have "\<forall>x \<in> set (items ?bt (se_recvBuf ?r)). of_nat k < seq_of x"
      using p r by (auto simp: prompt_def rinv_def)
    ultimately show False by auto
  qed
  then have all: "nt_R c @ readable ?bt ?r = nt_W c"
    using rinv_readable [OF r] inv by (simp add: net_inv_def)
  moreover have "btree_ok ?bt" using assms(2) by (simp add: env_ok_def)
  ultimately show ?thesis using read_progress [of ev' ?r n] by (cases "readable ?bt ?r = []") auto
qed

text \<open>
  C3. \<open>Write\<close> numbers its bytes in order and without gaps while the output loop, the input loop and the
  clock of the session go on: after a call without an error exactly the bytes of the buffer have been
  numbered and their number is returned, after an error a part from the front of the buffer that
  is at least as long as the returned count.
\<close>

theorem write_in_full:
  assumes "env_ok ev" "set sch \<subseteq> others ev" "numbered ev s"
    and "0 < MaxFragmentSize (se_mtu s) (se_transportProtocol s)" "session_Write ev sch b s = (t, n, e)"
  shows "numbered ev t \<and> prefix (numbered_bytes s t) b \<and> n \<le> length (numbered_bytes s t)
     \<and> (e = None \<longrightarrow> numbered_bytes s t = b \<and> n = length b)"
proof -
  obtain c where c: "adds ev s c t" "prefix c b" "e = None \<longrightarrow> c = b \<and> n = length b" "n \<le> length c"
    using session_Write_adds [OF assms] by blast
  then have "numbered_bytes s t = c" by (auto simp: adds_def numbered_bytes_def)
  with c show ?thesis by (simp add: adds_numbered)
qed

section \<open>A run\<close>

definition some_senv :: "segment list senv" where
  "some_senv = \<lparr>ev_bt = list_btree, ev_fe = some_env, ev_write = (\<lambda>_ _. Inr ()), ev_wait = (\<lambda>s. s)\<rparr>"

lemma some_senv_ok: "env_ok some_senv"
  by (simp add: env_ok_def some_senv_def list_btree_ok)

lemma some_session_exists:
  obtains s where "NewSession list_btree (\<lambda>_. None) 0 0 1 isClient 1400 [] = Inr s"
    "se_isClient s = isClient" "se_mtu s = 1400"
  by (simp add: NewSession_def SetRTOMultiplier_def newSegmentTree_def NewCubicSendAlgorithm_def
      txTimeoutBackOff_def segmentTreeCapacity_def segmentTreeRecvQueueCapacity_def minWindowSize_def maxWindowSize_def)

definition some_writer :: "segment list session" where
  "some_writer = attach PacketTransport (projr (NewSession list_btree (\<lambda>_. None) 0 0 1 False 1400 []))"

lemmas run_defs = some_writer_def attach_def NewSession_def SetRTOMultiplier_def newSegmentTree_def
  NewCubicSendAlgorithm_def txTimeoutBackOff_def segmentTreeCapacity_def segmentTreeRecvQueueCapacity_def
  minWindowSize_def maxWindowSize_def forwardStateTo_def session_states SetMaxAckDelay_def

lemma write_one_byte:
  assumes "write_open ev [x] s = (s, Inr None)" "\<not> se_closeRequested s" "se_state s = sessionAttached"
    "MaxFragmentSize (se_mtu s) (se_transportProtocol s) > 1" "1 < Remaining (ev_bt ev) (se_sendQueue s)"
    "write_fragments ev (nat (MaxFragmentSize (se_mtu s) (se_transportProtocol s))) 1 [x] s = (t, Inr ())"
    "\<not> st_chanEmptyEvent (se_sendQueue t)" "MinSeq (ev_bt ev) (se_sendQueue t) = Inr 0"
  shows "session_Write ev [] [x] s = (t\<lparr>se_writeDeadline := 0\<rparr>, 0, Some Blocked)"
proof -
  have "wait_room ev [] 1 s = (s, Inr [])" using assms(5) by (simp add: wait_room.simps)
  moreover have "wait_moving ev [] k t = (t, Inl Blocked)" for k
    using assms(7,8) by (simp add: wait_moving.simps)
  ultimately have "writeChunk ev [] [x] s = (t, Inl Blocked)"
    using assms(4,6) by (simp add: writeChunk_def maxPDU_def Let_def)
  then have "write_loop ev [] [x] 0 s = (t, 0, Some Blocked)"
    by (simp add: write_loop.simps maxPDU_def)
  with assms(1-3) show ?thesis
    by (simp add: session_Write_def isStateBefore_def isStateAfter_def session_states)
qed

lemma some_senv_simps [simp]:
  "ev_bt some_senv = list_btree" "ev_fe some_senv = some_env" "ev_write some_senv s x = Inr ()"
  "ev_wait some_senv s = s"
  by (simp_all add: some_senv_def)

lemmas tree_eval = list_btree_simps Insert_def seg_Seq_def checkProtocolType_def
  seg_Protocol_def protocol_defs notifyNotEmpty_def notifyEmpty_def seq_of_def MinSeq_def Remaining_def
  DeleteMinIf_def notifyLen_def st_Len_def

definition some_segment :: segment where
  "some_segment = \<lparr>seg_metadata = DataAck_md (zero_dataAckStruct\<lparr>das_protocol := dataServerToClient,
      das_sessionID := 1, das_windowSize := 16, das_payloadLen := 1\<rparr>),
    seg_payload = [7], seg_transport = PacketTransport, seg_ackCount = 0, seg_txCount = 0, seg_txTime = 0,
    seg_txTimeout = 0, seg_block = None\<rparr>"

definition some_writer1 :: "segment list session" where
  "some_writer1 = some_writer\<lparr>se_sendQueue := \<lparr>st_tr = [some_segment], st_cap = 4096,
     st_chanEmptyEvent = False, st_chanNotEmptyEvent = True\<rparr>, se_nextSend := 1, se_sent := [[7]]\<rparr>"

lemma some_write: "session_Write some_senv [] [7] some_writer = (some_writer1, 0, Some Blocked)"
proof -
  have fs: "MaxFragmentSize (se_mtu some_writer) (se_transportProtocol some_writer) = 1312"
    by (simp add: MaxFragmentSize_def packetOverhead_def Let_def size_consts MetadataLength_def run_defs)
  have "write_fragments some_senv 1312 1 [7] some_writer = (some_writer1, Inr ())"
    by (simp add: write_error_def deadline_passed_def Let_def some_writer1_def some_segment_def
      fragment_segment_def take_seq_def sendQueue_Insert_def tree_eval run_defs receiveWindowSize_def
      CongestionWindowSize_def zero_dataAckStruct_def)
  moreover have "write_open some_senv [7] some_writer = (some_writer, Inr None)" "\<not> se_closeRequested some_writer"
    "se_state some_writer = sessionAttached" "1 < Remaining (ev_bt some_senv) (se_sendQueue some_writer)"
    by (simp_all add: write_open_def run_defs tree_eval)
  moreover have "\<not> st_chanEmptyEvent (se_sendQueue some_writer1)"
    "MinSeq (ev_bt some_senv) (se_sendQueue some_writer1) = Inr 0"
    by (simp_all add: some_writer1_def tree_eval some_segment_def zero_dataAckStruct_def)
  ultimately have "session_Write some_senv [] [7] some_writer = (some_writer1\<lparr>se_writeDeadline := 0\<rparr>, 0, Some Blocked)"
    using fs by (intro write_one_byte) simp_all
  moreover have "some_writer1\<lparr>se_writeDeadline := 0\<rparr> = some_writer1" by (simp add: some_writer1_def run_defs)
  ultimately show ?thesis by simp
qed

lemma some_output: "se_sent (fst (runOutputOnce some_senv True some_writer1)) = [[7]]
   \<and> (\<exists>x. se_wire (fst (runOutputOnce some_senv True some_writer1)) = [x]
   \<and> seg_metadata x = seg_metadata some_segment \<and> seg_payload x = [7])"
  by (simp add: runOutputOnce_def some_writer1_def run_defs runOutputOncePacket_def resend_part_def
      UnixMicro_def Ascend_def Let_def tree_eval send_new_part_def sendWindowSize_def CongestionWindowSize_def
      sendQueue_DeleteMinIf_def some_segment_def sendBuf_Insert_def set_unAckSeq_def session_output_def
      ack_part_def Microseconds_def zero_dataAckStruct_def isDataAckProtocol_def sessionHeartbeatInterval_def Second_def)

definition some_reader :: "segment list session" where
  "some_reader = attach PacketTransport (projr (NewSession list_btree (\<lambda>_. None) 0 0 1 True 1400 []))"

definition some_reader1 :: "segment list session" where
  "some_reader1 = fst (input some_senv some_reader some_segment)"

lemma some_input: "input some_senv some_reader some_segment = (some_reader1, Inr ())"
  "se_unreadBuf some_reader1 = []" "in_order (st_tr (se_recvQueue some_reader1)) = [some_segment]"
  "st_cap (se_recvQueue some_reader1) = segmentTreeRecvQueueCapacity"
  by (simp_all add: some_reader1_def input_def some_reader_def run_defs accepts_protocol_def some_segment_def tree_eval
      zero_dataAckStruct_def adopt_block_def Let_def inputData_def deliver_def carried_ack_def delete_acked_def
      sendBuf_DeleteMinIf_def deliver_packet_def recvBuf_Insert_def move_all_def recvBuf_DeleteMinIf_def
      move_segment_def recvQueue_Insert_def)

lemma some_read: "\<exists>r. session_Read some_senv some_reader1 10 = (r, Inr [7])"
proof -
  have "seg_Protocol some_segment \<noteq> openSessionResponse" "seg_payload some_segment = [7]"
    by (simp_all add: some_segment_def seg_Protocol_def protocol_defs)
  with some_input(2,3) show ?thesis
    by (simp add: session_Read_def drain_def list_btree_simps st_Len_def st_DeleteMin_def notifyLen_def
        notifyEmpty_def read_segment_def read_copy_def Let_def)
qed

lemma some_fresh: "fresh_session some_senv some_writer" "fresh_session some_senv some_reader"
  "0 < MaxFragmentSize (se_mtu some_writer) PacketTransport"
proof -
  have "fresh_session some_senv (attach PacketTransport (projr (NewSession list_btree (\<lambda>_. None) 0 0 1 isClient 1400 [])))"
    for isClient
  proof -
    obtain s where "NewSession list_btree (\<lambda>_. None) 0 0 1 isClient 1400 [] = Inr s" by (rule some_session_exists)
    then show ?thesis unfolding fresh_session_def some_senv_simps by (metis sum.sel(2))
  qed
  then show "fresh_session some_senv some_writer" "fresh_session some_senv some_reader"
    by (simp_all add: some_writer_def some_reader_def)
  show "0 < MaxFragmentSize (se_mtu some_writer) PacketTransport"
    by (simp add: MaxFragmentSize_def packetOverhead_def Let_def size_consts MetadataLength_def run_defs)
qed

lemma some_roomy: "roomy list_btree some_reader1"
  by (simp add: roomy_def Remaining_def list_btree_simps some_input segmentTreeRecvQueueCapacity_def)

lemma some_run:
  obtains c c' where "net_reach some_senv some_senv c" "nt_W c = [7]" "nt_R c = []" "nt_A c = {0}"
    "se_sent (nt_writer c) = [[7]]" "\<not> nt_full c"
    "net_reach some_senv some_senv c'" "nt_W c' = [7]" "nt_R c' = [7]" "se_sent (nt_writer c') = [[7]]"
proof -
  let ?run = "net_reach some_senv some_senv"
  let ?c0 = "\<lparr>nt_writer = some_writer, nt_reader = some_reader, nt_W = [], nt_R = [], nt_A = {}, nt_full = False\<rparr>"
  have "?run ?c0" using some_fresh by (rule n_start)
  moreover have "numbered_bytes some_writer some_writer1 = [7]"
    by (simp add: numbered_bytes_def some_writer1_def run_defs)
  ultimately have "?run (?c0\<lparr>nt_writer := some_writer1, nt_W := [7]\<rparr>)"
    using n_write [of some_senv some_senv ?c0 "[]" "[7]"] some_write by simp
  from n_writer [OF this others.o_output [of some_senv True]]
  have c2: "?run (?c0\<lparr>nt_writer := fst (runOutputOnce some_senv True some_writer1), nt_W := [7]\<rparr>)" by simp
  obtain x where x: "x \<in> set (se_wire (fst (runOutputOnce some_senv True some_writer1)))" "same_message x some_segment"
    using some_output by (auto simp: same_message_def message_def some_segment_def)
  have d: "is_data some_segment" "unat (seq_of some_segment) = 0"
    by (simp_all add: is_data_def some_segment_def seg_Protocol_def seq_of_def seg_Seq_def zero_dataAckStruct_def)
  have c3: "?run (?c0\<lparr>nt_writer := fst (runOutputOnce some_senv True some_writer1), nt_W := [7],
      nt_reader := some_reader1, nt_A := {0}\<rparr>)"
    using n_transfer [OF c2 _ x(2), of some_reader1 "Inr ()"] x(1) some_input(1) some_roomy d by simp
  obtain r where "session_Read some_senv some_reader1 10 = (r, Inr [7])" using some_read by blast
  from n_read [OF c3, of 10 r "Inr [7]"] this
  have "?run (?c0\<lparr>nt_writer := fst (runOutputOnce some_senv True some_writer1), nt_W := [7],
      nt_reader := r, nt_A := {0}, nt_R := [7]\<rparr>)" by simp
  from that [OF c3 _ _ _ _ _ this] some_output show thesis by simp
qed

theorem delivery_in_order_witness:
  "\<exists>c. net_reach some_senv some_senv c \<and> nt_W c = [7] \<and> nt_R c = [7] \<and> prefix (nt_R c) (nt_W c)"
proof (rule some_run)
  fix c c' :: "(segment list, segment list) net"
  assume c: "net_reach some_senv some_senv c'" "nt_W c' = [7]" "nt_R c' = [7]" "se_sent (nt_writer c') = [[7]]"
  from delivery_in_order [OF some_senv_ok some_senv_ok c(1)] c show ?thesis by auto
qed

theorem delivery_complete_witness:
  "\<exists>c. net_reach some_senv some_senv c \<and> nt_W c = [7] \<and> nt_R c = []
     \<and> nt_R c @ readable list_btree (nt_reader c) = [7]
     \<and> (\<exists>r b. session_Read some_senv (nt_reader c) 10 = (r, Inr b) \<and> b \<noteq> [])"
proof (rule some_run)
  fix c c' :: "(segment list, segment list) net"
  assume c: "net_reach some_senv some_senv c" "nt_W c = [7]" "nt_R c = []" "nt_A c = {0}" "se_sent (nt_writer c) = [[7]]"
    "\<not> nt_full c"
  from delivery_complete [OF some_senv_ok some_senv_ok c(1), of 10] c show ?thesis
    by (auto simp: lessThan_Suc)
qed

theorem write_in_full_witness:
  "\<exists>t n e. session_Write some_senv [] [7] some_writer = (t, n, e) \<and> numbered_bytes some_writer t = [7]
     \<and> prefix (numbered_bytes some_writer t) [7]"
proof -
  have "numbered some_senv some_writer"
    using fresh_fields [OF _ some_fresh(1)] list_btree_ok by (simp add: numbered_def)
  moreover have "0 < MaxFragmentSize (se_mtu some_writer) (se_transportProtocol some_writer)"
    using some_fresh(3) by (simp add: run_defs)
  ultimately have "prefix (numbered_bytes some_writer some_writer1) [7]"
    using write_in_full [OF some_senv_ok _ _ _ some_write] by simp
  moreover have "numbered_bytes some_writer some_writer1 = [7]"
    by (simp add: numbered_bytes_def some_writer1_def run_defs)
  ultimately show ?thesis using some_write by auto
qed

end
