(* ===== verification/Scheduler.thy ===== *)
theory Scheduler
  imports Cipher
begin

text \<open>
  The schedule controller of a client underlay (\<open>src/pkg/protocol/scheduler.go\<close>), which decides whether
  new sessions may use the underlay. Times are nanoseconds; \<open>None\<close> is the zero time of Go. The clock is
  an argument, and so is \<open>scheduleIdleTime\<close>, which the program computes once from the host name.
\<close>

record ScheduleController =
  sd_pending :: int
  sd_lastScheduleTime :: "int option"
  sd_disableTime :: "int option"

definition new_ScheduleController :: ScheduleController where
  "new_ScheduleController = \<lparr>sd_pending = 0, sd_lastScheduleTime = None, sd_disableTime = None\<rparr>"

definition scheduleIdleTime :: "string \<Rightarrow> string \<Rightarrow> int" where
  "scheduleIdleTime appVersion hostName = KeyRefreshInterval + FixedIntVH appVersion hostName 61 * 1000000000"

text \<open>\<open>!t.IsZero() && time.Since(t) > d\<close>\<close>

definition since_more :: "int \<Rightarrow> int option \<Rightarrow> int \<Rightarrow> bool" where
  "since_more now t d \<longleftrightarrow> (case t of None \<Rightarrow> False | Some t \<Rightarrow> now - t > d)"

definition IncPending :: "int \<Rightarrow> ScheduleController \<Rightarrow> ScheduleController \<times> bool" where
  "IncPending now c =
     (if since_more now (sd_disableTime c) 0 then (c, False)
      else (c\<lparr>sd_pending := sd_pending c + 1, sd_lastScheduleTime := Some now\<rparr>, True))"

definition DecPending :: "int \<Rightarrow> ScheduleController \<Rightarrow> ScheduleController" where
  "DecPending now c = c\<lparr>sd_pending := sd_pending c - 1, sd_lastScheduleTime := Some now\<rparr>"

definition DisableTime :: "ScheduleController \<Rightarrow> int option" where
  "DisableTime c = sd_disableTime c"

definition IsDisabled :: "int \<Rightarrow> ScheduleController \<Rightarrow> bool" where
  "IsDisabled now c \<longleftrightarrow> since_more now (sd_disableTime c) 0"

text \<open>
  The time since a zero \<open>lastScheduleTime\<close> is longer than any interval (\<open>time.Since\<close> saturates).
\<close>

definition Idle :: "int \<Rightarrow> int \<Rightarrow> ScheduleController \<Rightarrow> bool" where
  "Idle idleTime now c \<longleftrightarrow>
     sd_disableTime c \<noteq> None
   \<and> (sd_lastScheduleTime c = None \<or> since_more now (sd_lastScheduleTime c) idleTime)
   \<and> since_more now (sd_disableTime c) idleTime"

definition TryDisableIdle :: "int \<Rightarrow> int \<Rightarrow> ScheduleController \<Rightarrow> ScheduleController \<times> bool" where
  "TryDisableIdle idleTime now c =
     (if sd_disableTime c \<noteq> None then (c, False)
      else if sd_pending c > 0 then (c, False)
      else if (case sd_lastScheduleTime c of None \<Rightarrow> False | Some t \<Rightarrow> now - t < idleTime) then (c, False)
      else (c\<lparr>sd_disableTime := Some now\<rparr>, True))"

definition SetRemainingTime :: "int \<Rightarrow> int \<Rightarrow> ScheduleController \<Rightarrow> ScheduleController" where
  "SetRemainingTime d now c =
     (if d < 0 \<or> sd_disableTime c \<noteq> None then c else c\<lparr>sd_disableTime := Some (now + d)\<rparr>)"

section \<open>Runs\<close>

text \<open>One call on the controller at a time; the boolean is what \<open>IncPending\<close> answered.\<close>

datatype schedule_call = Inc | Dec | Try_disable | Remaining_time int

definition schedule_step ::
    "int \<Rightarrow> ScheduleController \<Rightarrow> int \<times> schedule_call \<Rightarrow> ScheduleController \<times> bool" where
  "schedule_step idleTime c x =
     (case x of
        (now, Inc) \<Rightarrow> IncPending now c
      | (now, Dec) \<Rightarrow> (DecPending now c, False)
      | (now, Try_disable) \<Rightarrow> (fst (TryDisableIdle idleTime now c), False)
      | (now, Remaining_time d) \<Rightarrow> (SetRemainingTime d now c, False))"

fun schedule_run :: "int \<Rightarrow> ScheduleController \<Rightarrow> (int \<times> schedule_call) list \<Rightarrow> ScheduleController \<times> bool list" where
  "schedule_run idleTime c [] = (c, [])"
| "schedule_run idleTime c (x # xs) =
     (case schedule_step idleTime c x of
        (c, b) \<Rightarrow> (case schedule_run idleTime c xs of (c, bs) \<Rightarrow> (c, b # bs)))"

lemma disableTime_final:
  "sd_disableTime c = Some t \<Longrightarrow> sd_disableTime (fst (schedule_step idleTime c x)) = Some t"
  by (auto simp: schedule_step_def IncPending_def DecPending_def TryDisableIdle_def SetRemainingTime_def
      split: prod.split schedule_call.split)

lemma disabled_step:
  assumes "IsDisabled now c" "now \<le> fst x"
  shows "IsDisabled (fst x) (fst (schedule_step idleTime c x))" "\<not> snd (schedule_step idleTime c x)"
proof -
  obtain t where t: "sd_disableTime c = Some t" "t < now"
    using assms(1) by (auto simp: IsDisabled_def since_more_def split: option.splits)
  with disableTime_final [of c t idleTime x] assms(2)
  show "IsDisabled (fst x) (fst (schedule_step idleTime c x))" by (simp add: IsDisabled_def since_more_def)
  show "\<not> snd (schedule_step idleTime c x)"
    using t assms(2) by (cases x; cases "snd x") (auto simp: schedule_step_def IncPending_def since_more_def)
qed

text \<open>
  Disabling an underlay for new sessions is final: from the moment \<open>IsDisabled\<close> holds, along any
  sequence of calls at later and later times, no \<open>IncPending\<close> succeeds and the controller stays
  disabled.
\<close>

theorem disabled_for_good:
  assumes "IsDisabled now c" "sorted (now # map fst xs)" "schedule_run idleTime c xs = (c', bs)"
  shows "(\<forall>b \<in> set bs. \<not> b) \<and> (\<forall>later. later \<ge> (if xs = [] then now else fst (last xs)) \<longrightarrow> IsDisabled later c')"
  using assms
proof (induction xs arbitrary: now c bs)
  case Nil
  then show ?case by (auto simp: IsDisabled_def since_more_def split: option.splits)
next
  case (Cons x xs)
  obtain c1 b where s: "schedule_step idleTime c x = (c1, b)" by fastforce
  obtain bs' where r: "schedule_run idleTime c1 xs = (c', bs')" "bs = b # bs'"
    using Cons.prems(3) s by (auto split: prod.splits)
  have d: "IsDisabled (fst x) c1" "\<not> b"
    using disabled_step [OF Cons.prems(1), of x idleTime] Cons.prems(2) s by simp_all
  have "sorted (fst x # map fst xs)" using Cons.prems(2) by simp
  from Cons.IH [OF d(1) this r(1)] d(2) r(2) show ?case by (auto split: if_splits)
qed

theorem disabled_for_good_witness:
  "\<exists>c' bs. schedule_run 10 (SetRemainingTime 5 0 new_ScheduleController) [(7, Inc), (8, Dec), (9, Inc)] = (c', bs)
     \<and> (\<forall>b \<in> set bs. \<not> b) \<and> IsDisabled 9 c'"
proof -
  let ?c = "SetRemainingTime 5 0 new_ScheduleController"
  have "IsDisabled 6 ?c"
    by (simp add: IsDisabled_def SetRemainingTime_def new_ScheduleController_def since_more_def)
  moreover obtain c' bs where "schedule_run 10 ?c [(7, Inc), (8, Dec), (9, Inc)] = (c', bs)" by fastforce
  ultimately show ?thesis
    using disabled_for_good [of 6 ?c "[(7, Inc), (8, Dec), (9, Inc)]" 10 c' bs]
    by (auto simp del: schedule_run.simps)
qed

text \<open>
  An underlay is disabled for idleness only when nobody waits for it and it has not been used for
  the idle time; a controller that has been disabled that way is \<open>Idle\<close> after the idle time has passed
  once more without a call.
\<close>

theorem idle_disable_safe:
  assumes "TryDisableIdle idleTime now c = (c', True)" "0 < idleTime"
  shows "sd_pending c \<le> 0 \<and> (\<forall>t. sd_lastScheduleTime c = Some t \<longrightarrow> idleTime \<le> now - t)
     \<and> \<not> IsDisabled now c' \<and> (\<forall>later > now + idleTime. Idle idleTime later c')"
  using assms
  by (auto simp: TryDisableIdle_def IsDisabled_def Idle_def since_more_def split: if_splits option.splits)

theorem idle_disable_safe_witness:
  "\<exists>c'. TryDisableIdle 10 100 new_ScheduleController = (c', True) \<and> Idle 10 111 c'"
proof -
  obtain c' where c: "TryDisableIdle 10 100 new_ScheduleController = (c', True)"
    by (simp add: TryDisableIdle_def new_ScheduleController_def)
  from idle_disable_safe [OF c] show ?thesis using c by simp
qed

end
