(* ===== verification/Underlay.thy ===== *)
theory Underlay
  imports Delivery Scheduler "HOL-Library.AList"
begin

text \<open>
  What the stream and the packet underlay share (\<open>src/pkg/protocol/underlay_base.go\<close>): the sessions of
  an underlay and the sessions that wait for \<open>Accept\<close>; and the typed errors of \<open>src/pkg/stderror\<close>.

  The session map is an association list, whose order is the order in which \<open>Range\<close> visits the
  sessions. The registry of metrics and the gauge of established sessions are passed on to new
  sessions; statistics counters are left out, except the bytes received and sent.
\<close>

section \<open>Typed errors\<close>

datatype ErrorType = NO_ERROR | UNKNOWN_ERROR | PROTOCOL_ERROR | NETWORK_ERROR | CRYPTO_ERROR | REPLAY_ERROR

text \<open>A panic has no type.\<close>

type_synonym 'a typed_result = "(ErrorType \<times> go_error) + 'a"

definition WrapErrorWithType :: "go_error \<Rightarrow> ErrorType \<Rightarrow> ErrorType \<times> go_error" where
  "WrapErrorWithType e t = (t, e)"

definition typed_panic :: "string \<Rightarrow> ErrorType \<times> go_error" where
  "typed_panic m = (UNKNOWN_ERROR, Panic m)"

definition GetErrorType :: "(ErrorType \<times> go_error) option \<Rightarrow> ErrorType" where
  "GetErrorType e = (case e of None \<Rightarrow> NO_ERROR | Some (t, _) \<Rightarrow> t)"

definition tbind ::
    "'s \<times> 'a typed_result \<Rightarrow> ('s \<Rightarrow> 'a \<Rightarrow> 's \<times> 'b typed_result) \<Rightarrow> 's \<times> 'b typed_result" where
  "tbind m f = (case m of (s, Inl e) \<Rightarrow> (s, Inl e) | (s, Inr a) \<Rightarrow> f s a)"

lemma tbind_simps [simp]: "tbind (s, Inl e) f = (s, Inl e)" "tbind (s, Inr a) f = f s a"
  by (simp_all add: tbind_def)

section \<open>Users and traffic patterns\<close>

record user =
  ur_name :: string
  ur_hashedPassword :: string
  ur_password :: string
  ur_quotas :: "quota list"

definition session_users :: "user list \<Rightarrow> users" where
  "session_users us = map (\<lambda>u. (ur_name u, ur_quotas u)) us"

record tcpFragment =
  tf_enable :: bool
  tf_maxSleepMs :: int

record trafficPattern =
  tp_tcpFragment :: "tcpFragment option"
  tp_nonce :: "noncePattern option"

section \<open>The base underlay\<close>

definition sessionChanCapacity :: nat where "sessionChanCapacity = 64"
definition segmentChanCapacity :: nat where "segmentChanCapacity = 1024"

record 't baseUnderlay =
  bu_isClient :: bool
  bu_mtu :: int
  bu_done :: bool
  bu_sessionMap :: "(u32 \<times> 't session) list"
  bu_readySessions :: "u32 list"
  bu_trafficPattern :: "trafficPattern option"
  bu_inBytes :: int
  bu_outBytes :: int
  bu_scheduler :: ScheduleController
  bu_registry :: registry
  bu_established :: int

definition newBaseUnderlay ::
    "registry \<Rightarrow> int \<Rightarrow> bool \<Rightarrow> int \<Rightarrow> trafficPattern option \<Rightarrow> 't baseUnderlay" where
  "newBaseUnderlay reg established isClient mtu pattern =
     \<lparr>bu_isClient = isClient, bu_mtu = mtu, bu_done = False, bu_sessionMap = [],
      bu_readySessions = [], bu_trafficPattern = pattern, bu_inBytes = 0, bu_outBytes = 0,
      bu_scheduler = new_ScheduleController, bu_registry = reg, bu_established = established\<rparr>"

definition base_Accept ::
    "('t, 'z) baseUnderlay_scheme \<Rightarrow> ('t, 'z) baseUnderlay_scheme \<times> u32 result" where
  "base_Accept b =
     (case bu_readySessions b of
        sid # rest \<Rightarrow> (b\<lparr>bu_readySessions := rest\<rparr>, Inr sid)
      | [] \<Rightarrow> if bu_done b then (b, Inl ErrClosedPipe) else (b, Inl Blocked))"

text \<open>Store a session, replacing the one with the same ID.\<close>

definition put_session ::
    "('t, 'z) baseUnderlay_scheme \<Rightarrow> 't session \<Rightarrow> ('t, 'z) baseUnderlay_scheme" where
  "put_session b s = b\<lparr>bu_sessionMap := AList.update (se_id s) s (bu_sessionMap b)\<rparr>"

definition base_AddSession ::
    "('t, 'z) baseUnderlay_scheme \<Rightarrow> 't session \<Rightarrow> ('t, 'z) baseUnderlay_scheme \<times> unit result" where
  "base_AddSession b s =
     (if se_id s = 0 then (b, Inl (Errorf ''session ID can't be 0''))
      else if isStateAfter s sessionAttached True
      then (b, Inl (Errorf ''session is already attached to a underlay''))
      else if bu_isClient b \<and> \<not> se_isClient s
      then (b, Inl (Errorf ''can't add a server session to a client underlay''))
      else if \<not> bu_isClient b \<and> se_isClient s
      then (b, Inl (Errorf ''can't add a client session to a server underlay''))
      else (case map_of (bu_sessionMap b) (se_id s) of
              Some _ \<Rightarrow> (b, Inl ErrAlreadyExist)
            | None \<Rightarrow> (put_session b s, Inr ())))"

text \<open>\<open>AddSession\<close> of an underlay with the given transport.\<close>

definition AddSession ::
    "TransportProtocol \<Rightarrow> ('t, 'z) baseUnderlay_scheme \<Rightarrow> 't session
      \<Rightarrow> ('t, 'z) baseUnderlay_scheme \<times> unit result" where
  "AddSession transport b s =
     sbind (base_AddSession b s) (\<lambda>b _. (put_session b (attach transport s), Inr ()))"

definition RemoveSession ::
    "'t senv \<Rightarrow> ('t, 'z) baseUnderlay_scheme \<Rightarrow> 't session
      \<Rightarrow> ('t, 'z) baseUnderlay_scheme \<times> 't session result" where
  "RemoveSession ev b s =
     (if isStateBefore s sessionAttached False
      then (b, Inl (Errorf ''session is not attached to this underlay''))
      else
        let b = b\<lparr>bu_sessionMap := AList.delete (se_id s) (bu_sessionMap b)\<rparr>
        in (case session_Close ev s of
              (s, Inl (Panic m)) \<Rightarrow> (b, Inl (Panic m))
            | (s, _) \<Rightarrow> (b, Inr s)))"

definition SessionCount :: "('t, 'z) baseUnderlay_scheme \<Rightarrow> nat" where
  "SessionCount b = length (bu_sessionMap b)"

text \<open>\<open>Close\<close> of the base closes every session.\<close>

fun close_sessions :: "'t senv \<Rightarrow> (u32 \<times> 't session) list \<Rightarrow> (u32 \<times> 't session) list result" where
  "close_sessions ev [] = Inr []"
| "close_sessions ev ((sid, s) # rest) =
     (case session_Close ev s of
        (s, Inl (Panic m)) \<Rightarrow> Inl (Panic m)
      | (s, _) \<Rightarrow>
          (case close_sessions ev rest of
             Inl e \<Rightarrow> Inl e
           | Inr rest \<Rightarrow> Inr ((sid, s) # rest)))"

definition base_Close ::
    "'t senv \<Rightarrow> ('t, 'z) baseUnderlay_scheme \<Rightarrow> ('t, 'z) baseUnderlay_scheme \<times> unit result" where
  "base_Close ev b =
     (if bu_done b then (b, Inr ())
      else (case close_sessions ev (bu_sessionMap b) of
              Inl e \<Rightarrow> (b, Inl e)
            | Inr ss \<Rightarrow> (b\<lparr>bu_sessionMap := ss, bu_done := True\<rparr>, Inr ())))"

text \<open>
  \<open>cleanSessions\<close>: removes the sessions for which \<open>gone\<close> holds; an error of \<open>RemoveSession\<close> is only
  logged.
\<close>

fun clean_loop ::
    "'t senv \<Rightarrow> ('t session \<Rightarrow> bool) \<Rightarrow> (u32 \<times> 't session) list \<Rightarrow> ('t, 'z) baseUnderlay_scheme
      \<Rightarrow> ('t, 'z) baseUnderlay_scheme \<times> unit result" where
  "clean_loop ev gone [] b = (b, Inr ())"
| "clean_loop ev gone ((sid, s) # rest) b =
     (if gone s
      then (case RemoveSession ev b s of
              (b, Inl (Panic m)) \<Rightarrow> (b, Inl (Panic m))
            | (b, _) \<Rightarrow> clean_loop ev gone rest b)
      else clean_loop ev gone rest b)"

text \<open>\<open>session.recvChan <- seg\<close>: waits when the channel is full.\<close>

definition push_segment ::
    "('t, 'z) baseUnderlay_scheme \<Rightarrow> 't session \<Rightarrow> segment \<Rightarrow> ('t, 'z) baseUnderlay_scheme \<times> unit result" where
  "push_segment b s seg =
     (if length (se_recvChan s) \<ge> segmentChanCapacity then (b, Inl Blocked)
      else (put_session b (s\<lparr>se_recvChan := se_recvChan s @ [seg]\<rparr>), Inr ()))"

text \<open>
  The three handlers of session segments, for an underlay with the given transport. A packet underlay
  ignores a repeated open request, for a stream it is an error.
\<close>

definition onOpenSessionRequest ::
    "'t senv \<Rightarrow> TransportProtocol \<Rightarrow> user list \<Rightarrow> int \<Rightarrow> ('t, 'z) baseUnderlay_scheme \<Rightarrow> segment
      \<Rightarrow> ('t, 'z) baseUnderlay_scheme \<times> unit result" where
  "onOpenSessionRequest ev transport users now b seg =
     (if bu_isClient b then (b, Inl ErrInvalidOperation)
      else (case seg_metadata seg of
        DataAck_md _ \<Rightarrow> (b, Inl (Panic ''interface conversion''))
      | Session_md ss \<Rightarrow>
          let sessionID = ss_sessionID ss
          in if sessionID = 0 then (b, Inl (Errorf ''reserved session ID is used''))
             else (case map_of (bu_sessionMap b) sessionID of
               Some _ \<Rightarrow>
                 if transport = PacketTransport then (b, Inr ())
                 else (b, Inl (Errorf ''received open session request, but session ID is already used''))
             | None \<Rightarrow>
                 (case NewSession (ev_bt ev) (bu_registry b) (bu_established b) now sessionID False
                         (bu_mtu b) (session_users users) of
                    Inl e \<Rightarrow> (b, Inl e)
                  | Inr s \<Rightarrow>
                      let b = fst (AddSession transport b s)
                      in (case map_of (bu_sessionMap b) sessionID of
                            None \<Rightarrow> (b, Inl (Panic ''session is not added''))
                          | Some s \<Rightarrow>
                              sbind (push_segment b s seg) (\<lambda>b _.
                                if length (bu_readySessions b) \<ge> sessionChanCapacity then (b, Inl Blocked)
                                else (b\<lparr>bu_readySessions := bu_readySessions b @ [sessionID]\<rparr>, Inr ())))))))"

definition onOpenSessionResponse ::
    "('t, 'z) baseUnderlay_scheme \<Rightarrow> segment \<Rightarrow> ('t, 'z) baseUnderlay_scheme \<times> unit result" where
  "onOpenSessionResponse b seg =
     (if \<not> bu_isClient b then (b, Inl ErrInvalidOperation)
      else (case seg_metadata seg of
        DataAck_md _ \<Rightarrow> (b, Inl (Panic ''interface conversion''))
      | Session_md ss \<Rightarrow>
          (case map_of (bu_sessionMap b) (ss_sessionID ss) of
             None \<Rightarrow> (b, Inl (Errorf ''session ID is not found''))
           | Some s \<Rightarrow> push_segment b s seg)))"

definition onCloseSession ::
    "('t, 'z) baseUnderlay_scheme \<Rightarrow> segment \<Rightarrow> ('t, 'z) baseUnderlay_scheme \<times> unit result" where
  "onCloseSession b seg =
     (case seg_metadata seg of
        DataAck_md _ \<Rightarrow> (b, Inl (Panic ''interface conversion''))
      | Session_md ss \<Rightarrow>
          (case map_of (bu_sessionMap b) (ss_sessionID ss) of
             None \<Rightarrow> (b, Inr ())
           | Some s \<Rightarrow> push_segment b s seg))"

section \<open>The sessions of an underlay\<close>

text \<open>
  A session is stored under its own ID, which is not zero, plays the role of its underlay, and numbers
  its segments consistently.
\<close>

definition registered :: "'t senv \<Rightarrow> bool \<Rightarrow> u32 \<Rightarrow> 't session \<Rightarrow> bool" where
  "registered ev isClient sid s \<longleftrightarrow>
     se_id s = sid \<and> sid \<noteq> 0 \<and> se_isClient s = isClient \<and> numbered ev s"

definition underlay_ok :: "'t senv \<Rightarrow> ('t, 'z) baseUnderlay_scheme \<Rightarrow> bool" where
  "underlay_ok ev b \<longleftrightarrow> distinct (map fst (bu_sessionMap b))
     \<and> (\<forall>sid s. map_of (bu_sessionMap b) sid = Some s \<longrightarrow> registered ev (bu_isClient b) sid s)
     \<and> length (bu_readySessions b) \<le> sessionChanCapacity"

text \<open>
  Everything that happens to an underlay: its own operations, and what the goroutines of its sessions
  do.
\<close>

inductive underlay_step ::
    "'t senv \<Rightarrow> ('t, 'z) baseUnderlay_scheme \<Rightarrow> ('t, 'z) baseUnderlay_scheme \<Rightarrow> bool" for ev b where
  u_accept: "base_Accept b = (b', r) \<Longrightarrow> underlay_step ev b b'"
| u_add: "NewSession (ev_bt ev) reg est now sid isClient mtu us = Inr s \<Longrightarrow>
    AddSession transport b s = (b', r) \<Longrightarrow> underlay_step ev b b'"
| u_remove: "map_of (bu_sessionMap b) sid = Some s \<Longrightarrow> RemoveSession ev b s = (b', r') \<Longrightarrow> underlay_step ev b b'"
| u_clean: "clean_loop ev gone (bu_sessionMap b) b = (b', r) \<Longrightarrow> underlay_step ev b b'"
| u_close: "base_Close ev b = (b', r) \<Longrightarrow> underlay_step ev b b'"
| u_openRequest: "onOpenSessionRequest ev transport users now b seg = (b', r) \<Longrightarrow> underlay_step ev b b'"
| u_openResponse: "onOpenSessionResponse b seg = (b', r) \<Longrightarrow> underlay_step ev b b'"
| u_closeSession: "onCloseSession b seg = (b', r) \<Longrightarrow> underlay_step ev b b'"
| u_segment: "map_of (bu_sessionMap b) sid = Some s \<Longrightarrow> push_segment b s seg = (b', r) \<Longrightarrow> underlay_step ev b b'"
| u_session: "map_of (bu_sessionMap b) sid = Some s \<Longrightarrow> f \<in> others ev \<Longrightarrow> underlay_step ev b (put_session b (f s))"
| u_write: "map_of (bu_sessionMap b) sid = Some s \<Longrightarrow> set sch \<subseteq> others ev \<Longrightarrow>
    0 < MaxFragmentSize (se_mtu s) (se_transportProtocol s) \<Longrightarrow>
    session_Write ev sch p s = (s', n, e) \<Longrightarrow> underlay_step ev b (put_session b s')"

inductive underlay_reach ::
    "'t senv \<Rightarrow> ('t, 'z) baseUnderlay_scheme \<Rightarrow> ('t, 'z) baseUnderlay_scheme \<Rightarrow> bool" for ev b where
  u_refl: "underlay_reach ev b b"
| u_step: "underlay_reach ev b b' \<Longrightarrow> underlay_step ev b' b'' \<Longrightarrow> underlay_reach ev b b''"

section \<open>Lemmas\<close>

lemma registered_like:
  "registered ev c sid s \<Longrightarrow> same_core s t \<Longrightarrow> registered ev c sid t"
  by (simp add: registered_def same_core_def numbered_def)

lemma registered_recvChan [simp]:
  "registered ev c sid (s\<lparr>se_recvChan := ch\<rparr>) = registered ev c sid s"
  by (simp add: registered_def numbered_def)

lemma registered_attach [simp]: "registered ev c sid (attach tr s) = registered ev c sid s"
  by (simp add: registered_def numbered_def attach_def forwardStateTo_def)

lemma registered_others:
  assumes "env_ok ev" "f \<in> others ev" "registered ev c sid s"
  shows "registered ev c sid (f s)"
  using others_adds [OF assms(1,2), of s] assms(3) by (simp add: registered_def adds_def)

lemma registered_Close: "env_ok ev \<Longrightarrow> registered ev c sid s \<Longrightarrow> registered ev c sid (fst (session_Close ev s))"
  using registered_others [OF _ others.o_close] by blast

lemma put_session_isClient [simp]: "bu_isClient (put_session b s) = bu_isClient b"
  and put_session_ready [simp]: "bu_readySessions (put_session b s) = bu_readySessions b"
  and put_session_done [simp]: "bu_done (put_session b s) = bu_done b"
  and put_session_map [simp]: "map_of (bu_sessionMap (put_session b s)) = (map_of (bu_sessionMap b))(se_id s \<mapsto> s)"
  by (simp_all add: put_session_def update_conv')

lemma underlay_okI:
  "distinct (map fst (bu_sessionMap b)) \<Longrightarrow>
   (\<And>sid s. map_of (bu_sessionMap b) sid = Some s \<Longrightarrow> registered ev (bu_isClient b) sid s) \<Longrightarrow>
   length (bu_readySessions b) \<le> sessionChanCapacity \<Longrightarrow> underlay_ok ev b"
  by (simp add: underlay_ok_def)

lemma underlay_ok_distinct: "underlay_ok ev b \<Longrightarrow> distinct (map fst (bu_sessionMap b))"
  and underlay_ok_ready: "underlay_ok ev b \<Longrightarrow> length (bu_readySessions b) \<le> sessionChanCapacity"
  by (simp_all add: underlay_ok_def)

lemma ok_registered:
  "underlay_ok ev b \<Longrightarrow> map_of (bu_sessionMap b) sid = Some s \<Longrightarrow> registered ev (bu_isClient b) sid s"
  by (simp add: underlay_ok_def)

lemma put_session_ok:
  assumes "underlay_ok ev b" "registered ev (bu_isClient b) sid s"
  shows "underlay_ok ev (put_session b s)"
proof (rule underlay_okI)
  show "distinct (map fst (bu_sessionMap (put_session b s)))"
    using underlay_ok_distinct [OF assms(1)] by (simp add: put_session_def distinct_update)
  show "length (bu_readySessions (put_session b s)) \<le> sessionChanCapacity"
    using underlay_ok_ready [OF assms(1)] by simp
  fix i t assume "map_of (bu_sessionMap (put_session b s)) i = Some t"
  then show "registered ev (bu_isClient (put_session b s)) i t"
    using assms(2) ok_registered [OF assms(1)] by (auto simp: registered_def split: if_splits)
qed

lemma push_segment_ok:
  "underlay_ok ev b \<Longrightarrow> registered ev (bu_isClient b) sid s \<Longrightarrow> underlay_ok ev (fst (push_segment b s seg))"
  by (simp add: push_segment_def put_session_ok)

lemma AddSession_ok:
  assumes "underlay_ok ev b" "numbered ev s"
  shows "underlay_ok ev (fst (AddSession tr b s))"
proof -
  have "underlay_ok ev (fst (base_AddSession b s))
      \<and> (snd (base_AddSession b s) = Inr () \<longrightarrow>
          registered ev (bu_isClient (fst (base_AddSession b s))) (se_id s) s)"
    using assms put_session_ok [OF assms(1), of "se_id s" s]
    by (auto simp: base_AddSession_def registered_def split: option.split)
  then show ?thesis
    by (auto simp: AddSession_def sbind_def intro: put_session_ok split: prod.split sum.split)
qed

lemma delete_session_ok:
  assumes "underlay_ok ev b"
  shows "underlay_ok ev (b\<lparr>bu_sessionMap := AList.delete sid (bu_sessionMap b)\<rparr>)"
proof (rule underlay_okI)
  show "distinct (map fst (bu_sessionMap (b\<lparr>bu_sessionMap := AList.delete sid (bu_sessionMap b)\<rparr>)))"
    using underlay_ok_distinct [OF assms] by (simp add: distinct_delete)
qed (use ok_registered [OF assms] underlay_ok_ready [OF assms] in \<open>auto simp: delete_conv' split: if_splits\<close>)

lemma RemoveSession_ok: "underlay_ok ev b \<Longrightarrow> underlay_ok ev (fst (RemoveSession ev b s))"
  by (simp add: RemoveSession_def delete_session_ok Let_def split: prod.split sum.split go_error.split)

lemma RemoveSession_isClient [simp]: "bu_isClient (fst (RemoveSession ev b s)) = bu_isClient b"
  by (simp add: RemoveSession_def Let_def split: prod.split sum.split go_error.split)

lemma clean_loop_ok: "underlay_ok ev b \<Longrightarrow> underlay_ok ev (fst (clean_loop ev gone ss b))"
proof (induction ss arbitrary: b)
  case (Cons a ss)
  obtain sid s where a: "a = (sid, s)" by fastforce
  obtain b1 r where r: "RemoveSession ev b s = (b1, r)" by fastforce
  then have "underlay_ok ev b1" using RemoveSession_ok [OF Cons.prems, of s] by simp
  with Cons a r show ?case by (cases r; cases "projl r") simp_all
qed simp

lemma close_sessions_map:
  "close_sessions ev ss = Inr ss' \<Longrightarrow> ss' = map (\<lambda>(sid, s). (sid, fst (session_Close ev s))) ss"
  by (induction ss arbitrary: ss') (auto split: prod.splits sum.splits go_error.splits)

lemma map_of_close:
  "map_of (map (\<lambda>(sid, s). (sid, g s)) ss) i = map_option g (map_of ss i)"
  by (induction ss) auto

lemma base_Close_ok:
  assumes "env_ok ev" "underlay_ok ev b"
  shows "underlay_ok ev (fst (base_Close ev b))"
proof (cases "close_sessions ev (bu_sessionMap b)")
  case (Inr ss)
  let ?b = "b\<lparr>bu_sessionMap := ss, bu_done := True\<rparr>"
  note ss = close_sessions_map [OF Inr]
  have "underlay_ok ev ?b"
  proof (rule underlay_okI)
    have "map fst ss = map fst (bu_sessionMap b)" by (simp add: ss comp_def split_def)
    then show "distinct (map fst (bu_sessionMap ?b))" using underlay_ok_distinct [OF assms(2)] by simp
  qed (use ok_registered [OF assms(2)] underlay_ok_ready [OF assms(2)] in
      \<open>auto simp: ss map_of_close intro: registered_Close [OF assms(1)]\<close>)
  with assms(2) Inr show ?thesis by (simp add: base_Close_def)
qed (use assms in \<open>simp add: base_Close_def\<close>)

lemma NewSession_numbered:
  "btree_ok (ev_bt ev) \<Longrightarrow> NewSession (ev_bt ev) reg est now sid isClient mtu us = Inr s \<Longrightarrow> numbered ev s"
  by (auto simp: NewSession_def numbered_def newSegmentTree_items split: sum.splits)

lemma onOpenSessionRequest_ok:
  assumes "env_ok ev" "underlay_ok ev b"
  shows "underlay_ok ev (fst (onOpenSessionRequest ev tr users now b seg))"
proof -
  have bt: "btree_ok (ev_bt ev)" using assms(1) by (simp add: env_ok_def)
  have finish: "underlay_ok ev (fst (if length (bu_readySessions c) \<ge> sessionChanCapacity then (c, Inl Blocked)
      else (c\<lparr>bu_readySessions := bu_readySessions c @ [sid]\<rparr>, Inr ())))" if "underlay_ok ev c"
    for c :: "('a, 'b) baseUnderlay_scheme" and sid
    using that by (auto simp: underlay_ok_def)
  have push: "underlay_ok ev (fst (sbind (push_segment c s seg) (\<lambda>b _.
      if length (bu_readySessions b) \<ge> sessionChanCapacity then (b, Inl Blocked)
      else (b\<lparr>bu_readySessions := bu_readySessions b @ [sid]\<rparr>, Inr ()))))"
    if "underlay_ok ev c" "map_of (bu_sessionMap c) sid = Some s" for c :: "('a, 'b) baseUnderlay_scheme" and s sid
    using push_segment_ok [OF that(1) ok_registered [OF that], of seg] finish
    by (cases "push_segment c s seg"; cases "snd (push_segment c s seg)") simp_all
  show ?thesis
    using assms(2) push AddSession_ok [OF assms(2) NewSession_numbered [OF bt]]
    by (simp add: onOpenSessionRequest_def Let_def split: metadata.split option.split sum.split)
qed

lemma step_ok:
  assumes "env_ok ev" "underlay_ok ev b" "underlay_step ev b b'"
  shows "underlay_ok ev b'"
  using assms(3)
proof cases
  case (u_accept r)
  with assms(2) show ?thesis
    by (auto simp: base_Accept_def underlay_ok_def split: list.splits if_splits)
next
  case (u_add reg est now sid isClient mtu us s transport r)
  then show ?thesis
    using AddSession_ok [OF assms(2) NewSession_numbered, of reg est now sid isClient mtu us s transport] assms(1)
    by (simp add: env_ok_def)
next
  case (u_remove sid s r)
  then show ?thesis using RemoveSession_ok [OF assms(2), of s] by simp
next
  case (u_clean gone r)
  then show ?thesis using clean_loop_ok [OF assms(2), of gone "bu_sessionMap b"] by simp
next
  case (u_close r)
  then show ?thesis using base_Close_ok [OF assms(1,2)] by simp
next
  case (u_openRequest transport users now seg r)
  then show ?thesis using onOpenSessionRequest_ok [OF assms(1,2), of transport users now seg] by simp
next
  case (u_openResponse seg r)
  then show ?thesis
    using assms(2) push_segment_ok [OF assms(2) ok_registered [OF assms(2)]]
    by (auto simp: onOpenSessionResponse_def split: if_splits metadata.splits option.splits) (metis fst_conv)
next
  case (u_closeSession seg r)
  then show ?thesis
    using assms(2) push_segment_ok [OF assms(2) ok_registered [OF assms(2)]]
    by (auto simp: onCloseSession_def split: metadata.splits option.splits) (metis fst_conv)
next
  case (u_segment sid s seg r)
  then show ?thesis using push_segment_ok [OF assms(2) ok_registered [OF assms(2)], of sid s seg] by simp
next
  case (u_session sid s f)
  from registered_others [OF assms(1) u_session(3) ok_registered [OF assms(2) u_session(2)]]
  show ?thesis unfolding u_session(1) by (rule put_session_ok [OF assms(2)])
next
  case (u_write sid s sch p s' n e)
  have "registered ev (bu_isClient b) sid s'"
    using session_Write_adds [OF assms(1) u_write(3) _ u_write(4,5)] ok_registered [OF assms(2) u_write(2)]
    by (auto simp: registered_def adds_def)
  then show ?thesis unfolding u_write(1) by (rule put_session_ok [OF assms(2)])
qed

lemma reach_ok: "underlay_reach ev b0 b \<Longrightarrow> env_ok ev \<Longrightarrow> underlay_ok ev b0 \<Longrightarrow> underlay_ok ev b"
  by (induction rule: underlay_reach.induct) (auto intro: step_ok)

lemma new_underlay_ok:
  assumes "baseUnderlay.truncate b = newBaseUnderlay reg est isClient mtu pattern"
  shows "underlay_ok ev b"
proof -
  from assms have "bu_sessionMap b = []" "bu_readySessions b = []"
    by (simp_all add: baseUnderlay.truncate_def newBaseUnderlay_def)
  then show ?thesis by (simp add: underlay_ok_def)
qed

lemma NewSession_total:
  obtains s where "NewSession bt reg est now sid isClient mtu us = Inr s" "se_id s = sid"
    "se_isClient s = isClient" "se_state s = sessionInit" "se_recvChan s = []"
  by (simp add: NewSession_def SetRTOMultiplier_def newSegmentTree_def NewCubicSendAlgorithm_def
      txTimeoutBackOff_def segmentTreeCapacity_def segmentTreeRecvQueueCapacity_def minWindowSize_def maxWindowSize_def)

lemma AddSession_new:
  assumes "se_id s \<noteq> 0" "se_state s = sessionInit" "se_isClient s = bu_isClient b"
    and "map_of (bu_sessionMap b) (se_id s) = None"
  shows "AddSession tr b s = (put_session (put_session b s) (attach tr s), Inr ())"
  using assms by (simp add: AddSession_def base_AddSession_def isStateAfter_def session_states)

lemma attach_fields [simp]:
  "se_id (attach tr s) = se_id s" "se_recvChan (attach tr s) = se_recvChan s"
  "se_transportProtocol (attach tr s) = tr" "se_isClient (attach tr s) = se_isClient s"
  by (simp_all add: attach_def forwardStateTo_def)

lemma attach_state: "se_state s = sessionInit \<Longrightarrow> se_state (attach tr s) = sessionAttached"
  by (simp add: attach_def forwardStateTo_def session_states)

lemma open_request_new:
  assumes "\<not> bu_isClient b" "seg_metadata seg = Session_md ss" "ss_sessionID ss \<noteq> 0"
    and "map_of (bu_sessionMap b) (ss_sessionID ss) = None"
    and "length (bu_readySessions b) < sessionChanCapacity"
  obtains b' s where "onOpenSessionRequest ev transport users now b seg = (b', Inr ())"
    "map_of (bu_sessionMap b') = (map_of (bu_sessionMap b))(ss_sessionID ss \<mapsto> s)"
    "bu_readySessions b' = bu_readySessions b @ [ss_sessionID ss]" "bu_isClient b' = bu_isClient b"
    "se_id s = ss_sessionID ss" "se_state s = sessionAttached" "se_recvChan s = [seg]"
    "se_transportProtocol s = transport"
proof -
  let ?sid = "ss_sessionID ss"
  obtain s where s: "NewSession (ev_bt ev) (bu_registry b) (bu_established b) now ?sid False (bu_mtu b)
      (session_users users) = Inr s" "se_id s = ?sid" "se_isClient s = False" "se_state s = sessionInit"
      "se_recvChan s = []" by (rule NewSession_total)
  define t where "t = (attach transport s)\<lparr>se_recvChan := [seg]\<rparr>"
  define b1 where "b1 = put_session (put_session (put_session b s) (attach transport s)) t"
  have "AddSession transport b s = (put_session (put_session b s) (attach transport s), Inr ())"
    using assms s by (intro AddSession_new) auto
  with assms s have "onOpenSessionRequest ev transport users now b seg =
      (b1\<lparr>bu_readySessions := bu_readySessions b @ [?sid]\<rparr>, Inr ())"
    by (simp add: onOpenSessionRequest_def push_segment_def segmentChanCapacity_def b1_def t_def)
  with s show ?thesis
    by (intro that [of "b1\<lparr>bu_readySessions := bu_readySessions b @ [?sid]\<rparr>" t])
      (simp_all add: t_def b1_def attach_state)
qed

section \<open>Properties\<close>

text \<open>
  Whatever the underlay and the goroutines of its sessions do, no two sessions share an ID, every
  session is stored under its own ID, which is never the reserved ID 0, plays the role of its
  underlay and keeps its segments consistently numbered, and the channel of ready sessions stays
  within its capacity.
\<close>

theorem sessions_registered:
  assumes "env_ok ev" "baseUnderlay.truncate b0 = newBaseUnderlay reg est isClient mtu pattern"
    and "underlay_reach ev b0 b"
  shows "distinct (map fst (bu_sessionMap b)) \<and> length (bu_readySessions b) \<le> sessionChanCapacity
     \<and> (\<forall>sid s. map_of (bu_sessionMap b) sid = Some s \<longrightarrow>
          se_id s = sid \<and> sid \<noteq> 0 \<and> se_isClient s = bu_isClient b \<and> numbered ev s)"
proof -
  have ok: "underlay_ok ev b"
    by (rule reach_ok [OF assms(3,1) new_underlay_ok [OF assms(2)]])
  from underlay_ok_distinct [OF ok] underlay_ok_ready [OF ok] ok_registered [OF ok]
  show ?thesis by (simp add: registered_def)
qed

text \<open>
  C28. An open request with a new session ID gives a server underlay exactly one more session: it is
  attached, holds the segment in its receive channel, and is announced to \<open>Accept\<close>. A request for an ID
  in use changes nothing: a packet underlay ignores it, a stream underlay fails. A client refuses the
  request, and so does a server for the reserved ID 0.
\<close>

theorem open_request_registers:
  assumes "seg_metadata seg = Session_md ss" "transport \<in> {StreamTransport, PacketTransport}"
    and "length (bu_readySessions b) < sessionChanCapacity"
  shows "if bu_isClient b \<or> ss_sessionID ss = 0
           \<or> (ss_sessionID ss \<in> dom (map_of (bu_sessionMap b)) \<and> transport = StreamTransport)
         then \<exists>e. onOpenSessionRequest ev transport users now b seg = (b, Inl e)
         else if ss_sessionID ss \<in> dom (map_of (bu_sessionMap b))
         then onOpenSessionRequest ev transport users now b seg = (b, Inr ())
         else \<exists>b' s. onOpenSessionRequest ev transport users now b seg = (b', Inr ())
           \<and> map_of (bu_sessionMap b') = (map_of (bu_sessionMap b))(ss_sessionID ss \<mapsto> s)
           \<and> bu_readySessions b' = bu_readySessions b @ [ss_sessionID ss]
           \<and> se_id s = ss_sessionID ss \<and> se_state s = sessionAttached \<and> se_recvChan s = [seg]
           \<and> se_transportProtocol s = transport"
proof (cases "bu_isClient b \<or> ss_sessionID ss = 0 \<or> ss_sessionID ss \<in> dom (map_of (bu_sessionMap b))")
  case True
  then show ?thesis using assms by (auto simp: onOpenSessionRequest_def Let_def)
next
  case False
  then have "\<not> bu_isClient b" "ss_sessionID ss \<noteq> 0" "map_of (bu_sessionMap b) (ss_sessionID ss) = None" by auto
  from open_request_new [OF this(1) assms(1) this(2,3) assms(3), of ev transport users now]
  obtain b' s where "onOpenSessionRequest ev transport users now b seg = (b', Inr ())"
      "map_of (bu_sessionMap b') = (map_of (bu_sessionMap b))(ss_sessionID ss \<mapsto> s)"
      "bu_readySessions b' = bu_readySessions b @ [ss_sessionID ss]" "se_id s = ss_sessionID ss"
      "se_state s = sessionAttached" "se_recvChan s = [seg]" "se_transportProtocol s = transport" by blast
  with False show ?thesis by auto
qed

section \<open>Witnesses\<close>

definition some_open :: segment where
  "some_open = \<lparr>seg_metadata = Session_md (zero_sessionStruct\<lparr>ss_protocol := openSessionRequest, ss_sessionID := 5\<rparr>),
    seg_payload = [], seg_transport = StreamTransport, seg_ackCount = 0, seg_txCount = 0, seg_txTime = 0,
    seg_txTimeout = 0, seg_block = None\<rparr>"

abbreviation some_base :: "segment list baseUnderlay" where
  "some_base \<equiv> newBaseUnderlay (\<lambda>_. None) 0 False 1400 None"

theorem open_request_registers_witness:
  "\<exists>b' s. onOpenSessionRequest some_senv StreamTransport [] 0 some_base some_open = (b', Inr ())
     \<and> map_of (bu_sessionMap b') = [5 \<mapsto> s] \<and> bu_readySessions b' = [5] \<and> se_recvChan s = [some_open]"
proof -
  have "seg_metadata some_open = Session_md (zero_sessionStruct\<lparr>ss_protocol := openSessionRequest, ss_sessionID := 5\<rparr>)"
    by (simp add: some_open_def)
  from open_request_registers [OF this, of StreamTransport some_base some_senv "[]" 0]
  show ?thesis by (auto simp: newBaseUnderlay_def sessionChanCapacity_def)
qed

theorem sessions_registered_witness:
  "\<exists>b. underlay_reach some_senv some_base b \<and> distinct (map fst (bu_sessionMap b))
     \<and> length (bu_readySessions b) \<le> sessionChanCapacity
     \<and> (\<exists>s. map_of (bu_sessionMap b) 5 = Some s \<and> se_id s = 5 \<and> \<not> se_isClient s \<and> numbered some_senv s)"
proof -
  have "\<not> bu_isClient some_base" "map_of (bu_sessionMap some_base) 5 = None"
      "length (bu_readySessions some_base) < sessionChanCapacity"
    by (simp_all add: newBaseUnderlay_def sessionChanCapacity_def)
  then obtain b s where o: "onOpenSessionRequest some_senv StreamTransport [] 0 some_base some_open = (b, Inr ())"
      "map_of (bu_sessionMap b) = (map_of (bu_sessionMap some_base))(5 \<mapsto> s)" "bu_isClient b = bu_isClient some_base"
    using open_request_new [of some_base some_open "zero_sessionStruct\<lparr>ss_protocol := openSessionRequest, ss_sessionID := 5\<rparr>"
      some_senv StreamTransport "[]" 0 thesis] by (simp add: some_open_def)
  have reach: "underlay_reach some_senv some_base b"
    by (rule u_step [OF u_refl u_openRequest [OF o(1)]])
  have "\<not> bu_isClient b" using o(3) by (simp add: newBaseUnderlay_def)
  with sessions_registered [OF some_senv_ok _ reach] o(2) reach show ?thesis
    by (auto simp: baseUnderlay.truncate_def newBaseUnderlay_def)
qed

end
