(* ===== verification/StreamUnderlay.thy ===== *)
theory StreamUnderlay
  imports Underlay Replay
begin

text \<open>
  The stream underlay (\<open>src/pkg/protocol/underlay_stream.go\<close>): segments as encrypted metadata, padding
  and encrypted payload on a byte stream. The connection is the bytes that have arrived and not been
  read, what a read gets when they run out, and the list of writes. Random draws and the clock
  (nanoseconds) are arguments. The code that passes pointers to \<open>nil\<close> is left out, and a segment is not
  changed by sending it: the padding lengths and the time stamp that the source stores in the metadata
  of a segment it writes are set again by the next write.
\<close>

section \<open>State\<close>

text \<open>The surroundings: the AEAD, the key derivation, floating point, host name and version.\<close>

record uenv =
  ue_aead :: aead
  ue_kdf :: kdf
  ue_fe :: float_env
  ue_he :: host_env

record 't streamUnderlay = "'t baseUnderlay" +
  su_send :: "aeadBlockCipher option"
  su_recv :: "aeadBlockCipher option"
  su_block :: "aeadBlockCipher option"
  su_users :: "user list"
  su_userHintIsMandatory :: bool
  su_in :: bytes
  su_end :: go_error
  su_out :: "bytes list"
  su_writeErr :: "go_error option"
  su_streamReplayCache :: replayCache
  su_blockCipherCache :: cipher_cache

text \<open>The draws of one write: nonces, paddings and fragment lengths.\<close>

record write_draws =
  wd_meta :: nonce_draws
  wd_payload :: nonce_draws
  wd_pad1 :: rand_source
  wd_pad2 :: rand_source
  wd_frag :: "nat \<Rightarrow> int \<Rightarrow> int"

text \<open>
  \<open>resolve\<close> and \<open>dial\<close> are the resolver and the dialer; \<open>bypass\<close> says that the DNS configuration lets the
  dialer resolve the name.
\<close>

definition NewStreamUnderlay ::
    "registry \<Rightarrow> int \<Rightarrow> replayCache \<Rightarrow> cipher_cache \<Rightarrow> (string \<Rightarrow> string result) \<Rightarrow> (string \<Rightarrow> unit result)
      \<Rightarrow> bool \<Rightarrow> string \<Rightarrow> string \<Rightarrow> int \<Rightarrow> aeadBlockCipher \<Rightarrow> trafficPattern option \<Rightarrow> 't streamUnderlay result" where
  "NewStreamUnderlay reg established rc cache resolve dial bypass network addr mtu block pattern =
     (if network \<notin> {''tcp'', ''tcp4'', ''tcp6''}
      then Inl (Errorf ''network is not supported by stream underlay'')
      else if IsStateless block then Inl (Errorf ''stream underlay block cipher must be stateful'')
      else (case (if bypass then Inr addr else resolve addr) of
              Inl e \<Rightarrow> Inl (Errorf ''ResolveTCPAddr() failed'')
            | Inr remote \<Rightarrow>
      (case dial remote of
         Inl e \<Rightarrow> Inl (Errorf ''DialContext() failed'')
       | Inr _ \<Rightarrow> Inr (baseUnderlay.extend (newBaseUnderlay reg established True mtu pattern)
           (streamUnderlay.fields None None (Some block) [] False [] EOF [] None rc cache)))))"

section \<open>Writing\<close>

definition maybeInitSendBlockCipher :: "'t streamUnderlay \<Rightarrow> 't streamUnderlay \<times> unit result" where
  "maybeInitSendBlockCipher t =
     (if su_send t \<noteq> None then (t, Inr ())
      else if bu_isClient t
      then (case su_block t of
              None \<Rightarrow> (t, Inl (Panic ''nil pointer dereference''))
            | Some block \<Rightarrow>
                (case Clone block of
                   Inl e \<Rightarrow> (t, Inl e)
                 | Inr c \<Rightarrow> (t\<lparr>su_send := Some c\<rparr>, Inr ())))
      else (case su_recv t of
              None \<Rightarrow> (t, Inl (Errorf ''recv cipher is nil''))
            | Some recv \<Rightarrow>
                (case Clone recv of
                   Inl e \<Rightarrow> (t, Inl e)
                 | Inr c \<Rightarrow>
                     let c = SetImplicitNonceMode False c;
                         c = SetImplicitNonceMode True c
                     in (t\<lparr>su_send := Some c\<rparr>, Inr ()))))"

definition conn_Write :: "'t streamUnderlay \<Rightarrow> bytes \<Rightarrow> 't streamUnderlay \<times> unit result" where
  "conn_Write t b =
     (case su_writeErr t of
        Some e \<Rightarrow> (t, Inl (Errorf ''Write() failed''))
      | None \<Rightarrow> (t\<lparr>su_out := su_out t @ [b]\<rparr>, Inr ()))"

text \<open>
  The fragments of \<open>writeWithPossibleFragment\<close>; the sleeps between them are left out. Every fragment has
  at least one byte, so one round per byte is enough.
\<close>

fun fragment_loop ::
    "float_env \<Rightarrow> (nat \<Rightarrow> int \<Rightarrow> int) \<Rightarrow> int \<Rightarrow> nat \<Rightarrow> nat \<Rightarrow> bytes \<Rightarrow> 't streamUnderlay
      \<Rightarrow> 't streamUnderlay \<times> unit result" where
  "fragment_loop fe frag len i 0 remaining t = (t, Inr ())"
| "fragment_loop fe frag len i (Suc n) remaining t =
     (if remaining = [] then (t, Inr ())
      else
        let minLenToSend = trunc_real (fe_f64 fe (sqrt (of_int len))) + 1;
            maxLenToSend = Max2 minLenToSend (go_quot len 2);
            lenToSend = frag i (maxLenToSend - minLenToSend + 1) + minLenToSend;
            lenToSend = (if lenToSend > int (length remaining) then int (length remaining) else lenToSend)
        in sbind (conn_Write t (take (nat lenToSend) remaining)) (\<lambda>t _.
             fragment_loop fe frag len (Suc i) n (drop (nat lenToSend) remaining) t))"

definition writeWithPossibleFragment ::
    "float_env \<Rightarrow> (nat \<Rightarrow> int \<Rightarrow> int) \<Rightarrow> 't streamUnderlay \<Rightarrow> bytes \<Rightarrow> 't streamUnderlay \<times> unit result" where
  "writeWithPossibleFragment fe frag t dataToSend =
     (case bu_trafficPattern t of
        Some p \<Rightarrow>
          (case tp_tcpFragment p of
             Some f \<Rightarrow>
               if tf_enable f
               then fragment_loop fe frag (int (length dataToSend)) 0 (length dataToSend) dataToSend t
               else conn_Write t dataToSend
           | None \<Rightarrow> conn_Write t dataToSend)
      | None \<Rightarrow> conn_Write t dataToSend)"

definition stream_Encrypt ::
    "uenv \<Rightarrow> nonce_draws \<Rightarrow> 't streamUnderlay \<Rightarrow> bytes \<Rightarrow> 't streamUnderlay \<times> bytes result" where
  "stream_Encrypt ue d t plaintext =
     (case su_send t of
        None \<Rightarrow> (t, Inl (Panic ''nil pointer dereference''))
      | Some c \<Rightarrow>
          (case Encrypt (ue_aead ue) d c plaintext of
             (c, Inl (Panic m)) \<Rightarrow> (t\<lparr>su_send := Some c\<rparr>, Inl (Panic m))
           | (c, Inl e) \<Rightarrow> (t\<lparr>su_send := Some c\<rparr>, Inl (Errorf ''Encrypt() failed''))
           | (c, Inr b) \<Rightarrow> (t\<lparr>su_send := Some c\<rparr>, Inr b)))"

text \<open>The encrypted payload, if there is one.\<close>

definition stream_payload ::
    "uenv \<Rightarrow> nonce_draws \<Rightarrow> 't streamUnderlay \<Rightarrow> bytes \<Rightarrow> 't streamUnderlay \<times> bytes result" where
  "stream_payload ue d t payload =
     (if payload = [] then (t, Inr []) else stream_Encrypt ue d t payload)"

text \<open>\<open>paddingOpts{maxLen: n, ascii: \&asciiPaddingOpts{}}\<close>\<close>

definition plain_padding_opts :: "int \<Rightarrow> paddingOpts" where
  "plain_padding_opts n =
     \<lparr>po_maxLen = n, po_ascii = Some \<lparr>ap_minConsecutiveASCIILen = 0\<rparr>, po_entropy = None\<rparr>"

text \<open>The clock of \<open>Marshal\<close> and \<open>Unmarshal\<close> is in seconds.\<close>

definition unix_seconds :: "int \<Rightarrow> int" where
  "unix_seconds now = now div 1000000000"

definition write_session_segment ::
    "uenv \<Rightarrow> write_draws \<Rightarrow> int \<Rightarrow> 't streamUnderlay \<Rightarrow> segment \<Rightarrow> sessionStruct
      \<Rightarrow> 't streamUnderlay \<times> unit result" where
  "write_session_segment ue d now t seg ss =
     (let maxPaddingSize = MaxPaddingSize (bu_mtu t) StreamTransport (uint (ss_payloadLen ss)) 0;
          userName = (case su_send t of Some c \<Rightarrow> bc_userName c | None \<Rightarrow> [])
      in (case rbind (buildRecommendedPaddingOpts (ue_he ue) (wd_pad1 d) maxPaddingSize
                   (streamOverhead + uint (ss_payloadLen ss)) userName) (newPadding (ue_fe ue) (wd_pad1 d)) of
            Inl e \<Rightarrow> (t, Inl e)
          | Inr padding \<Rightarrow>
              let ss = ss\<lparr>ss_suffixLen := of_nat (length padding)\<rparr>;
                  plaintextMetadata = snd (sessionStruct_Marshal ss (unix_seconds now))
              in sbind (stream_Encrypt ue (wd_meta d) t plaintextMetadata) (\<lambda>t encryptedMetadata.
                   sbind (stream_payload ue (wd_payload d) t (seg_payload seg)) (\<lambda>t encryptedPayload.
                     let dataToSend = encryptedMetadata @ encryptedPayload @ padding
                     in sbind (writeWithPossibleFragment (ue_fe ue) (wd_frag d) t dataToSend) (\<lambda>t _.
                          (t\<lparr>bu_outBytes := bu_outBytes t + int (length dataToSend)\<rparr>, Inr ()))))))"

definition write_dataAck_segment ::
    "uenv \<Rightarrow> write_draws \<Rightarrow> int \<Rightarrow> 't streamUnderlay \<Rightarrow> segment \<Rightarrow> dataAckStruct
      \<Rightarrow> 't streamUnderlay \<times> unit result" where
  "write_dataAck_segment ue d now t seg das =
     (case newPadding (ue_fe ue) (wd_pad1 d)
             (plain_padding_opts (MaxPaddingSize (bu_mtu t) StreamTransport (uint (das_payloadLen das)) 0)) of
        Inl e \<Rightarrow> (t, Inl e)
      | Inr padding1 \<Rightarrow>
          (case newPadding (ue_fe ue) (wd_pad2 d)
                  (plain_padding_opts (MaxPaddingSize (bu_mtu t) StreamTransport
                     (uint (das_payloadLen das)) (int (length padding1)))) of
             Inl e \<Rightarrow> (t, Inl e)
           | Inr padding2 \<Rightarrow>
               let das = das\<lparr>das_prefixLen := of_nat (length padding1), das_suffixLen := of_nat (length padding2)\<rparr>;
                   plaintextMetadata = snd (dataAckStruct_Marshal das (unix_seconds now))
               in sbind (maybeInitSendBlockCipher t) (\<lambda>t _.
                  sbind (stream_Encrypt ue (wd_meta d) t plaintextMetadata) (\<lambda>t encryptedMetadata.
                  sbind (stream_payload ue (wd_payload d) t (seg_payload seg)) (\<lambda>t encryptedPayload.
                    let dataToSend = encryptedMetadata @ padding1 @ encryptedPayload @ padding2
                    in sbind (conn_Write t dataToSend) (\<lambda>t _.
                         (t\<lparr>bu_outBytes := bu_outBytes t + int (length dataToSend)\<rparr>, Inr ())))))))"

definition stream_writeOneSegment ::
    "uenv \<Rightarrow> write_draws \<Rightarrow> int \<Rightarrow> 't streamUnderlay \<Rightarrow> segment \<Rightarrow> 't streamUnderlay \<times> unit result" where
  "stream_writeOneSegment ue d now t seg =
     (case maybeInitSendBlockCipher t of
        (t, Inl (Panic m)) \<Rightarrow> (t, Inl (Panic m))
      | (t, Inl e) \<Rightarrow> (t, Inl (Errorf ''maybeInitSendBlockCipher() failed''))
      | (t, Inr _) \<Rightarrow>
          (case toSessionStruct (seg_metadata seg) of
             Inl e \<Rightarrow> (t, Inl e)
           | Inr (Some ss) \<Rightarrow> write_session_segment ue d now t seg ss
           | Inr None \<Rightarrow>
               (case toDataAckStruct (seg_metadata seg) of
                  Inl e \<Rightarrow> (t, Inl e)
                | Inr (Some das) \<Rightarrow> write_dataAck_segment ue d now t seg das
                | Inr None \<Rightarrow> (t, Inl ErrInvalidArgument))))"

section \<open>Reading\<close>

text \<open>
  \<open>io.ReadFull\<close>: all \<open>n\<close> bytes, or how many there were and the error. An end of the stream in the
  middle is an unexpected one.
\<close>

definition ReadFull :: "nat \<Rightarrow> 't streamUnderlay \<Rightarrow> 't streamUnderlay \<times> ((nat \<times> go_error) + bytes)" where
  "ReadFull n t =
     (let k = length (su_in t)
      in if n \<le> k then (t\<lparr>su_in := drop n (su_in t)\<rparr>, Inr (take n (su_in t)))
         else (t\<lparr>su_in := []\<rparr>,
               Inl (k, if su_end t = EOF \<and> k > 0 then ErrUnexpectedEOF else su_end t)))"

definition count_in :: "bytes \<Rightarrow> 't streamUnderlay \<Rightarrow> 't streamUnderlay" where
  "count_in b t = t\<lparr>bu_inBytes := bu_inBytes t + int (length b)\<rparr>"

text \<open>A check against \<open>streamReplayCache\<close>.\<close>

definition stream_IsDuplicate :: "int \<Rightarrow> bytes \<Rightarrow> 't streamUnderlay \<Rightarrow> 't streamUnderlay \<times> bool" where
  "stream_IsDuplicate now b t =
     (case IsDuplicate (su_streamReplayCache t) b EmptyTag now of
        (rc, dup) \<Rightarrow> (t\<lparr>su_streamReplayCache := rc\<rparr>, dup))"

definition stream_Decrypt :: "uenv \<Rightarrow> bytes \<Rightarrow> 't streamUnderlay \<Rightarrow> 't streamUnderlay \<times> bytes typed_result" where
  "stream_Decrypt ue b t =
     (case su_recv t of
        None \<Rightarrow> (t, Inl (typed_panic ''nil pointer dereference''))
      | Some c \<Rightarrow>
          (case Decrypt (ue_aead ue) c b of
             (c, Inl (Panic m)) \<Rightarrow> (t\<lparr>su_recv := Some c\<rparr>, Inl (typed_panic m))
           | (c, Inl e) \<Rightarrow>
               (t\<lparr>su_recv := Some c\<rparr>, Inl (WrapErrorWithType (Errorf ''Decrypt() failed'') CRYPTO_ERROR))
           | (c, Inr p) \<Rightarrow> (t\<lparr>su_recv := Some c\<rparr>, Inr p)))"

text \<open>
  The encrypted payload of a segment. The size is a 16-bit sum that can wrap around; the slice of the
  first sixteen bytes of a shorter buffer panics.
\<close>

definition read_payload :: "uenv \<Rightarrow> int \<Rightarrow> u16 \<Rightarrow> 't streamUnderlay \<Rightarrow> 't streamUnderlay \<times> bytes typed_result" where
  "read_payload ue now payloadLen t =
     (if payloadLen = 0 then (t, Inr [])
      else
        let size = unat (payloadLen + of_nat DefaultOverhead)
        in (case ReadFull size t of
              (t, Inl e) \<Rightarrow> (t, Inl (WrapErrorWithType (Errorf ''payload: read bytes from StreamUnderlay failed'') NETWORK_ERROR))
            | (t, Inr encryptedPayload) \<Rightarrow>
                let t = count_in encryptedPayload t
                in if size < DefaultOverhead then (t, Inl (typed_panic ''slice bounds out of range''))
                   else
                     let t = fst (stream_IsDuplicate now (take DefaultOverhead encryptedPayload) t)
                     in stream_Decrypt ue encryptedPayload t))"

definition read_padding :: "u8 \<Rightarrow> 't streamUnderlay \<Rightarrow> 't streamUnderlay \<times> unit typed_result" where
  "read_padding len t =
     (if len = 0 then (t, Inr ())
      else (case ReadFull (unat len) t of
              (t, Inl e) \<Rightarrow> (t, Inl (WrapErrorWithType (Errorf ''padding: read bytes from StreamUnderlay failed'') NETWORK_ERROR))
            | (t, Inr padding) \<Rightarrow> (count_in padding t, Inr ())))"

definition received_segment :: "'t streamUnderlay \<Rightarrow> metadata \<Rightarrow> bytes \<Rightarrow> segment" where
  "received_segment t md payload =
     \<lparr>seg_metadata = md, seg_payload = payload, seg_transport = StreamTransport, seg_ackCount = 0,
      seg_txCount = 0, seg_txTime = 0, seg_txTimeout = 0, seg_block = su_recv t\<rparr>"

definition readSessionSegment ::
    "uenv \<Rightarrow> int \<Rightarrow> sessionStruct \<Rightarrow> 't streamUnderlay \<Rightarrow> 't streamUnderlay \<times> segment typed_result" where
  "readSessionSegment ue now ss t =
     tbind (read_payload ue now (ss_payloadLen ss) t) (\<lambda>t decryptedPayload.
     tbind (read_padding (ss_suffixLen ss) t) (\<lambda>t _.
       (t, Inr (received_segment t (Session_md ss) decryptedPayload))))"

definition readDataAckSegment ::
    "uenv \<Rightarrow> int \<Rightarrow> dataAckStruct \<Rightarrow> 't streamUnderlay \<Rightarrow> 't streamUnderlay \<times> segment typed_result" where
  "readDataAckSegment ue now das t =
     tbind (read_padding (das_prefixLen das) t) (\<lambda>t _.
     tbind (read_payload ue now (das_payloadLen das) t) (\<lambda>t decryptedPayload.
     tbind (read_padding (das_suffixLen das) t) (\<lambda>t _.
       (t, Inr (received_segment t (DataAck_md das) decryptedPayload)))))"

text \<open>
  Trying the passwords of a list of users: a hashed password that does not decode is skipped, an empty
  one is replaced by the hash of the plain password. \<open>jit i\<close> is the jitter of the \<open>i\<close>-th lookup in the
  cache of ciphers.
\<close>

definition user_password :: "user \<Rightarrow> bytes option" where
  "user_password u =
     (case hex_decode (ur_hashedPassword u) of
        None \<Rightarrow> None
      | Some [] \<Rightarrow> Some (HashPassword (string_bytes (ur_password u)) (string_bytes (ur_name u)))
      | Some password \<Rightarrow> Some password)"

fun try_users ::
    "uenv \<Rightarrow> (nat \<Rightarrow> int) \<Rightarrow> int \<Rightarrow> bytes \<Rightarrow> nat \<Rightarrow> user list \<Rightarrow> cipher_cache
      \<Rightarrow> cipher_cache \<times> (aeadBlockCipher \<times> bytes \<times> string) option" where
  "try_users ue jit now b i [] cache = (cache, None)"
| "try_users ue jit now b i (u # us) cache =
     (case user_password u of
        None \<Rightarrow> try_users ue jit now b i us cache
      | Some password \<Rightarrow>
          (case TryDecrypt (ue_aead ue) (ue_kdf ue) cache (jit i) now b password True of
             (cache, Inr (block, p)) \<Rightarrow> (cache, Some (block, p, ur_name u))
           | (cache, Inl e) \<Rightarrow> try_users ue jit now b (Suc i) us cache))"

text \<open>The users whose hint the nonce carries.\<close>

fun hint_users :: "bytes \<Rightarrow> user list \<Rightarrow> user list result" where
  "hint_users nonce [] = Inr []"
| "hint_users nonce (u # us) =
     (case CheckUserFromHint (string_bytes (ur_name u)) nonce of
        Inl e \<Rightarrow> Inl e
      | Inr match \<Rightarrow>
          (case hint_users nonce us of
             Inl e \<Rightarrow> Inl e
           | Inr hs \<Rightarrow> Inr (if match then u # hs else hs)))"

text \<open>First the users of the hint, then, unless the hint is mandatory, all users.\<close>

definition match_user ::
    "uenv \<Rightarrow> (nat \<Rightarrow> int) \<Rightarrow> int \<Rightarrow> user list \<Rightarrow> bool \<Rightarrow> bytes \<Rightarrow> cipher_cache
      \<Rightarrow> cipher_cache \<times> (aeadBlockCipher \<times> bytes \<times> string) option result" where
  "match_user ue jit now users userHintIsMandatory encryptedMeta cache =
     (case hint_users (take DefaultNonceSize encryptedMeta) users of
        Inl e \<Rightarrow> (cache, Inl e)
      | Inr hintUsers \<Rightarrow>
          (case try_users ue jit now encryptedMeta 0 hintUsers cache of
             (cache, Some m) \<Rightarrow> (cache, Inr (Some m))
           | (cache, None) \<Rightarrow>
               if userHintIsMandatory then (cache, Inr None)
               else (case try_users ue jit now encryptedMeta (length hintUsers) users cache of
                       (cache, m) \<Rightarrow> (cache, Inr m))))"

definition serverInitRecvBlockCipherAndDecryptMetadata ::
    "uenv \<Rightarrow> (nat \<Rightarrow> int) \<Rightarrow> int \<Rightarrow> bytes \<Rightarrow> 't streamUnderlay \<Rightarrow> 't streamUnderlay \<times> bytes result" where
  "serverInitRecvBlockCipherAndDecryptMetadata ue jit now encryptedMeta t =
     (if su_recv t \<noteq> None then (t, Inl (Errorf ''recv cipher is already set''))
      else
        (case match_user ue jit now (su_users t) (su_userHintIsMandatory t) encryptedMeta
                (su_blockCipherCache t) of
           (cache, r) \<Rightarrow>
             let t = t\<lparr>su_blockCipherCache := cache\<rparr>
             in (case r of
                   Inl e \<Rightarrow> (t, Inl e)
                 | Inr None \<Rightarrow> (t, Inl (Errorf ''cipher.TryDecrypt() failed for all users''))
                 | Inr (Some (matchedBlock, _, matchedUserName)) \<Rightarrow>
                     (case Clone matchedBlock of
                        Inl e \<Rightarrow> (t, Inl e)
                      | Inr c \<Rightarrow>
                          let c = SetBlockContext matchedUserName c;
                              c = (case bu_trafficPattern t of
                                     None \<Rightarrow> c | Some p \<Rightarrow> SetNoncePattern (tp_nonce p) c);
                              c = SetImplicitNonceMode True c
                          in (case Decrypt (ue_aead ue) c encryptedMeta of
                                (c, Inl (Panic m)) \<Rightarrow> (t, Inl (Panic m))
                              | (c, Inl e) \<Rightarrow> (t, Inl (Errorf ''stateful Decrypt() failed''))
                              | (c, Inr p) \<Rightarrow> (t\<lparr>su_recv := Some c\<rparr>, Inr p))))))"

text \<open>The part of \<open>readOneSegment\<close> that decrypts the metadata.\<close>

definition decrypt_metadata ::
    "uenv \<Rightarrow> (nat \<Rightarrow> int) \<Rightarrow> int \<Rightarrow> bool \<Rightarrow> bytes \<Rightarrow> 't streamUnderlay \<Rightarrow> 't streamUnderlay \<times> bytes typed_result" where
  "decrypt_metadata ue jit now isNewSessionReplay encryptedMeta t =
     (let r = (if su_recv t = None \<and> bu_isClient t
               then (case su_block t of
                       None \<Rightarrow> Inl (typed_panic ''nil pointer dereference'')
                     | Some block \<Rightarrow>
                         (case Clone block of
                            Inl e \<Rightarrow> Inl (UNKNOWN_ERROR, e)
                          | Inr c \<Rightarrow> Inr (t\<lparr>su_recv := Some c\<rparr>)))
               else Inr t)
      in (case r of
            Inl e \<Rightarrow> (t, Inl e)
          | Inr t \<Rightarrow>
              if su_recv t = None
              then (case serverInitRecvBlockCipherAndDecryptMetadata ue jit now encryptedMeta t of
                      (t, Inl (Panic m)) \<Rightarrow> (t, Inl (typed_panic m))
                    | (t, Inl e) \<Rightarrow>
                        (t, Inl (if isNewSessionReplay
                                 then WrapErrorWithType (Errorf ''found possible replay attack'') REPLAY_ERROR
                                 else WrapErrorWithType e CRYPTO_ERROR))
                    | (t, Inr p) \<Rightarrow>
                        if isNewSessionReplay
                        then (t, Inl (WrapErrorWithType
                                (Errorf ''found possible replay attack with payload decrypted'') REPLAY_ERROR))
                        else (t, Inr p))
              else stream_Decrypt ue encryptedMeta t))"

text \<open>The part of \<open>readOneSegment\<close> that reads the rest of the segment.\<close>

definition read_rest ::
    "uenv \<Rightarrow> int \<Rightarrow> bytes \<Rightarrow> 't streamUnderlay \<Rightarrow> 't streamUnderlay \<times> segment typed_result" where
  "read_rest ue now decryptedMeta t =
     (if length decryptedMeta \<noteq> MetadataLength
      then (t, Inl (WrapErrorWithType (Errorf ''decrypted metadata size is unexpected'') PROTOCOL_ERROR))
      else
        let p = decryptedMeta ! 0
        in if isSessionProtocol p
           then (case sessionStruct_Unmarshal zero_sessionStruct decryptedMeta (unix_seconds now) of
                   Inl e \<Rightarrow> (t, Inl (WrapErrorWithType (Errorf ''Unmarshal() to sessionStruct failed'') PROTOCOL_ERROR))
                 | Inr ss \<Rightarrow> readSessionSegment ue now ss t)
           else if isDataAckProtocol p
           then (case dataAckStruct_Unmarshal zero_dataAckStruct decryptedMeta (unix_seconds now) of
                   Inl e \<Rightarrow> (t, Inl (WrapErrorWithType (Errorf ''Unmarshal() to dataAckStruct failed'') PROTOCOL_ERROR))
                 | Inr das \<Rightarrow> readDataAckSegment ue now das t)
           else (t, Inl (WrapErrorWithType (Errorf ''unable to handle protocol'') PROTOCOL_ERROR)))"

text \<open>\<open>None\<close> is the \<open>nil\<close> segment of a read that timed out before its first byte.\<close>

definition stream_readOneSegment ::
    "uenv \<Rightarrow> (nat \<Rightarrow> int) \<Rightarrow> int \<Rightarrow> 't streamUnderlay \<Rightarrow> 't streamUnderlay \<times> segment option typed_result" where
  "stream_readOneSegment ue jit now t =
     (let firstRead = (su_recv t = None);
          readLen = MetadataLength + DefaultOverhead + (if firstRead then DefaultNonceSize else 0)
      in (case ReadFull readLen t of
            (t, Inl (n, e)) \<Rightarrow>
              if e = ErrTimeout \<and> n = 0 then (t, Inr None)
              else (t, Inl (WrapErrorWithType
                      (Errorf ''metadata: read bytes from StreamUnderlay failed'') NETWORK_ERROR))
          | (t, Inr encryptedMeta) \<Rightarrow>
              let t = count_in encryptedMeta t;
                  (t, dup) = stream_IsDuplicate now (take DefaultOverhead encryptedMeta) t;
                  isNewSessionReplay = (dup \<and> firstRead)
              in tbind (decrypt_metadata ue jit now isNewSessionReplay encryptedMeta t) (\<lambda>t decryptedMeta.
                 tbind (read_rest ue now decryptedMeta t) (\<lambda>t seg. (t, Inr (Some seg))))))"

section \<open>The event loop\<close>

text \<open>
  The deadline that unblocks pending reads and writes is left out: here no read or write waits.
\<close>

definition stream_Close :: "'t senv \<Rightarrow> 't streamUnderlay \<Rightarrow> 't streamUnderlay \<times> unit result" where
  "stream_Close ev t =
     (if bu_done t then (t, Inr ())
      else (case base_Close ev t of
              (t, Inl (Panic m)) \<Rightarrow> (t, Inl (Panic m))
            | (t, _) \<Rightarrow> (t, Inr ())))"

definition stream_cleanSessions :: "'t senv \<Rightarrow> 't streamUnderlay \<Rightarrow> 't streamUnderlay \<times> unit result" where
  "stream_cleanSessions ev t = clean_loop ev se_closedChan (bu_sessionMap t) t"

text \<open>
  The read takes what has arrived, at most a buffer, and its errors are only logged. Its timeout is
  left out.
\<close>

definition drainAfterError ::
    "uenv \<Rightarrow> rand_source \<Rightarrow> 't streamUnderlay \<Rightarrow> 't streamUnderlay \<times> unit result" where
  "drainAfterError ue rs t =
     (let fixedIntVH = FixedIntVH (he_appVersion (ue_he ue)) (he_hostName (ue_he ue));
          bufSizeType = fixedIntVH 4;
          bufSize = 2 ^ nat (12 + bufSizeType)
      in (case IntRange (ue_fe ue) (rs_intn rs (bufSize - 254)) 0 (bufSize - 254) of
            Inl e \<Rightarrow> (t, Inl e)
          | Inr minRead \<Rightarrow>
              let minRead = minRead + fixedIntVH 256
              in if minRead > 0 then (t\<lparr>su_in := drop (nat bufSize) (su_in t)\<rparr>, Inr ())
                 else (t, Inr ())))"

text \<open>
  One round of the loop: what the rest of the program did to the underlay before it, whether the context
  is cancelled and the ticker has fired, whether the underlay was closed during the read, the clock and
  the draws.
\<close>

record 't loop_round =
  lr_before :: "'t streamUnderlay \<Rightarrow> 't streamUnderlay"
  lr_cancelled :: bool
  lr_tick :: bool
  lr_closing :: bool
  lr_now :: int
  lr_jitter :: "nat \<Rightarrow> int"
  lr_draws :: write_draws

definition closeSession_segment :: "TransportProtocol \<Rightarrow> dataAckStruct \<Rightarrow> segment" where
  "closeSession_segment transport das =
     \<lparr>seg_metadata = Session_md (zero_sessionStruct
        \<lparr>ss_protocol := closeSessionRequest, ss_sessionID := das_sessionID das,
         ss_seq := das_unAckSeq das, ss_statusCode := 0, ss_payloadLen := 0\<rparr>),
      seg_payload = [], seg_transport = transport, seg_ackCount = 0, seg_txCount = 0, seg_txTime = 0,
      seg_txTimeout = 0, seg_block = None\<rparr>"

definition session_handler ::
    "'t senv \<Rightarrow> TransportProtocol \<Rightarrow> user list \<Rightarrow> int \<Rightarrow> ('t, 'z) baseUnderlay_scheme \<Rightarrow> segment
      \<Rightarrow> ('t, 'z) baseUnderlay_scheme \<times> unit result" where
  "session_handler ev transport users now b seg =
     (let p = seg_Protocol seg in
      if p = openSessionRequest then onOpenSessionRequest ev transport users now b seg
      else if p = openSessionResponse then onOpenSessionResponse b seg
      else if p = closeSessionRequest \<or> p = closeSessionResponse then onCloseSession b seg
      else (b, Inl (Panic ''session protocol is not recognized'')))"

text \<open>What the loop does with a segment.\<close>

definition stream_dispatch ::
    "uenv \<Rightarrow> 't senv \<Rightarrow> write_draws \<Rightarrow> int \<Rightarrow> 't streamUnderlay \<Rightarrow> segment \<Rightarrow> 't streamUnderlay \<times> unit result" where
  "stream_dispatch ue ev d now t seg =
     (if isSessionProtocol (seg_Protocol seg)
      then session_handler ev StreamTransport (su_users t) now t seg
      else if isDataAckProtocol (seg_Protocol seg)
      then (case toDataAckStruct (seg_metadata seg) of
              Inr (Some das) \<Rightarrow>
                (case map_of (bu_sessionMap t) (das_sessionID das) of
                   None \<Rightarrow> stream_writeOneSegment ue d now t (closeSession_segment StreamTransport das)
                 | Some s \<Rightarrow> push_segment t s seg)
            | Inr None \<Rightarrow> (t, Inl (Panic ''nil pointer dereference''))
            | Inl e \<Rightarrow> (t, Inl e))
      else (t, Inr ()))"

text \<open>One round; \<open>Some r\<close> means that the loop returns \<open>r\<close>.\<close>

definition stream_leave :: "'t senv \<Rightarrow> 't streamUnderlay \<Rightarrow> 't streamUnderlay \<times> unit result option" where
  "stream_leave ev t = (case stream_cleanSessions ev t of (t, r) \<Rightarrow> (t, Some r))"

definition stream_failed ::
    "uenv \<Rightarrow> 't senv \<Rightarrow> 't loop_round \<Rightarrow> 't streamUnderlay \<Rightarrow> ErrorType \<times> go_error
      \<Rightarrow> 't streamUnderlay \<times> unit result option" where
  "stream_failed ue ev lr t err =
     (case snd err of
        Panic m \<Rightarrow> (t, Some (Inl (Panic m)))
      | _ \<Rightarrow>
          if bu_done t \<or> lr_closing lr then stream_leave ev t
          else
            let errType = GetErrorType (Some err)
            in if errType = NO_ERROR then (t, Some (Inl (Panic ''error type is NO_ERROR while error is not nil'')))
               else if errType = UNKNOWN_ERROR then (t, Some (Inl (Panic ''got unexpected error type UNKNOWN_ERROR'')))
               else if errType = CRYPTO_ERROR \<or> errType = REPLAY_ERROR
               then (case drainAfterError ue (wd_pad1 (lr_draws lr)) t of
                       (t, Inl e) \<Rightarrow> (t, Some (Inl e))
                     | (t, Inr _) \<Rightarrow> (t, Some (Inl (Errorf ''readOneSegment() failed''))))
               else (t, Some (Inl (Errorf ''readOneSegment() failed''))))"

definition stream_round ::
    "uenv \<Rightarrow> 't senv \<Rightarrow> 't loop_round \<Rightarrow> 't streamUnderlay \<Rightarrow> 't streamUnderlay \<times> unit result option" where
  "stream_round ue ev lr t =
     (let t = lr_before lr t in
      if lr_cancelled lr \<or> bu_done t then stream_leave ev t
      else
        (case (if lr_tick lr then stream_cleanSessions ev t else (t, Inr ())) of
           (t, Inl e) \<Rightarrow> (t, Some (Inl e))
         | (t, Inr _) \<Rightarrow>
             (case stream_readOneSegment ue (lr_jitter lr) (lr_now lr) t of
                (t, Inl err) \<Rightarrow> stream_failed ue ev lr t err
              | (t, Inr None) \<Rightarrow> (t, None)
              | (t, Inr (Some seg)) \<Rightarrow>
                  (case stream_dispatch ue ev (lr_draws lr) (lr_now lr) t seg of
                     (t, Inl e) \<Rightarrow> (t, Some (Inl e))
                   | (t, Inr _) \<Rightarrow> (t, None)))))"

text \<open>The loop over the rounds that have happened; when they run out it is waiting.\<close>

fun stream_RunEventLoop ::
    "uenv \<Rightarrow> 't senv \<Rightarrow> 't loop_round list \<Rightarrow> 't streamUnderlay \<Rightarrow> 't streamUnderlay \<times> unit result" where
  "stream_RunEventLoop ue ev [] t = (t, Inl Blocked)"
| "stream_RunEventLoop ue ev (lr # lrs) t =
     (case stream_round ue ev lr t of
        (t, Some r) \<Rightarrow> (t, r)
      | (t, None) \<Rightarrow> stream_RunEventLoop ue ev lrs t)"

end
