(* ===== verification/StreamLoop.thy ===== *)
theory StreamLoop
  imports StreamUnderlay
begin

text \<open>
  The event loop of the stream underlay: the types of its errors, the sessions it keeps, and the
  length of a payload that the reader cannot handle.
\<close>

section \<open>Error types\<close>

definition typed_ok :: "ErrorType \<times> go_error \<Rightarrow> bool" where
  "typed_ok e \<longleftrightarrow> fst e \<in> {NETWORK_ERROR, CRYPTO_ERROR, REPLAY_ERROR, PROTOCOL_ERROR} \<or> (\<exists>m. snd e = Panic m)"

definition errors_ok :: "'s \<times> 'a typed_result \<Rightarrow> bool" where
  "errors_ok r \<longleftrightarrow> (\<forall>e. snd r = Inl e \<longrightarrow> typed_ok e)"

lemma errors_ok_tbind: "errors_ok m \<Longrightarrow> (\<And>t a. m = (t, Inr a) \<Longrightarrow> errors_ok (f t a)) \<Longrightarrow> errors_ok (tbind m f)"
  by (cases m; cases "snd m") (auto simp: errors_ok_def)

lemma errors_ok_simps [simp]:
  "errors_ok (t, Inr a)" "errors_ok (t, Inl (typed_panic m))"
  "errors_ok (t, Inl (WrapErrorWithType e NETWORK_ERROR))" "errors_ok (t, Inl (WrapErrorWithType e CRYPTO_ERROR))"
  "errors_ok (t, Inl (WrapErrorWithType e REPLAY_ERROR))" "errors_ok (t, Inl (WrapErrorWithType e PROTOCOL_ERROR))"
  by (simp_all add: errors_ok_def typed_ok_def typed_panic_def WrapErrorWithType_def)

lemma stream_Decrypt_errors: "errors_ok (stream_Decrypt ue b t)"
  by (simp add: stream_Decrypt_def split: option.split prod.split sum.split go_error.split)

lemma read_payload_errors: "errors_ok (read_payload ue now n t)"
  by (simp add: read_payload_def Let_def stream_Decrypt_errors split: prod.split sum.split)

lemma read_padding_errors: "errors_ok (read_padding n t)"
  by (simp add: read_padding_def split: prod.split sum.split)

lemma read_rest_errors: "errors_ok (read_rest ue now m t)"
  by (auto simp: read_rest_def Let_def readSessionSegment_def readDataAckSegment_def
      intro!: errors_ok_tbind read_payload_errors read_padding_errors split: sum.split)

lemma Clone_error: "Clone c = Inl e \<Longrightarrow> \<exists>m. e = Panic m"
  by (auto simp: Clone_def split: if_splits sum.splits)

lemma server_init_errors:
  "errors_ok (case x of
      (t, Inl (Panic m)) \<Rightarrow> (t, Inl (typed_panic m))
    | (t, Inl e) \<Rightarrow>
        (t, Inl (if dup then WrapErrorWithType e' REPLAY_ERROR else WrapErrorWithType e CRYPTO_ERROR))
    | (t, Inr p) \<Rightarrow> if dup then (t, Inl (WrapErrorWithType e'' REPLAY_ERROR)) else (t, Inr p))"
  by (cases x; cases "snd x"; cases "projl (snd x)") auto

lemma decrypt_metadata_errors: "errors_ok (decrypt_metadata ue jit now dup em t)"
proof -
  have panic: "errors_ok (t, Inl (UNKNOWN_ERROR, e))" if "Clone c = Inl e" for c e
    using Clone_error [OF that] by (auto simp: errors_ok_def typed_ok_def)
  have rest: "errors_ok (if su_recv t = None
      then (case serverInitRecvBlockCipherAndDecryptMetadata ue jit now em t of
              (t, Inl (Panic m)) \<Rightarrow> (t, Inl (typed_panic m))
            | (t, Inl e) \<Rightarrow>
                (t, Inl (if dup then WrapErrorWithType (Errorf ''found possible replay attack'') REPLAY_ERROR
                         else WrapErrorWithType e CRYPTO_ERROR))
            | (t, Inr p) \<Rightarrow>
                if dup then (t, Inl (WrapErrorWithType (Errorf ''found possible replay attack with payload decrypted'') REPLAY_ERROR))
                else (t, Inr p))
      else stream_Decrypt ue em t)" for t :: "'a streamUnderlay"
    by (simp add: stream_Decrypt_errors server_init_errors)
  show ?thesis
  proof (cases "su_recv t = None \<and> bu_isClient t")
    case True
    show ?thesis
    proof (cases "su_block t")
      case (Some b)
      with True rest panic show ?thesis
        by (cases "Clone b") (simp_all add: decrypt_metadata_def stream_Decrypt_errors)
    qed (use True in \<open>simp add: decrypt_metadata_def\<close>)
  next
    case False
    show ?thesis unfolding decrypt_metadata_def Let_def if_not_P [OF False] sum.case by (rule rest)
  qed
qed

lemma readOneSegment_errors: "errors_ok (stream_readOneSegment ue jit now t)"
  by (auto simp: stream_readOneSegment_def Let_def
      intro!: errors_ok_tbind decrypt_metadata_errors read_rest_errors split: prod.split sum.split)

section \<open>Sessions\<close>

text \<open>Reading and writing leave the sessions alone.\<close>

definition sessions :: "('t, 'z) baseUnderlay_scheme \<Rightarrow> bool \<times> (u32 \<times> 't session) list \<times> u32 list" where
  "sessions b = (bu_isClient b, bu_sessionMap b, bu_readySessions b)"

lemma underlay_ok_sessions: "sessions b = sessions c \<Longrightarrow> underlay_ok ev b = underlay_ok ev c"
  by (simp add: sessions_def underlay_ok_def)

lemma tbind_sessions:
  "sessions (fst m) = x \<Longrightarrow> (\<And>t a. m = (t, Inr a) \<Longrightarrow> sessions t = x \<Longrightarrow> sessions (fst (f t a)) = x)
    \<Longrightarrow> sessions (fst (tbind m f)) = x"
  by (cases m; cases "snd m") auto

lemma ReadFull_sessions: "sessions (fst (ReadFull n t)) = sessions t"
  by (simp add: ReadFull_def sessions_def Let_def)

lemma count_in_sessions [simp]: "sessions (count_in b t) = sessions t"
  by (simp add: count_in_def sessions_def)

lemma IsDuplicate_sessions: "sessions (fst (stream_IsDuplicate now b t)) = sessions t"
  by (simp add: stream_IsDuplicate_def sessions_def split: prod.split)

lemma stream_Decrypt_sessions: "sessions (fst (stream_Decrypt ue b t)) = sessions t"
  by (simp add: stream_Decrypt_def sessions_def split: option.split prod.split sum.split go_error.split)

lemma read_payload_sessions: "sessions (fst (read_payload ue now n t)) = sessions t"
proof -
  obtain u r where "ReadFull (unat (n + of_nat DefaultOverhead)) t = (u, r)" by fastforce
  moreover from this have "sessions u = sessions t"
    using ReadFull_sessions [of "unat (n + of_nat DefaultOverhead)" t] by simp
  ultimately show ?thesis
    by (cases r) (simp_all add: read_payload_def Let_def stream_Decrypt_sessions IsDuplicate_sessions)
qed

lemma read_padding_sessions: "sessions (fst (read_padding n t)) = sessions t"
  using ReadFull_sessions [of "unat n" t] by (auto simp: read_padding_def split: prod.split sum.split)

lemma read_rest_sessions: "sessions (fst (read_rest ue now m t)) = sessions t"
proof -
  have "sessions (fst (readSessionSegment ue now ss t)) = sessions t" for ss
    unfolding readSessionSegment_def
    by (intro tbind_sessions read_payload_sessions) (simp_all add: read_padding_sessions)
  moreover have "sessions (fst (readDataAckSegment ue now das t)) = sessions t" for das
    unfolding readDataAckSegment_def
    by (intro tbind_sessions read_padding_sessions) (simp_all add: read_padding_sessions read_payload_sessions)
  ultimately show ?thesis by (simp add: read_rest_def Let_def split: sum.split)
qed

lemma sessions_upd [simp]:
  "sessions (t\<lparr>su_recv := c\<rparr>) = sessions t" "sessions (t\<lparr>su_send := c\<rparr>) = sessions t"
  "sessions (t\<lparr>su_blockCipherCache := cc\<rparr>) = sessions t" "sessions (t\<lparr>su_out := os\<rparr>) = sessions t"
  "sessions (t\<lparr>bu_outBytes := n\<rparr>) = sessions t" "sessions (t\<lparr>su_in := i\<rparr>) = sessions t"
  by (simp_all add: sessions_def)

lemma serverInit_sessions: "sessions (fst (serverInitRecvBlockCipherAndDecryptMetadata ue jit now em t)) = sessions t"
proof -
  have fin: "sessions (fst (case Decrypt ae c em of
      (c, Inl (Panic m)) \<Rightarrow> (t, Inl (Panic m))
    | (c, Inl e) \<Rightarrow> (t, Inl (Errorf ''stateful Decrypt() failed''))
    | (c, Inr p) \<Rightarrow> (t\<lparr>su_recv := Some c\<rparr>, Inr p))) = sessions t" for ae c and t :: "'a streamUnderlay"
    by (simp split: prod.split sum.split go_error.split)
  obtain cache r where "match_user ue jit now (su_users t) (su_userHintIsMandatory t) em (su_blockCipherCache t) = (cache, r)"
    by fastforce
  then show ?thesis
    unfolding serverInitRecvBlockCipherAndDecryptMetadata_def Let_def
    by (auto simp: fin split: sum.split option.split)
qed

lemma decrypt_metadata_sessions: "sessions (fst (decrypt_metadata ue jit now dup em t)) = sessions t"
proof -
  have sv: "sessions (fst (case x of
      (t, Inl (Panic m)) \<Rightarrow> (t, Inl (typed_panic m))
    | (t, Inl e) \<Rightarrow> (t, Inl (if dup then e1 else WrapErrorWithType e CRYPTO_ERROR))
    | (t, Inr p) \<Rightarrow> if dup then (t, Inl e2) else (t, Inr p))) = sessions (fst x)" for x :: "'a streamUnderlay \<times> bytes result" and e1 e2
    by (cases x; cases "snd x"; cases "projl (snd x)") auto
  show ?thesis
  proof (cases "su_recv t = None \<and> bu_isClient t")
    case True
    show ?thesis
    proof (cases "su_block t")
      case (Some b)
      with True show ?thesis
        by (cases "Clone b") (simp_all add: decrypt_metadata_def stream_Decrypt_sessions)
    qed (use True in \<open>simp add: decrypt_metadata_def\<close>)
  next
    case False
    show ?thesis unfolding decrypt_metadata_def Let_def if_not_P [OF False] sum.case
      by (cases "su_recv t = None") (simp_all only: if_True if_False sv serverInit_sessions stream_Decrypt_sessions option.distinct simp_thms)
  qed
qed

lemma readOneSegment_sessions: "sessions (fst (stream_readOneSegment ue jit now t)) = sessions t"
proof -
  let ?n = "MetadataLength + DefaultOverhead + (if su_recv t = None then DefaultNonceSize else 0)"
  obtain u r where u: "ReadFull ?n t = (u, r)" by fastforce
  then have s: "sessions u = sessions t" using ReadFull_sessions [of ?n t] by simp
  show ?thesis
  proof (cases r)
    case (Inl e)
    with u s show ?thesis by (cases e) (simp add: stream_readOneSegment_def)
  next
    case (Inr em)
    obtain v dup where v: "stream_IsDuplicate now (take DefaultOverhead em) (count_in em u) = (v, dup)" by fastforce
    then have "sessions v = sessions t"
      using IsDuplicate_sessions [of now "take DefaultOverhead em" "count_in em u"] s by simp
    then have "sessions (fst (tbind (decrypt_metadata ue jit now (dup \<and> su_recv t = None) em v) (\<lambda>t m.
        tbind (read_rest ue now m t) (\<lambda>t seg. (t, Inr (Some seg)))))) = sessions t"
      by (intro tbind_sessions) (simp_all add: decrypt_metadata_sessions read_rest_sessions)
    with u Inr v show ?thesis by (simp add: stream_readOneSegment_def Let_def)
  qed
qed

lemma sbind_sessions:
  "sessions (fst m) = x \<Longrightarrow> (\<And>t a. m = (t, Inr a) \<Longrightarrow> sessions t = x \<Longrightarrow> sessions (fst (f t a)) = x)
    \<Longrightarrow> sessions (fst (sbind m f)) = x"
  by (cases m; cases "snd m") auto

lemma maybeInit_sessions: "sessions (fst (maybeInitSendBlockCipher t)) = sessions t"
  by (simp add: maybeInitSendBlockCipher_def Let_def split: option.split sum.split)

lemma conn_Write_sessions: "sessions (fst (conn_Write t b)) = sessions t"
  by (simp add: conn_Write_def split: option.split)

lemma fragment_loop_sessions: "sessions (fst (fragment_loop fe frag len i n b t)) = sessions t"
proof (induction n arbitrary: i b t)
  case (Suc n)
  show ?case
    by (auto simp: Let_def Suc conn_Write_sessions intro!: sbind_sessions)
qed simp

lemma fragment_sessions: "sessions (fst (writeWithPossibleFragment fe frag t b)) = sessions t"
  by (simp add: writeWithPossibleFragment_def conn_Write_sessions fragment_loop_sessions split: option.split)

lemma Encrypt_sessions: "sessions (fst (stream_Encrypt ue d t p)) = sessions t"
  "sessions (fst (stream_payload ue d t p)) = sessions t"
proof -
  show "sessions (fst (stream_Encrypt ue d t p)) = sessions t" for p
    by (simp add: stream_Encrypt_def split: option.split prod.split sum.split go_error.split)
  then show "sessions (fst (stream_payload ue d t p)) = sessions t" by (simp add: stream_payload_def)
qed

lemma writeOneSegment_sessions: "sessions (fst (stream_writeOneSegment ue d now t seg)) = sessions t"
proof -
  have ss: "sessions (fst (write_session_segment ue d now t seg ss)) = sessions t" for ss and t :: "'a streamUnderlay"
    unfolding write_session_segment_def Let_def
    by (simp add: Encrypt_sessions fragment_sessions sbind_sessions split: sum.split)
  have das: "sessions (fst (write_dataAck_segment ue d now t seg das)) = sessions t" for das and t :: "'a streamUnderlay"
    unfolding write_dataAck_segment_def Let_def
    by (simp add: Encrypt_sessions maybeInit_sessions conn_Write_sessions sbind_sessions split: sum.split)
  obtain u r where u: "maybeInitSendBlockCipher t = (u, r)" by fastforce
  then have "sessions u = sessions t" using maybeInit_sessions [of t] by simp
  with u show ?thesis
    by (cases r; cases "projl r") (simp_all add: stream_writeOneSegment_def ss das split: sum.split option.split)
qed

lemma handler_ok:
  assumes "env_ok ev" "underlay_ok ev b"
  shows "underlay_ok ev (fst (session_handler ev transport users now b seg))"
proof -
  have "underlay_ok ev (fst (onOpenSessionRequest ev transport users now b seg))"
    "underlay_ok ev (fst (onOpenSessionResponse b seg))" "underlay_ok ev (fst (onCloseSession b seg))"
    by (rule step_ok [OF assms], rule underlay_step.intros, rule prod.collapse [symmetric])+
  with assms(2) show ?thesis by (simp add: session_handler_def Let_def)
qed

lemma dispatch_ok:
  assumes "env_ok ev" "underlay_ok ev t"
  shows "underlay_ok ev (fst (stream_dispatch ue ev d now t seg))"
proof -
  have w: "underlay_ok ev (fst (stream_writeOneSegment ue d now t x))" for x
    using underlay_ok_sessions [OF writeOneSegment_sessions] assms(2) by blast
  have p: "underlay_ok ev (fst (push_segment t s seg))" if "map_of (bu_sessionMap t) sid = Some s" for sid s
    using push_segment_ok [OF assms(2) ok_registered [OF assms(2) that]] .
  show ?thesis
    using handler_ok [OF assms] assms(2) w p
    by (simp add: stream_dispatch_def split: sum.split option.split)
qed

lemma clean_ok: "underlay_ok ev t \<Longrightarrow> underlay_ok ev (fst (stream_cleanSessions ev t))"
  by (simp add: stream_cleanSessions_def clean_loop_ok)

lemma leave_ok: "underlay_ok ev t \<Longrightarrow> underlay_ok ev (fst (stream_leave ev t))"
  using clean_ok [of ev t] by (auto simp: stream_leave_def split: prod.split)

lemma fst_error [simp]:
  "fst (case y of (t, Inl e) \<Rightarrow> (t, Some (Inl e)) | (t, Inr _) \<Rightarrow> (t, x)) = fst y"
  by (cases y; cases "snd y") auto

lemma failed_ok:
  assumes "underlay_ok ev t"
  shows "underlay_ok ev (fst (stream_failed ue ev lr t e))"
proof -
  have "sessions (fst (drainAfterError ue rs t)) = sessions t" for rs
    by (simp add: drainAfterError_def Let_def split: sum.split)
  then have "underlay_ok ev (fst (drainAfterError ue rs t))" for rs
    using underlay_ok_sessions assms by blast
  with assms show ?thesis
    by (cases "snd e") (simp_all add: stream_failed_def leave_ok Let_def)
qed

lemma round_ok:
  assumes "env_ok ev" "underlay_ok ev (lr_before lr t)"
  shows "underlay_ok ev (fst (stream_round ue ev lr t))"
proof -
  define t0 where "t0 = lr_before lr t"
  obtain t1 r1 where 1: "(if lr_tick lr then stream_cleanSessions ev t0 else (t0, Inr ())) = (t1, r1)" by fastforce
  have ok1: "underlay_ok ev t1" using 1 clean_ok [of ev t0] assms(2) by (auto simp: t0_def split: if_splits)
  obtain t2 r2 where 2: "stream_readOneSegment ue (lr_jitter lr) (lr_now lr) t1 = (t2, r2)" by fastforce
  have "sessions t2 = sessions t1" using readOneSegment_sessions [of ue "lr_jitter lr" "lr_now lr" t1] 2 by simp
  then have ok2: "underlay_ok ev t2" using underlay_ok_sessions [of t2 t1] ok1 by simp
  show ?thesis
    unfolding stream_round_def Let_def t0_def [symmetric] 1 prod.case
    using assms(2) ok1 ok2 dispatch_ok [OF assms(1) ok2] failed_ok [OF ok2]
    by (auto simp: leave_ok t0_def [symmetric] 2 split: sum.split option.split)
qed

section \<open>Properties\<close>

text \<open>
  The event loop of a stream underlay keeps its sessions in order: if the rest of the program keeps them
  in order between the rounds, then after any number of rounds, with whatever bytes arrive, session IDs
  are unique, every session is stored under its own non-zero ID with the role of the underlay and
  consistently numbered segments, and no more sessions are ready than the channel holds.
\<close>

theorem stream_loop_keeps_sessions:
  assumes "env_ok ev" "underlay_ok ev t"
    and "\<forall>lr \<in> set lrs. \<forall>t. underlay_ok ev t \<longrightarrow> underlay_ok ev (lr_before lr t)"
  shows "underlay_ok ev (fst (stream_RunEventLoop ue ev lrs t))"
  using assms(2,3)
proof (induction lrs arbitrary: t)
  case (Cons lr lrs)
  have "underlay_ok ev (fst (stream_round ue ev lr t))"
    using Cons.prems by (intro round_ok [OF assms(1)]) simp
  with Cons.IH Cons.prems(2) show ?case
    by (auto split: prod.split option.split)
qed simp

text \<open>
  C29. Every error of \<open>readOneSegment\<close> carries one of the types for network, cryptography, replay and
  protocol errors, so the two assertions of the event loop on the type of an error never fail;
  the only other way out of a read is a panic.
\<close>

theorem stream_read_errors_typed:
  assumes "stream_readOneSegment ue jit now t = (t', Inl e)"
  shows "GetErrorType (Some e) \<in> {NETWORK_ERROR, CRYPTO_ERROR, REPLAY_ERROR, PROTOCOL_ERROR} \<or> (\<exists>m. snd e = Panic m)"
  using readOneSegment_errors [of ue jit now t] assms
  by (cases e) (simp add: errors_ok_def typed_ok_def GetErrorType_def)

text \<open>
  C30. The size of an encrypted payload is computed in 16 bits: for a payload length of 65520 or more,
  which the metadata of both kinds of segments can carry, the sum with the overhead wraps around
  and the reader panics on the slice of the first sixteen bytes.
\<close>

theorem payload_length_wraps:
  assumes "65520 \<le> unat n" "unat n - 65520 \<le> length (su_in t)"
  shows "snd (readSessionSegment ue now (ss\<lparr>ss_payloadLen := n\<rparr>) t) = Inl (typed_panic ''slice bounds out of range'')
     \<and> snd (readDataAckSegment ue now (das\<lparr>das_prefixLen := 0, das_payloadLen := n\<rparr>) t)
       = Inl (typed_panic ''slice bounds out of range'')"
proof -
  have n: "unat n < 65536" using unsigned_less [of n, where ?'a = nat] by simp
  have "unat (n + 16) = (unat n + 16) mod 65536" by (simp add: unat_word_ariths)
  also have "\<dots> = unat n - 65520" using assms(1) n by (simp add: mod_if)
  finally have size: "unat (n + 16) = unat n - 65520" .
  have "n \<noteq> 0" "unat n - 65520 < 16" using assms(1) n by auto
  with size assms have "snd (read_payload ue now n t) = Inl (typed_panic ''slice bounds out of range'')"
    by (simp add: read_payload_def DefaultOverhead_def ReadFull_def Let_def)
  then obtain u where "read_payload ue now n t = (u, Inl (typed_panic ''slice bounds out of range''))"
    by (metis prod.collapse)
  then show ?thesis
    by (simp add: readSessionSegment_def readDataAckSegment_def read_padding_def [of 0])
qed

section \<open>Witnesses\<close>

definition some_uenv :: uenv where
  "some_uenv = \<lparr>ue_aead = tag_aead, ue_kdf = salt_kdf, ue_fe = some_env,
     ue_he = \<lparr>he_appVersion = ''3.26.0'', he_hostName = ''host''\<rparr>\<rparr>"

definition some_replayCache :: replayCache where
  "some_replayCache = \<lparr>rc_capacity = 100, rc_expireTime = 10, rc_expireInterval = 10, rc_current = [], rc_previous = []\<rparr>"

definition some_server :: "user list \<Rightarrow> segment list streamUnderlay" where
  "some_server us = baseUnderlay.extend (newBaseUnderlay (\<lambda>_. None) 0 False 1400
       (Some \<lparr>tp_tcpFragment = None, tp_nonce = None\<rparr>))
     (streamUnderlay.fields None None None us False [] EOF [] None some_replayCache Map.empty)"

lemmas some_server_defs = some_server_def streamUnderlay.defs baseUnderlay.defs newBaseUnderlay_def

definition some_writes :: write_draws where
  "some_writes = \<lparr>wd_meta = some_draws, wd_payload = some_draws, wd_pad1 = some_rand, wd_pad2 = some_rand,
     wd_frag = (\<lambda>_ _. 0)\<rparr>"

definition some_round :: "bytes \<Rightarrow> segment list loop_round" where
  "some_round b = \<lparr>lr_before = (\<lambda>t. t\<lparr>su_in := b\<rparr>), lr_cancelled = False, lr_tick = False, lr_closing = False,
     lr_now = 120000000000, lr_jitter = (\<lambda>_. 0), lr_draws = some_writes\<rparr>"

theorem stream_loop_keeps_sessions_witness:
  "underlay_ok some_senv (fst (stream_RunEventLoop some_uenv some_senv [some_round [1], some_round [2]] (some_server [])))"
proof (rule stream_loop_keeps_sessions [OF some_senv_ok])
  show "underlay_ok some_senv (some_server [])"
    by (simp add: underlay_ok_def some_server_defs)
  show "\<forall>lr \<in> set [some_round [1], some_round [2]]. \<forall>t. underlay_ok some_senv t \<longrightarrow> underlay_ok some_senv (lr_before lr t)"
    by (simp add: some_round_def underlay_ok_def)
qed

theorem stream_read_errors_typed_witness:
  "\<exists>t' e. stream_readOneSegment some_uenv (\<lambda>_. 0) 0 (some_server []) = (t', Inl e)
     \<and> GetErrorType (Some e) \<in> {NETWORK_ERROR, CRYPTO_ERROR, REPLAY_ERROR, PROTOCOL_ERROR}"
proof -
  obtain t' where r: "stream_readOneSegment some_uenv (\<lambda>_. 0) 0 (some_server [])
      = (t', Inl (WrapErrorWithType (Errorf ''metadata: read bytes from StreamUnderlay failed'') NETWORK_ERROR))"
    by (simp add: stream_readOneSegment_def ReadFull_def some_server_defs MetadataLength_def cipher_consts)
  from stream_read_errors_typed [OF r] r show ?thesis by (auto simp: WrapErrorWithType_def)
qed

theorem payload_length_wraps_witness:
  "snd (readSessionSegment some_uenv 0 (zero_sessionStruct\<lparr>ss_payloadLen := 65520\<rparr>) (some_server []))
     = Inl (typed_panic ''slice bounds out of range'')
   \<and> snd (readDataAckSegment some_uenv 0 (zero_dataAckStruct\<lparr>das_prefixLen := 0, das_payloadLen := 65520\<rparr>) (some_server []))
     = Inl (typed_panic ''slice bounds out of range'')"
  by (rule payload_length_wraps) simp_all

end
