(* ===== verification/StreamChannel.thy ===== *)
theory StreamChannel
  imports StreamLoop Channel
begin

text \<open>
  The stream underlay as a channel: what one side writes the other side reads, from the first message
  of a client, which the server has to attribute to one of its users, to the replies of the server.
\<close>

section \<open>Messages\<close>

text \<open>A segment that the protocol allows: the payload length is the length of the payload.\<close>

definition segment_ok :: "segment \<Rightarrow> bool" where
  "segment_ok seg \<longleftrightarrow> length (seg_payload seg) + DefaultOverhead < 2 ^ 16
     \<and> (case seg_metadata seg of
          Session_md ss \<Rightarrow> isSessionProtocol (ss_protocol ss) \<and> ss_payloadLen ss = of_nat (length (seg_payload seg))
        | DataAck_md das \<Rightarrow> isDataAckProtocol (das_protocol das)
            \<and> das_payloadLen das = of_nat (length (seg_payload seg)))"

text \<open>The draws of the sender, its clock, and the clock and the jitter of the receiver.\<close>

type_synonym delivery = "write_draws \<times> int \<times> int \<times> (nat \<Rightarrow> int)"

definition delivery_ok :: "noncePattern option \<Rightarrow> delivery \<Rightarrow> bool" where
  "delivery_ok pat x \<longleftrightarrow>
     (case x of (d, now, now', jit) \<Rightarrow>
        draws_ok pat (wd_meta d) \<and> draws_ok pat (wd_payload d) \<and> rand_ok (wd_pad1 d) \<and> rand_ok (wd_pad2 d)
      \<and> (\<forall>i. \<forall>n > 0. 0 \<le> wd_frag d i n \<and> wd_frag d i n < n)
      \<and> clock_ok (unix_seconds now) \<and> clock_ok (unix_seconds now')
      \<and> \<bar>unix_seconds now' div 60 - unix_seconds now div 60\<bar> \<le> 1 \<and> (\<forall>i. 0 \<le> jit i))"

definition stream_send ::
    "uenv \<Rightarrow> 't streamUnderlay \<Rightarrow> delivery \<times> segment \<Rightarrow> 't streamUnderlay \<times> (bytes \<times> int \<times> (nat \<Rightarrow> int)) result" where
  "stream_send ue s x =
     (case x of ((d, now, now', jit), seg) \<Rightarrow>
        (case stream_writeOneSegment ue d now s seg of
           (s', Inl e) \<Rightarrow> (s', Inl e)
         | (s', Inr _) \<Rightarrow> (s', Inr (concat (drop (length (su_out s)) (su_out s')), now', jit))))"

definition stream_recv ::
    "uenv \<Rightarrow> 't streamUnderlay \<Rightarrow> bytes \<times> int \<times> (nat \<Rightarrow> int) \<Rightarrow> 't streamUnderlay \<times> (metadata \<times> bytes) result" where
  "stream_recv ue r f =
     (case f of (frame, now, jit) \<Rightarrow>
        (case stream_readOneSegment ue jit now (r\<lparr>su_in := su_in r @ frame\<rparr>) of
           (r, Inl e) \<Rightarrow> (r, Inl (snd e))
         | (r, Inr None) \<Rightarrow> (r, Inl ErrTimeout)
         | (r, Inr (Some seg)) \<Rightarrow> (r, Inr (message seg))))"

section \<open>Writing\<close>

lemma sqrt_len:
  assumes "float_env_ok fe" "0 \<le> n"
  shows "0 \<le> trunc_real (fe_f64 fe (sqrt (of_int n)))"
proof -
  have "fe_f64 fe (of_int 0) \<le> fe_f64 fe (sqrt (of_int n))"
    using assms by (intro float_mono) simp_all
  then show ?thesis using float_exact_int [OF assms(1), of 0] by (simp add: trunc_real_def)
qed

text \<open>
  The fragments put together are the data, none of them is empty, and the fuel is enough.
\<close>

lemma fragment_loop_ok:
  assumes fe: "float_env_ok fe" and frag: "\<forall>i. \<forall>n > 0. 0 \<le> frag i n \<and> frag i n < n" and l: "0 \<le> len"
    and "su_writeErr t = None" "length remaining \<le> fuel"
  shows "\<exists>fs. fragment_loop fe frag len i fuel remaining t = (t\<lparr>su_out := su_out t @ fs\<rparr>, Inr ())
     \<and> concat fs = remaining \<and> [] \<notin> set fs
     \<and> (\<forall>f \<in> set (butlast fs). trunc_real (fe_f64 fe (sqrt (of_int len))) + 1 \<le> int (length f))"
  using assms(4,5)
proof (induction fuel arbitrary: i remaining t)
  case 0
  then show ?case by (intro exI [of _ "[]"]) simp
next
  case (Suc fuel)
  show ?case
  proof (cases "remaining = []")
    case True
    then show ?thesis by (intro exI [of _ "[]"]) simp
  next
    case False
    define a where "a = trunc_real (fe_f64 fe (sqrt (of_int len))) + 1"
    define m where "m = Max2 a (go_quot len 2)"
    define n where "n = (if frag i (m - a + 1) + a > int (length remaining) then int (length remaining)
      else frag i (m - a + 1) + a)"
    have a: "1 \<le> a" using sqrt_len [OF fe l] by (simp add: a_def)
    have "0 < m - a + 1" by (simp add: m_def)
    then have "0 \<le> frag i (m - a + 1)" using frag by blast
    then have n: "0 < n" "n \<le> int (length remaining)" using a False by (auto simp: n_def)
    let ?t = "t\<lparr>su_out := su_out t @ [take (nat n) remaining]\<rparr>"
    have len: "length (drop (nat n) remaining) \<le> fuel" using n Suc.prems(2) by simp
    from Suc.IH [OF _ len, of ?t "Suc i"] Suc.prems(1) obtain fs where
      fs: "fragment_loop fe frag len (Suc i) fuel (drop (nat n) remaining) ?t
         = (?t\<lparr>su_out := su_out ?t @ fs\<rparr>, Inr ())" "concat fs = drop (nat n) remaining" "[] \<notin> set fs"
      "\<forall>f \<in> set (butlast fs). a \<le> int (length f)" by (auto simp: a_def)
    have "fragment_loop fe frag len i (Suc fuel) remaining t
        = fragment_loop fe frag len (Suc i) fuel (drop (nat n) remaining) ?t"
      using False Suc.prems(1) by (simp add: Let_def a_def m_def n_def conn_Write_def)
    moreover have "a \<le> int (length (take (nat n) remaining))" if "fs \<noteq> []"
    proof -
      have "concat fs \<noteq> []" using that fs(3) by (cases fs) auto
      then have "n < int (length remaining)" using fs(2) n by auto
      then show ?thesis using n \<open>0 \<le> frag i (m - a + 1)\<close> by (auto simp: n_def split: if_splits)
    qed
    ultimately show ?thesis using fs n False
      by (intro exI [of _ "take (nat n) remaining # fs"]) (auto simp: a_def)
  qed
qed

lemma write_fragments_ok:
  assumes "float_env_ok fe" "\<forall>i. \<forall>n > 0. 0 \<le> frag i n \<and> frag i n < n" "su_writeErr t = None"
  shows "\<exists>fs. writeWithPossibleFragment fe frag t b = (t\<lparr>su_out := su_out t @ fs\<rparr>, Inr ())
     \<and> concat fs = b \<and> (b \<noteq> [] \<longrightarrow> [] \<notin> set fs)
     \<and> (\<forall>f \<in> set (butlast fs). trunc_real (fe_f64 fe (sqrt (of_nat (length b)))) + 1 \<le> int (length f))"
proof -
  have "\<exists>fs. conn_Write t b = (t\<lparr>su_out := su_out t @ fs\<rparr>, Inr ()) \<and> concat fs = b \<and> (b \<noteq> [] \<longrightarrow> [] \<notin> set fs)
     \<and> (\<forall>f \<in> set (butlast fs). trunc_real (fe_f64 fe (sqrt (of_nat (length b)))) + 1 \<le> int (length f))"
    using assms(3) by (intro exI [of _ "[b]"]) (simp add: conn_Write_def)
  with fragment_loop_ok [OF assms(1,2), of "int (length b)" t b "length b" 0] assms(3) show ?thesis
    by (auto simp: writeWithPossibleFragment_def split: option.split)
qed

text \<open>Two ciphers in step, in the implicit nonce mode that the stream underlay uses.\<close>

definition in_step :: "uenv \<Rightarrow> noncePattern option \<Rightarrow> aeadBlockCipher \<Rightarrow> aeadBlockCipher \<Rightarrow> bool" where
  "in_step ue pat c r \<longleftrightarrow> cipher_sync (ue_aead ue) pat c r \<and> bc_enableImplicitNonce c"

definition fresh_nonce :: "aeadBlockCipher \<Rightarrow> bool" where
  "fresh_nonce c \<longleftrightarrow> bc_implicitNonce c = []"

lemma Decrypt_keeps: "\<exists>n. fst (Decrypt ae c b) = c\<lparr>bc_implicitNonce := n\<rparr>"
proof -
  have "\<exists>n. c = c\<lparr>bc_implicitNonce := n\<rparr>" by (rule exI [of _ "bc_implicitNonce c"]) simp
  then show ?thesis by (auto simp: Decrypt_def Let_def increaseNonce_def)
qed

lemma Encrypt_nonce:
  "Encrypt ae d c p = (c', Inr b) \<Longrightarrow> bc_enableImplicitNonce c \<Longrightarrow> cipher_ok c \<Longrightarrow> aead_ok ae
    \<Longrightarrow> draws_ok (bc_noncePattern c) d \<Longrightarrow> bc_enableImplicitNonce c' \<and> \<not> fresh_nonce c'"
proof -
  assume e: "Encrypt ae d c p = (c', Inr b)" "bc_enableImplicitNonce c" "cipher_ok c" "aead_ok ae"
    "draws_ok (bc_noncePattern c) d"
  show ?thesis
  proof (cases "fresh_nonce c")
    case True
    with Encrypt_explicit [OF e(4,3,5), of p] e(1,2) show ?thesis by (auto simp: fresh_nonce_def)
  next
    case False
    have "length (rev (increase_le (rev (bc_implicitNonce c)))) = length (bc_implicitNonce c)" by simp
    then have "rev (increase_le (rev (bc_implicitNonce c))) \<noteq> []" using False unfolding fresh_nonce_def by fastforce
    with False e(1,2) show ?thesis by (auto simp: fresh_nonce_def Encrypt_def increaseNonce_def)
  qed
qed

text \<open>A message with an explicit nonce that carries the hint of the sender's name.\<close>

definition hinted :: "uenv \<Rightarrow> aeadBlockCipher \<Rightarrow> bytes \<Rightarrow> bytes \<Rightarrow> bool" where
  "hinted ue c b p \<longleftrightarrow>
     (\<exists>n. b = n @ ae_Seal (ue_aead ue) (bc_key c) n p \<and> length n = 24
        \<and> (bc_userName c \<noteq> [] \<longrightarrow> CheckUserFromHint (string_bytes (bc_userName c)) n = Inr True))"

lemma seal_step:
  assumes "in_step ue pat c r" "draws_ok pat d"
  obtains c' r' b where "Encrypt (ue_aead ue) d c p = (c', Inr b)" "Decrypt (ue_aead ue) r b = (r', Inr p)"
    "in_step ue pat c' r'" "\<not> fresh_nonce c'" "length b = length p + (if fresh_nonce c then 40 else 16)"
    "fresh_nonce c \<longrightarrow> hinted ue c b p"
proof -
  have c: "cipher_sync (ue_aead ue) pat c r" "bc_enableImplicitNonce c" using assms(1) by (simp_all add: in_step_def)
  obtain c' r' b where m: "Encrypt (ue_aead ue) d c p = (c', Inr b)" "Decrypt (ue_aead ue) r b = (r', Inr p)"
      "cipher_sync (ue_aead ue) pat c' r'" "length b = length p + (if fresh_nonce c then 40 else 16)"
    using cipher_message [OF c(1) assms(2), of p] c(2) by (auto simp: fresh_nonce_def)
  have k: "cipher_ok c" "aead_ok (ue_aead ue)" "draws_ok (bc_noncePattern c) d"
    using c(1) assms(2) by (auto simp: cipher_sync_def)
  have "hinted ue c b p" if "fresh_nonce c"
    using Encrypt_explicit [OF k(2,1,3), of p] m(1) that by (auto simp: fresh_nonce_def hinted_def)
  with Encrypt_nonce [OF m(1) c(2) k] m show ?thesis by (intro that [of c' b r']) (simp_all add: in_step_def)
qed

text \<open>The payload of a segment, if it has one.\<close>

definition sealed :: "uenv \<Rightarrow> bytes \<Rightarrow> aeadBlockCipher \<Rightarrow> bytes \<Rightarrow> aeadBlockCipher \<Rightarrow> bool" where
  "sealed ue p r b r' \<longleftrightarrow>
     (if p = [] then b = [] \<and> r' = r
      else length b = length p + 16 \<and> Decrypt (ue_aead ue) r b = (r', Inr p))"

lemma stream_payload_ok:
  assumes "su_send t = Some c" "in_step ue pat c r" "\<not> fresh_nonce c" "draws_ok pat d"
  obtains c' r' b where "stream_payload ue d t p = (t\<lparr>su_send := Some c'\<rparr>, Inr b)" "sealed ue p r b r'"
    "in_step ue pat c' r'" "\<not> fresh_nonce c'"
proof (cases "p = []")
  case True
  have "t = t\<lparr>su_send := Some c\<rparr>" using assms(1) by simp
  with True that [of c "[]" r] assms show ?thesis by (simp add: stream_payload_def sealed_def)
next
  case False
  obtain c' r' b where "Encrypt (ue_aead ue) d c p = (c', Inr b)" "Decrypt (ue_aead ue) r b = (r', Inr p)"
      "in_step ue pat c' r'" "\<not> fresh_nonce c'" "length b = length p + (if fresh_nonce c then 40 else 16)"
    by (rule seal_step [OF assms(2,4)])
  with False assms(1,3) show ?thesis
    by (intro that [of c' b r']) (simp_all add: stream_payload_def stream_Encrypt_def sealed_def)
qed

text \<open>
  One segment on the wire: the encrypted metadata \<open>em\<close>, padding, the encrypted payload \<open>ep\<close>, padding.
\<close>

definition marshalled :: "metadata \<Rightarrow> int \<Rightarrow> bytes" where
  "marshalled md now =
     (case md of
        Session_md ss \<Rightarrow> snd (sessionStruct_Marshal ss (unix_seconds now))
      | DataAck_md das \<Rightarrow> snd (dataAckStruct_Marshal das (unix_seconds now)))"

definition padded :: "metadata \<Rightarrow> bytes \<Rightarrow> bytes \<Rightarrow> metadata" where
  "padded md pad1 pad2 =
     (case md of
        Session_md ss \<Rightarrow> Session_md (ss\<lparr>ss_suffixLen := of_nat (length pad2)\<rparr>)
      | DataAck_md das \<Rightarrow> DataAck_md (das\<lparr>das_prefixLen := of_nat (length pad1), das_suffixLen := of_nat (length pad2)\<rparr>))"

definition on_wire ::
    "uenv \<Rightarrow> int \<Rightarrow> segment \<Rightarrow> aeadBlockCipher \<Rightarrow> aeadBlockCipher \<Rightarrow> bytes \<Rightarrow> aeadBlockCipher \<Rightarrow> bool" where
  "on_wire ue now seg c r frame r' \<longleftrightarrow>
     (\<exists>em pad1 ep pad2 r1. frame = em @ pad1 @ ep @ pad2
        \<and> length pad1 < 256 \<and> length pad2 < 256 \<and> (case seg_metadata seg of Session_md _ \<Rightarrow> pad1 = [] | _ \<Rightarrow> True)
        \<and> length em = MetadataLength + (if fresh_nonce c then 40 else 16)
        \<and> (fresh_nonce c \<longrightarrow> hinted ue c em (marshalled (padded (seg_metadata seg) pad1 pad2) now))
        \<and> Decrypt (ue_aead ue) r em = (r1, Inr (marshalled (padded (seg_metadata seg) pad1 pad2) now))
        \<and> sealed ue (seg_payload seg) r1 ep r')"

lemma length_marshalled [simp]: "length (marshalled md now) = MetadataLength"
  by (simp add: marshalled_def sessionStruct_fields dataAckStruct_fields split: metadata.split)

text \<open>Sealing metadata and payload one after the other.\<close>

lemma seal_segment:
  assumes "su_send t = Some c" "in_step ue pat c r" "draws_ok pat d" "draws_ok pat d'"
  obtains c1 r1 em c2 r2 ep where "stream_Encrypt ue d t (marshalled md now) = (t\<lparr>su_send := Some c1\<rparr>, Inr em)"
    "length em = MetadataLength + (if fresh_nonce c then 40 else 16)"
    "Decrypt (ue_aead ue) r em = (r1, Inr (marshalled md now))" "fresh_nonce c \<longrightarrow> hinted ue c em (marshalled md now)"
    "stream_payload ue d' (t\<lparr>su_send := Some c1\<rparr>) p = (t\<lparr>su_send := Some c2\<rparr>, Inr ep)"
    "sealed ue p r1 ep r2" "in_step ue pat c2 r2" "\<not> fresh_nonce c2"
proof -
  obtain c1 r1 em where m: "Encrypt (ue_aead ue) d c (marshalled md now) = (c1, Inr em)"
      "Decrypt (ue_aead ue) r em = (r1, Inr (marshalled md now))" "in_step ue pat c1 r1" "\<not> fresh_nonce c1"
      "length em = length (marshalled md now) + (if fresh_nonce c then 40 else 16)"
      "fresh_nonce c \<longrightarrow> hinted ue c em (marshalled md now)"
    by (rule seal_step [OF assms(2,3)])
  obtain c2 r2 ep where "stream_payload ue d' (t\<lparr>su_send := Some c1\<rparr>) p = (t\<lparr>su_send := Some c1, su_send := Some c2\<rparr>, Inr ep)"
      "sealed ue p r1 ep r2" "in_step ue pat c2 r2" "\<not> fresh_nonce c2"
    by (rule stream_payload_ok [OF _ m(3,4) assms(4), of "t\<lparr>su_send := Some c1\<rparr>" p]) simp_all
  with m assms(1) that [of c1 em r1 c2 ep r2] show ?thesis by (simp add: stream_Encrypt_def)
qed

lemma newPadding_plain:
  assumes "float_env_ok fe" "rand_ok rs" "0 \<le> n" "n \<le> 255"
  obtains p where "newPadding fe rs (plain_padding_opts n) = Inr p" "int (length p) \<le> n"
  using asciiPadding_ok [OF assms(1,2), of 0 n] assms(3,4) that
  by (auto simp: newPadding_def plain_padding_opts_def)

lemma stream_MaxPaddingSize [simp]: "MaxPaddingSize mtu StreamTransport m n = 255"
  by (simp add: MaxPaddingSize_def)

definition written :: "'t streamUnderlay \<Rightarrow> aeadBlockCipher \<Rightarrow> bytes list \<Rightarrow> int \<Rightarrow> 't streamUnderlay" where
  "written t c fs n = t\<lparr>su_send := Some c, su_out := su_out t @ fs, bu_outBytes := n\<rparr>"

lemma write_session_ok:
  assumes "float_env_ok (ue_fe ue)" "su_writeErr t = None" "su_send t = Some c" "in_step ue pat c r"
    and "delivery_ok pat (d, now, now', jit)" "seg_metadata seg = Session_md ss"
  obtains c' r' fs n where "write_session_segment ue d now t seg ss = (written t c' fs n, Inr ())"
    "on_wire ue now seg c r (concat fs) r'" "in_step ue pat c' r'" "\<not> fresh_nonce c'"
proof -
  have d: "draws_ok pat (wd_meta d)" "draws_ok pat (wd_payload d)" "rand_ok (wd_pad1 d)"
    "\<forall>i. \<forall>n > 0. 0 \<le> wd_frag d i n \<and> wd_frag d i n < n"
    using assms(5) by (simp_all add: delivery_ok_def)
  have "0 \<le> streamOverhead + uint (ss_payloadLen ss)" "streamOverhead + uint (ss_payloadLen ss) \<le> 2 ^ 48"
    using uint_bounded [of "ss_payloadLen ss"] by simp_all
  then obtain pad where pad: "rbind (buildRecommendedPaddingOpts (ue_he ue) (wd_pad1 d) 255
      (streamOverhead + uint (ss_payloadLen ss)) (bc_userName c)) (newPadding (ue_fe ue) (wd_pad1 d)) = Inr pad"
      "int (length pad) \<le> 255" by (rule newPadding_recommended [OF assms(1) d(3), of 255, rotated 2]) simp_all
  let ?ss = "ss\<lparr>ss_suffixLen := of_nat (length pad)\<rparr>"
  obtain c1 r1 em c2 r2 ep where m: "stream_Encrypt ue (wd_meta d) t (marshalled (Session_md ?ss) now) = (t\<lparr>su_send := Some c1\<rparr>, Inr em)"
    "length em = MetadataLength + (if fresh_nonce c then 40 else 16)"
    "Decrypt (ue_aead ue) r em = (r1, Inr (marshalled (Session_md ?ss) now))"
    "fresh_nonce c \<longrightarrow> hinted ue c em (marshalled (Session_md ?ss) now)"
    "stream_payload ue (wd_payload d) (t\<lparr>su_send := Some c1\<rparr>) (seg_payload seg) = (t\<lparr>su_send := Some c2\<rparr>, Inr ep)"
    "sealed ue (seg_payload seg) r1 ep r2" "in_step ue pat c2 r2" "\<not> fresh_nonce c2"
    by (rule seal_segment [OF assms(3,4) d(1,2)])
  obtain fs where fs: "writeWithPossibleFragment (ue_fe ue) (wd_frag d) (t\<lparr>su_send := Some c2\<rparr>) (em @ ep @ pad)
      = (t\<lparr>su_send := Some c2, su_out := su_out t @ fs\<rparr>, Inr ())" "concat fs = em @ ep @ pad"
    using write_fragments_ok [OF assms(1) d(4), of "t\<lparr>su_send := Some c2\<rparr>" "em @ ep @ pad"] assms(2) by auto
  have "write_session_segment ue d now t seg ss
      = (written t c2 fs (bu_outBytes t + int (length (em @ ep @ pad))), Inr ())"
    using pad m(1,5) fs(1) assms(3)
    by (simp add: write_session_segment_def marshalled_def written_def Let_def)
  moreover have "on_wire ue now seg c r (concat fs) r2"
    unfolding on_wire_def using m pad(2) assms(6) fs(2)
    by (intro exI [of _ em] exI [of _ "[]"] exI [of _ ep] exI [of _ pad] exI [of _ r1]) (simp add: padded_def)
  ultimately show ?thesis using m(7,8) by (rule that)
qed

lemma write_dataAck_ok:
  assumes "float_env_ok (ue_fe ue)" "su_writeErr t = None" "su_send t = Some c" "in_step ue pat c r"
    and "delivery_ok pat (d, now, now', jit)" "seg_metadata seg = DataAck_md das"
  obtains c' r' fs n where "write_dataAck_segment ue d now t seg das = (written t c' fs n, Inr ())"
    "on_wire ue now seg c r (concat fs) r'" "in_step ue pat c' r'" "\<not> fresh_nonce c'"
proof -
  have d: "draws_ok pat (wd_meta d)" "draws_ok pat (wd_payload d)" "rand_ok (wd_pad1 d)" "rand_ok (wd_pad2 d)"
    using assms(5) by (simp_all add: delivery_ok_def)
  obtain pad1 where pad1: "newPadding (ue_fe ue) (wd_pad1 d) (plain_padding_opts 255) = Inr pad1" "int (length pad1) \<le> 255"
    by (rule newPadding_plain [OF assms(1) d(3), of 255]) simp_all
  obtain pad2 where pad2: "newPadding (ue_fe ue) (wd_pad2 d) (plain_padding_opts 255) = Inr pad2" "int (length pad2) \<le> 255"
    by (rule newPadding_plain [OF assms(1) d(4), of 255]) simp_all
  let ?das = "das\<lparr>das_prefixLen := of_nat (length pad1), das_suffixLen := of_nat (length pad2)\<rparr>"
  obtain c1 r1 em c2 r2 ep where m: "stream_Encrypt ue (wd_meta d) t (marshalled (DataAck_md ?das) now) = (t\<lparr>su_send := Some c1\<rparr>, Inr em)"
    "length em = MetadataLength + (if fresh_nonce c then 40 else 16)"
    "Decrypt (ue_aead ue) r em = (r1, Inr (marshalled (DataAck_md ?das) now))"
    "fresh_nonce c \<longrightarrow> hinted ue c em (marshalled (DataAck_md ?das) now)"
    "stream_payload ue (wd_payload d) (t\<lparr>su_send := Some c1\<rparr>) (seg_payload seg) = (t\<lparr>su_send := Some c2\<rparr>, Inr ep)"
    "sealed ue (seg_payload seg) r1 ep r2" "in_step ue pat c2 r2" "\<not> fresh_nonce c2"
    by (rule seal_segment [OF assms(3,4) d(1,2)])
  let ?b = "em @ pad1 @ ep @ pad2"
  have "write_dataAck_segment ue d now t seg das
      = (written t c2 [?b] (bu_outBytes t + int (length ?b)), Inr ())"
    using pad1 pad2 m(1,5) assms(2,3)
    by (simp add: write_dataAck_segment_def marshalled_def written_def Let_def maybeInitSendBlockCipher_def conn_Write_def)
  moreover have "on_wire ue now seg c r (concat [?b]) r2"
    unfolding on_wire_def using m pad1(2) pad2(2) assms(6)
    by (intro exI [of _ em] exI [of _ pad1] exI [of _ ep] exI [of _ pad2] exI [of _ r1]) (simp add: padded_def)
  ultimately show ?thesis using m(7,8) by (rule that)
qed

lemma stream_write_ok:
  assumes "float_env_ok (ue_fe ue)" "su_writeErr t = None"
    and "maybeInitSendBlockCipher t = (t\<lparr>su_send := Some c\<rparr>, Inr ())" "in_step ue pat c r"
    and "delivery_ok pat (d, now, now', jit)" "segment_ok seg"
  obtains c' r' fs n where "stream_writeOneSegment ue d now t seg = (written t c' fs n, Inr ())"
    "on_wire ue now seg c r (concat fs) r'" "in_step ue pat c' r'" "\<not> fresh_nonce c'"
proof (cases "seg_metadata seg")
  case (Session_md ss)
  obtain c' r' fs n where "write_session_segment ue d now (t\<lparr>su_send := Some c\<rparr>) seg ss = (written (t\<lparr>su_send := Some c\<rparr>) c' fs n, Inr ())"
    "on_wire ue now seg c r (concat fs) r'" "in_step ue pat c' r'" "\<not> fresh_nonce c'"
    by (rule write_session_ok [OF assms(1) _ _ assms(4,5) Session_md, of "t\<lparr>su_send := Some c\<rparr>"]) (use assms(2) in simp_all)
  with assms(3,6) Session_md show ?thesis
    by (intro that [of c' fs n r']) (simp_all add: stream_writeOneSegment_def toSessionStruct_def segment_ok_def written_def)
next
  case (DataAck_md das)
  obtain c' r' fs n where "write_dataAck_segment ue d now (t\<lparr>su_send := Some c\<rparr>) seg das = (written (t\<lparr>su_send := Some c\<rparr>) c' fs n, Inr ())"
    "on_wire ue now seg c r (concat fs) r'" "in_step ue pat c' r'" "\<not> fresh_nonce c'"
    by (rule write_dataAck_ok [OF assms(1) _ _ assms(4,5) DataAck_md, of "t\<lparr>su_send := Some c\<rparr>"]) (use assms(2) in simp_all)
  moreover have "\<not> isSessionProtocol (das_protocol das)" "isDataAckProtocol (das_protocol das)"
    using assms(6) DataAck_md by (auto simp: segment_ok_def isSessionProtocol_def isDataAckProtocol_def protocol_defs)
  ultimately show ?thesis using assms(3) DataAck_md
    by (intro that [of c' fs n r']) (simp_all add: stream_writeOneSegment_def toSessionStruct_def toDataAckStruct_def written_def)
qed

section \<open>Reading\<close>

definition consumed ::
    "'t streamUnderlay \<Rightarrow> bytes \<Rightarrow> aeadBlockCipher \<Rightarrow> int \<Rightarrow> replayCache \<Rightarrow> 't streamUnderlay" where
  "consumed t rest r k rc = t\<lparr>su_in := rest, su_recv := Some r, bu_inBytes := k, su_streamReplayCache := rc\<rparr>"

lemma consumed_simps [simp]:
  "su_in (consumed t rest r k rc) = rest" "su_recv (consumed t rest r k rc) = Some r"
  "su_streamReplayCache (consumed t rest r k rc) = rc"
  "consumed (consumed t rest r k rc) rest' r' k' rc' = consumed t rest' r' k' rc'"
  by (simp_all add: consumed_def)

lemma ReadFull_ok [simp]:
  "su_in t = b @ rest \<Longrightarrow> n = length b \<Longrightarrow> ReadFull n t = (t\<lparr>su_in := rest\<rparr>, Inr b)"
  by (simp add: ReadFull_def)

lemma read_payload_ok:
  assumes "su_recv t = Some r" "su_in t = b @ rest" "sealed ue p r b r'" "length p + DefaultOverhead < 2 ^ 16"
  obtains k rc where "read_payload ue now (of_nat (length p)) t = (consumed t rest r' k rc, Inr p)"
proof (cases "p = []")
  case True
  with assms that [of "bu_inBytes t" "su_streamReplayCache t"] show ?thesis
    by (simp add: read_payload_def sealed_def consumed_def)
next
  case False
  let ?n = "of_nat (length p) :: u16"
  have n: "unat (?n + of_nat DefaultOverhead) = length p + 16"
  proof -
    have "?n + of_nat DefaultOverhead = of_nat (length p + 16)" by (simp add: DefaultOverhead_def)
    then show ?thesis using assms(4) by (simp only: unat_of_nat) (simp add: DefaultOverhead_def)
  qed
  have "unat ?n = length p" using assms(4) by (simp add: unat_of_nat DefaultOverhead_def)
  then have "?n \<noteq> 0" using False by auto
  moreover have "ReadFull (length p + 16) t = (t\<lparr>su_in := rest\<rparr>, Inr b)"
    using assms(2,3) False by (intro ReadFull_ok) (simp_all add: sealed_def)
  moreover obtain rc dup where "IsDuplicate (su_streamReplayCache t) (take DefaultOverhead b) EmptyTag now = (rc, dup)"
    by fastforce
  ultimately show ?thesis using assms(1,3) False n
    by (intro that [of "bu_inBytes t + int (length b)" rc])
      (simp add: read_payload_def Let_def count_in_def stream_IsDuplicate_def stream_Decrypt_def sealed_def
        consumed_def DefaultOverhead_def)
qed

lemma read_padding_ok:
  assumes "su_recv t = Some r" "su_in t = pad @ rest" "length pad < 256"
  obtains k where "read_padding (of_nat (length pad)) t = (consumed t rest r k (su_streamReplayCache t), Inr ())"
proof (cases "pad = []")
  case True
  with assms that [of "bu_inBytes t"] show ?thesis by (simp add: read_padding_def consumed_def)
next
  case False
  have n: "unat (of_nat (length pad) :: u8) = length pad" using assms(3) by (simp add: unat_of_nat)
  with False have "(of_nat (length pad) :: u8) \<noteq> 0" by auto
  with n assms that [of "bu_inBytes t + int (length pad)"] show ?thesis
    by (simp add: read_padding_def ReadFull_ok [of t pad rest] count_in_def consumed_def)
qed

lemma strip_padded [simp]: "strip_metadata (padded md pad1 pad2) = strip_metadata md"
  by (simp add: strip_metadata_def padded_def split: metadata.split)

text \<open>The metadata with its paddings comes back from its encoding.\<close>

lemma unmarshal_session:
  assumes "isSessionProtocol (ss_protocol ss)" "delivery_ok pat (d, now, now', jit)"
  shows "sessionStruct_Unmarshal zero_sessionStruct (marshalled (padded (Session_md ss) pad1 pad2) now) (unix_seconds now')
      = Inr (ss\<lparr>ss_suffixLen := of_nat (length pad2), ss_timestamp := minutes (unix_seconds now)\<rparr>)"
    "marshalled (padded (Session_md ss) pad1 pad2) now ! 0 = ss_protocol ss"
  using session_unmarshal [of "ss\<lparr>ss_suffixLen := of_nat (length pad2)\<rparr>" "unix_seconds now" "unix_seconds now'"
      zero_sessionStruct] assms
  by (simp_all add: marshalled_def padded_def delivery_ok_def zero_sessionStruct_def MaxSessionOpenPayload_def
      sessionStruct_fields)

lemma unmarshal_dataAck:
  assumes "isDataAckProtocol (das_protocol das)" "delivery_ok pat (d, now, now', jit)"
  shows "dataAckStruct_Unmarshal zero_dataAckStruct (marshalled (padded (DataAck_md das) pad1 pad2) now) (unix_seconds now')
      = Inr (das\<lparr>das_prefixLen := of_nat (length pad1), das_suffixLen := of_nat (length pad2),
               das_timestamp := minutes (unix_seconds now)\<rparr>)"
    "marshalled (padded (DataAck_md das) pad1 pad2) now ! 0 = das_protocol das"
  using dataAck_unmarshal [of "das\<lparr>das_prefixLen := of_nat (length pad1), das_suffixLen := of_nat (length pad2)\<rparr>"
      "unix_seconds now" "unix_seconds now'" zero_dataAckStruct] assms
  by (simp_all add: marshalled_def padded_def delivery_ok_def dataAckStruct_fields)

lemma dataAck_not_session: "isDataAckProtocol p \<Longrightarrow> \<not> isSessionProtocol p"
  using session_dataAck_disjoint by blast

lemma read_rest_session:
  assumes "seg_metadata seg = Session_md ss" "segment_ok seg" "delivery_ok pat (d, now, now', jit)"
    and "su_recv t = Some r" "su_in t = ep @ pad2 @ rest" "sealed ue (seg_payload seg) r ep r'" "length pad2 < 256"
  obtains k rc seg' where
    "read_rest ue now' (marshalled (padded (seg_metadata seg) [] pad2) now) t = (consumed t rest r' k rc, Inr seg')"
    "message seg' = message seg"
proof -
  let ?ss = "ss\<lparr>ss_suffixLen := of_nat (length pad2), ss_timestamp := minutes (unix_seconds now)\<rparr>"
  have seg: "length (seg_payload seg) + DefaultOverhead < 2 ^ 16" "isSessionProtocol (ss_protocol ss)"
      "ss_payloadLen ss = of_nat (length (seg_payload seg))"
    using assms(1,2) by (simp_all add: segment_ok_def)
  note um = unmarshal_session [OF seg(2) assms(3), where ?pad1.0 = "[]" and ?pad2.0 = pad2, folded assms(1)]
  obtain k rc where 1: "read_payload ue now' (ss_payloadLen ss) t = (consumed t (pad2 @ rest) r' k rc, Inr (seg_payload seg))"
    unfolding seg(3) by (rule read_payload_ok [OF assms(4,5,6) seg(1)])
  obtain k' where 2: "read_padding (of_nat (length pad2)) (consumed t (pad2 @ rest) r' k rc)
      = (consumed t rest r' k' rc, Inr ())"
    by (rule read_padding_ok [of "consumed t (pad2 @ rest) r' k rc" r' pad2 rest]) (use assms(7) in simp_all)
  show ?thesis
    by (rule that [of k' rc "received_segment (consumed t rest r' k' rc) (Session_md ?ss) (seg_payload seg)"])
      (use assms(1) seg(2) um 1 2 in \<open>simp_all add: read_rest_def readSessionSegment_def message_def
        received_segment_def strip_metadata_def\<close>)
qed

lemma read_rest_dataAck:
  assumes "seg_metadata seg = DataAck_md das" "segment_ok seg" "delivery_ok pat (d, now, now', jit)"
    and "su_recv t = Some r" "su_in t = pad1 @ ep @ pad2 @ rest" "sealed ue (seg_payload seg) r ep r'"
    and "length pad1 < 256" "length pad2 < 256"
  obtains k rc seg' where
    "read_rest ue now' (marshalled (padded (seg_metadata seg) pad1 pad2) now) t = (consumed t rest r' k rc, Inr seg')"
    "message seg' = message seg"
proof -
  let ?das = "das\<lparr>das_prefixLen := of_nat (length pad1), das_suffixLen := of_nat (length pad2),
    das_timestamp := minutes (unix_seconds now)\<rparr>"
  have seg: "length (seg_payload seg) + DefaultOverhead < 2 ^ 16" "isDataAckProtocol (das_protocol das)"
      "das_payloadLen das = of_nat (length (seg_payload seg))"
    using assms(1,2) by (simp_all add: segment_ok_def)
  note um = unmarshal_dataAck [OF seg(2) assms(3), where ?pad1.0 = pad1 and ?pad2.0 = pad2, folded assms(1)]
  obtain k0 where 0: "read_padding (of_nat (length pad1)) t = (consumed t (ep @ pad2 @ rest) r k0 (su_streamReplayCache t), Inr ())"
    by (rule read_padding_ok [OF assms(4,5,7)])
  let ?t0 = "consumed t (ep @ pad2 @ rest) r k0 (su_streamReplayCache t)"
  obtain k rc where 1: "read_payload ue now' (das_payloadLen das) ?t0 = (consumed ?t0 (pad2 @ rest) r' k rc, Inr (seg_payload seg))"
    unfolding seg(3) by (rule read_payload_ok [OF consumed_simps(2,1) assms(6) seg(1)])
  obtain k' where 2: "read_padding (of_nat (length pad2)) (consumed t (pad2 @ rest) r' k rc)
      = (consumed t rest r' k' rc, Inr ())"
    by (rule read_padding_ok [of "consumed t (pad2 @ rest) r' k rc" r' pad2 rest]) (use assms(8) in simp_all)
  show ?thesis
    by (rule that [of k' rc "received_segment (consumed t rest r' k' rc) (DataAck_md ?das) (seg_payload seg)"])
      (use assms(1) seg(2) dataAck_not_session [OF seg(2)] um 0 1 2 in \<open>simp_all add: read_rest_def readDataAckSegment_def message_def
        received_segment_def strip_metadata_def\<close>)
qed

text \<open>The cipher with which an underlay will decrypt the next segment, except on a new server.\<close>

definition next_recv :: "'t streamUnderlay \<Rightarrow> aeadBlockCipher option" where
  "next_recv r =
     (case su_recv r of
        Some c \<Rightarrow> Some c
      | None \<Rightarrow>
          if bu_isClient r
          then (case su_block r of None \<Rightarrow> None | Some b \<Rightarrow> (case Clone b of Inl e \<Rightarrow> None | Inr c \<Rightarrow> Some c))
          else None)"

lemma next_recv_upd [simp]:
  "next_recv (t\<lparr>su_in := x\<rparr>) = next_recv t" "next_recv (t\<lparr>bu_inBytes := k\<rparr>) = next_recv t"
  "next_recv (t\<lparr>su_streamReplayCache := rc\<rparr>) = next_recv t"
  by (simp_all add: next_recv_def split: option.split)

lemma decrypt_metadata_ok:
  assumes "next_recv t = Some c" "Decrypt (ue_aead ue) c em = (c', Inr m)"
  shows "decrypt_metadata ue jit now dup em t = (t\<lparr>su_recv := Some c'\<rparr>, Inr m)"
  using assms by (auto simp: next_recv_def decrypt_metadata_def stream_Decrypt_def Let_def split: option.splits if_splits sum.splits)

lemma read_after_metadata:
  assumes "segment_ok seg" "delivery_ok pat (d, now, now', jit)" "on_wire ue now seg b c frame c'"
    and "su_in t = frame @ rest" "fresh_nonce b \<longleftrightarrow> su_recv t = None"
    and "\<And>em c1 m k rc dup. take (length em) frame = em \<Longrightarrow> length em = MetadataLength + (if su_recv t = None then 40 else 16)
      \<Longrightarrow> Decrypt (ue_aead ue) c em = (c1, Inr m)
      \<Longrightarrow> IsDuplicate (su_streamReplayCache t) (take DefaultOverhead em) EmptyTag now' = (rc, dup)
      \<Longrightarrow> decrypt_metadata ue jit now' (dup \<and> su_recv t = None) em (t\<lparr>su_in := drop (length em) (frame @ rest), bu_inBytes := k, su_streamReplayCache := rc\<rparr>)
        = (u (drop (length em) (frame @ rest)) k rc c1, Inr m)"
    and "\<And>x k rc c1. su_recv (u x k rc c1) = Some c1" "\<And>x k rc c1. su_in (u x k rc c1) = x"
  obtains x k rc c1 k' rc' seg' where
    "stream_readOneSegment ue jit now' t = (consumed (u x k rc c1) rest c' k' rc', Inr (Some seg'))"
    "message seg' = message seg"
proof -
  obtain em pad1 ep pad2 r1 where w: "frame = em @ pad1 @ ep @ pad2" "length pad1 < 256" "length pad2 < 256"
      "case seg_metadata seg of Session_md _ \<Rightarrow> pad1 = [] | _ \<Rightarrow> True"
      "length em = MetadataLength + (if su_recv t = None then 40 else 16)"
      "Decrypt (ue_aead ue) c em = (r1, Inr (marshalled (padded (seg_metadata seg) pad1 pad2) now))"
      "sealed ue (seg_payload seg) r1 ep c'"
    using assms(3) unfolding on_wire_def assms(5) by blast
  let ?m = "marshalled (padded (seg_metadata seg) pad1 pad2) now"
  obtain rc dup where dup: "IsDuplicate (su_streamReplayCache t) (take DefaultOverhead em) EmptyTag now' = (rc, dup)"
    by fastforce
  let ?k = "bu_inBytes t + int (length em)" and ?x = "pad1 @ ep @ pad2 @ rest"
  have dm: "decrypt_metadata ue jit now' (dup \<and> su_recv t = None) em (t\<lparr>su_in := ?x, bu_inBytes := ?k, su_streamReplayCache := rc\<rparr>)
      = (u ?x ?k rc r1, Inr ?m)"
    using assms(6) [OF _ w(5,6) dup, of ?k] w(1) by simp
  obtain k' rc' seg' where rest: "read_rest ue now' ?m (u ?x ?k rc r1) = (consumed (u ?x ?k rc r1) rest c' k' rc', Inr seg')"
      "message seg' = message seg"
  proof (cases "seg_metadata seg")
    case (Session_md ss)
    with w(4) have "pad1 = []" by simp
    with that show ?thesis
      using read_rest_session [OF Session_md assms(1,2,7) _ w(7,3), of ?x ?k rc rest] assms(8) by auto
  next
    case (DataAck_md das)
    from read_rest_dataAck [OF this assms(1,2,7) _ w(7,2,3), of ?x ?k rc rest] assms(8) that show ?thesis by blast
  qed
  have rf: "ReadFull (length em) t = (t\<lparr>su_in := ?x\<rparr>, Inr em)"
    using assms(4) w(1) by simp
  have len: "MetadataLength + DefaultOverhead + (if su_recv t = None then DefaultNonceSize else 0) = length em"
    using w(5) by (simp add: cipher_consts)
  have "stream_readOneSegment ue jit now' t = (consumed (u ?x ?k rc r1) rest c' k' rc', Inr (Some seg'))"
    unfolding stream_readOneSegment_def Let_def len rf
    by (simp add: count_in_def stream_IsDuplicate_def dup dm rest(1))
  then show ?thesis using rest(2) by (rule that)
qed

lemma stream_read_ok:
  assumes "segment_ok seg" "delivery_ok pat (d, now, now', jit)" "next_recv t = Some c"
    and "on_wire ue now seg b c frame c'" "su_in t = frame @ rest" "fresh_nonce b \<longleftrightarrow> su_recv t = None"
  obtains k rc seg' where "stream_readOneSegment ue jit now' t = (consumed t rest c' k rc, Inr (Some seg'))"
    "message seg' = message seg"
proof -
  let ?u = "\<lambda>x k rc c1. consumed t x c1 k rc"
  have dm: "decrypt_metadata ue jit now' dup em (t\<lparr>su_in := x, bu_inBytes := k, su_streamReplayCache := rc\<rparr>)
      = (?u x k rc c1, Inr m)" if "Decrypt (ue_aead ue) c em = (c1, Inr m)" for em c1 m dup x k rc
    using decrypt_metadata_ok [OF _ that, of "t\<lparr>su_in := x, bu_inBytes := k, su_streamReplayCache := rc\<rparr>"] assms(3)
    by (simp add: consumed_def)
  obtain x k rc c1 k' rc' seg' where
    "stream_readOneSegment ue jit now' t = (consumed (?u x k rc c1) rest c' k' rc', Inr (Some seg'))" "message seg' = message seg"
    by (rule read_after_metadata [where u = ?u, OF assms(1,2,4,5,6)]) (simp_all add: dm)
  then show ?thesis using that by simp
qed

section \<open>The channel\<close>

text \<open>The writer's next cipher and the reader's next cipher are in step.\<close>

definition stream_sync ::
    "uenv \<Rightarrow> noncePattern option \<Rightarrow> 't streamUnderlay \<Rightarrow> 'u streamUnderlay \<Rightarrow> bool" where
  "stream_sync ue pat s r \<longleftrightarrow> float_env_ok (ue_fe ue) \<and> su_writeErr s = None \<and> su_in r = []
     \<and> (\<exists>c c'. maybeInitSendBlockCipher s = (s\<lparr>su_send := Some c\<rparr>, Inr ()) \<and> next_recv r = Some c'
          \<and> in_step ue pat c c' \<and> (fresh_nonce c \<longleftrightarrow> su_recv r = None))"

lemma written_simps [simp]:
  "su_writeErr (written t c fs n) = su_writeErr t" "su_in (written t c fs n) = su_in t"
  "su_out (written t c fs n) = su_out t @ fs" "su_recv (written t c fs n) = su_recv t"
  "next_recv (written t c fs n) = next_recv t" "su_send (written t c fs n) = Some c"
  "written t c fs n\<lparr>su_send := Some c\<rparr> = written t c fs n"
  by (simp_all add: written_def next_recv_def split: option.split)

lemma written_init [simp]: "maybeInitSendBlockCipher (written t c fs n) = (written t c fs n, Inr ())"
  by (simp add: maybeInitSendBlockCipher_def written_def)

lemma Decrypt_keeps_to: "Decrypt ae c b = (c', r) \<Longrightarrow> \<exists>n. c' = c\<lparr>bc_implicitNonce := n\<rparr>"
  using Decrypt_keeps [of ae c b] by simp

lemma on_wire_keeps: "on_wire ue now seg b c frame c' \<Longrightarrow> \<exists>n. c' = c\<lparr>bc_implicitNonce := n\<rparr>"
  unfolding on_wire_def sealed_def by (fastforce dest!: Decrypt_keeps_to split: if_splits)

lemma one_message:
  assumes "stream_sync ue pat s r" "delivery_ok pat x" "segment_ok seg"
  obtains c fs n frame k rc c0 m where "stream_send ue s (x, seg) = (written s c fs n, Inr frame)"
    "stream_recv ue r frame = (consumed r [] (c0\<lparr>bc_implicitNonce := m\<rparr>) k rc, Inr (message seg))"
    "next_recv r = Some c0" "stream_sync ue pat (written s c fs n) (consumed r [] (c0\<lparr>bc_implicitNonce := m\<rparr>) k rc)"
proof -
  obtain d now now' jit where x: "x = (d, now, now', jit)" by (metis prod_cases4)
  obtain c0 c1 where s: "float_env_ok (ue_fe ue)" "su_writeErr s = None" "su_in r = []"
      "maybeInitSendBlockCipher s = (s\<lparr>su_send := Some c0\<rparr>, Inr ())" "next_recv r = Some c1"
      "in_step ue pat c0 c1" "fresh_nonce c0 \<longleftrightarrow> su_recv r = None"
    using assms(1) by (auto simp: stream_sync_def)
  obtain c r' fs n where w: "stream_writeOneSegment ue d now s seg = (written s c fs n, Inr ())"
      "on_wire ue now seg c0 c1 (concat fs) r'" "in_step ue pat c r'" "\<not> fresh_nonce c"
    by (rule stream_write_ok [OF s(1,2,4,6) assms(2) [unfolded x] assms(3)])
  let ?r = "r\<lparr>su_in := su_in r @ concat fs\<rparr>"
  obtain k rc seg' where r: "stream_readOneSegment ue jit now' ?r = (consumed ?r [] r' k rc, Inr (Some seg'))"
      "message seg' = message seg"
    by (rule stream_read_ok [OF assms(3) assms(2) [unfolded x] _ w(2), of ?r "[]"])
      (use s in simp_all)
  obtain m where m: "r' = c1\<lparr>bc_implicitNonce := m\<rparr>" using on_wire_keeps [OF w(2)] by blast
  have cons: "consumed ?r [] r' k rc = consumed r [] r' k rc" by (simp add: consumed_def)
  show ?thesis
  proof (rule that [of c fs n "(concat fs, now', jit)" m c1 k rc])
    show "stream_send ue s (x, seg) = (written s c fs n, Inr (concat fs, now', jit))"
      by (simp add: stream_send_def x w(1))
    show "stream_recv ue r (concat fs, now', jit) = (consumed r [] (c1\<lparr>bc_implicitNonce := m\<rparr>) k rc, Inr (message seg))"
      using r cons m by (simp add: stream_recv_def)
    show "stream_sync ue pat (written s c fs n) (consumed r [] (c1\<lparr>bc_implicitNonce := m\<rparr>) k rc)"
      using s(1,2) w(3,4) m by (auto simp: stream_sync_def next_recv_def intro!: exI [of _ c])
  qed (rule s(5))
qed

text \<open>The other direction does not notice.\<close>

lemma Clone_nonce:
  "Clone c = Inr d \<Longrightarrow> Clone (c\<lparr>bc_implicitNonce := m\<rparr>) = Inr (d\<lparr>bc_implicitNonce := m\<rparr>)"
  by (auto simp: Clone_def split: if_splits sum.splits)

lemma su_send_inject [simp]: "(r\<lparr>su_send := x\<rparr> = r\<lparr>su_send := y\<rparr>) = (x = y)"
  by (metis streamUnderlay.select_convs(1) streamUnderlay.surjective streamUnderlay.update_convs(1))

lemma maybeInit_consumed:
  assumes "maybeInitSendBlockCipher r = (r\<lparr>su_send := Some d\<rparr>, Inr ())" "next_recv r = Some c0"
  shows "maybeInitSendBlockCipher (consumed r [] (c0\<lparr>bc_implicitNonce := m\<rparr>) k rc)
     = ((consumed r [] (c0\<lparr>bc_implicitNonce := m\<rparr>) k rc)\<lparr>su_send := Some d\<rparr>, Inr ())"
proof (cases "su_send r")
  case (Some e)
  with assms(1) have "r\<lparr>su_send := Some e\<rparr> = r\<lparr>su_send := Some d\<rparr>" by (simp add: maybeInitSendBlockCipher_def)
  with Some have "su_send r = Some d" by simp
  then show ?thesis by (simp add: maybeInitSendBlockCipher_def consumed_def)
next
  case None
  show ?thesis
  proof (cases "bu_isClient r")
    case True
    with None assms(1) show ?thesis
      by (auto simp: maybeInitSendBlockCipher_def consumed_def split: option.splits sum.splits)
  next
    case False
    with assms(2) have c0: "su_recv r = Some c0" by (auto simp: next_recv_def split: option.splits)
    with False None assms(1) obtain e where "Clone c0 = Inr e" "d = SetImplicitNonceMode True (SetImplicitNonceMode False e)"
      by (auto simp: maybeInitSendBlockCipher_def Let_def split: sum.splits)
    with False None Clone_nonce [of c0 e m] show ?thesis
      by (simp add: maybeInitSendBlockCipher_def consumed_def SetImplicitNonceMode_def)
  qed
qed

lemma other_direction:
  assumes "stream_sync ue pat' r s" "next_recv r = Some c0"
  shows "stream_sync ue pat' (consumed r [] (c0\<lparr>bc_implicitNonce := m\<rparr>) k rc) (written s c fs n)"
proof -
  obtain d where "maybeInitSendBlockCipher r = (r\<lparr>su_send := Some d\<rparr>, Inr ())"
      "\<exists>c'. next_recv s = Some c' \<and> in_step ue pat' d c' \<and> (fresh_nonce d \<longleftrightarrow> su_recv s = None)"
    using assms(1) by (auto simp: stream_sync_def)
  with assms maybeInit_consumed [of r d c0 m k rc] show ?thesis
    by (auto simp: stream_sync_def consumed_def)
qed

text \<open>Both directions of a connection.\<close>

definition connected ::
    "uenv \<Rightarrow> noncePattern option \<Rightarrow> noncePattern option \<Rightarrow> 't streamUnderlay \<Rightarrow> 'u streamUnderlay \<Rightarrow> bool" where
  "connected ue pat pat' s r \<longleftrightarrow> stream_sync ue pat s r \<and> stream_sync ue pat' r s"

interpretation stream_channel: channel "stream_send ue" "stream_recv ue" "connected ue pat pat'"
    "\<lambda>x. delivery_ok pat (fst x) \<and> segment_ok (snd x)" message for ue pat pat'
proof
  fix s :: "'a streamUnderlay" and r :: "'b streamUnderlay" and x
  assume "connected ue pat pat' s r" and "delivery_ok pat (fst x) \<and> segment_ok (snd x)"
  then have c: "stream_sync ue pat s r" "stream_sync ue pat' r s" "delivery_ok pat (fst x)" "segment_ok (snd x)"
    by (simp_all add: connected_def)
  from c(1,3,4) obtain c fs n frame k rc c0 m where
    m: "stream_send ue s (fst x, snd x) = (written s c fs n, Inr frame)"
      "stream_recv ue r frame = (consumed r [] (c0\<lparr>bc_implicitNonce := m\<rparr>) k rc, Inr (message (snd x)))"
      "next_recv r = Some c0" "stream_sync ue pat (written s c fs n) (consumed r [] (c0\<lparr>bc_implicitNonce := m\<rparr>) k rc)"
    by (rule one_message)
  then show "\<exists>s' r' f. stream_send ue s x = (s', Inr f) \<and> stream_recv ue r f = (r', Inr (message (snd x)))
      \<and> connected ue pat pat' s' r'"
    using other_direction [OF c(2) m(3)] unfolding connected_def prod.collapse by blast
qed

section \<open>Properties\<close>

text \<open>
  C36. Fragmented or not, a write ends and puts exactly the data on the stream, in order: the loop over
  the fragments takes at most one round per byte, no fragment is empty, and every fragment but the
  last is longer than the square root of the length of the data, so there are few of them.
\<close>

theorem fragments_reassemble:
  assumes "float_env_ok fe" "\<forall>i. \<forall>n > 0. 0 \<le> frag i n \<and> frag i n < n" "su_writeErr t = None"
  shows "\<exists>fs. writeWithPossibleFragment fe frag t b = (t\<lparr>su_out := su_out t @ fs\<rparr>, Inr ())
     \<and> concat fs = b \<and> (b \<noteq> [] \<longrightarrow> [] \<notin> set fs)
     \<and> (\<forall>f \<in> set (butlast fs). trunc_real (fe_f64 fe (sqrt (of_nat (length b)))) + 1 \<le> int (length f))"
  by (rule write_fragments_ok [OF assms])

theorem fragments_reassemble_witness:
  "\<exists>fs. writeWithPossibleFragment some_env (\<lambda>_ _. 0) (some_server []\<lparr>bu_trafficPattern :=
         Some \<lparr>tp_tcpFragment = Some \<lparr>tf_enable = True, tf_maxSleepMs = 1\<rparr>, tp_nonce = None\<rparr>\<rparr>) [1, 2, 3, 4]
     = (some_server []\<lparr>bu_trafficPattern :=
         Some \<lparr>tp_tcpFragment = Some \<lparr>tf_enable = True, tf_maxSleepMs = 1\<rparr>, tp_nonce = None\<rparr>, su_out := fs\<rparr>, Inr ())
     \<and> concat fs = [1, 2, 3, 4] \<and> [] \<notin> set fs"
  using fragments_reassemble [OF some_env_ok, of "\<lambda>_ _. 0" "some_server []\<lparr>bu_trafficPattern :=
      Some \<lparr>tp_tcpFragment = Some \<lparr>tf_enable = True, tf_maxSleepMs = 1\<rparr>, tp_nonce = None\<rparr>\<rparr>" "[1, 2, 3, 4]"]
  by (auto simp: some_server_defs)

end
