(* ===== verification/StreamConversation.thy ===== *)
theory StreamConversation
  imports StreamChannel
begin

text \<open>
  A connection from its first message on: the server finds the user of a new client, and after that
  both sides read what the other side writes.
\<close>

section \<open>The first message\<close>

definition user_keys :: "kdf \<Rightarrow> user list \<Rightarrow> bytes set" where
  "user_keys kdf us = {kdf pw salt KeyIter DefaultKeyLen | pw salt. \<exists>u \<in> set us. user_password u = Some pw}"

lemma user_password_nonempty: "user_password u = Some pw \<Longrightarrow> pw \<noteq> []"
  by (auto simp: user_password_def HashPassword_def split: option.splits list.splits dest!: arg_cong [of _ _ length])

lemma hint_users_ok:
  assumes "list_all (\<lambda>u. ur_name u \<noteq> []) us" "length n = 24"
  shows "\<exists>hs. hint_users n us = Inr hs \<and> set hs \<subseteq> set us
     \<and> (\<forall>u \<in> set us. CheckUserFromHint (string_bytes (ur_name u)) n = Inr True \<longrightarrow> u \<in> set hs)"
  using assms(1)
proof (induction us)
  case (Cons u us)
  have "\<exists>b. CheckUserFromHint (string_bytes (ur_name u)) n = Inr b"
    using Cons.prems assms(2) by (simp add: CheckUserFromHint_def cipher_consts string_bytes_def Let_def)
  with Cons show ?case by fastforce
qed simp

lemma try_users_ok:
  assumes ae: "aead_ok ae" "kdf_ok kdf" "authentic ae K" "k \<in> K" "length k = 32" "length n = 24"
    and ue: "ue_aead ue = ae" "ue_kdf ue = kdf" "\<forall>i. 0 \<le> jit i"
    and "user_keys kdf us \<subseteq> K" "cache_ok kdf now cache"
    and "u \<in> set us" "user_password u = Some pw" "k = keys_at kdf pw t ! 1" "\<bar>t - now\<bar> \<le> 90 * 1000000000"
  shows "\<exists>cache' c v. try_users ue jit now (n @ ae_Seal ae k n p) i us cache = (cache', Some (c, p, ur_name v))
     \<and> v \<in> set us \<and> bc_key c = k \<and> fresh_cipher True c \<and> cache_ok kdf now cache'"
  using assms(10-12)
proof (induction us arbitrary: i cache)
  case (Cons v us)
  show ?case
  proof (cases "user_password v")
    case None
    with assms(13) Cons.prems(3) have "u \<in> set us" by auto
    moreover have "user_keys kdf us \<subseteq> K" using Cons.prems(1) by (fastforce simp: user_keys_def)
    ultimately show ?thesis using Cons.IH [of cache i] Cons.prems(2) None by auto
  next
    case (Some q)
    have q: "q \<noteq> []" "range (\<lambda>salt. kdf q salt KeyIter DefaultKeyLen) \<subseteq> K"
      using user_password_nonempty [OF Some] Cons.prems(1) Some by (auto simp: user_keys_def)
    obtain cache1 r where td: "TryDecrypt ae kdf cache (jit i) now (n @ ae_Seal ae k n p) q True = (cache1, r)"
      by fastforce
    note tm = TryDecrypt_message [OF ae(1,2) q(1) Cons.prems(2) _ ae(3) q(2) ae(4-6) td]
    have j: "0 \<le> jit i" using ue(3) by simp
    show ?thesis
    proof (cases r)
      case (Inr a)
      then obtain c p' where r: "r = Inr (c, p')" by (cases a) simp
      with tm(1) [OF j] tm(2) [OF j r] td ue(1,2) Some show ?thesis by auto
    next
      case (Inl e)
      have "v \<noteq> u" using tm(3) [OF j, of t] assms(13-15) Some Inl by auto
      with Cons.prems(3) have "u \<in> set us" by simp
      moreover have "user_keys kdf us \<subseteq> K" using Cons.prems(1) by (fastforce simp: user_keys_def)
      ultimately show ?thesis using Cons.IH [of cache1 "Suc i"] tm(1) [OF j] td ue(1,2) Some Inl by auto
    qed
  qed
qed simp

text \<open>
  The cipher of a new client: derived from the password of one of the server's users, carrying the
  name of the user.
\<close>

definition user_cipher :: "uenv \<Rightarrow> user list \<Rightarrow> int \<Rightarrow> aeadBlockCipher \<Rightarrow> bool" where
  "user_cipher ue us now c \<longleftrightarrow> length (bc_key c) = 32
     \<and> (\<exists>u pw t. u \<in> set us \<and> user_password u = Some pw \<and> bc_userName c = ur_name u
          \<and> bc_key c = keys_at (ue_kdf ue) pw t ! 1 \<and> \<bar>t - now\<bar> \<le> 90 * 1000000000)"

definition client_cipher :: "uenv \<Rightarrow> user list \<Rightarrow> int \<Rightarrow> aeadBlockCipher \<Rightarrow> bool" where
  "client_cipher ue us now c \<longleftrightarrow> fresh_cipher False c \<and> user_cipher ue us now c"

text \<open>
  The users of a server have names, no message of one of them opens with the key of another, and the
  cache of ciphers is as the program left it.
\<close>

definition users_ok :: "uenv \<Rightarrow> int \<Rightarrow> user list \<Rightarrow> cipher_cache \<Rightarrow> bool" where
  "users_ok ue now us cache \<longleftrightarrow> aead_ok (ue_aead ue) \<and> kdf_ok (ue_kdf ue)
     \<and> authentic (ue_aead ue) (user_keys (ue_kdf ue) us)
     \<and> list_all (\<lambda>u. ur_name u \<noteq> []) us \<and> cache_ok (ue_kdf ue) now cache"

definition server_ok :: "uenv \<Rightarrow> int \<Rightarrow> 't streamUnderlay \<Rightarrow> bool" where
  "server_ok ue now t \<longleftrightarrow> users_ok ue now (su_users t) (su_blockCipherCache t) \<and> float_env_ok (ue_fe ue)
     \<and> \<not> bu_isClient t \<and> su_recv t = None \<and> su_send t = None \<and> su_in t = [] \<and> su_writeErr t = None
     \<and> (\<exists>p. bu_trafficPattern t = Some p \<and> (\<forall>q. tp_nonce p = Some q \<longrightarrow> pattern_ok q))"

definition nonce_pattern :: "'t streamUnderlay \<Rightarrow> noncePattern option" where
  "nonce_pattern t = (case bu_trafficPattern t of None \<Rightarrow> None | Some p \<Rightarrow> tp_nonce p)"

lemma user_cipher_key:
  assumes "user_cipher ue us now c"
  shows "bc_key c \<in> user_keys (ue_kdf ue) us"
proof -
  obtain u pw t0 where u: "u \<in> set us" "user_password u = Some pw" "bc_key c = keys_at (ue_kdf ue) pw t0 ! 1"
    using assms by (auto simp: user_cipher_def)
  have "length (keys_at (ue_kdf ue) pw t0) = 3" by (simp add: keys_at_def saltFromTime_def Let_def)
  then have "bc_key c \<in> set (keys_at (ue_kdf ue) pw t0)" unfolding u(3) by (simp add: nth_mem)
  then show ?thesis using u(1,2) by (auto simp: user_keys_def keys_at_def)
qed

lemma match_user_ok:
  assumes "users_ok ue now us cache0" "user_cipher ue us now c" "hinted ue c em m" "\<forall>i. 0 \<le> jit i"
  obtains cache b v where "match_user ue jit now us hint em cache0 = (cache, Inr (Some (b, m, ur_name v)))"
    "v \<in> set us" "bc_key b = bc_key c" "fresh_cipher True b"
proof -
  let ?kdf = "ue_kdf ue" and ?ae = "ue_aead ue"
  obtain u pw t0 where u: "u \<in> set us" "user_password u = Some pw" "bc_userName c = ur_name u"
      "bc_key c = keys_at ?kdf pw t0 ! 1" "\<bar>t0 - now\<bar> \<le> 90 * 1000000000" "length (bc_key c) = 32"
    using assms(2) by (auto simp: user_cipher_def)
  obtain n where n: "em = n @ ae_Seal ?ae (bc_key c) n m" "length n = 24"
      "bc_userName c \<noteq> [] \<longrightarrow> CheckUserFromHint (string_bytes (bc_userName c)) n = Inr True"
    using assms(3) by (auto simp: hinted_def)
  have s: "aead_ok ?ae" "kdf_ok ?kdf" "authentic ?ae (user_keys ?kdf us)" "list_all (\<lambda>u. ur_name u \<noteq> []) us"
      "cache_ok ?kdf now cache0" using assms(1) by (simp_all add: users_ok_def)
  obtain hs where hs: "hint_users n us = Inr hs" "set hs \<subseteq> set us" "u \<in> set hs"
    using hint_users_ok [OF s(4) n(2)] u(1,3) n(3) s(4) by (auto simp: list_all_iff)
  note k = user_cipher_key [OF assms(2)]
  have sub: "user_keys ?kdf hs \<subseteq> user_keys ?kdf us" using hs(2) by (auto simp: user_keys_def)
  obtain cache b v where "try_users ue jit now em 0 hs cache0 = (cache, Some (b, m, ur_name v))"
      "v \<in> set hs" "bc_key b = bc_key c" "fresh_cipher True b"
    using try_users_ok [OF s(1-3) k u(6) n(2) refl refl assms(4) sub s(5) hs(3) u(2,4,5), of m 0] unfolding n(1) by blast
  with hs n(1,2) show ?thesis by (intro that [of cache b v]) (auto simp: match_user_def DefaultNonceSize_def)
qed

text \<open>The cipher that the server sets up for a matched user.\<close>

definition matched_cipher :: "'t streamUnderlay \<Rightarrow> aeadBlockCipher \<Rightarrow> string \<Rightarrow> aeadBlockCipher" where
  "matched_cipher t b name =
     (let c = SetBlockContext name (b\<lparr>bc_noncePatternApplied := False\<rparr>);
          c = (case bu_trafficPattern t of None \<Rightarrow> c | Some p \<Rightarrow> SetNoncePattern (tp_nonce p) c)
      in SetImplicitNonceMode True c)"

lemma serverInit_ok:
  assumes "su_recv t = None" "fresh_cipher True b"
    and "match_user ue jit now (su_users t) (su_userHintIsMandatory t) em (su_blockCipherCache t) = (cache, Inr (Some (b, m, name)))"
    and "Decrypt (ue_aead ue) (matched_cipher t b name) em = (c1, Inr m')"
  shows "serverInitRecvBlockCipherAndDecryptMetadata ue jit now em t
     = (t\<lparr>su_blockCipherCache := cache, su_recv := Some c1\<rparr>, Inr m')"
proof -
  have "Clone b = Inr (b\<lparr>bc_noncePatternApplied := False\<rparr>)"
    using assms(2) by (intro Clone_stateless) (simp add: fresh_cipher_def stateless_cipher_def)
  with assms(1,3,4) show ?thesis
    by (simp add: serverInitRecvBlockCipherAndDecryptMetadata_def matched_cipher_def Let_def)
qed

lemma Decrypt_agree:
  assumes "bc_key a = bc_key b" "bc_enableImplicitNonce a = bc_enableImplicitNonce b" "bc_implicitNonce a = bc_implicitNonce b"
    and "Decrypt ae a x = (a', r)"
  shows "Decrypt ae b x = (b\<lparr>bc_implicitNonce := bc_implicitNonce a'\<rparr>, r)"
  using assms by (auto simp: Decrypt_def increaseNonce_def Let_def split: if_splits)

lemma on_wire_agree:
  assumes "on_wire ue now seg b r frame r'" "bc_key r = bc_key q"
    and "bc_enableImplicitNonce r = bc_enableImplicitNonce q" "bc_implicitNonce r = bc_implicitNonce q"
  shows "on_wire ue now seg b q frame (q\<lparr>bc_implicitNonce := bc_implicitNonce r'\<rparr>)"
proof -
  obtain em pad1 ep pad2 r1 where w: "frame = em @ pad1 @ ep @ pad2" "length pad1 < 256" "length pad2 < 256"
      "case seg_metadata seg of Session_md _ \<Rightarrow> pad1 = [] | _ \<Rightarrow> True"
      "length em = MetadataLength + (if fresh_nonce b then 40 else 16)"
      "fresh_nonce b \<longrightarrow> hinted ue b em (marshalled (padded (seg_metadata seg) pad1 pad2) now)"
      "Decrypt (ue_aead ue) r em = (r1, Inr (marshalled (padded (seg_metadata seg) pad1 pad2) now))"
      "sealed ue (seg_payload seg) r1 ep r'"
    using assms(1) unfolding on_wire_def by blast
  let ?q = "q\<lparr>bc_implicitNonce := bc_implicitNonce r1\<rparr>"
  obtain n where r1: "r1 = r\<lparr>bc_implicitNonce := n\<rparr>" using Decrypt_keeps_to [OF w(7)] by blast
  have "sealed ue (seg_payload seg) ?q ep (q\<lparr>bc_implicitNonce := bc_implicitNonce r'\<rparr>)"
    using w(8) Decrypt_agree [of r1 ?q "ue_aead ue" ep r'] assms(2,3) r1 by (auto simp: sealed_def)
  moreover note Decrypt_agree [OF assms(2-4) w(7)]
  ultimately show ?thesis unfolding on_wire_def using w(1-6) by blast
qed

lemma matched_cipher_fields:
  assumes "fresh_cipher True b"
  shows "bc_key (matched_cipher t b name) = bc_key b" "bc_enableImplicitNonce (matched_cipher t b name)"
    "bc_implicitNonce (matched_cipher t b name) = []" "bc_aeadType (matched_cipher t b name) = XChaCha20Poly1305"
    "bu_trafficPattern t = Some p \<Longrightarrow> bc_noncePattern (matched_cipher t b name) = tp_nonce p"
  using assms
  by (auto simp: matched_cipher_def SetBlockContext_def SetNoncePattern_def SetImplicitNonceMode_def Let_def
      fresh_cipher_def split: option.split)

lemma Clone_fresh:
  "fresh_cipher stateless c \<Longrightarrow> Clone c = Inr (c\<lparr>bc_noncePatternApplied := False\<rparr>)"
  by (simp add: Clone_def newXChaCha20Poly1305BlockCipher_def fresh_cipher_def cipher_ok_def)

text \<open>A server reads the first message.\<close>

lemma server_reads_first:
  assumes "server_ok ue now' t" "client_cipher ue (su_users t) now' blk" "delivery_ok pat (d, now, now', jit)" "segment_ok seg"
    and "b = blk\<lparr>bc_noncePatternApplied := False\<rparr>" "on_wire ue now seg b b frame b'"
    and "\<not> snd (IsDuplicate (su_streamReplayCache t) (take DefaultOverhead frame) EmptyTag now')"
  obtains t' c k rc cache q v where "stream_recv ue t (frame, now', jit) = (t', Inr (message seg))"
    "t' = (consumed t [] (c\<lparr>bc_implicitNonce := bc_implicitNonce b'\<rparr>) k rc)\<lparr>su_blockCipherCache := cache\<rparr>"
    "c = matched_cipher t q (ur_name v)" "v \<in> set (su_users t)" "fresh_cipher True q" "bc_key q = bc_key blk"
proof -
  have jit: "\<forall>i. 0 \<le> jit i" using assms(3) by (simp add: delivery_ok_def)
  have b: "fresh_nonce b" "bc_key b = bc_key blk" "bc_enableImplicitNonce b" "user_cipher ue (su_users t) now' b"
    using assms(2,5) by (auto simp: client_cipher_def user_cipher_def fresh_cipher_def fresh_nonce_def cipher_ok_def)
  have us: "users_ok ue now' (su_users t) (su_blockCipherCache t)" using assms(1) by (simp add: server_ok_def)
  obtain em m r1 where em: "take 72 frame = em" "length em = 72" "hinted ue b em m" "Decrypt (ue_aead ue) b em = (r1, Inr m)"
    using assms(6) b(1) unfolding on_wire_def by (auto simp: MetadataLength_def)
  obtain cache q v where q: "match_user ue jit now' (su_users t) (su_userHintIsMandatory t) em (su_blockCipherCache t)
      = (cache, Inr (Some (q, m, ur_name v)))" "v \<in> set (su_users t)" "bc_key q = bc_key b" "fresh_cipher True q"
    by (rule match_user_ok [OF us b(4) em(3) jit])
  let ?c = "matched_cipher t q (ur_name v)" and ?t = "t\<lparr>su_in := frame\<rparr>"
  note cf = matched_cipher_fields [OF q(4), where t = t and name = "ur_name v"]
  have w: "on_wire ue now seg b ?c frame (?c\<lparr>bc_implicitNonce := bc_implicitNonce b'\<rparr>)"
    using b q(3) cf by (intro on_wire_agree [OF assms(6)]) (simp_all add: fresh_nonce_def)
  let ?u = "\<lambda>x k rc c1. (consumed t x c1 k rc)\<lparr>su_blockCipherCache := cache\<rparr>"
  have dm: "decrypt_metadata ue jit now' (dup \<and> su_recv ?t = None) em' (?t\<lparr>su_in := x, bu_inBytes := k, su_streamReplayCache := rc\<rparr>)
      = (?u x k rc c1, Inr m')"
    if "take (length em') frame = em'" "length em' = MetadataLength + (if su_recv ?t = None then 40 else 16)"
      "Decrypt (ue_aead ue) ?c em' = (c1, Inr m')"
      "IsDuplicate (su_streamReplayCache ?t) (take DefaultOverhead em') EmptyTag now' = (rc, dup)"
    for em' c1 m' k rc dup x
  proof -
    have s: "su_recv t = None" "\<not> bu_isClient t" using assms(1) by (simp_all add: server_ok_def)
    then have em': "em' = em" using that(1,2) em(1) by (simp add: MetadataLength_def)
    then have "take DefaultOverhead em' = take DefaultOverhead frame"
      using em(1) by (auto simp: DefaultOverhead_def min_def)
    then have "\<not> dup" using that(4) assms(7) by simp
    let ?s = "t\<lparr>su_in := x, bu_inBytes := k, su_streamReplayCache := rc\<rparr>"
    have "matched_cipher ?s q (ur_name v) = ?c" by (simp add: matched_cipher_def)
    with serverInit_ok [of ?s q ue jit now' em cache m "ur_name v" c1 m'] s q(1,4) that(3) em'
    have "serverInitRecvBlockCipherAndDecryptMetadata ue jit now' em ?s
      = (?s\<lparr>su_blockCipherCache := cache, su_recv := Some c1\<rparr>, Inr m')" by simp
    with s em' \<open>\<not> dup\<close> show ?thesis by (simp add: decrypt_metadata_def Let_def consumed_def)
  qed
  have fr: "fresh_nonce b \<longleftrightarrow> su_recv ?t = None" using b(1) assms(1) by (simp add: server_ok_def)
  obtain x k rc c1 k' rc' seg' where
    r: "stream_readOneSegment ue jit now' ?t = (consumed (?u x k rc c1) [] (?c\<lparr>bc_implicitNonce := bc_implicitNonce b'\<rparr>) k' rc', Inr (Some seg'))"
      "message seg' = message seg"
    by (rule read_after_metadata [where u = ?u and t = ?t and rest = "[]", OF assms(4,3) w _ fr dm])
      (simp_all add: consumed_def)
  show ?thesis
  proof (rule that [of _ cache ?c k' rc' q v])
    show "stream_recv ue t (frame, now', jit) = (consumed t [] (?c\<lparr>bc_implicitNonce := bc_implicitNonce b'\<rparr>) k' rc'
        \<lparr>su_blockCipherCache := cache\<rparr>, Inr (message seg))"
      using r assms(1) by (simp add: stream_recv_def server_ok_def consumed_def)
  qed (use q b in simp_all)
qed

text \<open>A client that has just dialled.\<close>

definition client_ok :: "'t streamUnderlay \<Rightarrow> aeadBlockCipher \<Rightarrow> bool" where
  "client_ok s blk \<longleftrightarrow> bu_isClient s \<and> su_block s = Some blk \<and> su_send s = None \<and> su_recv s = None
     \<and> su_in s = [] \<and> su_writeErr s = None"

lemma matched_in_step:
  assumes "server_ok ue now r" "fresh_cipher True q" "bc_key q = bc_key blk" "fresh_cipher False blk"
    and "c = matched_cipher r q name" "b = blk\<lparr>bc_noncePatternApplied := False\<rparr>"
  obtains d where "\<forall>n. Clone (c\<lparr>bc_implicitNonce := n\<rparr>) = Inr (d\<lparr>bc_implicitNonce := n\<rparr>)"
    "in_step ue (nonce_pattern r) (SetImplicitNonceMode True (SetImplicitNonceMode False d)) b"
    "fresh_nonce (SetImplicitNonceMode True (SetImplicitNonceMode False d))"
proof -
  obtain p where p: "bu_trafficPattern r = Some p" "\<And>x. tp_nonce p = Some x \<Longrightarrow> pattern_ok x" "aead_ok (ue_aead ue)"
    using assms(1) by (auto simp: server_ok_def users_ok_def)
  note cf = matched_cipher_fields [OF assms(2), where t = r and name = name, folded assms(5)]
  let ?d = "c\<lparr>bc_noncePatternApplied := False\<rparr>"
  have "length (bc_key c) = 32" using assms(2) cf(1) by (simp add: fresh_cipher_def cipher_ok_def)
  then have "\<forall>n. Clone (c\<lparr>bc_implicitNonce := n\<rparr>) = Inr (?d\<lparr>bc_implicitNonce := n\<rparr>)"
    using cf(4) by (simp add: Clone_def newXChaCha20Poly1305BlockCipher_def)
  moreover have "in_step ue (nonce_pattern r) (SetImplicitNonceMode True (SetImplicitNonceMode False ?d)) b"
    using p cf assms(3,4,6)
    by (auto simp: in_step_def cipher_sync_def SetImplicitNonceMode_def cipher_ok_def fresh_cipher_def nonce_pattern_def)
  moreover have "fresh_nonce (SetImplicitNonceMode True (SetImplicitNonceMode False ?d))"
    by (simp add: fresh_nonce_def SetImplicitNonceMode_def)
  ultimately show ?thesis by (rule that)
qed

lemma first_message:
  assumes "server_ok ue now' r" "client_ok s blk" "client_cipher ue (su_users r) now' blk"
    and "delivery_ok (bc_noncePattern blk) (d, now, now', jit)" "segment_ok seg"
  obtains s' frame where "stream_send ue s ((d, now, now', jit), seg) = (s', Inr (frame, now', jit))"
    "\<not> snd (IsDuplicate (su_streamReplayCache r) (take DefaultOverhead frame) EmptyTag now') \<longrightarrow>
       (\<exists>r'. stream_recv ue r (frame, now', jit) = (r', Inr (message seg))
          \<and> connected ue (bc_noncePattern blk) (nonce_pattern r) s' r')"
proof -
  let ?b = "blk\<lparr>bc_noncePatternApplied := False\<rparr>" and ?pat = "bc_noncePattern blk"
  have blk: "fresh_cipher False blk" using assms(3) by (simp add: client_cipher_def)
  have c: "bu_isClient s" "su_block s = Some blk" "su_send s = None" "su_recv s = None" "su_in s = []" "su_writeErr s = None"
    using assms(2) by (simp_all add: client_ok_def)
  have sv: "aead_ok (ue_aead ue)" "float_env_ok (ue_fe ue)" "su_writeErr r = None" "\<not> bu_isClient r" "su_send r = None"
    using assms(1) by (simp_all add: server_ok_def users_ok_def)
  have init: "maybeInitSendBlockCipher s = (s\<lparr>su_send := Some ?b\<rparr>, Inr ())"
    using c Clone_fresh [OF blk] by (simp add: maybeInitSendBlockCipher_def)
  have nr: "next_recv s = Some ?b" using c Clone_fresh [OF blk] by (simp add: next_recv_def)
  have b: "in_step ue ?pat ?b ?b"
    using blk sv(1) by (auto simp: in_step_def cipher_sync_def fresh_cipher_def cipher_ok_def)
  obtain c' b' fs n where w: "stream_writeOneSegment ue d now s seg = (written s c' fs n, Inr ())"
      "on_wire ue now seg ?b ?b (concat fs) b'" "in_step ue ?pat c' b'" "\<not> fresh_nonce c'"
    by (rule stream_write_ok [OF sv(2) c(6) init b assms(4,5)])
  show ?thesis
  proof (rule that [of "written s c' fs n" "concat fs"])
    show "stream_send ue s ((d, now, now', jit), seg) = (written s c' fs n, Inr (concat fs, now', jit))"
      by (simp add: stream_send_def w(1))
    show "\<not> snd (IsDuplicate (su_streamReplayCache r) (take DefaultOverhead (concat fs)) EmptyTag now') \<longrightarrow>
       (\<exists>r'. stream_recv ue r (concat fs, now', jit) = (r', Inr (message seg))
          \<and> connected ue ?pat (nonce_pattern r) (written s c' fs n) r')"
    proof
      assume "\<not> snd (IsDuplicate (su_streamReplayCache r) (take DefaultOverhead (concat fs)) EmptyTag now')"
      then obtain r' e k rc cache q v where r': "stream_recv ue r (concat fs, now', jit) = (r', Inr (message seg))"
          "r' = (consumed r [] (e\<lparr>bc_implicitNonce := bc_implicitNonce b'\<rparr>) k rc)\<lparr>su_blockCipherCache := cache\<rparr>"
          "e = matched_cipher r q (ur_name v)" "v \<in> set (su_users r)" "fresh_cipher True q" "bc_key q = bc_key blk"
        by (rule server_reads_first [OF assms(1,3,4,5) refl w(2)])
      obtain g where g: "\<forall>n. Clone (e\<lparr>bc_implicitNonce := n\<rparr>) = Inr (g\<lparr>bc_implicitNonce := n\<rparr>)"
          "in_step ue (nonce_pattern r) (SetImplicitNonceMode True (SetImplicitNonceMode False g)) ?b"
          "fresh_nonce (SetImplicitNonceMode True (SetImplicitNonceMode False g))"
        by (rule matched_in_step [OF assms(1) r'(5,6) blk r'(3) refl])
      let ?g = "SetImplicitNonceMode True (SetImplicitNonceMode False g)"
      have "maybeInitSendBlockCipher r' = (r'\<lparr>su_send := Some ?g\<rparr>, Inr ())"
        using sv(4,5) g(1) by (simp add: maybeInitSendBlockCipher_def r'(2) consumed_def SetImplicitNonceMode_def)
      moreover have "su_writeErr r' = None" using sv(3) by (simp add: r'(2) consumed_def)
      ultimately have "stream_sync ue (nonce_pattern r) r' (written s c' fs n)"
        using g(2,3) sv(2) c(4,5) nr by (auto simp: stream_sync_def)
      moreover have "in_step ue ?pat c' (e\<lparr>bc_implicitNonce := bc_implicitNonce b'\<rparr>)"
        using w(3) on_wire_keeps [OF w(2)] matched_cipher_fields [OF r'(5), where t = r and name = "ur_name v"] r'(3,6)
        by (auto simp: in_step_def cipher_sync_def)
      then have "stream_sync ue ?pat (written s c' fs n) r'"
        using w(4) sv(2) c(6) by (auto simp: stream_sync_def r'(2) next_recv_def consumed_def intro!: exI [of _ c'])
      ultimately show "\<exists>r'. stream_recv ue r (concat fs, now', jit) = (r', Inr (message seg))
          \<and> connected ue ?pat (nonce_pattern r) (written s c' fs n) r'"
        using r'(1) by (auto simp: connected_def)
    qed
  qed
qed

section \<open>A conversation\<close>

text \<open>
  The batches of a conversation: all segments of a batch are written before the other side reads them.
  \<open>True\<close> is the direction from the client to the server.
\<close>

definition transfer ::
    "uenv \<Rightarrow> 't streamUnderlay \<Rightarrow> 'u streamUnderlay \<Rightarrow> (delivery \<times> segment) list
      \<Rightarrow> ('t streamUnderlay \<times> 'u streamUnderlay \<times> (metadata \<times> bytes) list) result" where
  "transfer ue s r xs =
     (case run_all (stream_send ue) s xs of
        (_, Inl e) \<Rightarrow> Inl e
      | (s, Inr fs) \<Rightarrow>
          (case run_all (stream_recv ue) r fs of
             (_, Inl e) \<Rightarrow> Inl e
           | (r, Inr ms) \<Rightarrow> Inr (s, r, ms)))"

fun conversation ::
    "uenv \<Rightarrow> 't streamUnderlay \<Rightarrow> 'u streamUnderlay \<Rightarrow> (bool \<times> (delivery \<times> segment) list) list
      \<Rightarrow> (metadata \<times> bytes) list list result" where
  "conversation ue c s [] = Inr []"
| "conversation ue c s ((toServer, xs) # bs) =
     (case (if toServer then transfer ue c s xs
            else map_sum id (\<lambda>(s, c, ms). (c, s, ms)) (transfer ue s c xs)) of
        Inl e \<Rightarrow> Inl e
      | Inr (c, s, ms) \<Rightarrow>
          (case conversation ue c s bs of Inl e \<Rightarrow> Inl e | Inr mss \<Rightarrow> Inr (ms # mss)))"

lemma transfer_ok:
  assumes "connected ue pat pat' s r" "list_all (\<lambda>x. delivery_ok pat (fst x) \<and> segment_ok (snd x)) xs"
  obtains s' r' where "transfer ue s r xs = Inr (s', r', map (message \<circ> snd) xs)" "connected ue pat pat' s' r'"
  using stream_channel.messages [OF assms] that by (auto simp: transfer_def)

lemma connected_sym: "connected ue pat pat' s r \<longleftrightarrow> connected ue pat' pat r s"
  by (auto simp: connected_def)

lemma conversation_ok:
  assumes "connected ue pat pat' c s"
    and "list_all (\<lambda>(toServer, xs). list_all (\<lambda>x. delivery_ok (if toServer then pat else pat') (fst x)
      \<and> segment_ok (snd x)) xs) bs"
  shows "conversation ue c s bs = Inr (map (\<lambda>(toServer, xs). map (message \<circ> snd) xs) bs)"
  using assms
proof (induction bs arbitrary: c s)
  case (Cons b bs)
  obtain toServer xs where b: "b = (toServer, xs)" by fastforce
  show ?case
  proof (cases toServer)
    case True
    with Cons.prems b obtain c' s' where "transfer ue c s xs = Inr (c', s', map (message \<circ> snd) xs)"
        "connected ue pat pat' c' s'"
      using transfer_ok [OF Cons.prems(1), of xs thesis] by auto
    with True Cons b show ?thesis by auto
  next
    case False
    with Cons.prems b obtain c' s' where "transfer ue s c xs = Inr (s', c', map (message \<circ> snd) xs)"
        "connected ue pat' pat s' c'"
      using transfer_ok [of ue pat' pat s c xs thesis] connected_sym [of ue pat pat' c s] by auto
    with False Cons b connected_sym [of ue pat' pat s' c'] show ?thesis by auto
  qed
qed simp

section \<open>Replays\<close>

lemma SelectDecrypt_fresh:
  "list_all (fresh_cipher True) cs \<Longrightarrow> snd (SelectDecrypt ae b cs) = Inr (c, p) \<Longrightarrow> fresh_cipher True c"
proof (induction cs)
  case (Cons x cs)
  have "fst (Decrypt ae x b) = x" using Cons.prems(1) by (simp add: Decrypt_def fresh_cipher_def Let_def)
  with Cons show ?case by (auto split: prod.splits sum.splits)
qed simp

lemma try_users_fresh:
  assumes "kdf_ok (ue_kdf ue)" "\<forall>i. 0 \<le> jit i"
  shows "cache_ok (ue_kdf ue) now cache \<Longrightarrow> try_users ue jit now b i us cache = (cache', m)
    \<Longrightarrow> cache_ok (ue_kdf ue) now cache' \<and> (\<forall>c p v. m = Some (c, p, v) \<longrightarrow> fresh_cipher True c)"
proof (induction us arbitrary: i cache)
  case (Cons u us)
  show ?case
  proof (cases "user_password u")
    case (Some pw)
    obtain cs cache1 where g: "getBlockCipherList (ue_kdf ue) cache (jit i) now pw True = (cache1, Inr cs)"
        "list_all (fresh_cipher True) cs" "cache_ok (ue_kdf ue) now cache1"
      using getBlockCipherList_ok [OF assms(1) user_password_nonempty [OF Some] Cons.prems(1), of "jit i" True] assms(2)
      by (metis fst_conv)
    then have "TryDecrypt (ue_aead ue) (ue_kdf ue) cache (jit i) now b pw True
        = (cache1, snd (SelectDecrypt (ue_aead ue) b cs))" by (simp add: TryDecrypt_def)
    with Some Cons.prems(2) g(3) Cons.IH [OF g(3), of "Suc i"] SelectDecrypt_fresh [OF g(2), of "ue_aead ue" b] show ?thesis
      by (auto split: sum.splits)
  qed (use Cons in auto)
qed simp

text \<open>Looking for the user of a message always ends with an answer.\<close>

lemma match_user_total:
  assumes "users_ok ue now us cache0" "\<forall>i. 0 \<le> jit i" "24 \<le> length em"
  obtains cache m where "match_user ue jit now us hint em cache0 = (cache, Inr m)" "cache_ok (ue_kdf ue) now cache"
    "\<forall>b p v. m = Some (b, p, v) \<longrightarrow> fresh_cipher True b"
proof -
  have s: "kdf_ok (ue_kdf ue)" "list_all (\<lambda>u. ur_name u \<noteq> []) us" "cache_ok (ue_kdf ue) now cache0"
    using assms(1) by (simp_all add: users_ok_def)
  have "length (take DefaultNonceSize em) = 24" using assms(3) by (simp add: DefaultNonceSize_def)
  from hint_users_ok [OF s(2) this] obtain hs where hs: "hint_users (take DefaultNonceSize em) us = Inr hs" by blast
  obtain cache1 m1 where 1: "try_users ue jit now em 0 hs cache0 = (cache1, m1)" by fastforce
  note f1 = try_users_fresh [OF s(1) assms(2) s(3) 1]
  obtain cache2 m2 where 2: "try_users ue jit now em (length hs) us cache1 = (cache2, m2)" by fastforce
  note f2 = try_users_fresh [OF s(1) assms(2) conjunct1 [OF f1] 2]
  from 1 2 f1 f2 hs that show ?thesis
    by (cases m1; cases hint) (auto simp: match_user_def)
qed

lemma serverInit_frame:
  assumes "server_ok ue now u" "su_users t = su_users u" "su_blockCipherCache t = su_blockCipherCache u" "su_recv t = None"
    and "\<forall>i. 0 \<le> jit i" "24 \<le> length em"
  obtains cache c r where "serverInitRecvBlockCipherAndDecryptMetadata ue jit now em t
    = (t\<lparr>su_blockCipherCache := cache, su_recv := c\<rparr>, r)" "\<forall>m. r \<noteq> Inl (Panic m)"
proof -
  have us: "users_ok ue now (su_users t) (su_blockCipherCache t)" using assms(1-3) by (simp add: server_ok_def)
  obtain cache m where mu: "match_user ue jit now (su_users t) (su_userHintIsMandatory t) em (su_blockCipherCache t) = (cache, Inr m)"
      "cache_ok (ue_kdf ue) now cache" "\<forall>b p v. m = Some (b, p, v) \<longrightarrow> fresh_cipher True b"
    by (rule match_user_total [OF us assms(5,6)])
  show ?thesis
  proof (cases m)
    case None
    have "t = t\<lparr>su_recv := None\<rparr>" using assms(4) by simp
    with None mu assms(4) show ?thesis
      by (intro that [of None cache "Inl (Errorf ''cipher.TryDecrypt() failed for all users'')"])
        (simp_all add: serverInitRecvBlockCipherAndDecryptMetadata_def Let_def)
  next
    case (Some a)
    obtain b p name where a: "a = (b, p, name)" by (metis prod_cases3)
    have fb: "fresh_cipher True b" using mu(3) Some a by simp
    let ?c = "matched_cipher t b name"
    have mc: "matched_cipher (t\<lparr>su_blockCipherCache := cache\<rparr>) b name = ?c" by (simp add: matched_cipher_def)
    have "snd (Decrypt (ue_aead ue) ?c em) \<noteq> Inl (Panic e)" for e
      using matched_cipher_fields [OF fb, where t = t and name = name]
      by (simp add: Decrypt_def Let_def aead_open_result_def split: option.split)
    moreover obtain c1 r where d: "Decrypt (ue_aead ue) ?c em = (c1, r)" by fastforce
    ultimately have r: "r \<noteq> Inl (Panic e)" for e by simp
    have t: "t\<lparr>su_blockCipherCache := cache\<rparr> = t\<lparr>su_blockCipherCache := cache, su_recv := None\<rparr>" using assms(4) by simp
    have i: "serverInitRecvBlockCipherAndDecryptMetadata ue jit now em t =
        (case r of Inl (Panic m) \<Rightarrow> (t\<lparr>su_blockCipherCache := cache\<rparr>, Inl (Panic m))
         | Inl e \<Rightarrow> (t\<lparr>su_blockCipherCache := cache\<rparr>, Inl (Errorf ''stateful Decrypt() failed''))
         | Inr p \<Rightarrow> (t\<lparr>su_blockCipherCache := cache, su_recv := Some c1\<rparr>, Inr p))"
      using Some a mu d Clone_fresh [OF fb] assms(4)
      by (simp add: serverInitRecvBlockCipherAndDecryptMetadata_def matched_cipher_def Let_def)
    show ?thesis
    proof (cases r)
      case (Inr x)
      with i show ?thesis by (intro that [of "Some c1" cache r]) simp_all
    next
      case (Inl e)
      then have "e \<noteq> Panic x" for x using r by simp
      then have "serverInitRecvBlockCipherAndDecryptMetadata ue jit now em t
          = (t\<lparr>su_blockCipherCache := cache\<rparr>, Inl (Errorf ''stateful Decrypt() failed''))"
        using i Inl by (cases e) auto
      then show ?thesis
        by (intro that [of None cache "Inl (Errorf ''stateful Decrypt() failed'')"]) (simp_all add: t [symmetric])
    qed
  qed
qed

lemma replayed_first_read:
  assumes "server_ok ue now t" "\<forall>i. 0 \<le> jit i" "72 \<le> length frame"
    and "snd (IsDuplicate (su_streamReplayCache t) (take DefaultOverhead frame) EmptyTag now)"
    and "u = t\<lparr>su_in := frame\<rparr>"
  obtains u' e where "stream_readOneSegment ue jit now u = (u', Inl (REPLAY_ERROR, Errorf e))"
    "bu_sessionMap u' = bu_sessionMap t" "bu_readySessions u' = bu_readySessions t" "bu_done u' = bu_done t"
proof -
  let ?em = "take 72 frame"
  obtain rc where rc: "IsDuplicate (su_streamReplayCache t) (take DefaultOverhead ?em) EmptyTag now = (rc, True)"
  proof (cases "IsDuplicate (su_streamReplayCache t) (take DefaultOverhead frame) EmptyTag now")
    case (Pair a b)
    with assms(4) that [of a] show ?thesis by (simp add: DefaultOverhead_def)
  qed
  let ?u = "t\<lparr>su_in := drop 72 frame, bu_inBytes := bu_inBytes t + int (length ?em), su_streamReplayCache := rc\<rparr>"
  have sv: "su_recv t = None" "\<not> bu_isClient t" using assms(1) by (simp_all add: server_ok_def)
  have "su_recv ?u = None" "24 \<le> length ?em" "su_users ?u = su_users t" "su_blockCipherCache ?u = su_blockCipherCache t"
    using sv assms(3) by simp_all
  from serverInit_frame [OF assms(1) this(3,4,1) assms(2) this(2)] obtain cache c r where
    i: "serverInitRecvBlockCipherAndDecryptMetadata ue jit now ?em ?u = (?u\<lparr>su_blockCipherCache := cache, su_recv := c\<rparr>, r)"
      "\<forall>m. r \<noteq> Inl (Panic m)" by metis
  let ?v = "?u\<lparr>su_blockCipherCache := cache, su_recv := c\<rparr>"
  have "\<exists>e. decrypt_metadata ue jit now True ?em ?u = (?v, Inl (REPLAY_ERROR, Errorf e))"
  proof (cases r)
    case (Inl x)
    with i show ?thesis using sv by (cases x) (auto simp: decrypt_metadata_def WrapErrorWithType_def Let_def)
  qed (use i sv in \<open>simp add: decrypt_metadata_def WrapErrorWithType_def\<close>)
  then obtain e where e: "decrypt_metadata ue jit now True ?em ?u = (?v, Inl (REPLAY_ERROR, Errorf e))" ..
  have rf: "ReadFull 72 u = (t\<lparr>su_in := drop 72 frame\<rparr>, Inr ?em)"
    using assms(3,5) by (simp add: ReadFull_def)
  have "stream_readOneSegment ue jit now u = (?v, Inl (REPLAY_ERROR, Errorf e))"
    using sv rf rc e assms(5)
    by (simp add: stream_readOneSegment_def MetadataLength_def cipher_consts count_in_def stream_IsDuplicate_def)
  then show ?thesis by (rule that) simp_all
qed

section \<open>The ciphers of a new connection\<close>

lemma new_user_cipher:
  assumes "kdf_ok (ue_kdf ue)" "u \<in> set us" "user_password u = Some pw"
    and "cache_ok (ue_kdf ue) tc cache" "0 \<le> jc" "\<bar>tc - now\<bar> \<le> 60 * 1000000000"
    and "snd (BlockCipherFromPassword (ue_kdf ue) cache jc tc pw stateless) = Inr blk"
    and "\<forall>q. pat = Some q \<longrightarrow> pattern_ok q" "c = SetNoncePattern pat (SetBlockContext (ur_name u) blk)"
  shows "fresh_cipher stateless c" "user_cipher ue us now c"
proof -
  obtain b t where b: "snd (BlockCipherFromPassword (ue_kdf ue) cache jc tc pw stateless) = Inr b"
      "t \<le> tc" "tc \<le> t + cacheValidInterval" "bc_key b = keys_at (ue_kdf ue) pw t ! 1" "fresh_cipher stateless b"
    by (rule BlockCipherFromPassword_ok [OF assms(1) user_password_nonempty [OF assms(3)] assms(4,5)])
  then have "\<bar>t - now\<bar> \<le> 90 * 1000000000"
    using assms(6) by (simp add: cacheValidInterval_def KeyRefreshInterval_def)
  with b assms(2,3,7,8) show "fresh_cipher stateless c" "user_cipher ue us now c"
    by (auto simp: assms(9) user_cipher_def SetNoncePattern_def SetBlockContext_def fresh_cipher_def cipher_ok_def)
qed

section \<open>Properties\<close>

text \<open>
  C4. A client and a server that knows the client's user talk over a stream. If the clocks differ by at
  most a minute and the opening bytes are new to the replay cache, the server attributes the first
  message to the user's key, and from then on, in every conversation of batches in both
  directions, each side reads exactly the segments that the other side wrote, in order, whatever
  padding, nonces and fragment lengths are drawn.
\<close>

theorem stream_conversation:
  assumes "server_ok ue now' r" "u \<in> set (su_users r)" "user_password u = Some pw"
    and "cache_ok (ue_kdf ue) tc cache" "0 \<le> jc" "\<bar>tc - now'\<bar> \<le> 60 * 1000000000"
    and "snd (BlockCipherFromPassword (ue_kdf ue) cache jc tc pw False) = Inr blk"
    and "\<forall>q. pat = Some q \<longrightarrow> pattern_ok q"
    and "client_ok s (SetNoncePattern pat (SetBlockContext (ur_name u) blk))"
    and "delivery_ok pat (d, now, now', jit)" "segment_ok seg"
    and "\<forall>s' frame. stream_send ue s ((d, now, now', jit), seg) = (s', Inr (frame, now', jit)) \<longrightarrow>
      \<not> snd (IsDuplicate (su_streamReplayCache r) (take DefaultOverhead frame) EmptyTag now')"
    and "list_all (\<lambda>(toServer, xs). list_all (\<lambda>x. delivery_ok (if toServer then pat else nonce_pattern r) (fst x)
      \<and> segment_ok (snd x)) xs) batches"
  shows "conversation ue s r ((True, [((d, now, now', jit), seg)]) # batches)
     = Inr ([message seg] # map (\<lambda>(toServer, xs). map (message \<circ> snd) xs) batches)"
proof -
  let ?blk = "SetNoncePattern pat (SetBlockContext (ur_name u) blk)"
  have pat: "bc_noncePattern ?blk = pat" by (simp add: SetNoncePattern_def)
  have "kdf_ok (ue_kdf ue)" using assms(1) by (simp add: server_ok_def users_ok_def)
  from new_user_cipher [OF this assms(2-8) refl] have cc: "client_cipher ue (su_users r) now' ?blk"
    by (simp add: client_cipher_def)
  obtain s' frame where f: "stream_send ue s ((d, now, now', jit), seg) = (s', Inr (frame, now', jit))"
      "\<not> snd (IsDuplicate (su_streamReplayCache r) (take DefaultOverhead frame) EmptyTag now') \<longrightarrow>
       (\<exists>r'. stream_recv ue r (frame, now', jit) = (r', Inr (message seg)) \<and> connected ue (bc_noncePattern ?blk) (nonce_pattern r) s' r')"
    by (rule first_message [OF assms(1,9) cc _ assms(11)]) (unfold pat, rule assms(10))
  with assms(12) obtain r' where r': "stream_recv ue r (frame, now', jit) = (r', Inr (message seg))"
      "connected ue pat (nonce_pattern r) s' r'" unfolding pat by blast
  with f(1) have "transfer ue s r [((d, now, now', jit), seg)] = Inr (s', r', [message seg])"
    by (simp add: transfer_def)
  with conversation_ok [OF r'(2) assms(13)] show ?thesis by simp
qed

text \<open>
  C5. A replayed connection gets nothing: when the opening bytes of a stream are already in the replay
  cache, recorded by an earlier connection within the expiry interval and fewer than \<open>capacity\<close> other
  records, a server reports a replay, whoever the bytes belong to; the event loop ends with an
  error and no session is created.
\<close>

theorem stream_replay_rejected:
  assumes "server_ok ue (lr_now lr) t" "\<forall>i. 0 \<le> lr_jitter lr i" "72 \<le> length frame"
    and "rc_inv c" "int (length calls) < rc_capacity c"
    and "\<forall>(d, g, t) \<in> set calls. t0 \<le> t \<and> t \<le> t0 + rc_expireInterval c"
    and "t0 \<le> lr_now lr" "lr_now lr \<le> t0 + rc_expireInterval c"
    and "su_streamReplayCache t = rc_run (fst (IsDuplicate c (take DefaultOverhead frame) tag t0)) calls"
    and "lr_before lr t = t\<lparr>su_in := frame\<rparr>" "\<not> lr_cancelled lr" "\<not> lr_tick lr" "\<not> lr_closing lr" "\<not> bu_done t"
  shows "\<exists>t' e. stream_RunEventLoop ue ev (lr # lrs) t = (t', Inl e)
     \<and> bu_sessionMap t' = bu_sessionMap t \<and> bu_readySessions t' = bu_readySessions t"
proof -
  have "rc_holds (rc_run (fst (IsDuplicate c (take DefaultOverhead frame) tag t0)) calls)
      (computeSignature (take DefaultOverhead frame)) (0 + length calls) t0"
    using assms(4-6) by (intro rc_holds_run IsDuplicate_records rc_inv_IsDuplicate) auto
  then have "snd (IsDuplicate (su_streamReplayCache t) (take DefaultOverhead frame) EmptyTag (lr_now lr))"
    unfolding assms(9) using assms(4-8)
    by (intro rc_holds_detect [where k = "length calls"]) (auto intro: rc_inv_run rc_inv_IsDuplicate)
  from replayed_first_read [OF assms(1-3) this refl] obtain t' e where
    r: "stream_readOneSegment ue (lr_jitter lr) (lr_now lr) (t\<lparr>su_in := frame\<rparr>) = (t', Inl (REPLAY_ERROR, Errorf e))"
      "bu_sessionMap t' = bu_sessionMap t" "bu_readySessions t' = bu_readySessions t" "bu_done t' = bu_done t" by blast
  have "\<exists>t'' x. drainAfterError ue (wd_pad1 (lr_draws lr)) t' = (t'', x) \<and> bu_sessionMap t'' = bu_sessionMap t
      \<and> bu_readySessions t'' = bu_readySessions t"
    using r(2,3) by (simp add: drainAfterError_def Let_def split: sum.split)
  then obtain t'' x where "drainAfterError ue (wd_pad1 (lr_draws lr)) t' = (t'', x)" "bu_sessionMap t'' = bu_sessionMap t"
      "bu_readySessions t'' = bu_readySessions t" by blast
  with r assms(10-14) show ?thesis
    by (cases x) (simp_all add: stream_round_def stream_failed_def GetErrorType_def)
qed

section \<open>Witnesses\<close>

definition alice :: user where
  "alice = \<lparr>ur_name = ''alice'', ur_hashedPassword = [], ur_password = ''secret'', ur_quotas = []\<rparr>"

definition alice_password :: bytes where
  "alice_password = HashPassword (string_bytes ''secret'') (string_bytes ''alice'')"

lemma alice_password: "user_password alice = Some alice_password"
  by (simp add: user_password_def alice_def alice_password_def)

lemma some_server_ok:
  "server_ok some_uenv now (some_server [alice]\<lparr>su_streamReplayCache := rc\<rparr>)"
proof -
  have "user_keys salt_kdf [alice] = range (\<lambda>salt. salt_kdf alice_password salt KeyIter 32)"
    using alice_password by (auto simp: user_keys_def DefaultKeyLen_def)
  then have "authentic tag_aead (user_keys salt_kdf [alice])" using tag_authentic by simp
  then show ?thesis
    by (simp add: server_ok_def users_ok_def some_uenv_def some_server_defs tag_aead_ok salt_kdf_ok some_env_ok cache_ok_def alice_def)
qed

definition some_client :: "aeadBlockCipher \<Rightarrow> segment list streamUnderlay" where
  "some_client blk = some_server []\<lparr>bu_isClient := True, su_block := Some blk\<rparr>"

definition some_delivery :: delivery where
  "some_delivery = (some_writes, 120000000000, 120000000000, \<lambda>_. 0)"

lemma some_delivery_ok: "delivery_ok None some_delivery"
  by (simp add: delivery_ok_def some_delivery_def some_writes_def some_draws_ok some_rand_ok unix_seconds_def clock_ok_def)

lemma some_segments_ok: "segment_ok some_open" "segment_ok some_segment"
  by (simp_all add: segment_ok_def some_open_def some_segment_def zero_sessionStruct_def zero_dataAckStruct_def
      isSessionProtocol_def isDataAckProtocol_def protocol_defs DefaultOverhead_def)

theorem stream_conversation_witness:
  "\<exists>s :: segment list streamUnderlay. conversation some_uenv s (some_server [alice])
       [(True, [(some_delivery, some_open)]), (False, [(some_delivery, some_segment), (some_delivery, some_segment)]),
        (True, [(some_delivery, some_segment)])]
     = Inr [[message some_open], [message some_segment, message some_segment], [message some_segment]]"
proof -
  let ?r = "some_server [alice]"
  have c: "cache_ok salt_kdf 120000000000 Map.empty" by (simp add: cache_ok_def)
  obtain blk t where blk: "snd (BlockCipherFromPassword salt_kdf Map.empty 0 120000000000 alice_password False) = Inr blk"
    by (rule BlockCipherFromPassword_ok [OF salt_kdf_ok user_password_nonempty [OF alice_password] c, of 0 False]) simp_all
  let ?blk = "SetNoncePattern None (SetBlockContext (ur_name alice) blk)"
  have "server_ok some_uenv 120000000000 ?r"
    using some_server_ok [of _ some_replayCache] by (simp add: some_server_defs)
  moreover have "alice \<in> set (su_users ?r)" "nonce_pattern ?r = None"
    "\<not> snd (IsDuplicate (su_streamReplayCache ?r) b EmptyTag 120000000000)" for b
    by (simp_all add: some_server_defs nonce_pattern_def some_replayCache_def IsDuplicate_def rc_expire_def
        rc_rotate_def rc_lookup_def)
  moreover have "client_ok (some_client ?blk) ?blk" by (simp add: client_ok_def some_client_def some_server_defs)
  ultimately have "conversation some_uenv (some_client ?blk) ?r
       [(True, [(some_delivery, some_open)]), (False, [(some_delivery, some_segment), (some_delivery, some_segment)]),
        (True, [(some_delivery, some_segment)])]
     = Inr [[message some_open], [message some_segment, message some_segment], [message some_segment]]"
    using stream_conversation [of some_uenv 120000000000 ?r alice alice_password 120000000000 Map.empty 0 blk None
        "some_client ?blk" some_writes 120000000000 "\<lambda>_. 0" some_open
        "[(False, [(some_delivery, some_segment), (some_delivery, some_segment)]), (True, [(some_delivery, some_segment)])]"]
      alice_password c blk some_delivery_ok some_segments_ok
    by (simp add: some_uenv_def some_delivery_def)
  then show ?thesis ..
qed

theorem stream_replay_rejected_witness:
  "\<exists>t' e. stream_RunEventLoop some_uenv some_senv [some_round (replicate 72 0)]
       (some_server [alice]\<lparr>su_streamReplayCache := fst (IsDuplicate some_replayCache (replicate 16 0) EmptyTag 120000000000)\<rparr>)
     = (t', Inl e) \<and> bu_sessionMap t' = [] \<and> bu_readySessions t' = []"
proof -
  let ?t = "some_server [alice]\<lparr>su_streamReplayCache := fst (IsDuplicate some_replayCache (replicate 16 0) EmptyTag 120000000000)\<rparr>"
  have "rc_inv some_replayCache" "rc_capacity some_replayCache = 100" "rc_expireInterval some_replayCache = 10"
    by (simp_all add: rc_inv_def some_replayCache_def)
  moreover have "bu_sessionMap ?t = []" "bu_readySessions ?t = []" "\<not> bu_done ?t"
    by (simp_all add: some_server_defs)
  ultimately show ?thesis
    using stream_replay_rejected [of some_uenv "some_round (replicate 72 0)" ?t "replicate 72 0" some_replayCache "[]"
        120000000000 EmptyTag some_senv "[]"] some_server_ok
    by (simp add: some_round_def DefaultOverhead_def)
qed

end
