(* ===== verification/PacketUnderlay.thy ===== *)
theory PacketUnderlay
  imports StreamUnderlay
begin

text \<open>
  The packet underlay (\<open>src/pkg/protocol/underlay_packet.go\<close>): every segment is one datagram with the
  encrypted metadata, padding and the encrypted payload. The connection is the list of datagrams
  that have arrived with their addresses, what a read gets when there are none, and the list of
  datagrams written. Addresses are the strings that the source compares.

  The ciphers of a user are shared in the source; here every session has its own copy, and the name
  and the nonce pattern that the source stores in the cached cipher are set again at each use.
\<close>

section \<open>State\<close>

definition idleSessionTimeout :: int where "idleSessionTimeout = 60 * 1000000000"

record 't packetUnderlay = "'t baseUnderlay" +
  pu_serverAddr :: string
  pu_block :: "aeadBlockCipher option"
  pu_users :: "user list"
  pu_userHintIsMandatory :: bool
  pu_remoteAddr :: "u32 \<rightharpoonup> string"   \<comment> \<open>\<open>remoteAddr\<close> of the sessions\<close>
  pu_in :: "(bytes \<times> string) list"
  pu_end :: go_error
  pu_out :: "(bytes \<times> string) list"
  pu_writeErr :: "go_error option"
  pu_packetReplayCache :: replayCache
  pu_blockCipherCache :: cipher_cache

definition NewPacketUnderlay ::
    "registry \<Rightarrow> int \<Rightarrow> replayCache \<Rightarrow> cipher_cache \<Rightarrow> int \<Rightarrow> (string \<Rightarrow> string result) \<Rightarrow> (string \<Rightarrow> unit result)
      \<Rightarrow> string \<Rightarrow> string \<Rightarrow> int \<Rightarrow> aeadBlockCipher \<Rightarrow> trafficPattern option \<Rightarrow> 't packetUnderlay result" where
  "NewPacketUnderlay reg established rc cache now resolve listenPacket network addr mtu block pattern =
     (if network \<notin> {''udp'', ''udp4'', ''udp6''}
      then Inl (Errorf ''network is not supported by packet underlay'')
      else if \<not> IsStateless block then Inl (Errorf ''packet underlay block cipher must be stateless'')
      else (case resolve addr of
              Inl e \<Rightarrow> Inl (Errorf ''ResolveUDPAddr() failed'')
            | Inr remoteUDPAddr \<Rightarrow>
      (case listenPacket remoteUDPAddr of
         Inl e \<Rightarrow> Inl (Errorf ''ListenPacket() failed'')
       | Inr _ \<Rightarrow>
           let u = baseUnderlay.extend (newBaseUnderlay reg established True mtu pattern)
                 (packetUnderlay.fields remoteUDPAddr (Some block) [] False Map.empty [] ErrTimeout [] None rc cache)
           in Inr (u\<lparr>bu_scheduler := SetRemainingTime (KeyRefreshInterval div 2) now (bu_scheduler u)\<rparr>))))"

definition packet_Close :: "'t senv \<Rightarrow> 't packetUnderlay \<Rightarrow> 't packetUnderlay \<times> unit result" where
  "packet_Close ev u =
     (if bu_done u then (u, Inr ())
      else (case base_Close ev u of
              (u, Inl (Panic m)) \<Rightarrow> (u, Inl (Panic m))
            | (u, _) \<Rightarrow> (u, Inr ())))"

section \<open>Writing\<close>

text \<open>The cipher of a segment: the client's, the one the segment came with, or that of its session.\<close>

definition packet_cipher :: "'t packetUnderlay \<Rightarrow> segment \<Rightarrow> aeadBlockCipher result" where
  "packet_cipher u seg =
     (if bu_isClient u
      then (case pu_block u of None \<Rightarrow> Inl (Panic ''cipher block is not ready'') | Some c \<Rightarrow> Inr c)
      else (case seg_block seg of
              Some c \<Rightarrow> Inr c
            | None \<Rightarrow>
                (case seg_SessionID seg of
                   Inl e \<Rightarrow> Inl (Errorf ''SessionID() failed'')
                 | Inr sessionID \<Rightarrow>
                     (case map_of (bu_sessionMap u) sessionID of
                        None \<Rightarrow> Inl (Errorf ''session not found'')
                      | Some s \<Rightarrow> (case se_block s of None \<Rightarrow> Inl ErrNotReady | Some c \<Rightarrow> Inr c)))))"

text \<open>A cipher that has been used goes back to where it came from.\<close>

definition put_cipher :: "segment \<Rightarrow> aeadBlockCipher \<Rightarrow> 't packetUnderlay \<Rightarrow> 't packetUnderlay" where
  "put_cipher seg c u =
     (if bu_isClient u then u\<lparr>pu_block := Some c\<rparr>
      else (case seg_SessionID seg of
              Inl e \<Rightarrow> u
            | Inr sessionID \<Rightarrow>
                (case map_of (bu_sessionMap u) sessionID of
                   None \<Rightarrow> u
                 | Some s \<Rightarrow> if se_block s = None then u else put_session u (s\<lparr>se_block := Some c\<rparr>))))"

definition conn_WriteTo :: "'t packetUnderlay \<Rightarrow> bytes \<Rightarrow> string \<Rightarrow> 't packetUnderlay \<times> unit result" where
  "conn_WriteTo u b addr =
     (case pu_writeErr u of
        Some e \<Rightarrow> (u, Inl (Errorf ''WriteTo() failed''))
      | None \<Rightarrow> (u\<lparr>pu_out := pu_out u @ [(b, addr)]\<rparr>, Inr ()))"

text \<open>The metadata with a new nonce and the payload, if there is one, with the same nonce.\<close>

definition packet_seal ::
    "uenv \<Rightarrow> nonce_draws \<Rightarrow> aeadBlockCipher \<Rightarrow> bytes \<Rightarrow> bytes \<Rightarrow> aeadBlockCipher \<times> (bytes \<times> bytes) result" where
  "packet_seal ue d c plaintextMetadata payload =
     (case Encrypt (ue_aead ue) d c plaintextMetadata of
        (c, Inl (Panic m)) \<Rightarrow> (c, Inl (Panic m))
      | (c, Inl e) \<Rightarrow> (c, Inl (Errorf ''Encrypt() failed''))
      | (c, Inr encryptedMetadata) \<Rightarrow>
          let nonce = take DefaultNonceSize encryptedMetadata
          in if payload = [] then (c, Inr (encryptedMetadata, []))
             else (case EncryptWithNonce (ue_aead ue) c payload nonce of
                     Inl e \<Rightarrow> (c, Inl (Errorf ''EncryptWithNonce() failed''))
                   | Inr encryptedPayload \<Rightarrow> (c, Inr (encryptedMetadata, encryptedPayload))))"

definition packet_send ::
    "'t packetUnderlay \<Rightarrow> bytes \<Rightarrow> string \<Rightarrow> 't packetUnderlay \<times> unit result" where
  "packet_send u dataToSend addr =
     sbind (conn_WriteTo u dataToSend addr) (\<lambda>u _.
       (u\<lparr>bu_outBytes := bu_outBytes u + int (length dataToSend)\<rparr>, Inr ()))"

definition packet_write_session ::
    "uenv \<Rightarrow> write_draws \<Rightarrow> int \<Rightarrow> 't packetUnderlay \<Rightarrow> segment \<Rightarrow> string \<Rightarrow> aeadBlockCipher \<Rightarrow> sessionStruct
      \<Rightarrow> 't packetUnderlay \<times> unit result" where
  "packet_write_session ue d now u seg addr c ss =
     (let maxPaddingSize = MaxPaddingSize (bu_mtu u) PacketTransport (uint (ss_payloadLen ss)) 0
      in (case rbind (buildRecommendedPaddingOpts (ue_he ue) (wd_pad1 d) maxPaddingSize
                   (packetOverhead + uint (ss_payloadLen ss)) (bc_userName c)) (newPadding (ue_fe ue) (wd_pad1 d)) of
            Inl e \<Rightarrow> (u, Inl e)
          | Inr padding \<Rightarrow>
              let ss = ss\<lparr>ss_suffixLen := of_nat (length padding)\<rparr>
              in (case packet_seal ue (wd_meta d) c (snd (sessionStruct_Marshal ss (unix_seconds now))) (seg_payload seg) of
                    (c, Inl e) \<Rightarrow> (put_cipher seg c u, Inl e)
                  | (c, Inr (encryptedMetadata, encryptedPayload)) \<Rightarrow>
                      packet_send (put_cipher seg c u) (encryptedMetadata @ encryptedPayload @ padding) addr)))"

definition packet_write_dataAck ::
    "uenv \<Rightarrow> write_draws \<Rightarrow> int \<Rightarrow> 't packetUnderlay \<Rightarrow> segment \<Rightarrow> string \<Rightarrow> aeadBlockCipher \<Rightarrow> dataAckStruct
      \<Rightarrow> 't packetUnderlay \<times> unit result" where
  "packet_write_dataAck ue d now u seg addr c das =
     (case newPadding (ue_fe ue) (wd_pad1 d)
             (plain_padding_opts (MaxPaddingSize (bu_mtu u) PacketTransport (uint (das_payloadLen das)) 0)) of
        Inl e \<Rightarrow> (u, Inl e)
      | Inr padding1 \<Rightarrow>
          (case newPadding (ue_fe ue) (wd_pad2 d)
                  (plain_padding_opts (MaxPaddingSize (bu_mtu u) PacketTransport
                     (uint (das_payloadLen das)) (int (length padding1)))) of
             Inl e \<Rightarrow> (u, Inl e)
           | Inr padding2 \<Rightarrow>
               let das = das\<lparr>das_prefixLen := of_nat (length padding1), das_suffixLen := of_nat (length padding2)\<rparr>
               in (case packet_seal ue (wd_meta d) c (snd (dataAckStruct_Marshal das (unix_seconds now))) (seg_payload seg) of
                     (c, Inl e) \<Rightarrow> (put_cipher seg c u, Inl e)
                   | (c, Inr (encryptedMetadata, encryptedPayload)) \<Rightarrow>
                       packet_send (put_cipher seg c u)
                         (encryptedMetadata @ padding1 @ encryptedPayload @ padding2) addr)))"

definition packet_writeOneSegment ::
    "uenv \<Rightarrow> write_draws \<Rightarrow> int \<Rightarrow> 't packetUnderlay \<Rightarrow> segment \<Rightarrow> string \<Rightarrow> 't packetUnderlay \<times> unit result" where
  "packet_writeOneSegment ue d now u seg addr =
     (if bu_isClient u \<and> addr \<noteq> pu_serverAddr u then (u, Inl (Errorf ''can't write to address''))
      else (case packet_cipher u seg of
              Inl e \<Rightarrow> (u, Inl e)
            | Inr c \<Rightarrow>
                (case toSessionStruct (seg_metadata seg) of
                   Inl e \<Rightarrow> (u, Inl e)
                 | Inr (Some ss) \<Rightarrow> packet_write_session ue d now u seg addr c ss
                 | Inr None \<Rightarrow>
                     (case toDataAckStruct (seg_metadata seg) of
                        Inl e \<Rightarrow> (u, Inl e)
                      | Inr (Some das) \<Rightarrow> packet_write_dataAck ue d now u seg addr c das
                      | Inr None \<Rightarrow> (u, Inl ErrInvalidArgument)))))"

section \<open>Reading\<close>

text \<open>The payload behind the padding; the slice expression is in range because of the check before it.\<close>

definition parse_payload ::
    "uenv \<Rightarrow> 't packetUnderlay \<Rightarrow> u16 \<Rightarrow> u8 \<Rightarrow> bytes \<Rightarrow> bytes \<Rightarrow> aeadBlockCipher option \<Rightarrow> bytes result" where
  "parse_payload ue u payloadLen suffixLen nonce remaining blockCipher =
     (if payloadLen > 0
      then if length remaining < unat payloadLen + DefaultOverhead
           then Inl (Errorf ''payload: received incomplete packet'')
           else (case (case blockCipher of Some c \<Rightarrow> Some c | None \<Rightarrow> if bu_isClient u then pu_block u else None) of
                   None \<Rightarrow> Inl (Panic ''block is nil'')
                 | Some c \<Rightarrow>
                     (case DecryptWithNonce (ue_aead ue) c
                             (take (unat (payloadLen + of_nat DefaultOverhead)) remaining) nonce of
                        Inl e \<Rightarrow> Inl (Errorf ''DecryptWithNonce() failed'')
                      | Inr decryptedPayload \<Rightarrow>
                          if unat payloadLen + DefaultOverhead + unat suffixLen \<noteq> length remaining
                          then Inl (Errorf ''padding: size not match'') else Inr decryptedPayload))
      else if unat suffixLen \<noteq> length remaining then Inl (Errorf ''padding: size not match'')
      else Inr [])"

definition packet_segment :: "metadata \<Rightarrow> bytes \<Rightarrow> segment" where
  "packet_segment md payload =
     \<lparr>seg_metadata = md, seg_payload = payload, seg_transport = PacketTransport, seg_ackCount = 0,
      seg_txCount = 0, seg_txTime = 0, seg_txTimeout = 0, seg_block = None\<rparr>"

definition parseSessionSegment ::
    "uenv \<Rightarrow> 't packetUnderlay \<Rightarrow> sessionStruct \<Rightarrow> bytes \<Rightarrow> bytes \<Rightarrow> aeadBlockCipher option \<Rightarrow> segment result" where
  "parseSessionSegment ue u ss nonce remaining blockCipher =
     (case parse_payload ue u (ss_payloadLen ss) (ss_suffixLen ss) nonce remaining blockCipher of
        Inl e \<Rightarrow> Inl e
      | Inr decryptedPayload \<Rightarrow> Inr (packet_segment (Session_md ss) decryptedPayload))"

definition parseDataAckSegment ::
    "uenv \<Rightarrow> 't packetUnderlay \<Rightarrow> dataAckStruct \<Rightarrow> bytes \<Rightarrow> bytes \<Rightarrow> aeadBlockCipher option \<Rightarrow> segment result" where
  "parseDataAckSegment ue u das nonce remaining blockCipher =
     (if das_prefixLen das > 0 \<and> unat (das_prefixLen das) > length remaining
      then Inl (Panic ''slice bounds out of range'')
      else
        let remaining = (if das_prefixLen das > 0 then drop (unat (das_prefixLen das)) remaining else remaining)
        in (case parse_payload ue u (das_payloadLen das) (das_suffixLen das) nonce remaining blockCipher of
              Inl e \<Rightarrow> Inl e
            | Inr decryptedPayload \<Rightarrow> Inr (packet_segment (DataAck_md das) decryptedPayload)))"

text \<open>The ciphers of the sessions with a peer, in the order of the session map.\<close>

fun try_sessions ::
    "uenv \<Rightarrow> (u32 \<rightharpoonup> string) \<Rightarrow> string \<Rightarrow> bytes \<Rightarrow> (u32 \<times> 't session) list \<Rightarrow> (aeadBlockCipher \<times> bytes) option result" where
  "try_sessions ue remote addr encryptedMeta [] = Inr None"
| "try_sessions ue remote addr encryptedMeta ((sid, s) # rest) =
     (case se_block s of
        None \<Rightarrow> try_sessions ue remote addr encryptedMeta rest
      | Some c \<Rightarrow>
          if remote sid = Some addr
          then (case Decrypt (ue_aead ue) c encryptedMeta of
                  (_, Inr p) \<Rightarrow> Inr (Some (c, p))
                | (_, Inl (Panic m)) \<Rightarrow> Inl (Panic m)
                | (_, Inl e) \<Rightarrow> try_sessions ue remote addr encryptedMeta rest)
          else try_sessions ue remote addr encryptedMeta rest)"

definition serverTryDecryptMetadataForNewSession ::
    "uenv \<Rightarrow> (nat \<Rightarrow> int) \<Rightarrow> int \<Rightarrow> bytes \<Rightarrow> 't packetUnderlay
      \<Rightarrow> 't packetUnderlay \<times> (aeadBlockCipher \<times> bytes) result" where
  "serverTryDecryptMetadataForNewSession ue jit now encryptedMeta u =
     (case match_user ue jit now (pu_users u) (pu_userHintIsMandatory u) encryptedMeta (pu_blockCipherCache u) of
        (cache, r) \<Rightarrow>
          let u = u\<lparr>pu_blockCipherCache := cache\<rparr>
          in (case r of
                Inl e \<Rightarrow> (u, Inl e)
              | Inr None \<Rightarrow> (u, Inl (Errorf ''cipher.TryDecrypt() failed for all users''))
              | Inr (Some (matchedBlock, decryptedMeta, matchedUserName)) \<Rightarrow>
                  let c = SetBlockContext matchedUserName matchedBlock;
                      c = (case bu_trafficPattern u of None \<Rightarrow> c | Some p \<Rightarrow> SetNoncePattern (tp_nonce p) c)
                  in (u, Inr (c, decryptedMeta))))"

text \<open>
  The metadata of a datagram: \<open>Inr None\<close> means that the datagram is dropped. \<open>replay\<close> says that its first
  bytes are in the replay cache.
\<close>

definition packet_decrypt_server ::
    "uenv \<Rightarrow> (nat \<Rightarrow> int) \<Rightarrow> int \<Rightarrow> bool \<Rightarrow> bytes \<Rightarrow> string \<Rightarrow> 't packetUnderlay
      \<Rightarrow> 't packetUnderlay \<times> (aeadBlockCipher option \<times> bytes) option result" where
  "packet_decrypt_server ue jit now replay encryptedMeta addr u =
     (case try_sessions ue (pu_remoteAddr u) addr encryptedMeta (bu_sessionMap u) of
        Inl e \<Rightarrow> (u, Inl e)
      | Inr (Some (c, p)) \<Rightarrow> (u, Inr (if replay then None else Some (Some c, p)))
      | Inr None \<Rightarrow>
          (case serverTryDecryptMetadataForNewSession ue jit now encryptedMeta u of
             (u, Inl (Panic m)) \<Rightarrow> (u, Inl (Panic m))
           | (u, Inl e) \<Rightarrow> (u, Inr None)
           | (u, Inr (c, p)) \<Rightarrow> (u, Inr (if replay then None else Some (Some c, p)))))"

definition packet_decrypt_client ::
    "uenv \<Rightarrow> bytes \<Rightarrow> 't packetUnderlay \<Rightarrow> 't packetUnderlay \<times> (aeadBlockCipher option \<times> bytes) option result" where
  "packet_decrypt_client ue encryptedMeta u =
     (case pu_block u of
        None \<Rightarrow> (u, Inl (Panic ''nil pointer dereference''))
      | Some c \<Rightarrow>
          (case Decrypt (ue_aead ue) c encryptedMeta of
             (c, Inl (Panic m)) \<Rightarrow> (u\<lparr>pu_block := Some c\<rparr>, Inl (Panic m))
           | (c, Inl e) \<Rightarrow> (u\<lparr>pu_block := Some c\<rparr>, Inr None)
           | (c, Inr p) \<Rightarrow> (u\<lparr>pu_block := Some c\<rparr>, Inr (Some (None, p)))))"

text \<open>
  The segment of a datagram. A client returns an error where a server drops the datagram; \<open>None\<close> is the
  \<open>continue\<close> of the loop.
\<close>

definition packet_error :: "'t packetUnderlay \<Rightarrow> go_error \<Rightarrow> segment result option" where
  "packet_error u e =
     (case e of
        Panic m \<Rightarrow> Some (Inl (Panic m))
      | _ \<Rightarrow> if bu_isClient u then Some (Inl e) else None)"

definition packet_parse ::
    "uenv \<Rightarrow> int \<Rightarrow> 't packetUnderlay \<Rightarrow> bytes \<Rightarrow> bytes \<Rightarrow> aeadBlockCipher option \<Rightarrow> bytes \<Rightarrow> segment result option" where
  "packet_parse ue now u nonce remaining blockCipher decryptedMeta =
     (if length decryptedMeta \<noteq> MetadataLength then None
      else
        let p = decryptedMeta ! 0;
            finish = (\<lambda>r. case r of
                Inl e \<Rightarrow> packet_error u e
              | Inr seg \<Rightarrow> Some (Inr (case blockCipher of None \<Rightarrow> seg | Some c \<Rightarrow> seg\<lparr>seg_block := Some c\<rparr>)))
        in if isSessionProtocol p
           then (case sessionStruct_Unmarshal zero_sessionStruct decryptedMeta (unix_seconds now) of
                   Inl e \<Rightarrow> packet_error u (Errorf ''Unmarshal() to sessionStruct failed'')
                 | Inr ss \<Rightarrow> finish (parseSessionSegment ue u ss nonce remaining blockCipher))
           else if isDataAckProtocol p
           then (case dataAckStruct_Unmarshal zero_dataAckStruct decryptedMeta (unix_seconds now) of
                   Inl e \<Rightarrow> packet_error u (Errorf ''Unmarshal() to dataAckStruct failed'')
                 | Inr das \<Rightarrow> finish (parseDataAckSegment ue u das nonce remaining blockCipher))
           else packet_error u (Errorf ''unable to handle protocol''))"

definition packet_datagram ::
    "uenv \<Rightarrow> (nat \<Rightarrow> int) \<Rightarrow> int \<Rightarrow> bytes \<Rightarrow> string \<Rightarrow> 't packetUnderlay
      \<Rightarrow> 't packetUnderlay \<times> segment result option" where
  "packet_datagram ue jit now datagram addr u =
     (let b = take 1500 datagram in
      if bu_isClient u \<and> addr \<noteq> pu_serverAddr u then (u, None)
      else if length b < packetNonHeaderPosition then (u, None)
      else
        let u = u\<lparr>bu_inBytes := bu_inBytes u + int (length b)\<rparr>;
            encryptedMeta = take packetNonHeaderPosition b;
            (rc, replay) = IsDuplicate (pu_packetReplayCache u) (take DefaultOverhead encryptedMeta) addr now;
            u = u\<lparr>pu_packetReplayCache := rc\<rparr>;
            nonce = take DefaultNonceSize encryptedMeta
        in (case (if bu_isClient u then packet_decrypt_client ue encryptedMeta u
                  else packet_decrypt_server ue jit now replay encryptedMeta addr u) of
              (u, Inl e) \<Rightarrow> (u, Some (Inl e))
            | (u, Inr None) \<Rightarrow> (u, None)
            | (u, Inr (Some (blockCipher, decryptedMeta))) \<Rightarrow>
                (u, packet_parse ue now u nonce (drop packetNonHeaderPosition b) blockCipher decryptedMeta)))"

text \<open>
  The loop over the datagrams that have arrived; \<open>Inr None\<close> is a read that timed out. \<open>jit\<close> gives the
  jitters of each datagram.
\<close>

fun packet_read_loop ::
    "uenv \<Rightarrow> (nat \<Rightarrow> nat \<Rightarrow> int) \<Rightarrow> int \<Rightarrow> (bytes \<times> string) list \<Rightarrow> 't packetUnderlay
      \<Rightarrow> 't packetUnderlay \<times> (segment \<times> string) option result" where
  "packet_read_loop ue jit now [] u =
     (if bu_done u then (u, Inl ErrClosedPipe)
      else if pu_end u = ErrTimeout then (u, Inr None)
      else (u, Inl (Errorf ''ReadFrom() failed'')))"
| "packet_read_loop ue jit now ((datagram, addr) # rest) u =
     (if bu_done u then (u, Inl ErrClosedPipe)
      else (case packet_datagram ue (jit (length rest)) now datagram addr (u\<lparr>pu_in := rest\<rparr>) of
              (u, None) \<Rightarrow> packet_read_loop ue jit now rest u
            | (u, Some (Inl e)) \<Rightarrow> (u, Inl e)
            | (u, Some (Inr seg)) \<Rightarrow> (u, Inr (Some (seg, addr)))))"

definition packet_readOneSegment ::
    "uenv \<Rightarrow> (nat \<Rightarrow> nat \<Rightarrow> int) \<Rightarrow> int \<Rightarrow> 't packetUnderlay \<Rightarrow> 't packetUnderlay \<times> (segment \<times> string) option result" where
  "packet_readOneSegment ue jit now u = packet_read_loop ue jit now (pu_in u) u"

section \<open>The event loop\<close>

definition packet_idle :: "int \<Rightarrow> 't session \<Rightarrow> bool" where
  "packet_idle now s \<longleftrightarrow> now div 1000 - se_lastRXTime s > idleSessionTimeout div 1000"

text \<open>A closed session is removed, an idle one too, even if it has just been removed.\<close>

definition clean_removed ::
    "'t senv \<Rightarrow> bool \<Rightarrow> 't session \<Rightarrow> 't packetUnderlay \<Rightarrow> 't packetUnderlay \<times> 't session result" where
  "clean_removed ev gone s u =
     (if gone
      then (case RemoveSession ev u s of
              (u, Inl (Panic m)) \<Rightarrow> (u, Inl (Panic m))
            | (u, Inl e) \<Rightarrow> (u, Inr s)
            | (u, Inr s) \<Rightarrow> (u, Inr s))
      else (u, Inr s))"

fun packet_clean_loop ::
    "'t senv \<Rightarrow> int \<Rightarrow> (u32 \<times> 't session) list \<Rightarrow> 't packetUnderlay \<Rightarrow> 't packetUnderlay \<times> unit result" where
  "packet_clean_loop ev now [] u = (u, Inr ())"
| "packet_clean_loop ev now ((sid, s) # rest) u =
     sbind (clean_removed ev (se_closedChan s) s u) (\<lambda>u s.
     sbind (clean_removed ev (packet_idle now s) s u) (\<lambda>u s.
       packet_clean_loop ev now rest u))"

definition packet_cleanSessions :: "'t senv \<Rightarrow> int \<Rightarrow> 't packetUnderlay \<Rightarrow> 't packetUnderlay \<times> unit result" where
  "packet_cleanSessions ev now u = packet_clean_loop ev now (bu_sessionMap u) u"

definition packet_onOpenSessionRequest ::
    "'t senv \<Rightarrow> int \<Rightarrow> 't packetUnderlay \<Rightarrow> segment \<Rightarrow> string \<Rightarrow> 't packetUnderlay \<times> unit result" where
  "packet_onOpenSessionRequest ev now u seg addr =
     (case onOpenSessionRequest ev PacketTransport (pu_users u) now u seg of
        (u', r) \<Rightarrow>
          (case seg_SessionID seg of
             Inr sid \<Rightarrow>
               if map_of (bu_sessionMap u) sid = None \<and> map_of (bu_sessionMap u') sid \<noteq> None
               then (u'\<lparr>pu_remoteAddr := (pu_remoteAddr u')(sid \<mapsto> addr)\<rparr>, r) else (u', r)
           | Inl _ \<Rightarrow> (u', r)))"

definition packet_dispatch ::
    "uenv \<Rightarrow> 't senv \<Rightarrow> write_draws \<Rightarrow> int \<Rightarrow> 't packetUnderlay \<Rightarrow> segment \<Rightarrow> string \<Rightarrow> 't packetUnderlay \<times> unit result" where
  "packet_dispatch ue ev d now u seg addr =
     (let p = seg_Protocol seg in
      if p = openSessionRequest then packet_onOpenSessionRequest ev now u seg addr
      else if isSessionProtocol p then session_handler ev PacketTransport (pu_users u) now u seg
      else if isDataAckProtocol p
      then (case toDataAckStruct (seg_metadata seg) of
              Inr (Some das) \<Rightarrow>
                (case map_of (bu_sessionMap u) (das_sessionID das) of
                   None \<Rightarrow>
                     if seg_block seg = None then (u, Inr ())
                     else packet_writeOneSegment ue d now u
                       (closeSession_segment PacketTransport das\<lparr>seg_block := seg_block seg\<rparr>) addr
                 | Some s \<Rightarrow> push_segment u s seg)
            | Inr None \<Rightarrow> (u, Inl (Panic ''nil pointer dereference''))
            | Inl e \<Rightarrow> (u, Inl e))
      else (u, Inr ()))"

text \<open>One round of the loop, as for a stream.\<close>

record 't packet_round =
  pr_before :: "'t packetUnderlay \<Rightarrow> 't packetUnderlay"
  pr_cancelled :: bool
  pr_tick :: bool
  pr_closing :: bool
  pr_now :: int
  pr_jitter :: "nat \<Rightarrow> nat \<Rightarrow> int"
  pr_draws :: write_draws

definition packet_leave :: "'t senv \<Rightarrow> int \<Rightarrow> 't packetUnderlay \<Rightarrow> 't packetUnderlay \<times> unit result option" where
  "packet_leave ev now u = (case packet_cleanSessions ev now u of (u, r) \<Rightarrow> (u, Some r))"

definition packet_loop_round ::
    "uenv \<Rightarrow> 't senv \<Rightarrow> 't packet_round \<Rightarrow> 't packetUnderlay \<Rightarrow> 't packetUnderlay \<times> unit result option" where
  "packet_loop_round ue ev pr u =
     (let u = pr_before pr u in
      if pr_cancelled pr \<or> bu_done u then packet_leave ev (pr_now pr) u
      else
        (case (if pr_tick pr then packet_cleanSessions ev (pr_now pr) u else (u, Inr ())) of
           (u, Inl e) \<Rightarrow> (u, Some (Inl e))
         | (u, Inr _) \<Rightarrow>
             (case packet_readOneSegment ue (pr_jitter pr) (pr_now pr) u of
                (u, Inl (Panic m)) \<Rightarrow> (u, Some (Inl (Panic m)))
              | (u, Inl e) \<Rightarrow>
                  if bu_done u \<or> pr_closing pr then packet_leave ev (pr_now pr) u
                  else (u, Some (Inl (Errorf ''readOneSegment() failed'')))
              | (u, Inr None) \<Rightarrow> (u, None)
              | (u, Inr (Some (seg, addr))) \<Rightarrow>
                  (case packet_dispatch ue ev (pr_draws pr) (pr_now pr) u seg addr of
                     (u, Inl e) \<Rightarrow> (u, Some (Inl e))
                   | (u, Inr _) \<Rightarrow> (u, None)))))"

fun packet_RunEventLoop ::
    "uenv \<Rightarrow> 't senv \<Rightarrow> 't packet_round list \<Rightarrow> 't packetUnderlay \<Rightarrow> 't packetUnderlay \<times> unit result" where
  "packet_RunEventLoop ue ev [] u = (u, Inl Blocked)"
| "packet_RunEventLoop ue ev (pr # prs) u =
     (case packet_loop_round ue ev pr u of
        (u, Some r) \<Rightarrow> (u, r)
      | (u, None) \<Rightarrow> packet_RunEventLoop ue ev prs u)"

end
