(* ===== verification/PacketChannel.thy ===== *)
theory PacketChannel
  imports PacketUnderlay StreamConversation
begin

text \<open>
  What one side of a packet underlay writes as a datagram, the other side reads: the client with its
  cipher, the server with the cipher of a session of the peer or, for a new session, with that of one
  of its users. Every datagram stands alone, so the network may lose, repeat and reorder them.
\<close>

section \<open>Datagrams\<close>

text \<open>A stateless cipher.\<close>

definition plain_cipher :: "aeadBlockCipher \<Rightarrow> bool" where
  "plain_cipher c \<longleftrightarrow> cipher_ok c \<and> \<not> bc_enableImplicitNonce c"

definition datagram_of :: "uenv \<Rightarrow> aeadBlockCipher \<Rightarrow> int \<Rightarrow> segment \<Rightarrow> bytes \<Rightarrow> bool" where
  "datagram_of ue c now seg b \<longleftrightarrow>
     (\<exists>n em pad1 pad2 ep. b = em @ pad1 @ ep @ pad2 \<and> length n = 24
        \<and> em = n @ ae_Seal (ue_aead ue) (bc_key c) n (marshalled (padded (seg_metadata seg) pad1 pad2) now)
        \<and> hinted ue c em (marshalled (padded (seg_metadata seg) pad1 pad2) now)
        \<and> length pad1 < 256 \<and> length pad2 < 256 \<and> (case seg_metadata seg of Session_md _ \<Rightarrow> pad1 = [] | _ \<Rightarrow> True)
        \<and> ep = (if seg_payload seg = [] then [] else ae_Seal (ue_aead ue) (bc_key c) n (seg_payload seg)))"

lemma datagram_ofI:
  assumes "length n = 24" "m = marshalled (padded (seg_metadata seg) pad1 pad2) now"
    and "hinted ue c (n @ ae_Seal (ue_aead ue) (bc_key c) n m) m"
    and "int (length pad1) \<le> 255" "int (length pad2) \<le> 255" "case seg_metadata seg of Session_md _ \<Rightarrow> pad1 = [] | _ \<Rightarrow> True"
  shows "datagram_of ue c now seg ((n @ ae_Seal (ue_aead ue) (bc_key c) n m) @ pad1
    @ (if seg_payload seg = [] then [] else ae_Seal (ue_aead ue) (bc_key c) n (seg_payload seg)) @ pad2)"
  unfolding datagram_of_def assms(2) using assms(1,3-6) unfolding assms(2)
  by (intro exI conjI) (rule refl | assumption | simp)+

lemma packet_MaxPaddingSize:
  "0 \<le> MaxPaddingSize mtu PacketTransport m n" "MaxPaddingSize mtu PacketTransport m n \<le> 255"
  "n + MaxPaddingSize mtu PacketTransport m n \<le> max n (mtu - m - packetOverhead)"
  by (auto simp: MaxPaddingSize_def Let_def min_def max_def)

lemma packet_seal_ok:
  assumes "aead_ok (ue_aead ue)" "plain_cipher c" "draws_ok (bc_noncePattern c) d"
  obtains c' n where "packet_seal ue d c m p = (c', Inr (n @ ae_Seal (ue_aead ue) (bc_key c) n m,
      if p = [] then [] else ae_Seal (ue_aead ue) (bc_key c) n p))" "length n = 24"
    "hinted ue c (n @ ae_Seal (ue_aead ue) (bc_key c) n m) m"
proof -
  have c: "cipher_ok c" "\<not> (bc_enableImplicitNonce c \<and> bc_implicitNonce c \<noteq> [])" "\<not> bc_enableImplicitNonce c"
    using assms(2) by (simp_all add: plain_cipher_def)
  obtain a n where e: "Encrypt (ue_aead ue) d c m = (c\<lparr>bc_noncePatternApplied := a\<rparr>, Inr (n @ ae_Seal (ue_aead ue) (bc_key c) n m))"
      "length n = 24" "bc_userName c \<noteq> [] \<longrightarrow> CheckUserFromHint (string_bytes (bc_userName c)) n = Inr True"
    using Encrypt_explicit [OF assms(1) c(1) assms(3) c(2), of m] c(3) by auto
  show ?thesis
    by (rule that [of "c\<lparr>bc_noncePatternApplied := a\<rparr>" n])
      (use e c(3) aead_sizes(1) [OF assms(1)] in \<open>auto simp: packet_seal_def EncryptWithNonce_def DefaultNonceSize_def
        hinted_def Let_def\<close>)
qed

definition packet_sent :: "'t packetUnderlay \<Rightarrow> segment \<Rightarrow> aeadBlockCipher \<Rightarrow> bytes \<Rightarrow> string \<Rightarrow> 't packetUnderlay" where
  "packet_sent u seg c b addr =
     (let u = put_cipher seg c u
      in u\<lparr>pu_out := pu_out u @ [(b, addr)], bu_outBytes := bu_outBytes u + int (length b)\<rparr>)"

lemma put_cipher_fields [simp]:
  "pu_writeErr (put_cipher seg c u) = pu_writeErr u" "pu_out (put_cipher seg c u) = pu_out u"
  by (simp_all add: put_cipher_def put_session_def split: sum.split option.split)

lemma packet_send_ok:
  "pu_writeErr u = None \<Longrightarrow> packet_send (put_cipher seg c u) b addr = (packet_sent u seg c b addr, Inr ())"
  by (simp add: packet_send_def conn_WriteTo_def packet_sent_def Let_def)

text \<open>How long the datagram is: it fits if the payload leaves room for the overhead.\<close>

definition fits :: "'t packetUnderlay \<Rightarrow> segment \<Rightarrow> bool" where
  "fits u seg \<longleftrightarrow> int (length (seg_payload seg)) + packetOverhead \<le> bu_mtu u"

lemma packet_length:
  assumes "aead_ok (ue_aead ue)" "plain_cipher c" "length n = 24" "length m = MetadataLength"
    and "b = (n @ ae_Seal (ue_aead ue) (bc_key c) n m) @ pad1 @ (if p = [] then [] else ae_Seal (ue_aead ue) (bc_key c) n p) @ pad2"
  shows "int (length b) \<le> packetOverhead + int (length p) + int (length pad1) + int (length pad2)"
  using assms
  by (auto simp: plain_cipher_def cipher_ok_def length_Seal packetOverhead_def cipher_consts MetadataLength_def)

lemma packet_write_session_ok:
  assumes "float_env_ok (ue_fe ue)" "aead_ok (ue_aead ue)" "pu_writeErr u = None" "plain_cipher c"
    and "delivery_ok (bc_noncePattern c) (d, now, now', jit)" "seg_metadata seg = Session_md ss" "segment_ok seg"
  obtains c' b where "packet_write_session ue d now u seg addr c ss = (packet_sent u seg c' b addr, Inr ())"
    "datagram_of ue c now seg b" "fits u seg \<Longrightarrow> int (length b) \<le> bu_mtu u"
proof -
  have d: "draws_ok (bc_noncePattern c) (wd_meta d)" "rand_ok (wd_pad1 d)"
    using assms(5) by (simp_all add: delivery_ok_def)
  have len: "uint (ss_payloadLen ss) = int (length (seg_payload seg))"
    using assms(6,7) by (simp add: segment_ok_def uint_nat unat_of_nat DefaultOverhead_def)
  let ?mx = "MaxPaddingSize (bu_mtu u) PacketTransport (uint (ss_payloadLen ss)) 0"
  have "0 \<le> packetOverhead + uint (ss_payloadLen ss)" "packetOverhead + uint (ss_payloadLen ss) \<le> 2 ^ 48"
    using uint_bounded [of "ss_payloadLen ss"] by simp_all
  then obtain pad where pad: "rbind (buildRecommendedPaddingOpts (ue_he ue) (wd_pad1 d) ?mx
      (packetOverhead + uint (ss_payloadLen ss)) (bc_userName c)) (newPadding (ue_fe ue) (wd_pad1 d)) = Inr pad"
      "int (length pad) \<le> ?mx"
    by (rule newPadding_recommended [OF assms(1) d(2) packet_MaxPaddingSize(1,2)])
  let ?m = "marshalled (padded (seg_metadata seg) [] pad) now"
  obtain c' n where s: "packet_seal ue (wd_meta d) c ?m (seg_payload seg) = (c', Inr (n @ ae_Seal (ue_aead ue) (bc_key c) n ?m,
      if seg_payload seg = [] then [] else ae_Seal (ue_aead ue) (bc_key c) n (seg_payload seg)))" "length n = 24"
    "hinted ue c (n @ ae_Seal (ue_aead ue) (bc_key c) n ?m) ?m"
    by (rule packet_seal_ok [OF assms(2,4) d(1)])
  let ?b = "(n @ ae_Seal (ue_aead ue) (bc_key c) n ?m) @ []
    @ (if seg_payload seg = [] then [] else ae_Seal (ue_aead ue) (bc_key c) n (seg_payload seg)) @ pad"
  show ?thesis
  proof (rule that [of c' ?b])
    show "packet_write_session ue d now u seg addr c ss = (packet_sent u seg c' ?b addr, Inr ())"
      using s(1) packet_send_ok [OF assms(3), of seg c' ?b addr] assms(6)
      unfolding packet_write_session_def pad(1) sum.case Let_def
      by (simp add: marshalled_def padded_def)
    show "datagram_of ue c now seg ?b"
      by (rule datagram_ofI [OF s(2) refl s(3)])
        (use order_trans [OF pad(2) packet_MaxPaddingSize(2)] assms(6) in simp_all)
    show "int (length ?b) \<le> bu_mtu u" if "fits u seg"
      using packet_length [OF assms(2,4) s(2) length_marshalled refl, of "padded (seg_metadata seg) [] pad" now "[]" "seg_payload seg" pad]
        that pad(2) packet_MaxPaddingSize(3) [of 0 "bu_mtu u" "uint (ss_payloadLen ss)"] len
      unfolding fits_def by simp
  qed
qed

lemma packet_write_dataAck_ok:
  assumes "float_env_ok (ue_fe ue)" "aead_ok (ue_aead ue)" "pu_writeErr u = None" "plain_cipher c"
    and "delivery_ok (bc_noncePattern c) (d, now, now', jit)" "seg_metadata seg = DataAck_md das" "segment_ok seg"
  obtains c' b where "packet_write_dataAck ue d now u seg addr c das = (packet_sent u seg c' b addr, Inr ())"
    "datagram_of ue c now seg b" "fits u seg \<Longrightarrow> int (length b) \<le> bu_mtu u"
proof -
  have d: "draws_ok (bc_noncePattern c) (wd_meta d)" "rand_ok (wd_pad1 d)" "rand_ok (wd_pad2 d)"
    using assms(5) by (simp_all add: delivery_ok_def)
  have len: "uint (das_payloadLen das) = int (length (seg_payload seg))"
    using assms(6,7) by (simp add: segment_ok_def uint_nat unat_of_nat DefaultOverhead_def)
  let ?mx = "\<lambda>n. MaxPaddingSize (bu_mtu u) PacketTransport (uint (das_payloadLen das)) n"
  obtain pad1 where pad1: "newPadding (ue_fe ue) (wd_pad1 d) (plain_padding_opts (?mx 0)) = Inr pad1" "int (length pad1) \<le> ?mx 0"
    by (rule newPadding_plain [OF assms(1) d(2) packet_MaxPaddingSize(1,2)])
  let ?n1 = "int (length pad1)"
  obtain pad2 where pad2: "newPadding (ue_fe ue) (wd_pad2 d) (plain_padding_opts (?mx ?n1)) = Inr pad2" "int (length pad2) \<le> ?mx ?n1"
    by (rule newPadding_plain [OF assms(1) d(3) packet_MaxPaddingSize(1,2)])
  let ?m = "marshalled (padded (seg_metadata seg) pad1 pad2) now"
  obtain c' n where s: "packet_seal ue (wd_meta d) c ?m (seg_payload seg) = (c', Inr (n @ ae_Seal (ue_aead ue) (bc_key c) n ?m,
      if seg_payload seg = [] then [] else ae_Seal (ue_aead ue) (bc_key c) n (seg_payload seg)))" "length n = 24"
    "hinted ue c (n @ ae_Seal (ue_aead ue) (bc_key c) n ?m) ?m"
    by (rule packet_seal_ok [OF assms(2,4) d(1)])
  let ?b = "(n @ ae_Seal (ue_aead ue) (bc_key c) n ?m) @ pad1
    @ (if seg_payload seg = [] then [] else ae_Seal (ue_aead ue) (bc_key c) n (seg_payload seg)) @ pad2"
  show ?thesis
  proof (rule that [of c' ?b])
    show "packet_write_dataAck ue d now u seg addr c das = (packet_sent u seg c' ?b addr, Inr ())"
      using s(1) packet_send_ok [OF assms(3), of seg c' ?b addr] assms(6)
      unfolding packet_write_dataAck_def pad1(1) pad2(1) sum.case Let_def
      by (simp add: marshalled_def padded_def)
    show "datagram_of ue c now seg ?b"
      by (rule datagram_ofI [OF s(2) refl s(3)])
        (use order_trans [OF pad1(2) packet_MaxPaddingSize(2)] order_trans [OF pad2(2) packet_MaxPaddingSize(2)] assms(6)
          in simp_all)
    show "int (length ?b) \<le> bu_mtu u" if "fits u seg"
      using packet_length [OF assms(2,4) s(2) length_marshalled refl, of "padded (seg_metadata seg) pad1 pad2" now pad1 "seg_payload seg" pad2]
        that pad1(2) pad2(2) packet_MaxPaddingSize(3) [of 0 "bu_mtu u" "uint (das_payloadLen das)"]
        packet_MaxPaddingSize(3) [of ?n1 "bu_mtu u" "uint (das_payloadLen das)"] len
      unfolding fits_def by linarith
  qed
qed

lemma packet_write_ok:
  assumes "float_env_ok (ue_fe ue)" "aead_ok (ue_aead ue)" "pu_writeErr u = None" "packet_cipher u seg = Inr c" "plain_cipher c"
    and "delivery_ok (bc_noncePattern c) (d, now, now', jit)" "segment_ok seg" "bu_isClient u \<longrightarrow> addr = pu_serverAddr u"
  obtains c' b where "packet_writeOneSegment ue d now u seg addr = (packet_sent u seg c' b addr, Inr ())"
    "datagram_of ue c now seg b" "fits u seg \<Longrightarrow> int (length b) \<le> bu_mtu u"
proof (cases "seg_metadata seg")
  case (Session_md ss)
  obtain c' b where "packet_write_session ue d now u seg addr c ss = (packet_sent u seg c' b addr, Inr ())"
      "datagram_of ue c now seg b" "fits u seg \<Longrightarrow> int (length b) \<le> bu_mtu u"
    by (rule packet_write_session_ok [OF assms(1,2,3,5,6) Session_md assms(7)]) blast
  with assms(4,7,8) Session_md show ?thesis
    by (intro that [of c' b]) (simp_all add: packet_writeOneSegment_def toSessionStruct_def segment_ok_def)
next
  case (DataAck_md das)
  obtain c' b where "packet_write_dataAck ue d now u seg addr c das = (packet_sent u seg c' b addr, Inr ())"
      "datagram_of ue c now seg b" "fits u seg \<Longrightarrow> int (length b) \<le> bu_mtu u"
    by (rule packet_write_dataAck_ok [OF assms(1,2,3,5,6) DataAck_md assms(7)]) blast
  with assms(4,7,8) DataAck_md dataAck_not_session [of "das_protocol das"] show ?thesis
    by (intro that [of c' b]) (simp_all add: packet_writeOneSegment_def toSessionStruct_def toDataAckStruct_def segment_ok_def)
qed

section \<open>Reading\<close>

text \<open>The cipher that opens the payload has the key with which it was sealed.\<close>

definition opens :: "'t packetUnderlay \<Rightarrow> aeadBlockCipher option \<Rightarrow> bytes \<Rightarrow> bool" where
  "opens u blk k \<longleftrightarrow> (\<exists>r. (case blk of Some c \<Rightarrow> Some c | None \<Rightarrow> if bu_isClient u then pu_block u else None) = Some r
     \<and> plain_cipher r \<and> bc_key r = k)"

lemma word_length: "n < 256 \<Longrightarrow> unat (of_nat n :: u8) = n" "n < 65536 \<Longrightarrow> unat (of_nat n :: u16) = n"
  by (simp_all add: unat_of_nat)

lemma parse_payload_ok:
  assumes "aead_ok (ue_aead ue)" "opens u blk k" "length n = 24" "length p + DefaultOverhead < 2 ^ 16" "length pad < 256"
  shows "parse_payload ue u (of_nat (length p)) (of_nat (length pad)) n
    ((if p = [] then [] else ae_Seal (ue_aead ue) k n p) @ pad) blk = Inr p"
proof (cases "p = []")
  case True
  then show ?thesis using assms(5) by (simp add: parse_payload_def word_length)
next
  case False
  obtain r where r: "(case blk of Some c \<Rightarrow> Some c | None \<Rightarrow> if bu_isClient u then pu_block u else None) = Some r"
      "plain_cipher r" "bc_key r = k" using assms(2) by (auto simp: opens_def)
  have k: "length k = 32" using r(2,3) by (auto simp: plain_cipher_def cipher_ok_def)
  have n: "unat (of_nat (length p) :: u16) = length p" using assms(4) by (intro word_length) (simp add: DefaultOverhead_def)
  then have pos: "(0 :: u16) < of_nat (length p)" using False by (simp add: word_less_nat_alt)
  have e: "(of_nat (length p) :: u16) + of_nat DefaultOverhead = of_nat (length p + 16)" by (simp add: DefaultOverhead_def)
  have n16: "unat ((of_nat (length p) :: u16) + of_nat DefaultOverhead) = length p + 16"
    unfolding e using assms(4) by (intro word_length) (simp add: DefaultOverhead_def)
  have s: "length (ae_Seal (ue_aead ue) k n p) = length p + 16" "ae_Open (ue_aead ue) k n (ae_Seal (ue_aead ue) k n p) = Some p"
    using length_Seal [OF assms(1) k assms(3)] aead_roundtrip [OF assms(1) k assms(3)] by simp_all
  show ?thesis
    unfolding parse_payload_def r(1) n n16 word_length(1) [OF assms(5)] using False pos s r(2,3) assms(3) aead_sizes(1) [OF assms(1)]
    by (simp add: DecryptWithNonce_def plain_cipher_def aead_open_result_def DefaultOverhead_def)
qed

lemma packet_parse_ok:
  assumes "aead_ok (ue_aead ue)" "opens u blk k" "segment_ok seg" "delivery_ok pat (d, now, now', jit)" "length n = 24"
    and "length pad1 < 256" "length pad2 < 256" "case seg_metadata seg of Session_md _ \<Rightarrow> pad1 = [] | _ \<Rightarrow> True"
  obtains seg' where "packet_parse ue now' u n (pad1 @ (if seg_payload seg = [] then [] else ae_Seal (ue_aead ue) k n (seg_payload seg)) @ pad2)
      blk (marshalled (padded (seg_metadata seg) pad1 pad2) now) = Some (Inr seg')"
    "message seg' = message seg" "seg_block seg' = blk"
proof (cases "seg_metadata seg")
  case (Session_md ss)
  let ?ss = "ss\<lparr>ss_suffixLen := of_nat (length pad2), ss_timestamp := minutes (unix_seconds now)\<rparr>"
  have seg: "length (seg_payload seg) + DefaultOverhead < 2 ^ 16" "isSessionProtocol (ss_protocol ss)"
      "ss_payloadLen ss = of_nat (length (seg_payload seg))" "pad1 = []"
    using assms(3,8) Session_md by (simp_all add: segment_ok_def)
  show ?thesis
    by (rule that [of "(packet_segment (Session_md ?ss) (seg_payload seg))\<lparr>seg_block := blk\<rparr>"])
      (use unmarshal_session [OF seg(2) assms(4), where ?pad1.0 = "[]" and ?pad2.0 = pad2] parse_payload_ok [OF assms(1,2,5) seg(1) assms(7)]
        seg(2-4) Session_md in \<open>simp_all add: packet_parse_def parseSessionSegment_def packet_segment_def message_def strip_metadata_def
          split: option.split\<close>)
next
  case (DataAck_md das)
  let ?das = "das\<lparr>das_prefixLen := of_nat (length pad1), das_suffixLen := of_nat (length pad2),
    das_timestamp := minutes (unix_seconds now)\<rparr>"
  have seg: "length (seg_payload seg) + DefaultOverhead < 2 ^ 16" "isDataAckProtocol (das_protocol das)"
      "das_payloadLen das = of_nat (length (seg_payload seg))"
    using assms(3) DataAck_md by (simp_all add: segment_ok_def)
  have 1: "parseDataAckSegment ue u ?das n (pad1 @ (if seg_payload seg = [] then [] else ae_Seal (ue_aead ue) k n (seg_payload seg)) @ pad2) blk
    = Inr (packet_segment (DataAck_md ?das) (seg_payload seg))"
    using parse_payload_ok [OF assms(1,2,5) seg(1) assms(7)] word_length(1) [OF assms(6)] seg(3)
    by (cases "pad1 = []") (simp_all add: parseDataAckSegment_def word_less_nat_alt)
  show ?thesis
    by (rule that [of "(packet_segment (DataAck_md ?das) (seg_payload seg))\<lparr>seg_block := blk\<rparr>"])
      (use unmarshal_dataAck [OF seg(2) assms(4), where ?pad1.0 = pad1 and ?pad2.0 = pad2] 1 dataAck_not_session [OF seg(2)]
        seg(2) DataAck_md in \<open>simp_all add: packet_parse_def packet_segment_def message_def strip_metadata_def
          split: option.split\<close>)
qed

lemma plain_Decrypt:
  assumes "aead_ok (ue_aead ue)" "plain_cipher r" "length n = 24"
  shows "Decrypt (ue_aead ue) r (n @ ct) = (r, aead_open_result (ue_aead ue) (bc_key r) n ct)"
  using assms(2,3) aead_sizes(1) [OF assms(1)] by (simp add: Decrypt_def plain_cipher_def)

text \<open>What reading a datagram changes.\<close>

definition packet_seen :: "'t packetUnderlay \<Rightarrow> int \<Rightarrow> replayCache \<Rightarrow> cipher_cache \<Rightarrow> 't packetUnderlay" where
  "packet_seen u k rc cache = u\<lparr>bu_inBytes := k, pu_packetReplayCache := rc, pu_blockCipherCache := cache\<rparr>"

lemma packet_seen_simps [simp]:
  "bu_sessionMap (packet_seen u k rc cache) = bu_sessionMap u" "bu_isClient (packet_seen u k rc cache) = bu_isClient u"
  "pu_block (packet_seen u k rc cache) = pu_block u" "bu_readySessions (packet_seen u k rc cache) = bu_readySessions u"
  by (simp_all add: packet_seen_def)

lemma datagram_parts:
  assumes "aead_ok (ue_aead ue)" "plain_cipher c" "datagram_of ue c now seg b"
  obtains n pad1 pad2 where "take 72 b = n @ ae_Seal (ue_aead ue) (bc_key c) n (marshalled (padded (seg_metadata seg) pad1 pad2) now)"
    "drop 72 b = pad1 @ (if seg_payload seg = [] then [] else ae_Seal (ue_aead ue) (bc_key c) n (seg_payload seg)) @ pad2"
    "length n = 24" "take 24 b = n" "72 \<le> length b"
    "hinted ue c (take 72 b) (marshalled (padded (seg_metadata seg) pad1 pad2) now)"
    "length pad1 < 256" "length pad2 < 256" "case seg_metadata seg of Session_md _ \<Rightarrow> pad1 = [] | _ \<Rightarrow> True"
proof -
  obtain n em pad1 pad2 ep where w: "b = em @ pad1 @ ep @ pad2" "length n = 24"
      "em = n @ ae_Seal (ue_aead ue) (bc_key c) n (marshalled (padded (seg_metadata seg) pad1 pad2) now)"
      "hinted ue c em (marshalled (padded (seg_metadata seg) pad1 pad2) now)" "length pad1 < 256" "length pad2 < 256"
      "case seg_metadata seg of Session_md _ \<Rightarrow> pad1 = [] | _ \<Rightarrow> True"
      "ep = (if seg_payload seg = [] then [] else ae_Seal (ue_aead ue) (bc_key c) n (seg_payload seg))"
    using assms(3) unfolding datagram_of_def by blast
  have "length (bc_key c) = 32" using assms(2) by (simp add: plain_cipher_def cipher_ok_def)
  then have "length em = 72" using length_Seal [OF assms(1) _ w(2)] w(2,3) by (simp add: MetadataLength_def)
  with w show ?thesis by (intro that [of n pad1 pad2]) simp_all
qed

lemma packet_datagram_parsed:
  assumes "\<not> (bu_isClient u \<and> addr \<noteq> pu_serverAddr u)" "72 \<le> length b" "length b \<le> 1500"
    and "IsDuplicate (pu_packetReplayCache u) (take DefaultOverhead b) addr now = (rc, replay)"
    and "(if bu_isClient u then packet_decrypt_client ue (take 72 b) (packet_seen u (bu_inBytes u + int (length b)) rc (pu_blockCipherCache u))
          else packet_decrypt_server ue jit now replay (take 72 b) addr
            (packet_seen u (bu_inBytes u + int (length b)) rc (pu_blockCipherCache u))) = (u', Inr (Some (blk, m)))"
  shows "packet_datagram ue jit now b addr u = (u', packet_parse ue now u' (take 24 b) (drop 72 b) blk m)"
proof -
  have s: "packet_seen u k rc (pu_blockCipherCache u) = u\<lparr>bu_inBytes := k, pu_packetReplayCache := rc\<rparr>" for k
    by (simp add: packet_seen_def)
  show ?thesis using assms unfolding s
    by (auto simp: packet_datagram_def Let_def packetNonHeaderPosition_def cipher_consts MetadataLength_def
        min_def split: if_splits)
qed

lemma client_reads:
  assumes "aead_ok (ue_aead ue)" "plain_cipher c" "datagram_of ue c now seg b" "delivery_ok pat (d, now, now', jit)" "segment_ok seg"
    and "length b \<le> 1500" "bu_isClient u" "pu_block u = Some r" "plain_cipher r" "bc_key r = bc_key c"
  obtains k rc seg' where "packet_datagram ue jit now' b (pu_serverAddr u) u = (packet_seen u k rc (pu_blockCipherCache u), Some (Inr seg'))"
    "message seg' = message seg"
proof -
  obtain n pad1 pad2 where w: "take 72 b = n @ ae_Seal (ue_aead ue) (bc_key c) n (marshalled (padded (seg_metadata seg) pad1 pad2) now)"
    "drop 72 b = pad1 @ (if seg_payload seg = [] then [] else ae_Seal (ue_aead ue) (bc_key c) n (seg_payload seg)) @ pad2"
    "length n = 24" "take 24 b = n" "72 \<le> length b"
    "hinted ue c (take 72 b) (marshalled (padded (seg_metadata seg) pad1 pad2) now)"
    "length pad1 < 256" "length pad2 < 256" "case seg_metadata seg of Session_md _ \<Rightarrow> pad1 = [] | _ \<Rightarrow> True"
    by (rule datagram_parts [OF assms(1-3)])
  obtain rc replay where dup: "IsDuplicate (pu_packetReplayCache u) (take DefaultOverhead b) (pu_serverAddr u) now' = (rc, replay)"
    by fastforce
  let ?u = "packet_seen u (bu_inBytes u + int (length b)) rc (pu_blockCipherCache u)"
  have "length (bc_key c) = 32" using assms(2) by (simp add: plain_cipher_def cipher_ok_def)
  then have "packet_decrypt_client ue (take 72 b) ?u
      = (?u, Inr (Some (None, marshalled (padded (seg_metadata seg) pad1 pad2) now)))"
    unfolding w(1) packet_decrypt_client_def
    using plain_Decrypt [OF assms(1,9) w(3)] aead_roundtrip [OF assms(1) _ w(3)] assms(8,10)
    by (simp add: aead_open_result_def packet_seen_def)
  then have "packet_datagram ue jit now' b (pu_serverAddr u) u
      = (?u, packet_parse ue now' ?u n (drop 72 b) None (marshalled (padded (seg_metadata seg) pad1 pad2) now))"
    using packet_datagram_parsed [OF _ w(5) assms(6) dup] assms(7) unfolding w(4) by simp
  moreover have "opens ?u None (bc_key c)" using assms(7-10) by (simp add: opens_def)
  ultimately show ?thesis
    unfolding w(2) using packet_parse_ok [OF assms(1) _ assms(5,4) w(3,7,8,9), of ?u None] that by metis
qed

text \<open>The sessions of a server have stateless ciphers of its users.\<close>

definition session_ciphers_ok :: "uenv \<Rightarrow> user list \<Rightarrow> (u32 \<times> 't session) list \<Rightarrow> bool" where
  "session_ciphers_ok ue us ss \<longleftrightarrow>
     list_all (\<lambda>(sid, s). case se_block s of None \<Rightarrow> True | Some k \<Rightarrow> plain_cipher k \<and> bc_key k \<in> user_keys (ue_kdf ue) us) ss"

lemma try_sessions_ok:
  assumes "aead_ok (ue_aead ue)" "authentic (ue_aead ue) (user_keys (ue_kdf ue) us)" "session_ciphers_ok ue us ss"
    and "key \<in> user_keys (ue_kdf ue) us" "length key = 32" "length n = 24"
  shows "try_sessions ue remote addr (n @ ae_Seal (ue_aead ue) key n m) ss = Inr None
     \<or> (\<exists>c. try_sessions ue remote addr (n @ ae_Seal (ue_aead ue) key n m) ss = Inr (Some (c, m)) \<and> plain_cipher c \<and> bc_key c = key)"
  using assms(3)
proof (induction ss)
  case (Cons x ss)
  obtain sid s where x: "x = (sid, s)" by fastforce
  show ?case
  proof (cases "\<exists>k. se_block s = Some k \<and> remote sid = Some addr")
    case True
    then obtain k where k: "se_block s = Some k" "remote sid = Some addr" by blast
    then have p: "plain_cipher k" "bc_key k \<in> user_keys (ue_kdf ue) us" using Cons.prems x by (auto simp: session_ciphers_ok_def)
    show ?thesis
    proof (cases "bc_key k = key")
      case True
      then show ?thesis using k p plain_Decrypt [OF assms(1) p(1) assms(6)] aead_roundtrip [OF assms(1,5,6)] x
        by (simp add: aead_open_result_def)
    next
      case False
      then have "ae_Open (ue_aead ue) (bc_key k) n (ae_Seal (ue_aead ue) key n m) = None"
        using assms(2,4) p(2) by (auto simp: authentic_def)
      then show ?thesis using Cons k x plain_Decrypt [OF assms(1) p(1) assms(6)]
        by (simp add: aead_open_result_def session_ciphers_ok_def)
    qed
  next
    case False
    then show ?thesis using Cons x by (auto simp: session_ciphers_ok_def split: option.split)
  qed
qed simp

definition packet_server_ok :: "uenv \<Rightarrow> int \<Rightarrow> 't packetUnderlay \<Rightarrow> bool" where
  "packet_server_ok ue now u \<longleftrightarrow> users_ok ue now (pu_users u) (pu_blockCipherCache u)
     \<and> session_ciphers_ok ue (pu_users u) (bu_sessionMap u) \<and> \<not> bu_isClient u
     \<and> (\<forall>p q. bu_trafficPattern u = Some p \<longrightarrow> tp_nonce p = Some q \<longrightarrow> pattern_ok q)"

lemma new_session_cipher:
  assumes "packet_server_ok ue now u" "user_cipher ue (pu_users u) now c" "hinted ue c em m" "\<forall>i. 0 \<le> jit i"
  obtains cache c' where "serverTryDecryptMetadataForNewSession ue jit now em u = (u\<lparr>pu_blockCipherCache := cache\<rparr>, Inr (c', m))"
    "plain_cipher c'" "bc_key c' = bc_key c"
proof -
  have us: "users_ok ue now (pu_users u) (pu_blockCipherCache u)" using assms(1) by (simp add: packet_server_ok_def)
  obtain cache q v where q: "match_user ue jit now (pu_users u) (pu_userHintIsMandatory u) em (pu_blockCipherCache u)
      = (cache, Inr (Some (q, m, ur_name v)))" "v \<in> set (pu_users u)" "bc_key q = bc_key c" "fresh_cipher True q"
    by (rule match_user_ok [OF us assms(2-4)])
  let ?c = "case bu_trafficPattern u of None \<Rightarrow> SetBlockContext (ur_name v) q
    | Some p \<Rightarrow> SetNoncePattern (tp_nonce p) (SetBlockContext (ur_name v) q)"
  show ?thesis
    by (rule that [of cache ?c])
      (use q assms(1) in \<open>auto simp: packet_server_ok_def serverTryDecryptMetadataForNewSession_def Let_def plain_cipher_def fresh_cipher_def cipher_ok_def
        SetBlockContext_def SetNoncePattern_def split: option.split\<close>)
qed

lemma server_decrypts:
  assumes "packet_server_ok ue now u" "plain_cipher c" "user_cipher ue (pu_users u) now c" "hinted ue c em m" "\<forall>i. 0 \<le> jit i"
  obtains cache c' where "packet_decrypt_server ue jit now False em addr u = (u\<lparr>pu_blockCipherCache := cache\<rparr>, Inr (Some (Some c', m)))"
    "plain_cipher c'" "bc_key c' = bc_key c"
proof -
  have s: "session_ciphers_ok ue (pu_users u) (bu_sessionMap u)"
      "aead_ok (ue_aead ue)" "authentic (ue_aead ue) (user_keys (ue_kdf ue) (pu_users u))"
    using assms(1) by (simp_all add: packet_server_ok_def users_ok_def)
  have k: "length (bc_key c) = 32" using assms(2) by (simp add: plain_cipher_def cipher_ok_def)
  obtain n where n: "em = n @ ae_Seal (ue_aead ue) (bc_key c) n m" "length n = 24" using assms(4) by (auto simp: hinted_def)
  from try_sessions_ok [OF s(2,3,1) user_cipher_key [OF assms(3)] k n(2), of "pu_remoteAddr u" addr m]
  show ?thesis unfolding n(1) [symmetric]
  proof (elim disjE exE conjE)
    fix c' assume "try_sessions ue (pu_remoteAddr u) addr em (bu_sessionMap u) = Inr (Some (c', m))" "plain_cipher c'" "bc_key c' = bc_key c"
    then show ?thesis by (intro that [of "pu_blockCipherCache u" c']) (simp_all add: packet_decrypt_server_def)
  next
    assume t: "try_sessions ue (pu_remoteAddr u) addr em (bu_sessionMap u) = Inr None"
    obtain cache c' where c': "serverTryDecryptMetadataForNewSession ue jit now em u = (u\<lparr>pu_blockCipherCache := cache\<rparr>, Inr (c', m))"
      "plain_cipher c'" "bc_key c' = bc_key c" by (rule new_session_cipher [OF assms(1,3-5)])
    with t show ?thesis by (intro that [of cache c']) (simp_all add: packet_decrypt_server_def)
  qed
qed

lemma server_reads:
  assumes "packet_server_ok ue now' u" "plain_cipher c" "user_cipher ue (pu_users u) now' c" "datagram_of ue c now seg b"
    and "delivery_ok pat (d, now, now', jit)" "segment_ok seg" "length b \<le> 1500"
    and "\<not> snd (IsDuplicate (pu_packetReplayCache u) (take DefaultOverhead b) addr now')"
  obtains k rc cache seg' c' where "packet_datagram ue jit now' b addr u = (packet_seen u k rc cache, Some (Inr seg'))"
    "message seg' = message seg" "seg_block seg' = Some c'" "plain_cipher c'" "bc_key c' = bc_key c"
proof -
  have a: "aead_ok (ue_aead ue)" "\<not> bu_isClient u" using assms(1) by (simp_all add: packet_server_ok_def users_ok_def)
  have jit: "\<forall>i. 0 \<le> jit i" using assms(5) by (simp add: delivery_ok_def)
  obtain n pad1 pad2 where w: "take 72 b = n @ ae_Seal (ue_aead ue) (bc_key c) n (marshalled (padded (seg_metadata seg) pad1 pad2) now)"
    "drop 72 b = pad1 @ (if seg_payload seg = [] then [] else ae_Seal (ue_aead ue) (bc_key c) n (seg_payload seg)) @ pad2"
    "length n = 24" "take 24 b = n" "72 \<le> length b"
    "hinted ue c (take 72 b) (marshalled (padded (seg_metadata seg) pad1 pad2) now)"
    "length pad1 < 256" "length pad2 < 256" "case seg_metadata seg of Session_md _ \<Rightarrow> pad1 = [] | _ \<Rightarrow> True"
    by (rule datagram_parts [OF a(1) assms(2,4)])
  obtain rc where dup: "IsDuplicate (pu_packetReplayCache u) (take DefaultOverhead b) addr now' = (rc, False)"
    using assms(8) by (metis prod.collapse)
  let ?k = "bu_inBytes u + int (length b)"
  have s: "packet_server_ok ue now' (packet_seen u ?k rc (pu_blockCipherCache u))"
      "user_cipher ue (pu_users (packet_seen u ?k rc (pu_blockCipherCache u))) now' c"
    using assms(1,3) by (simp_all add: packet_server_ok_def packet_seen_def)
  obtain cache c' where c': "packet_decrypt_server ue jit now' False (take 72 b) addr (packet_seen u ?k rc (pu_blockCipherCache u))
      = ((packet_seen u ?k rc (pu_blockCipherCache u))\<lparr>pu_blockCipherCache := cache\<rparr>,
         Inr (Some (Some c', marshalled (padded (seg_metadata seg) pad1 pad2) now)))"
    "plain_cipher c'" "bc_key c' = bc_key c" by (rule server_decrypts [OF s(1) assms(2) s(2) w(6) jit])
  have "packet_datagram ue jit now' b addr u
      = (packet_seen u ?k rc cache, packet_parse ue now' (packet_seen u ?k rc cache) n (drop 72 b) (Some c')
          (marshalled (padded (seg_metadata seg) pad1 pad2) now))"
    using packet_datagram_parsed [OF _ w(5) assms(7) dup] c'(1) a(2) unfolding w(4) by (simp add: packet_seen_def)
  moreover have "opens (packet_seen u ?k rc cache) (Some c') (bc_key c)" using c' by (simp add: opens_def)
  moreover note that c'(2,3)
  ultimately show ?thesis
    unfolding w(2) using packet_parse_ok [OF a(1) _ assms(6,5) w(3,7,8,9), of "packet_seen u ?k rc cache" "Some c'"] by metis
qed

lemma plain_sessions_no_panic:
  assumes "aead_ok (ue_aead ue)" "session_ciphers_ok ue us ss" "24 \<le> length em"
  shows "\<exists>r. try_sessions ue remote addr em ss = Inr r"
  using assms(2)
proof (induction ss)
  case (Cons x ss)
  obtain sid s where x: "x = (sid, s)" by fastforce
  have "Decrypt (ue_aead ue) k em = (k, aead_open_result (ue_aead ue) (bc_key k) (take 24 em) (drop 24 em))" if "plain_cipher k" for k
    using plain_Decrypt [OF assms(1) that, of "take 24 em" "drop 24 em"] assms(3) by simp
  with Cons x show ?case
    by (auto simp: session_ciphers_ok_def aead_open_result_def split: option.splits)
qed simp

lemma server_drops_replay:
  assumes "packet_server_ok ue now u" "\<forall>i. 0 \<le> jit i" "24 \<le> length em"
  obtains cache where "packet_decrypt_server ue jit now True em addr u = (u\<lparr>pu_blockCipherCache := cache\<rparr>, Inr None)"
proof -
  have s: "users_ok ue now (pu_users u) (pu_blockCipherCache u)" "session_ciphers_ok ue (pu_users u) (bu_sessionMap u)"
      "aead_ok (ue_aead ue)"
    using assms(1) by (simp_all add: packet_server_ok_def users_ok_def)
  obtain r where t: "try_sessions ue (pu_remoteAddr u) addr em (bu_sessionMap u) = Inr r"
    using plain_sessions_no_panic [OF s(3,2) assms(3)] by blast
  obtain cache m where m: "match_user ue jit now (pu_users u) (pu_userHintIsMandatory u) em (pu_blockCipherCache u) = (cache, Inr m)"
      "cache_ok (ue_kdf ue) now cache" "\<forall>b p v. m = Some (b, p, v) \<longrightarrow> fresh_cipher True b"
    by (rule match_user_total [OF s(1) assms(2,3)])
  show ?thesis
  proof (cases r)
    case None
    then show ?thesis using t m(1) by (intro that [of cache])
      (auto simp: packet_decrypt_server_def serverTryDecryptMetadataForNewSession_def Let_def split: option.split)
  next
    case (Some x)
    then show ?thesis using t by (cases x) (intro that [of "pu_blockCipherCache u"], simp add: packet_decrypt_server_def)
  qed
qed

section \<open>Properties\<close>

text \<open>An underlay that can read from an address what was sealed with a cipher.\<close>

definition reads_from :: "uenv \<Rightarrow> int \<Rightarrow> string \<Rightarrow> aeadBlockCipher \<Rightarrow> 't packetUnderlay \<Rightarrow> bool" where
  "reads_from ue now addr c r \<longleftrightarrow> \<not> bu_done r
     \<and> (if bu_isClient r
        then addr = pu_serverAddr r \<and> (\<exists>k. pu_block r = Some k \<and> plain_cipher k \<and> bc_key k = bc_key c)
        else packet_server_ok ue now r \<and> user_cipher ue (pu_users r) now c)"

lemma reader_reads:
  assumes "aead_ok (ue_aead ue)" "plain_cipher c" "datagram_of ue c now seg b" "delivery_ok pat (d, now, now', jit)" "segment_ok seg"
    and "length b \<le> 1500" "reads_from ue now' addr c r"
    and "bu_isClient r \<or> \<not> snd (IsDuplicate (pu_packetReplayCache r) (take DefaultOverhead b) addr now')"
  obtains r' seg' where "packet_datagram ue jit now' b addr (r\<lparr>pu_in := rest\<rparr>) = (r', Some (Inr seg'))" "message seg' = message seg"
    "bu_sessionMap r' = bu_sessionMap r" "pu_in r' = rest"
    "\<not> bu_isClient r \<longrightarrow> (\<exists>k. seg_block seg' = Some k \<and> plain_cipher k \<and> bc_key k = bc_key c)"
proof (cases "bu_isClient r")
  case True
  then obtain k where k: "addr = pu_serverAddr r" "pu_block r = Some k" "plain_cipher k" "bc_key k = bc_key c"
    using assms(7) by (auto simp: reads_from_def)
  obtain i rc seg' where "packet_datagram ue jit now' b (pu_serverAddr (r\<lparr>pu_in := rest\<rparr>)) (r\<lparr>pu_in := rest\<rparr>)
      = (packet_seen (r\<lparr>pu_in := rest\<rparr>) i rc (pu_blockCipherCache (r\<lparr>pu_in := rest\<rparr>)), Some (Inr seg'))" "message seg' = message seg"
    by (rule client_reads [OF assms(1-6), of "r\<lparr>pu_in := rest\<rparr>" k]) (use True k in simp_all)
  then show ?thesis
    by (intro that [of "packet_seen (r\<lparr>pu_in := rest\<rparr>) i rc (pu_blockCipherCache r)" seg'])
      (use True k(1) in \<open>simp_all add: packet_seen_def\<close>)
next
  case False
  obtain i rc cache seg' k where "packet_datagram ue jit now' b addr (r\<lparr>pu_in := rest\<rparr>)
      = (packet_seen (r\<lparr>pu_in := rest\<rparr>) i rc cache, Some (Inr seg'))" "message seg' = message seg"
      "seg_block seg' = Some k" "plain_cipher k" "bc_key k = bc_key c"
    by (rule server_reads [OF _ assms(2) _ assms(3-6), of "r\<lparr>pu_in := rest\<rparr>" addr])
      (use False assms(7,8) in \<open>simp_all add: reads_from_def packet_server_ok_def\<close>)
  then show ?thesis
    by (intro that [of "packet_seen (r\<lparr>pu_in := rest\<rparr>) i rc cache" seg']) (simp_all add: packet_seen_def)
qed

text \<open>
  C6. A segment crosses the network in one datagram, in both directions: whatever nonce and padding are
  drawn, the datagram is not longer than the MTU, and the underlay on the other side, whatever else it is doing
  and whatever datagrams it read before, reads the same message from it. The server learns the key
  of the user from the datagram alone, from a session with the peer or from the list of its users, and keeps it
  with the segment. Only a server that has seen the datagram from elsewhere does not read it.
\<close>

theorem packet_delivery:
  assumes "float_env_ok (ue_fe ue)" "aead_ok (ue_aead ue)" "pu_writeErr w = None" "packet_cipher w seg = Inr c" "plain_cipher c"
    and "delivery_ok (bc_noncePattern c) (d, now, now', jit)" "segment_ok seg" "bu_isClient w \<longrightarrow> dest = pu_serverAddr w"
    and "int (length (seg_payload seg)) + packetOverhead \<le> bu_mtu w" "bu_mtu w \<le> 1500" "reads_from ue now' addr c r"
  shows "\<exists>w' b. packet_writeOneSegment ue d now w seg dest = (w', Inr ()) \<and> pu_out w' = pu_out w @ [(b, dest)]
     \<and> int (length b) \<le> bu_mtu w
     \<and> (bu_isClient r \<or> \<not> snd (IsDuplicate (pu_packetReplayCache r) (take DefaultOverhead b) addr now') \<longrightarrow>
         (\<exists>r' seg'. packet_readOneSegment ue (\<lambda>_. jit) now' (r\<lparr>pu_in := (b, addr) # rest\<rparr>) = (r', Inr (Some (seg', addr)))
            \<and> same_message seg seg' \<and> bu_sessionMap r' = bu_sessionMap r \<and> pu_in r' = rest
            \<and> (\<not> bu_isClient r \<longrightarrow> (\<exists>k. seg_block seg' = Some k \<and> bc_key k = bc_key c))))"
proof -
  obtain c' b where b: "packet_writeOneSegment ue d now w seg dest = (packet_sent w seg c' b dest, Inr ())"
      "datagram_of ue c now seg b" "int (length b) \<le> bu_mtu w"
    using packet_write_ok [OF assms(1-8)] assms(9) unfolding fits_def by metis
  have out: "pu_out (packet_sent w seg c' b dest) = pu_out w @ [(b, dest)]" by (simp add: packet_sent_def Let_def)
  have len: "length b \<le> 1500" using b(3) assms(10) by simp
  have nd: "\<not> bu_done r" using assms(11) by (simp add: reads_from_def)
  have "\<exists>r' seg'. packet_readOneSegment ue (\<lambda>_. jit) now' (r\<lparr>pu_in := (b, addr) # rest\<rparr>) = (r', Inr (Some (seg', addr)))
      \<and> same_message seg seg' \<and> bu_sessionMap r' = bu_sessionMap r \<and> pu_in r' = rest
      \<and> (\<not> bu_isClient r \<longrightarrow> (\<exists>k. seg_block seg' = Some k \<and> bc_key k = bc_key c))"
    if new: "bu_isClient r \<or> \<not> snd (IsDuplicate (pu_packetReplayCache r) (take DefaultOverhead b) addr now')"
  proof -
    obtain r' seg' where r: "packet_datagram ue jit now' b addr (r\<lparr>pu_in := rest\<rparr>) = (r', Some (Inr seg'))" "message seg' = message seg"
      "bu_sessionMap r' = bu_sessionMap r" "pu_in r' = rest"
      "\<not> bu_isClient r \<longrightarrow> (\<exists>k. seg_block seg' = Some k \<and> plain_cipher k \<and> bc_key k = bc_key c)"
      by (rule reader_reads [OF assms(2,5) b(2) assms(6,7) len assms(11) new])
    then show ?thesis using nd
      by (intro exI [of _ r'] exI [of _ seg']) (auto simp: packet_readOneSegment_def same_message_def)
  qed
  with b(1,3) out show ?thesis by blast
qed

text \<open>
  C7. A replayed datagram is dropped: when its first bytes are in the replay cache, recorded
  within the expiry interval and fewer than \<open>capacity\<close> other records ago, and nothing in the cache came from
  the address of the replay, a server reads no segment from it, whoever the bytes belong to, and no
  session changes.
\<close>

theorem packet_replay_dropped:
  assumes "packet_server_ok ue now u" "\<forall>i. 0 \<le> jit i" "72 \<le> length b" "length b \<le> 1500"
    and "rc_inv c" "int (length calls) < rc_capacity c"
    and "\<forall>(d, g, t) \<in> set calls. t0 \<le> t \<and> t \<le> t0 + rc_expireInterval c" "t0 \<le> now" "now \<le> t0 + rc_expireInterval c"
    and "pu_packetReplayCache u = rc_run (fst (IsDuplicate c (take DefaultOverhead b) tag t0)) calls"
    and "addr \<notin> insert tag (rc_tags c) \<union> (\<lambda>(d, g, t). g) ` set calls" "pu_end u = ErrTimeout" "\<not> bu_done u"
  shows "\<exists>u'. packet_readOneSegment ue (\<lambda>_. jit) now (u\<lparr>pu_in := [(b, addr)]\<rparr>) = (u', Inr None)
     \<and> bu_sessionMap u' = bu_sessionMap u \<and> bu_readySessions u' = bu_readySessions u"
proof -
  let ?c = "rc_run (fst (IsDuplicate c (take DefaultOverhead b) tag t0)) calls" and ?u = "u\<lparr>pu_in := []\<rparr>"
  have "rc_holds ?c (computeSignature (take DefaultOverhead b)) (0 + length calls) t0"
    using assms(5-7) by (intro rc_holds_run IsDuplicate_records rc_inv_IsDuplicate) auto
  moreover have "addr \<notin> rc_tags ?c" 
    using assms(11) rc_tags_run [of "fst (IsDuplicate c (take DefaultOverhead b) tag t0)" calls]
      rc_tags_IsDuplicate [of c "take DefaultOverhead b" tag t0] by blast
  ultimately have "snd (IsDuplicate ?c (take DefaultOverhead b) addr now)"
    using assms(5,6,8,9) by (intro rc_holds_detect_tag [where k = "length calls"]) (auto intro: rc_inv_run rc_inv_IsDuplicate)
  then obtain rc where rc: "IsDuplicate (pu_packetReplayCache ?u) (take DefaultOverhead b) addr now = (rc, True)"
    using assms(10) by (cases "IsDuplicate ?c (take DefaultOverhead b) addr now") simp
  let ?v = "?u\<lparr>bu_inBytes := bu_inBytes u + int (length b), pu_packetReplayCache := rc\<rparr>"
  have "packet_server_ok ue now ?v" using assms(1) by (simp add: packet_server_ok_def)
  then obtain cache where "packet_decrypt_server ue jit now True (take 72 b) addr ?v = (?v\<lparr>pu_blockCipherCache := cache\<rparr>, Inr None)"
    using server_drops_replay [OF _ assms(2), of ue now ?v "take 72 b" addr thesis] assms(3) by auto
  moreover have "\<not> bu_isClient u" using assms(1) by (simp add: packet_server_ok_def)
  ultimately have "packet_datagram ue jit now b addr ?u = (?v\<lparr>pu_blockCipherCache := cache\<rparr>, None)"
    using assms(3,4) rc by (simp add: packet_datagram_def Let_def packetNonHeaderPosition_def cipher_consts MetadataLength_def min_def)
  with assms(12,13) show ?thesis by (simp add: packet_readOneSegment_def)
qed

section \<open>Witnesses\<close>

definition some_packet_server :: "user list \<Rightarrow> segment list packetUnderlay" where
  "some_packet_server us = baseUnderlay.extend (newBaseUnderlay (\<lambda>_. None) 0 False 1400 None)
     (packetUnderlay.fields '''' None us False Map.empty [] ErrTimeout [] None some_replayCache Map.empty)"

lemmas some_packet_server_defs = some_packet_server_def packetUnderlay.defs baseUnderlay.defs newBaseUnderlay_def

lemma some_packet_server_ok:
  "packet_server_ok some_uenv now (some_packet_server [alice]\<lparr>pu_packetReplayCache := rc\<rparr>)"
  using some_server_ok [of now rc]
  by (simp add: packet_server_ok_def server_ok_def some_server_defs some_packet_server_defs session_ciphers_ok_def)

lemma alice_cipher:
  obtains k where "plain_cipher k" "bc_noncePattern k = None" "user_cipher some_uenv [alice] 120000000000 k"
proof -
  have c: "cache_ok salt_kdf 120000000000 Map.empty" by (simp add: cache_ok_def)
  obtain blk t where blk: "snd (BlockCipherFromPassword salt_kdf Map.empty 0 120000000000 alice_password True) = Inr blk"
    by (rule BlockCipherFromPassword_ok [OF salt_kdf_ok user_password_nonempty [OF alice_password] c, of 0 True]) simp_all
  let ?k = "SetNoncePattern None (SetBlockContext (ur_name alice) blk)"
  have "fresh_cipher True ?k" "user_cipher some_uenv [alice] 120000000000 ?k"
    using new_user_cipher [of some_uenv alice "[alice]" alice_password 120000000000 Map.empty 0 120000000000 True blk None ?k]
      alice_password c blk salt_kdf_ok by (simp_all add: some_uenv_def)
  then show ?thesis
    by (intro that [of ?k]) (simp_all add: plain_cipher_def fresh_cipher_def SetNoncePattern_def)
qed

lemma new_to_server: "\<not> snd (IsDuplicate (pu_packetReplayCache (some_packet_server us)) b tag 120000000000)"
  by (simp add: some_packet_server_defs some_replayCache_def IsDuplicate_def rc_expire_def rc_rotate_def rc_lookup_def)

theorem packet_delivery_witness:
  "\<exists>(w :: segment list packetUnderlay) w' b r' seg'.
     packet_writeOneSegment some_uenv some_writes 120000000000 w some_open ''server'' = (w', Inr ())
   \<and> pu_out w' = pu_out w @ [(b, ''server'')] \<and> length b \<le> 1400
   \<and> packet_readOneSegment some_uenv (\<lambda>_ _. 0) 120000000000 (some_packet_server [alice]\<lparr>pu_in := [(b, ''client'')]\<rparr>)
       = (r', Inr (Some (seg', ''client''))) \<and> same_message some_open seg'"
proof -
  let ?r = "some_packet_server [alice]"
  obtain k where k: "plain_cipher k" "bc_noncePattern k = None" "user_cipher some_uenv [alice] 120000000000 k" by (rule alice_cipher)
  let ?w = "some_packet_server []\<lparr>bu_isClient := True, pu_serverAddr := ''server'', pu_block := Some k\<rparr>"
  have w: "packet_cipher ?w some_open = Inr k" "pu_writeErr ?w = None" "bu_mtu ?w = 1400"
    by (simp_all add: packet_cipher_def some_packet_server_defs)
  have r: "reads_from some_uenv 120000000000 ''client'' k ?r"
    using some_packet_server_ok [of 120000000000 some_replayCache] k(3)
    by (simp add: reads_from_def some_packet_server_defs)
  have "aead_ok (ue_aead some_uenv)" "float_env_ok (ue_fe some_uenv)" by (simp_all add: some_uenv_def tag_aead_ok some_env_ok)
  moreover have "int (length (seg_payload some_open)) + packetOverhead \<le> bu_mtu ?w"
    by (simp add: w(3) some_open_def packetOverhead_def cipher_consts MetadataLength_def)
  ultimately show ?thesis
    using packet_delivery [OF _ _ w(2,1) k(1), of some_uenv some_writes 120000000000 120000000000 "\<lambda>_. 0" "''server''" "''client''" ?r "[]"]
      r some_delivery_ok some_segments_ok(1) k(2) w(3) new_to_server [of "[alice]"] by (fastforce simp: some_delivery_def)
qed

theorem packet_replay_dropped_witness:
  "\<exists>u'. packet_readOneSegment some_uenv (\<lambda>_ _. 0) 120000000000
      (some_packet_server [alice]\<lparr>pu_packetReplayCache := fst (IsDuplicate some_replayCache (replicate 16 0) ''client'' 120000000000),
         pu_in := [(replicate 100 0, ''attacker'')]\<rparr>) = (u', Inr None) \<and> bu_sessionMap u' = []"
proof -
  let ?u = "some_packet_server [alice]\<lparr>pu_packetReplayCache := fst (IsDuplicate some_replayCache (replicate 16 0) ''client'' 120000000000)\<rparr>"
  have "rc_inv some_replayCache" "rc_capacity some_replayCache = 100" "rc_expireInterval some_replayCache = 10" "rc_tags some_replayCache = {}"
    by (simp_all add: rc_inv_def rc_tags_def some_replayCache_def)
  moreover have "bu_sessionMap ?u = []" "\<not> bu_done ?u" "pu_end ?u = ErrTimeout"
    by (simp_all add: some_packet_server_defs)
  ultimately show ?thesis
    using packet_replay_dropped [OF some_packet_server_ok, of "\<lambda>_. 0" "replicate 100 0" some_replayCache "[]" 120000000000 120000000000
        _ "''client''" "''attacker''"]
    by (auto simp: DefaultOverhead_def)
qed

end
