(* ===== verification/PacketLoop.thy ===== *)
theory PacketLoop
  imports PacketChannel
begin

text \<open>
  The event loop of a packet underlay keeps its sessions in order whatever datagrams arrive, and what an
  authenticated datagram with a wrong padding length does to it.
\<close>

section \<open>Sessions\<close>

lemma packet_sessions_upd [simp]:
  "sessions (u\<lparr>pu_block := c\<rparr>) = sessions u" "sessions (u\<lparr>pu_out := os\<rparr>) = sessions u" "sessions (u\<lparr>pu_in := i\<rparr>) = sessions u"
  "sessions (u\<lparr>pu_packetReplayCache := rc\<rparr>) = sessions u" "sessions (u\<lparr>pu_blockCipherCache := cc\<rparr>) = sessions u"
  "sessions (u\<lparr>pu_remoteAddr := ra\<rparr>) = sessions u" "sessions (u\<lparr>bu_inBytes := k\<rparr>) = sessions u"
  "sessions (u\<lparr>bu_outBytes := k\<rparr>) = sessions u"
  for u :: "'t packetUnderlay"
  by (simp_all add: sessions_def)

lemma decrypt_client_sessions: "sessions (fst (packet_decrypt_client ue em u)) = sessions u"
  by (simp add: packet_decrypt_client_def split: option.split prod.split sum.split go_error.split)

lemma tryDecrypt_sessions: "sessions (fst (serverTryDecryptMetadataForNewSession ue jit now em u)) = sessions u"
  by (simp add: serverTryDecryptMetadataForNewSession_def Let_def split: option.split prod.split sum.split)

lemma decrypt_server_sessions: "sessions (fst (packet_decrypt_server ue jit now replay em addr u)) = sessions u"
proof -
  obtain v r where "serverTryDecryptMetadataForNewSession ue jit now em u = (v, r)" by fastforce
  with tryDecrypt_sessions [of ue jit now em u] show ?thesis
    by (simp add: packet_decrypt_server_def split: option.split prod.split sum.split go_error.split)
qed

lemma packet_datagram_sessions: "sessions (fst (packet_datagram ue jit now b addr u)) = sessions u"
proof -
  obtain rc replay where d: "IsDuplicate (pu_packetReplayCache u) (take DefaultOverhead (take packetNonHeaderPosition (take 1500 b))) addr now
    = (rc, replay)" by fastforce
  let ?u = "u\<lparr>bu_inBytes := bu_inBytes u + int (length (take 1500 b)), pu_packetReplayCache := rc\<rparr>"
  let ?m = "if bu_isClient ?u then packet_decrypt_client ue (take packetNonHeaderPosition (take 1500 b)) ?u
    else packet_decrypt_server ue jit now replay (take packetNonHeaderPosition (take 1500 b)) addr ?u"
  obtain v r where m: "?m = (v, r)" by fastforce
  have "sessions (fst ?m) = sessions u" by (simp add: decrypt_client_sessions decrypt_server_sessions)
  then have "sessions v = sessions u" unfolding m by simp
  with d m show ?thesis
    by (auto simp: packet_datagram_def Let_def simp del: take_take split: sum.split option.split)
qed

lemma packet_read_loop_sessions: "sessions (fst (packet_read_loop ue jit now ds u)) = sessions u"
proof (induction ds arbitrary: u)
  case (Cons x ds)
  obtain b addr where x: "x = (b, addr)" by fastforce
  obtain v r where v: "packet_datagram ue (jit (length ds)) now b addr (u\<lparr>pu_in := ds\<rparr>) = (v, r)" by fastforce
  have "sessions v = sessions u"
    using packet_datagram_sessions [of ue "jit (length ds)" now b addr "u\<lparr>pu_in := ds\<rparr>"] v by simp
  with Cons.IH [of v] x v show ?case by (simp split: option.split sum.split)
qed simp

section \<open>The invariant\<close>

lemma registered_block [simp]: "registered ev c sid (s\<lparr>se_block := k\<rparr>) = registered ev c sid s"
  by (simp add: registered_def numbered_def)

lemma packet_ok_upd [simp]:
  "underlay_ok ev (u\<lparr>pu_block := c\<rparr>) = underlay_ok ev u" "underlay_ok ev (u\<lparr>pu_out := os\<rparr>) = underlay_ok ev u"
  "underlay_ok ev (u\<lparr>bu_outBytes := k\<rparr>) = underlay_ok ev u" "underlay_ok ev (u\<lparr>pu_remoteAddr := ra\<rparr>) = underlay_ok ev u"
  "underlay_ok ev (u\<lparr>pu_in := i\<rparr>) = underlay_ok ev u"
  for u :: "'t packetUnderlay"
  by (simp_all add: underlay_ok_def)

lemma put_cipher_ok:
  assumes "underlay_ok ev u"
  shows "underlay_ok ev (put_cipher seg c u)"
proof -
  have "underlay_ok ev (put_session u (s\<lparr>se_block := Some c\<rparr>))" if "map_of (bu_sessionMap u) sid = Some s" for sid s
    using put_session_ok [OF assms, of sid "s\<lparr>se_block := Some c\<rparr>"] ok_registered [OF assms that] by simp
  then show ?thesis using assms by (simp add: put_cipher_def split: sum.split option.split)
qed

lemma packet_send_ok': "underlay_ok ev u \<Longrightarrow> underlay_ok ev (fst (packet_send u b addr))"
  by (simp add: packet_send_def conn_WriteTo_def split: option.split)

lemma packet_write_keeps:
  assumes "underlay_ok ev u"
  shows "underlay_ok ev (fst (packet_writeOneSegment ue d now u seg addr))"
proof -
  have s: "underlay_ok ev (fst (packet_send (put_cipher seg c u) b addr))" for c b
    by (rule packet_send_ok' [OF put_cipher_ok [OF assms]])
  have "underlay_ok ev (fst (packet_write_session ue d now u seg addr c ss))" for c ss
    using assms put_cipher_ok [OF assms] s by (simp add: packet_write_session_def Let_def split: sum.split prod.split)
  moreover have "underlay_ok ev (fst (packet_write_dataAck ue d now u seg addr c das))" for c das
    using assms put_cipher_ok [OF assms] s by (simp add: packet_write_dataAck_def Let_def split: sum.split prod.split)
  ultimately show ?thesis using assms by (simp add: packet_writeOneSegment_def split: sum.split option.split)
qed

lemma clean_removed_ok: "underlay_ok ev u \<Longrightarrow> underlay_ok ev (fst (clean_removed ev gone s u))"
  using RemoveSession_ok [of ev u s]
  by (cases "RemoveSession ev u s"; cases "snd (RemoveSession ev u s)"; cases "projl (snd (RemoveSession ev u s))")
    (simp_all add: clean_removed_def)

lemma sbind_ok:
  "underlay_ok ev (fst m) \<Longrightarrow> (\<And>u a. underlay_ok ev u \<Longrightarrow> underlay_ok ev (fst (f u a))) \<Longrightarrow> underlay_ok ev (fst (sbind m f))"
  by (cases m; cases "snd m") auto

lemma packet_clean_ok: "underlay_ok ev u \<Longrightarrow> underlay_ok ev (fst (packet_clean_loop ev now ss u))"
proof (induction ss arbitrary: u)
  case (Cons x ss)
  then show ?case by (cases x) (simp add: sbind_ok clean_removed_ok)
qed simp

lemma packet_openRequest_ok:
  assumes "env_ok ev" "underlay_ok ev u"
  shows "underlay_ok ev (fst (packet_onOpenSessionRequest ev now u seg addr))"
proof -
  obtain v r where v: "onOpenSessionRequest ev PacketTransport (pu_users u) now u seg = (v, r)" by fastforce
  then have "underlay_ok ev v" using step_ok [OF assms underlay_step.u_openRequest] by blast
  then show ?thesis
    by (simp add: packet_onOpenSessionRequest_def v split: sum.split)
qed

lemma packet_dispatch_ok:
  assumes "env_ok ev" "underlay_ok ev u"
  shows "underlay_ok ev (fst (packet_dispatch ue ev d now u seg addr))"
proof -
  have "underlay_ok ev (fst (push_segment u s seg))" if "map_of (bu_sessionMap u) sid = Some s" for sid s
    using push_segment_ok [OF assms(2) ok_registered [OF assms(2) that]] .
  then show ?thesis
    using handler_ok [OF assms] packet_openRequest_ok [OF assms] packet_write_keeps [OF assms(2)] assms(2)
    by (simp add: packet_dispatch_def Let_def split: sum.split option.split)
qed

lemma packet_leave_ok: "underlay_ok ev u \<Longrightarrow> underlay_ok ev (fst (packet_leave ev now u))"
  using packet_clean_ok [of ev u now "bu_sessionMap u"]
  by (auto simp: packet_leave_def packet_cleanSessions_def split: prod.split)

lemma packet_round_ok:
  assumes "env_ok ev" "underlay_ok ev (pr_before pr u)"
  shows "underlay_ok ev (fst (packet_loop_round ue ev pr u))"
proof -
  define u0 where "u0 = pr_before pr u"
  obtain u1 r1 where 1: "(if pr_tick pr then packet_cleanSessions ev (pr_now pr) u0 else (u0, Inr ())) = (u1, r1)" by fastforce
  have ok1: "underlay_ok ev u1" using 1 packet_clean_ok [of ev u0 "pr_now pr" "bu_sessionMap u0"] assms(2)
    by (auto simp: u0_def packet_cleanSessions_def split: if_splits)
  obtain u2 r2 where 2: "packet_readOneSegment ue (pr_jitter pr) (pr_now pr) u1 = (u2, r2)" by fastforce
  have "sessions u2 = sessions u1"
    using packet_read_loop_sessions [of ue "pr_jitter pr" "pr_now pr" "pu_in u1" u1] 2 by (simp add: packet_readOneSegment_def)
  then have ok2: "underlay_ok ev u2" using underlay_ok_sessions [of u2 u1] ok1 by simp
  show ?thesis
    unfolding packet_loop_round_def Let_def u0_def [symmetric] 1 prod.case
    using assms(2) ok1 ok2 packet_dispatch_ok [OF assms(1) ok2]
    by (auto simp: packet_leave_ok u0_def [symmetric] 2 split: sum.split option.split go_error.split)
qed

section \<open>A wrong padding length\<close>

lemma unmarshal_raw:
  assumes "isDataAckProtocol (das_protocol das)" "delivery_ok pat (d, now, now', jit)"
  shows "dataAckStruct_Unmarshal zero_dataAckStruct (snd (dataAckStruct_Marshal das (unix_seconds now))) (unix_seconds now')
      = Inr (das\<lparr>das_timestamp := minutes (unix_seconds now)\<rparr>)"
    "snd (dataAckStruct_Marshal das (unix_seconds now)) ! 0 = das_protocol das"
    "length (snd (dataAckStruct_Marshal das (unix_seconds now))) = MetadataLength"
  using dataAck_unmarshal [of das "unix_seconds now" "unix_seconds now'" zero_dataAckStruct] assms
  by (simp_all add: delivery_ok_def dataAckStruct_fields)

section \<open>Properties\<close>

text \<open>
  The event loop of a packet underlay keeps its sessions in order: if the rest of the program keeps them
  in order between the rounds, then after any number of rounds, with whatever datagrams arrive from
  whatever addresses, session IDs are unique, every session is stored under its own non-zero ID with the
  role of the underlay and consistently numbered segments, and no more sessions are ready than the
  channel holds.
\<close>

theorem packet_loop_keeps_sessions:
  assumes "env_ok ev" "underlay_ok ev u"
    and "\<forall>pr \<in> set prs. \<forall>u. underlay_ok ev u \<longrightarrow> underlay_ok ev (pr_before pr u)"
  shows "underlay_ok ev (fst (packet_RunEventLoop ue ev prs u))"
  using assms(2,3)
proof (induction prs arbitrary: u)
  case (Cons pr prs)
  have "underlay_ok ev (fst (packet_loop_round ue ev pr u))"
    using Cons.prems by (intro packet_round_ok [OF assms(1)]) simp
  with Cons.IH Cons.prems(2) show ?case
    by (auto split: prod.split option.split)
qed simp

text \<open>
  C31. A datagram of an authenticated user can bring the server down: when the metadata of a data or
  acknowledgement segment announces more padding before the payload than the datagram has bytes left,
  \<open>parseDataAckSegment\<close> slices out of range, and the panic ends the event loop instead of the datagram
  being dropped.
\<close>

theorem packet_prefix_panics:
  assumes "packet_server_ok ue now' u" "plain_cipher c" "user_cipher ue (pu_users u) now' c" "delivery_ok pat (d, now, now', jit)"
    and "isDataAckProtocol (das_protocol das)" "length rest < unat (das_prefixLen das)"
    and "hinted ue c em (snd (dataAckStruct_Marshal das (unix_seconds now)))"
    and "\<not> snd (IsDuplicate (pu_packetReplayCache u) (take DefaultOverhead em) addr now')"
    and "pr_before pr u = u\<lparr>pu_in := [(em @ rest, addr)]\<rparr>" "\<not> pr_cancelled pr" "\<not> pr_tick pr" "\<not> bu_done u"
    and "pr_now pr = now'" "pr_jitter pr = (\<lambda>_. jit)"
  shows "\<exists>u'. packet_RunEventLoop ue ev (pr # prs) u = (u', Inl (Panic ''slice bounds out of range''))"
proof -
  let ?m = "snd (dataAckStruct_Marshal das (unix_seconds now))" and ?u = "u\<lparr>pu_in := []\<rparr>"
  have a: "aead_ok (ue_aead ue)" "\<not> bu_isClient u" using assms(1) by (simp_all add: packet_server_ok_def users_ok_def)
  have jit: "\<forall>i. 0 \<le> jit i" using assms(4) by (simp add: delivery_ok_def)
  have em: "length em = 72"
    using assms(2,7) length_Seal [OF a(1), of "bc_key c"]
    by (auto simp: hinted_def plain_cipher_def cipher_ok_def dataAckStruct_fields MetadataLength_def)
  have len: "length (em @ rest) \<le> 1500" using em assms(6) unsigned_less [of "das_prefixLen das", where ?'a = nat] by simp
  obtain rc where dup: "IsDuplicate (pu_packetReplayCache ?u) (take DefaultOverhead (em @ rest)) addr now' = (rc, False)"
    using assms(8) em by (cases "IsDuplicate (pu_packetReplayCache u) (take DefaultOverhead em) addr now'") (simp add: DefaultOverhead_def)
  let ?k = "bu_inBytes ?u + int (length (em @ rest))"
  have s: "packet_server_ok ue now' (packet_seen ?u ?k rc (pu_blockCipherCache ?u))"
      "user_cipher ue (pu_users (packet_seen ?u ?k rc (pu_blockCipherCache ?u))) now' c"
    using assms(1,3) by (simp_all add: packet_server_ok_def packet_seen_def)
  obtain cache c' where c': "packet_decrypt_server ue jit now' False em addr (packet_seen ?u ?k rc (pu_blockCipherCache ?u))
      = ((packet_seen ?u ?k rc (pu_blockCipherCache ?u))\<lparr>pu_blockCipherCache := cache\<rparr>, Inr (Some (Some c', ?m)))"
    "plain_cipher c'" "bc_key c' = bc_key c" by (rule server_decrypts [OF s(1) assms(2) s(2) assms(7) jit])
  let ?v = "(packet_seen ?u ?k rc (pu_blockCipherCache ?u))\<lparr>pu_blockCipherCache := cache\<rparr>"
  have "packet_datagram ue jit now' (em @ rest) addr ?u
      = (?v, packet_parse ue now' ?v (take 24 (em @ rest)) (drop 72 (em @ rest)) (Some c') ?m)"
    by (rule packet_datagram_parsed [OF _ _ len dup]) (use a(2) em c'(1) in simp_all)
  moreover have "0 < das_prefixLen das" using assms(6) by (simp add: word_less_nat_alt)
  then have "packet_parse ue now' ?v (take 24 (em @ rest)) (drop 72 (em @ rest)) (Some c') ?m = Some (Inl (Panic ''slice bounds out of range''))"
    using unmarshal_raw [OF assms(5,4)] dataAck_not_session [OF assms(5)] assms(5,6) em
    by (simp add: packet_parse_def parseDataAckSegment_def packet_error_def)
  ultimately show ?thesis
    using assms(9-14) by (simp add: packet_loop_round_def packet_readOneSegment_def Let_def)
qed

section \<open>Witnesses\<close>

definition some_packet_round :: "bytes \<Rightarrow> segment list packet_round" where
  "some_packet_round b = \<lparr>pr_before = (\<lambda>u. u\<lparr>pu_in := [(b, ''client'')]\<rparr>), pr_cancelled = False, pr_tick = False,
     pr_closing = False, pr_now = 120000000000, pr_jitter = (\<lambda>_ _. 0), pr_draws = some_writes\<rparr>"

theorem packet_loop_keeps_sessions_witness:
  "underlay_ok some_senv (fst (packet_RunEventLoop some_uenv some_senv
     [some_packet_round (replicate 80 1), some_packet_round [2]] (some_packet_server [alice])))"
proof (rule packet_loop_keeps_sessions [OF some_senv_ok])
  show "underlay_ok some_senv (some_packet_server [alice])"
    by (simp add: underlay_ok_def some_packet_server_defs)
  show "\<forall>pr \<in> set [some_packet_round (replicate 80 1), some_packet_round [2]].
      \<forall>u. underlay_ok some_senv u \<longrightarrow> underlay_ok some_senv (pr_before pr u)"
    by (simp add: some_packet_round_def)
qed

theorem packet_prefix_panics_witness:
  "\<exists>b u'. packet_RunEventLoop some_uenv some_senv [some_packet_round b] (some_packet_server [alice])
     = (u', Inl (Panic ''slice bounds out of range''))"
proof -
  let ?das = "zero_dataAckStruct\<lparr>das_protocol := dataClientToServer, das_prefixLen := 5\<rparr>" and ?u = "some_packet_server [alice]"
  let ?m = "snd (dataAckStruct_Marshal ?das (unix_seconds 120000000000))"
  obtain k where k: "plain_cipher k" "bc_noncePattern k = None" "user_cipher some_uenv [alice] 120000000000 k" by (rule alice_cipher)
  have a: "aead_ok (ue_aead some_uenv)" by (simp add: some_uenv_def tag_aead_ok)
  obtain n where h: "hinted some_uenv k (n @ ae_Seal (ue_aead some_uenv) (bc_key k) n ?m) ?m"
    by (rule packet_seal_ok [OF a k(1), of some_draws ?m "[]"]) (simp_all add: k(2) some_draws_ok)
  let ?em = "n @ ae_Seal (ue_aead some_uenv) (bc_key k) n ?m"
  have u: "packet_server_ok some_uenv 120000000000 ?u" "pu_users ?u = [alice]" "\<not> bu_done ?u"
    using some_packet_server_ok [of 120000000000 some_replayCache] by (simp_all add: some_packet_server_defs)
  have "\<exists>u'. packet_RunEventLoop some_uenv some_senv [some_packet_round (?em @ [])] ?u = (u', Inl (Panic ''slice bounds out of range''))"
    by (rule packet_prefix_panics [OF u(1) k(1) _ some_delivery_ok [unfolded some_delivery_def] _ _ h, of "[]" "''client''"])
      (use k(3) u(2,3) new_to_server [of "[alice]"] in
        \<open>simp_all add: some_packet_round_def isDataAckProtocol_def protocol_defs\<close>)
  then show ?thesis by blast
qed

end
