(* ===== verification/Mux.thy ===== *)
theory Mux
  imports StreamLoop PacketLoop
begin

text \<open>
  The multiplexer (\<open>src/pkg/protocol/mux.go\<close>): the underlays of a client or a server, reuse of underlays by new
  sessions, cleaning, listening and accepting. An underlay is known by a number, which stands for its pointer. Resolvers,
  dialers and listeners are functions of an environment; the random draws and the clock readings of a dial are
  arguments. Setters that only replace a dialer, a resolver or a factory are left out, as these are in the environment.
\<close>

section \<open>Underlays of either kind\<close>

datatype 't mux_underlay = Stream_underlay "'t streamUnderlay" | Packet_underlay "'t packetUnderlay"

fun mu_base :: "'t mux_underlay \<Rightarrow> 't baseUnderlay" where
  "mu_base (Stream_underlay t) = baseUnderlay.truncate t"
| "mu_base (Packet_underlay u) = baseUnderlay.truncate u"

fun mu_setScheduler :: "ScheduleController \<Rightarrow> 't mux_underlay \<Rightarrow> 't mux_underlay" where
  "mu_setScheduler c (Stream_underlay t) = Stream_underlay (t\<lparr>bu_scheduler := c\<rparr>)"
| "mu_setScheduler c (Packet_underlay u) = Packet_underlay (u\<lparr>bu_scheduler := c\<rparr>)"

fun mu_AddSession :: "'t mux_underlay \<Rightarrow> 't session \<Rightarrow> 't mux_underlay \<times> unit result" where
  "mu_AddSession (Stream_underlay t) s = (case AddSession StreamTransport t s of (t, r) \<Rightarrow> (Stream_underlay t, r))"
| "mu_AddSession (Packet_underlay u) s = (case AddSession PacketTransport u s of (u, r) \<Rightarrow> (Packet_underlay u, r))"

fun mu_Accept :: "'t mux_underlay \<Rightarrow> 't mux_underlay \<times> u32 result" where
  "mu_Accept (Stream_underlay t) = (case base_Accept t of (t, r) \<Rightarrow> (Stream_underlay t, r))"
| "mu_Accept (Packet_underlay u) = (case base_Accept u of (u, r) \<Rightarrow> (Packet_underlay u, r))"

fun mu_Close :: "'t senv \<Rightarrow> 't mux_underlay \<Rightarrow> 't mux_underlay \<times> unit result" where
  "mu_Close ev (Stream_underlay t) = (case stream_Close ev t of (t, r) \<Rightarrow> (Stream_underlay t, r))"
| "mu_Close ev (Packet_underlay u) = (case packet_Close ev u of (u, r) \<Rightarrow> (Packet_underlay u, r))"

fun mu_setUsers :: "user list \<Rightarrow> 't mux_underlay \<Rightarrow> 't mux_underlay" where
  "mu_setUsers us (Stream_underlay t) = Stream_underlay t"
| "mu_setUsers us (Packet_underlay u) = Packet_underlay (u\<lparr>pu_users := us\<rparr>)"

definition mu_scheduler :: "'t mux_underlay \<Rightarrow> ScheduleController" where
  "mu_scheduler u = bu_scheduler (mu_base u)"

section \<open>State\<close>

record underlayDescriptor =
  ud_mtu :: int
  ud_transportProtocol :: TransportProtocol
  ud_localAddr :: "string \<times> string"    \<comment> \<open>network and text; both empty for no address\<close>
  ud_remoteAddr :: "string \<times> string"

definition IsNilNetAddr :: "string \<times> string \<Rightarrow> bool" where
  "IsNilNetAddr a \<longleftrightarrow> fst a = [] \<and> snd a = []"

record 't mux_env =
  me_senv :: "'t senv"
  me_kdf :: kdf
  me_idleTime :: int
  me_registry :: registry
  me_established :: int
  me_streamReplayCache :: replayCache
  me_packetReplayCache :: replayCache
  me_resolveTCP :: "string \<Rightarrow> string result"
  me_resolveUDP :: "string \<Rightarrow> string result"
  me_dial :: "string \<Rightarrow> unit result"
  me_packetDial :: "string \<Rightarrow> unit result"
  me_listen :: "string \<Rightarrow> unit result"
  me_listenPacket :: "string \<Rightarrow> unit result"

record 't Mux =
  mx_isClient :: bool
  mx_endpoints :: "underlayDescriptor list"
  mx_underlays :: "(nat \<times> 't mux_underlay) list"
  mx_closed :: "(nat \<times> 't mux_underlay) list"    \<comment> \<open>underlays out of the list, as \<open>Close\<close> left them\<close>
  mx_next :: nat
  mx_bypassDialerDNS :: bool
  mx_trafficPattern :: "trafficPattern option"
  mx_chAccept :: "(nat \<times> u32) list"
  mx_acceptErr :: bool
  mx_listening :: "underlayDescriptor list"
  mx_used :: bool
  mx_done :: bool
  mx_username :: string
  mx_password :: bytes
  mx_multiplexFactor :: int
  mx_users :: "user list"
  mx_userHintIsMandatory :: bool
  mx_cipherCache :: cipher_cache

definition NewMux :: "bool \<Rightarrow> cipher_cache \<Rightarrow> 't Mux" where
  "NewMux isClient cache =
     \<lparr>mx_isClient = isClient, mx_endpoints = [], mx_underlays = [], mx_closed = [], mx_next = 0, mx_bypassDialerDNS = False,
      mx_trafficPattern = None, mx_chAccept = [], mx_acceptErr = False, mx_listening = [], mx_used = False, mx_done = False,
      mx_username = [], mx_password = [], mx_multiplexFactor = 0, mx_users = [], mx_userHintIsMandatory = False,
      mx_cipherCache = cache\<rparr>"

definition add_underlay :: "'t mux_underlay \<Rightarrow> 't Mux \<Rightarrow> 't Mux" where
  "add_underlay u m = m\<lparr>mx_underlays := mx_underlays m @ [(mx_next m, u)], mx_next := Suc (mx_next m)\<rparr>"

definition put_underlay :: "nat \<Rightarrow> 't mux_underlay \<Rightarrow> 't Mux \<Rightarrow> 't Mux" where
  "put_underlay i u m = m\<lparr>mx_underlays := AList.update i u (mx_underlays m)\<rparr>"

section \<open>Cleaning\<close>

text \<open>\<open>512 * 1024 * 1024 << m.multiplexFactor\<close> in 64 bits.\<close>

definition trafficVolumeLimit :: "int \<Rightarrow> int" where
  "trafficVolumeLimit factor = sint (push_bit (nat factor) (536870912 :: u64))"

definition try_disable :: "int \<Rightarrow> int \<Rightarrow> int \<Rightarrow> 't mux_underlay \<Rightarrow> 't mux_underlay" where
  "try_disable idleTime now factor u =
     (let b = mu_base u; limit = trafficVolumeLimit factor;
          c = bu_scheduler b;
          c = (if SessionCount b = 0 then fst (TryDisableIdle idleTime now c) else c);
          c = (if DisableTime c = None \<and> (bu_inBytes b > limit \<or> bu_outBytes b > limit) then SetRemainingTime 0 now c else c)
      in mu_setScheduler c u)"

definition clean_one :: "int \<Rightarrow> int \<Rightarrow> int \<Rightarrow> bool \<Rightarrow> nat \<times> 't mux_underlay \<Rightarrow> (nat \<times> 't mux_underlay) option" where
  "clean_one idleTime now factor also x =
     (case x of (i, u) \<Rightarrow>
        if bu_done (mu_base u) then None
        else if SessionCount (mu_base u) = 0 \<and> Idle idleTime now (mu_scheduler u) then None
        else Some (i, if also then try_disable idleTime now factor u else u))"

definition close_idle :: "'t mux_env \<Rightarrow> int \<Rightarrow> int \<Rightarrow> bool \<Rightarrow> nat \<times> 't mux_underlay \<Rightarrow> (nat \<times> 't mux_underlay) option" where
  "close_idle env now factor also x =
     (case x of (i, u) \<Rightarrow>
        if \<not> bu_done (mu_base u) \<and> SessionCount (mu_base u) = 0 \<and> Idle (me_idleTime env) now (mu_scheduler u)
        then let u = fst (mu_Close (me_senv env) u) in Some (i, if also then try_disable (me_idleTime env) now factor u else u)
        else None)"

definition cleanUnderlay :: "'t mux_env \<Rightarrow> int \<Rightarrow> bool \<Rightarrow> 't Mux \<Rightarrow> 't Mux" where
  "cleanUnderlay env now also m =
     m\<lparr>mx_underlays := List.map_filter (clean_one (me_idleTime env) now (mx_multiplexFactor m) also) (mx_underlays m),
       mx_closed := mx_closed m @ List.map_filter (close_idle env now (mx_multiplexFactor m) also) (mx_underlays m)\<rparr>"

section \<open>The client\<close>

definition maybePickExistingUnderlay :: "int \<Rightarrow> (nat \<Rightarrow> nat) \<Rightarrow> 't Mux \<Rightarrow> (nat \<times> 't mux_underlay) option" where
  "maybePickExistingUnderlay now intn m =
     (let active = filter (\<lambda>(i, u). \<not> bu_done (mu_base u) \<and> \<not> IsDisabled now (mu_scheduler u)) (mx_underlays m);
          factor = nat (mx_multiplexFactor m)
      in if mx_multiplexFactor m > 0
         then
           let reuseUnderlayFactor = length active * factor; n = intn (reuseUnderlayFactor + 1)
           in if n < reuseUnderlayFactor then Some (active ! (n div factor)) else None
         else None)"

record dial_draws =
  dd_now :: "nat \<Rightarrow> int"           \<comment> \<open>the clock, at each step of the dial\<close>
  dd_reuse :: "nat \<Rightarrow> nat"
  dd_endpoint :: "nat \<Rightarrow> nat \<Rightarrow> nat"
  dd_jitter :: "nat \<Rightarrow> int"
  dd_sessionID :: u32

definition user_cipher :: "'t mux_env \<Rightarrow> int \<Rightarrow> int \<Rightarrow> bool \<Rightarrow> 't Mux \<Rightarrow> 't Mux \<times> aeadBlockCipher result" where
  "user_cipher env jitter now stateless m =
     (case BlockCipherFromPassword (me_kdf env) (mx_cipherCache m) jitter now (mx_password m) stateless of
        (cache, Inl e) \<Rightarrow> (m\<lparr>mx_cipherCache := cache\<rparr>, Inl (Errorf ''cipher.BlockCipherFromPassword() failed''))
      | (cache, Inr block) \<Rightarrow>
          let block = SetBlockContext (mx_username m) block
          in (m\<lparr>mx_cipherCache := cache\<rparr>,
              Inr (case mx_trafficPattern m of None \<Rightarrow> block | Some p \<Rightarrow> SetNoncePattern (tp_nonce p) block)))"

text \<open>\<open>k\<close> counts the underlays that one dial creates.\<close>

definition newUnderlay :: "'t mux_env \<Rightarrow> dial_draws \<Rightarrow> nat \<Rightarrow> 't Mux \<Rightarrow> 't Mux \<times> (nat \<times> 't mux_underlay) result" where
  "newUnderlay env d k m =
     (let p = mx_endpoints m ! dd_endpoint d k (length (mx_endpoints m));
          now = dd_now d (2 * k + 1);
          finish = (\<lambda>u m. (add_underlay u m, Inr (mx_next m, u)))
      in (case ud_transportProtocol p of
            StreamTransport \<Rightarrow>
              sbind (user_cipher env (dd_jitter d k) now False m) (\<lambda>m block.
              case NewStreamUnderlay (me_registry env) (me_established env) (me_streamReplayCache env) (mx_cipherCache m)
                     (me_resolveTCP env) (me_dial env) (mx_bypassDialerDNS m) (fst (ud_remoteAddr p)) (snd (ud_remoteAddr p))
                     (ud_mtu p) block (mx_trafficPattern m) of
                Inl e \<Rightarrow> (m, Inl (Errorf ''NewTCPUnderlay() failed''))
              | Inr t \<Rightarrow> finish (Stream_underlay t) m)
          | PacketTransport \<Rightarrow>
              sbind (user_cipher env (dd_jitter d k) now True m) (\<lambda>m block.
              case NewPacketUnderlay (me_registry env) (me_established env) (me_packetReplayCache env) (mx_cipherCache m) now
                     (me_resolveUDP env) (me_packetDial env) (fst (ud_remoteAddr p)) (snd (ud_remoteAddr p))
                     (ud_mtu p) block (mx_trafficPattern m) of
                Inl e \<Rightarrow> (m, Inl (Errorf ''NewUDPUnderlay() failed''))
              | Inr u \<Rightarrow> finish (Packet_underlay u) m)
          | UnknownTransport \<Rightarrow> (m, Inl (Errorf ''unsupport transport protocol''))))"

text \<open>An underlay whose scheduler has counted the pending session; a second one if the first is disabled.\<close>

definition reserve :: "'t mux_env \<Rightarrow> dial_draws \<Rightarrow> 't Mux \<Rightarrow> nat \<times> 't mux_underlay \<Rightarrow> 't Mux \<times> (nat \<times> 't mux_underlay) result" where
  "reserve env d m x =
     (case x of (i, u) \<Rightarrow>
        (case IncPending (dd_now d 2) (mu_scheduler u) of
           (c, True) \<Rightarrow> (put_underlay i (mu_setScheduler c u) m, Inr (i, mu_setScheduler c u))
         | (_, False) \<Rightarrow>
             sbind (newUnderlay env d 1 m) (\<lambda>m (i, u).
             let u = mu_setScheduler (fst (IncPending (dd_now d 4) (mu_scheduler u))) u
             in (put_underlay i u m, Inr (i, u)))))"

definition dial_session :: "'t mux_env \<Rightarrow> dial_draws \<Rightarrow> 't Mux \<Rightarrow> nat \<times> 't mux_underlay \<Rightarrow> 't Mux \<times> (nat \<times> u32) result" where
  "dial_session env d m x =
     (case x of (i, u) \<Rightarrow>
        (case NewSession (ev_bt (me_senv env)) (me_registry env) (me_established env) (dd_now d 5) (dd_sessionID d) True
                (bu_mtu (mu_base u)) (session_users (mx_users m)) of
           Inl e \<Rightarrow> (m, Inl e)
         | Inr session \<Rightarrow>
             (case mu_AddSession u session of
                (u, r) \<Rightarrow>
                  (put_underlay i (mu_setScheduler (DecPending (dd_now d 6) (mu_scheduler u)) u) m,
                   case r of Inl e \<Rightarrow> Inl (Errorf ''AddSession() failed'') | Inr _ \<Rightarrow> Inr (i, se_id session)))))"

definition DialContext :: "'t mux_env \<Rightarrow> dial_draws \<Rightarrow> 't Mux \<Rightarrow> 't Mux \<times> (nat \<times> u32) result" where
  "DialContext env d m =
     (if \<not> mx_isClient m then (m, Inl ErrInvalidOperation)
      else if mx_password m = [] then (m, Inl (Errorf ''client password is not set''))
      else if mx_endpoints m = [] then (m, Inl (Errorf ''no server listening endpoint found''))
      else if list_ex (\<lambda>p. IsNilNetAddr (ud_remoteAddr p)) (mx_endpoints m)
      then (m, Inl (Errorf ''endpoint remote address is not set''))
      else
        let m = cleanUnderlay env (dd_now d 0) True (m\<lparr>mx_used := True\<rparr>)
        in sbind (case maybePickExistingUnderlay (dd_now d 0) (dd_reuse d) m of
                    Some x \<Rightarrow> (m, Inr x)
                  | None \<Rightarrow> newUnderlay env d 0 m) (\<lambda>m x.
           sbind (reserve env d m x) (\<lambda>m x. dial_session env d m x)))"

section \<open>The server\<close>

definition serverWrapTCPConn :: "'t mux_env \<Rightarrow> int \<Rightarrow> 't Mux \<Rightarrow> 't streamUnderlay" where
  "serverWrapTCPConn env mtu m =
     baseUnderlay.extend (newBaseUnderlay (me_registry env) (me_established env) False mtu (mx_trafficPattern m))
       (streamUnderlay.fields None None None (mx_users m) (mx_userHintIsMandatory m) [] Blocked [] None
          (me_streamReplayCache env) (mx_cipherCache m))"

definition server_packetUnderlay :: "'t mux_env \<Rightarrow> int \<Rightarrow> 't Mux \<Rightarrow> 't packetUnderlay" where
  "server_packetUnderlay env mtu m =
     baseUnderlay.extend (newBaseUnderlay (me_registry env) (me_established env) False mtu (mx_trafficPattern m))
       (packetUnderlay.fields [] None (mx_users m) (mx_userHintIsMandatory m) Map.empty [] Blocked [] None
          (me_packetReplayCache env) (mx_cipherCache m))"

text \<open>
  \<open>acceptUnderlayLoop\<close> up to the point where it has a listener or the one underlay of a packet endpoint, and one round of
  its loop over the connections of a listener.
\<close>

definition start_endpoint :: "'t mux_env \<Rightarrow> int \<Rightarrow> underlayDescriptor \<Rightarrow> 't Mux \<Rightarrow> 't Mux" where
  "start_endpoint env now p m =
     (let (network, laddr) = ud_localAddr p; failed = m\<lparr>mx_acceptErr := True\<rparr>
      in if laddr = [] then failed
         else if network \<in> {''tcp'', ''tcp4'', ''tcp6''}
         then (case rbind (me_resolveTCP env laddr) (me_listen env) of
                 Inl e \<Rightarrow> failed
               | Inr _ \<Rightarrow> m\<lparr>mx_listening := mx_listening m @ [p]\<rparr>)
         else if network \<in> {''udp'', ''udp4'', ''udp6''}
         then (case rbind (me_resolveUDP env laddr) (me_listenPacket env) of
                 Inl e \<Rightarrow> failed
               | Inr _ \<Rightarrow> cleanUnderlay env now False (add_underlay (Packet_underlay (server_packetUnderlay env (ud_mtu p) m)) m))
         else failed)"

definition accept_conn :: "'t mux_env \<Rightarrow> int \<Rightarrow> underlayDescriptor \<Rightarrow> 't Mux \<Rightarrow> 't Mux" where
  "accept_conn env now p m =
     cleanUnderlay env now False (add_underlay (Stream_underlay (serverWrapTCPConn env (ud_mtu p) m)) m)"

text \<open>The goroutine that passes the sessions of an underlay on; the channel to \<open>Accept\<close> is bounded.\<close>

definition pass_session :: "nat \<Rightarrow> 't Mux \<Rightarrow> 't Mux" where
  "pass_session i m =
     (case map_of (mx_underlays m) i of
        None \<Rightarrow> m
      | Some u \<Rightarrow>
          if length (mx_chAccept m) \<ge> sessionChanCapacity then m
          else (case mu_Accept u of
                  (u, Inl e) \<Rightarrow> put_underlay i u m
                | (u, Inr sid) \<Rightarrow> (put_underlay i u m)\<lparr>mx_chAccept := mx_chAccept m @ [(i, sid)]\<rparr>))"

text \<open>A \<open>select\<close> takes any of the cases that are ready.\<close>

definition mux_Accept :: "nat \<Rightarrow> 't Mux \<Rightarrow> 't Mux \<times> (nat \<times> u32) result" where
  "mux_Accept choice m =
     (let ready = (if mx_acceptErr m then [(m, Inl ErrClosedPipe)] else [])
            @ (case mx_chAccept m of [] \<Rightarrow> [] | x # xs \<Rightarrow> [(m\<lparr>mx_chAccept := xs\<rparr>, Inr x)])
            @ (if mx_done m then [(m, Inl EOF)] else [])
      in if ready = [] then (m, Inl Blocked) else ready ! (choice mod length ready))"

definition mux_Close :: "'t mux_env \<Rightarrow> 't Mux \<Rightarrow> 't Mux" where
  "mux_Close env m =
     (if mx_done m then m
      else m\<lparr>mx_underlays := [], mx_closed := mx_closed m @ map (map_prod id (\<lambda>u. fst (mu_Close (me_senv env) u))) (mx_underlays m),
             mx_listening := [], mx_done := True\<rparr>)"

definition mux_Start :: "'t mux_env \<Rightarrow> int \<Rightarrow> 't Mux \<Rightarrow> 't Mux \<times> unit result" where
  "mux_Start env now m =
     (if mx_isClient m then (m, Inl ErrInvalidOperation)
      else if mx_users m = [] then (m, Inl (Errorf ''no user found''))
      else if mx_endpoints m = [] then (m, Inl (Errorf ''no server listening endpoint found''))
      else if list_ex (\<lambda>p. IsNilNetAddr (ud_localAddr p)) (mx_endpoints m)
      then (m, Inl (Errorf ''endpoint local address is not set''))
      else (fold (start_endpoint env now) (mx_endpoints m) (m\<lparr>mx_used := True\<rparr>), Inr ()))"

definition newEndpoints :: "underlayDescriptor list \<Rightarrow> underlayDescriptor list \<Rightarrow> underlayDescriptor list" where
  "newEndpoints old new = filter (\<lambda>n. n \<notin> set old) new"

definition SetEndpoints :: "'t mux_env \<Rightarrow> int \<Rightarrow> underlayDescriptor list \<Rightarrow> 't Mux \<Rightarrow> 't Mux" where
  "SetEndpoints env now endpoints m =
     (let new = newEndpoints (mx_endpoints m) endpoints
      in if new = [] then m
         else if mx_used m
         then if mx_done m then m
              else (fold (start_endpoint env now) new m)\<lparr>mx_endpoints := endpoints\<rparr>
         else m\<lparr>mx_endpoints := new\<rparr>)"

section \<open>Setters\<close>

definition SetTrafficPattern :: "trafficPattern option \<Rightarrow> 't Mux \<Rightarrow> 't Mux" where
  "SetTrafficPattern p m = m\<lparr>mx_trafficPattern := p\<rparr>"

definition SetClientUserNamePassword :: "string \<Rightarrow> bytes \<Rightarrow> 't Mux \<Rightarrow> 't Mux \<times> unit result" where
  "SetClientUserNamePassword username password m =
     (if \<not> mx_isClient m then (m, Inl (Panic ''Can't set client password in server mux''))
      else if mx_used m then (m, Inl (Panic ''Can't set client password after mux is used''))
      else (m\<lparr>mx_username := username, mx_password := password\<rparr>, Inr ()))"

definition SetClientMultiplexFactor :: "int \<Rightarrow> 't Mux \<Rightarrow> 't Mux \<times> unit result" where
  "SetClientMultiplexFactor n m =
     (if \<not> mx_isClient m then (m, Inl (Panic ''Can't set multiplex factor in server mux''))
      else if mx_used m then (m, Inl (Panic ''Can't set multiplex factor after mux is used''))
      else (m\<lparr>mx_multiplexFactor := max n 0\<rparr>, Inr ()))"

definition SetServerUsers :: "user list \<Rightarrow> 't Mux \<Rightarrow> 't Mux \<times> unit result" where
  "SetServerUsers us m =
     (if mx_isClient m then (m, Inl (Panic ''Can't set server users in client mux''))
      else
        let m = m\<lparr>mx_users := us\<rparr>
        in (if mx_used m then m\<lparr>mx_underlays := map (map_prod id (mu_setUsers us)) (mx_underlays m)\<rparr> else m, Inr ()))"

definition SetServerUserHintIsMandatory :: "bool \<Rightarrow> 't Mux \<Rightarrow> 't Mux \<times> unit result" where
  "SetServerUserHintIsMandatory b m =
     (if mx_isClient m then (m, Inl (Panic ''Can't set server user hint is mandatory in client mux''))
      else (m\<lparr>mx_userHintIsMandatory := b\<rparr>, Inr ()))"

section \<open>Runs\<close>

text \<open>What can happen to a multiplexer, its underlays and their event loops, in any order.\<close>

inductive mux_step :: "uenv \<Rightarrow> 't mux_env \<Rightarrow> 't Mux \<Rightarrow> 't Mux \<Rightarrow> bool" for ue env m where
  m_dial: "DialContext env d m = (m', r) \<Longrightarrow> mux_step ue env m m'"
| m_tick: "mux_step ue env m (cleanUnderlay env now (mx_isClient m) m)"
| m_start: "mux_Start env now m = (m', r) \<Longrightarrow> mux_step ue env m m'"
| m_endpoints: "mux_step ue env m (SetEndpoints env now es m)"
| m_conn: "p \<in> set (mx_listening m) \<Longrightarrow> mux_step ue env m (accept_conn env now p m)"
| m_pass: "mux_step ue env m (pass_session i m)"
| m_accept: "mux_Accept k m = (m', r) \<Longrightarrow> mux_step ue env m m'"
| m_users: "SetServerUsers us m = (m', r) \<Longrightarrow> mux_step ue env m m'"
| m_credentials: "SetClientUserNamePassword username password m = (m', r) \<Longrightarrow> mux_step ue env m m'"
| m_factor: "SetClientMultiplexFactor n m = (m', r) \<Longrightarrow> mux_step ue env m m'"
| m_hint: "SetServerUserHintIsMandatory b m = (m', r) \<Longrightarrow> mux_step ue env m m'"
| m_pattern: "mux_step ue env m (SetTrafficPattern p m)"
| m_close: "mux_step ue env m (mux_Close env m)"
| m_stream: "map_of (mx_underlays m) i = Some (Stream_underlay t) \<Longrightarrow> underlay_step (me_senv env) t t'
    \<Longrightarrow> mux_step ue env m (put_underlay i (Stream_underlay t') m)"
| m_packet: "map_of (mx_underlays m) i = Some (Packet_underlay u) \<Longrightarrow> underlay_step (me_senv env) u u'
    \<Longrightarrow> mux_step ue env m (put_underlay i (Packet_underlay u') m)"
| m_stream_loop: "map_of (mx_underlays m) i = Some (Stream_underlay t) \<Longrightarrow> lr_before lr = id
    \<Longrightarrow> mux_step ue env m (put_underlay i (Stream_underlay (fst (stream_round ue (me_senv env) lr (t\<lparr>su_in := b\<rparr>)))) m)"
| m_packet_loop: "map_of (mx_underlays m) i = Some (Packet_underlay u) \<Longrightarrow> pr_before pr = id
    \<Longrightarrow> mux_step ue env m (put_underlay i (Packet_underlay (fst (packet_loop_round ue (me_senv env) pr (u\<lparr>pu_in := ds\<rparr>)))) m)"

inductive mux_reach :: "uenv \<Rightarrow> 't mux_env \<Rightarrow> 't Mux \<Rightarrow> 't Mux \<Rightarrow> bool" for ue env m where
  m_refl: "mux_reach ue env m m"
| m_trans: "mux_reach ue env m m' \<Longrightarrow> mux_step ue env m' m'' \<Longrightarrow> mux_reach ue env m m''"

definition mux_ok :: "'t senv \<Rightarrow> 't Mux \<Rightarrow> bool" where
  "mux_ok ev m \<longleftrightarrow> distinct (map fst (mx_underlays m))
     \<and> (\<forall>i u. map_of (mx_underlays m) i = Some u \<longrightarrow> i < mx_next m \<and> underlay_ok ev (mu_base u))
     \<and> length (mx_chAccept m) \<le> sessionChanCapacity"

section \<open>Lemmas\<close>

lemma underlay_ok_truncate [simp]: "underlay_ok ev (baseUnderlay.truncate b) = underlay_ok ev b"
  by (simp add: underlay_ok_def baseUnderlay.truncate_def)

lemma truncate_fields [simp]:
  "bu_sessionMap (baseUnderlay.truncate b) = bu_sessionMap b" "bu_done (baseUnderlay.truncate b) = bu_done b"
  "bu_isClient (baseUnderlay.truncate b) = bu_isClient b" "bu_mtu (baseUnderlay.truncate b) = bu_mtu b"
  "bu_scheduler (baseUnderlay.truncate b) = bu_scheduler b" "bu_readySessions (baseUnderlay.truncate b) = bu_readySessions b"
  by (simp_all add: baseUnderlay.truncate_def)

lemma underlay_ok_scheduler [simp]: "underlay_ok ev (b\<lparr>bu_scheduler := c\<rparr>) = underlay_ok ev b"
  by (simp add: underlay_ok_def)

lemma mu_setScheduler_fields [simp]:
  "underlay_ok ev (mu_base (mu_setScheduler c u)) = underlay_ok ev (mu_base u)"
  "bu_sessionMap (mu_base (mu_setScheduler c u)) = bu_sessionMap (mu_base u)"
  "bu_done (mu_base (mu_setScheduler c u)) = bu_done (mu_base u)"
  "bu_isClient (mu_base (mu_setScheduler c u)) = bu_isClient (mu_base u)"
  by (cases u; simp)+

lemma mu_setUsers_ok [simp]: "underlay_ok ev (mu_base (mu_setUsers us u)) = underlay_ok ev (mu_base u)"
  by (cases u) (simp_all add: underlay_ok_def)

lemma mux_okD:
  "mux_ok ev m \<Longrightarrow> map_of (mx_underlays m) i = Some u \<Longrightarrow> i < mx_next m \<and> underlay_ok ev (mu_base u)"
  by (simp add: mux_ok_def)

lemma mux_ok_put: "mux_ok ev m \<Longrightarrow> i < mx_next m \<Longrightarrow> underlay_ok ev (mu_base u) \<Longrightarrow> mux_ok ev (put_underlay i u m)"
  by (auto simp: mux_ok_def put_underlay_def distinct_update update_conv')

lemma mux_ok_add:
  assumes "mux_ok ev m" "underlay_ok ev (mu_base u)"
  shows "mux_ok ev (add_underlay u m)"
proof -
  have new: "map_of (mx_underlays m) (mx_next m) = None" using mux_okD [OF assms(1)] by (metis less_irrefl not_None_eq)
  then have "mx_next m \<notin> set (map fst (mx_underlays m))" by (simp add: map_of_eq_None_iff)
  moreover have "i < Suc (mx_next m) \<and> underlay_ok ev (mu_base v)" if "map_of (mx_underlays m @ [(mx_next m, u)]) i = Some v" for i v
    using that mux_okD [OF assms(1), of i v] assms(2) by (auto simp: map_add_Some_iff split: if_splits)
  ultimately show ?thesis using assms(1) by (simp add: mux_ok_def add_underlay_def)
qed

lemma mux_ok_fields [simp]:
  "mux_ok ev (m\<lparr>mx_used := x\<rparr>) = mux_ok ev m" "mux_ok ev (m\<lparr>mx_acceptErr := x\<rparr>) = mux_ok ev m"
  "mux_ok ev (m\<lparr>mx_cipherCache := cc\<rparr>) = mux_ok ev m" "mux_ok ev (m\<lparr>mx_listening := ps\<rparr>) = mux_ok ev m"
  "mux_ok ev (m\<lparr>mx_endpoints := ps\<rparr>) = mux_ok ev m" "mux_ok ev (m\<lparr>mx_users := us\<rparr>) = mux_ok ev m"
  "mux_ok ev (m\<lparr>mx_username := name, mx_password := pw\<rparr>) = mux_ok ev m" "mux_ok ev (m\<lparr>mx_multiplexFactor := n\<rparr>) = mux_ok ev m"
  "mux_ok ev (m\<lparr>mx_userHintIsMandatory := x\<rparr>) = mux_ok ev m" "mux_ok ev (m\<lparr>mx_trafficPattern := tp\<rparr>) = mux_ok ev m"
  by (simp_all add: mux_ok_def)

lemma clean_list:
  assumes "distinct (map fst xs)" "\<And>i u y. f (i, u) = Some y \<Longrightarrow> fst y = i"
  shows "distinct (map fst (List.map_filter f xs))"
    "map_of (List.map_filter f xs) i = Some u' \<Longrightarrow> \<exists>u. map_of xs i = Some u \<and> f (i, u) = Some (i, u')"
proof -
  have keys: "fst ` set (List.map_filter f xs) \<subseteq> fst ` set xs" for xs
  proof
    fix k assume "k \<in> fst ` set (List.map_filter f xs)"
    then obtain x y where "x \<in> set xs" "f x = Some y" "fst y = k" by (auto simp: List.map_filter_def)
    with assms(2) [of "fst x" "snd x" y] show "k \<in> fst ` set xs" by force
  qed
  show "distinct (map fst (List.map_filter f xs))"
    using assms(1)
  proof (induction xs)
    case (Cons x xs)
    then show ?case using keys [of xs] assms(2) [of "fst x" "snd x"] by (auto simp: List.map_filter_simps split: option.split)
  qed (simp add: List.map_filter_simps)
  show "map_of (List.map_filter f xs) i = Some u' \<Longrightarrow> \<exists>u. map_of xs i = Some u \<and> f (i, u) = Some (i, u')"
    using assms(1)
  proof (induction xs)
    case (Cons x xs)
    obtain j u where x: "x = (j, u)" by (cases x)
    show ?case
    proof (cases "f x")
      case None
      then have "map_of (List.map_filter f xs) i = Some u'" using Cons.prems by (simp add: List.map_filter_simps)
      moreover from this have "i \<in> fst ` set xs" using keys [of xs] by (force dest!: map_of_SomeD)
      ultimately show ?thesis using Cons x by auto
    next
      case (Some y)
      then have y: "fst y = j" using assms(2) x by blast
      show ?thesis
      proof (cases "i = j")
        case True
        then show ?thesis using Cons.prems Some x y by (cases y) (auto simp: List.map_filter_simps)
      next
        case False
        then have "map_of (List.map_filter f xs) i = Some u'" using Cons.prems Some y by (cases y) (auto simp: List.map_filter_simps)
        with Cons False x show ?thesis by simp
      qed
    qed
  qed (simp add: List.map_filter_simps)
qed

lemma try_disable_fields [simp]:
  "underlay_ok ev (mu_base (try_disable idle now k u)) = underlay_ok ev (mu_base u)"
  "bu_sessionMap (mu_base (try_disable idle now k u)) = bu_sessionMap (mu_base u)"
  "bu_done (mu_base (try_disable idle now k u)) = bu_done (mu_base u)"
  by (simp_all add: try_disable_def Let_def)

lemma clean_one_key: "clean_one idle now k also (i, u) = Some y \<Longrightarrow> fst y = i"
  by (auto simp: clean_one_def split: if_splits)

text \<open>An underlay that cleaning takes off the list is closed, by its event loop before or now.\<close>

lemma mu_Close_idle:
  assumes "bu_sessionMap (mu_base u) = []"
  shows "bu_done (mu_base (fst (mu_Close ev u)))"
  using assms by (cases u) (simp_all add: stream_Close_def packet_Close_def base_Close_def)

lemma clean_closes:
  assumes "(i, u) \<in> set (mx_underlays m)" "i \<notin> fst ` set (mx_underlays (cleanUnderlay env now also m))"
  shows "bu_done (mu_base u) \<or> (\<exists>u'. (i, u') \<in> set (mx_closed (cleanUnderlay env now also m)) \<and> bu_done (mu_base u'))"
proof (cases "bu_done (mu_base u)")
  case False
  let ?k = "mx_multiplexFactor m"
  have none: "clean_one (me_idleTime env) now ?k also (i, u) = None"
  proof (rule ccontr)
    assume "clean_one (me_idleTime env) now ?k also (i, u) \<noteq> None"
    then obtain y where y: "clean_one (me_idleTime env) now ?k also (i, u) = Some y" by blast
    then have "y \<in> set (mx_underlays (cleanUnderlay env now also m))"
      using assms(1) by (force simp: cleanUnderlay_def List.map_filter_def)
    with clean_one_key [OF y] assms(2) show False by force
  qed
  with False have idle: "SessionCount (mu_base u) = 0" "Idle (me_idleTime env) now (mu_scheduler u)"
    by (auto simp: clean_one_def split: if_splits)
  obtain u' where u': "close_idle env now ?k also (i, u) = Some (i, u')" "bu_done (mu_base u')"
    using idle False mu_Close_idle [of u "me_senv env"] by (auto simp: close_idle_def SessionCount_def Let_def)
  then have "(i, u') \<in> set (mx_closed (cleanUnderlay env now also m))"
    using assms(1) by (force simp: cleanUnderlay_def List.map_filter_def)
  with u'(2) show ?thesis by blast
qed simp

lemma cleanUnderlay_Some:
  assumes "mux_ok ev m" "map_of (mx_underlays (cleanUnderlay env now also m)) i = Some u'"
  obtains u where "map_of (mx_underlays m) i = Some u" "bu_sessionMap (mu_base u') = bu_sessionMap (mu_base u)"
    "underlay_ok ev (mu_base u') = underlay_ok ev (mu_base u)" "\<not> bu_done (mu_base u')"
proof -
  let ?f = "clean_one (me_idleTime env) now (mx_multiplexFactor m) also"
  have "\<exists>u. map_of (mx_underlays m) i = Some u \<and> ?f (i, u) = Some (i, u')"
    using assms by (intro clean_list(2) clean_one_key) (auto simp: mux_ok_def cleanUnderlay_def)
  then show ?thesis using that by (auto simp: clean_one_def split: if_splits)
qed

lemma cleanUnderlay_ok: "mux_ok ev m \<Longrightarrow> mux_ok ev (cleanUnderlay env now also m)"
proof -
  assume ok: "mux_ok ev m"
  have "distinct (map fst (mx_underlays (cleanUnderlay env now also m)))"
    using ok by (auto simp: cleanUnderlay_def mux_ok_def intro!: clean_list(1) clean_one_key)
  moreover have "i < mx_next m \<and> underlay_ok ev (mu_base u)"
    if "map_of (mx_underlays (cleanUnderlay env now also m)) i = Some u" for i u
    using cleanUnderlay_Some [OF ok that] mux_okD [OF ok] by metis
  moreover have "mx_next (cleanUnderlay env now also m) = mx_next m" "mx_chAccept (cleanUnderlay env now also m) = mx_chAccept m"
    by (simp_all add: cleanUnderlay_def)
  ultimately show ?thesis using ok unfolding mux_ok_def by metis
qed

section \<open>Dialing\<close>

lemma user_cipher_frame: "user_cipher env j now st m = (m', r) \<Longrightarrow> \<exists>cc. m' = m\<lparr>mx_cipherCache := cc\<rparr>"
  by (auto simp: user_cipher_def Let_def split: prod.splits sum.splits)

lemma new_client_underlay:
  "NewStreamUnderlay reg est rc cache resolve dial bypass network addr mtu block pattern = Inr t
     \<Longrightarrow> bu_sessionMap t = [] \<and> bu_readySessions t = [] \<and> \<not> bu_done t"
  "NewPacketUnderlay reg est rc cache now resolve dial network addr mtu block pattern = Inr u
     \<Longrightarrow> bu_sessionMap u = [] \<and> bu_readySessions u = [] \<and> \<not> bu_done u"
  by (auto simp: NewStreamUnderlay_def NewPacketUnderlay_def newBaseUnderlay_def baseUnderlay.extend_def Let_def split: if_splits sum.splits)

text \<open>A new underlay is added at the end, without sessions; otherwise only the cache of ciphers changes.\<close>

lemma newUnderlay_cases:
  assumes "newUnderlay env d k m = (m', r)"
  obtains (fails) cc e where "m' = m\<lparr>mx_cipherCache := cc\<rparr>" "r = Inl e"
  | (added) cc u where "m' = add_underlay u (m\<lparr>mx_cipherCache := cc\<rparr>)" "r = Inr (mx_next m, u)"
      "bu_sessionMap (mu_base u) = []" "bu_readySessions (mu_base u) = []" "\<not> bu_done (mu_base u)"
proof -
  have m: "m\<lparr>mx_cipherCache := mx_cipherCache m\<rparr> = m" by simp
  show ?thesis
  proof (cases "ud_transportProtocol (mx_endpoints m ! dd_endpoint d k (length (mx_endpoints m)))")
    case UnknownTransport
    then show ?thesis using assms fails [of "mx_cipherCache m"] m by (auto simp: newUnderlay_def Let_def)
  next
    case StreamTransport
    obtain m1 rc where c: "user_cipher env (dd_jitter d k) (dd_now d (2 * k + 1)) False m = (m1, rc)" by fastforce
    obtain cc where cc: "m1 = m\<lparr>mx_cipherCache := cc\<rparr>" using user_cipher_frame [OF c] by blast
    show ?thesis using assms StreamTransport c cc fails [of cc] added [of _ cc]
      by (auto simp: newUnderlay_def Let_def sbind_def split: sum.splits dest: new_client_underlay)
  next
    case PacketTransport
    obtain m1 rc where c: "user_cipher env (dd_jitter d k) (dd_now d (2 * k + 1)) True m = (m1, rc)" by fastforce
    obtain cc where cc: "m1 = m\<lparr>mx_cipherCache := cc\<rparr>" using user_cipher_frame [OF c] by blast
    show ?thesis using assms PacketTransport c cc fails [of cc] added [of _ cc]
      by (auto simp: newUnderlay_def Let_def sbind_def split: sum.splits dest: new_client_underlay)
  qed
qed

lemma empty_underlay_ok: "bu_sessionMap b = [] \<Longrightarrow> bu_readySessions b = [] \<Longrightarrow> underlay_ok ev b"
  by (simp add: underlay_ok_def)

text \<open>
  What a dial holds on to while it goes on: an underlay of the multiplexer that is not closed.
\<close>

definition holds_underlay :: "'t Mux \<Rightarrow> nat \<times> 't mux_underlay \<Rightarrow> bool" where
  "holds_underlay m x \<longleftrightarrow> map_of (mx_underlays m) (fst x) = Some (snd x) \<and> \<not> bu_done (mu_base (snd x))"

lemma newUnderlay_holds:
  assumes "mux_ok ev m" "newUnderlay env d k m = (m', r)"
  shows "mux_ok ev m'" "r = Inr x \<Longrightarrow> holds_underlay m' x"
proof -
  show "mux_ok ev m'" using assms(2)
    by (cases rule: newUnderlay_cases) (use assms(1) in \<open>auto intro!: mux_ok_add empty_underlay_ok\<close>)
  have new: "map_of (mx_underlays m) (mx_next m) = None" using mux_okD [OF assms(1)] by (metis less_irrefl not_None_eq)
  show "holds_underlay m' x" if "r = Inr x"
    using assms(2) by (cases rule: newUnderlay_cases) (use that new in \<open>auto simp: holds_underlay_def add_underlay_def map_add_def\<close>)
qed

lemma put_underlay_holds:
  assumes "mux_ok ev m" "holds_underlay m (i, u)" "underlay_ok ev (mu_base u')" "\<not> bu_done (mu_base u')"
  shows "mux_ok ev (put_underlay i u' m)" "holds_underlay (put_underlay i u' m) (i, u')"
  using assms mux_okD [OF assms(1), of i u] mux_ok_put [OF assms(1), of i u']
  by (simp_all add: holds_underlay_def put_underlay_def update_conv')

lemma holds_ok: "mux_ok ev m \<Longrightarrow> holds_underlay m (i, u) \<Longrightarrow> underlay_ok ev (mu_base u)"
  using mux_okD by (fastforce simp: holds_underlay_def)

lemma reserve_holds:
  assumes "mux_ok ev m" "holds_underlay m x" "reserve env d m x = (m', r)"
  shows "mux_ok ev m'" "r = Inr y \<Longrightarrow> holds_underlay m' y"
proof -
  obtain i u where x: "x = (i, u)" by (cases x)
  obtain c ok where c: "IncPending (dd_now d 2) (mu_scheduler u) = (c, ok)" by fastforce
  have "mux_ok ev m' \<and> (r = Inr y \<longrightarrow> holds_underlay m' y)"
  proof (cases ok)
    case True
    then have "m' = put_underlay i (mu_setScheduler c u) m" "r = Inr (i, mu_setScheduler c u)"
      using assms(3) c x by (simp_all add: reserve_def)
    then show ?thesis using put_underlay_holds [OF assms(1) assms(2) [unfolded x], of "mu_setScheduler c u"]
        holds_ok [OF assms(1) assms(2) [unfolded x]] assms(2) x by (auto simp: holds_underlay_def)
  next
    case False
    obtain m1 r1 where n: "newUnderlay env d 1 m = (m1, r1)" by fastforce
    note nh = newUnderlay_holds [OF assms(1) n]
    show ?thesis
    proof (cases r1)
      case (Inl e)
      then show ?thesis using assms(3) c x False n nh(1) by (auto simp: reserve_def)
    next
      case (Inr z)
      obtain j v where z: "z = (j, v)" by (cases z)
      let ?v = "mu_setScheduler (fst (IncPending (dd_now d 4) (mu_scheduler v))) v"
      have "m' = put_underlay j ?v m1" "r = Inr (j, ?v)" using assms(3) c x False n Inr z by (simp_all add: reserve_def Let_def)
      then show ?thesis using put_underlay_holds [OF nh(1), of j v ?v] nh(2) [OF Inr] z holds_ok [OF nh(1), of j v]
        by (auto simp: holds_underlay_def)
    qed
  qed
  then show "mux_ok ev m'" "r = Inr y \<Longrightarrow> holds_underlay m' y" by simp_all
qed

lemma AddSession_fields:
  assumes "AddSession tr b s = (b', r)"
  shows "bu_done b' = bu_done b" "bu_isClient b' = bu_isClient b"
    "r = Inr () \<Longrightarrow> se_id s \<noteq> 0 \<and> se_isClient s = bu_isClient b \<and> map_of (bu_sessionMap b) (se_id s) = None
       \<and> map_of (bu_sessionMap b') (se_id s) = Some (attach tr s)"
  using assms by (auto simp: AddSession_def base_AddSession_def split: if_splits option.splits)

lemma mu_AddSession_ok:
  assumes "underlay_ok ev (mu_base u)" "numbered ev s" "mu_AddSession u s = (u', r)"
  shows "underlay_ok ev (mu_base u')" "bu_done (mu_base u') = bu_done (mu_base u)" "bu_isClient (mu_base u') = bu_isClient (mu_base u)"
    "r = Inr () \<Longrightarrow> se_id s \<noteq> 0 \<and> se_isClient s = bu_isClient (mu_base u) \<and> map_of (bu_sessionMap (mu_base u)) (se_id s) = None
       \<and> (\<exists>tr. map_of (bu_sessionMap (mu_base u')) (se_id s) = Some (attach tr s))"
proof -
  have "underlay_ok ev (mu_base u') \<and> bu_done (mu_base u') = bu_done (mu_base u) \<and> bu_isClient (mu_base u') = bu_isClient (mu_base u)
      \<and> (r = Inr () \<longrightarrow> se_id s \<noteq> 0 \<and> se_isClient s = bu_isClient (mu_base u) \<and> map_of (bu_sessionMap (mu_base u)) (se_id s) = None
           \<and> (\<exists>tr. map_of (bu_sessionMap (mu_base u')) (se_id s) = Some (attach tr s)))"
  proof (cases u)
    case (Stream_underlay t)
    obtain t' where t': "AddSession StreamTransport t s = (t', r)" "u' = Stream_underlay t'"
      using assms(3) Stream_underlay by (auto split: prod.splits)
    show ?thesis using AddSession_fields [OF t'(1)] AddSession_ok [of ev t s StreamTransport] assms(1,2) t' Stream_underlay by auto
  next
    case (Packet_underlay t)
    obtain t' where t': "AddSession PacketTransport t s = (t', r)" "u' = Packet_underlay t'"
      using assms(3) Packet_underlay by (auto split: prod.splits)
    show ?thesis using AddSession_fields [OF t'(1)] AddSession_ok [of ev t s PacketTransport] assms(1,2) t' Packet_underlay by auto
  qed
  then show "underlay_ok ev (mu_base u')" "bu_done (mu_base u') = bu_done (mu_base u)" "bu_isClient (mu_base u') = bu_isClient (mu_base u)"
    "r = Inr () \<Longrightarrow> se_id s \<noteq> 0 \<and> se_isClient s = bu_isClient (mu_base u) \<and> map_of (bu_sessionMap (mu_base u)) (se_id s) = None
       \<and> (\<exists>tr. map_of (bu_sessionMap (mu_base u')) (se_id s) = Some (attach tr s))"
    by simp_all
qed

text \<open>While a dial goes on, no session comes or goes in the underlays that remain.\<close>

definition same_sessions :: "'t Mux \<Rightarrow> 't Mux \<Rightarrow> bool" where
  "same_sessions m m' \<longleftrightarrow> mx_next m \<le> mx_next m'
     \<and> (\<forall>i u u'. map_of (mx_underlays m) i = Some u \<longrightarrow> map_of (mx_underlays m') i = Some u'
          \<longrightarrow> bu_sessionMap (mu_base u') = bu_sessionMap (mu_base u))"

lemma same_sessionsD:
  "same_sessions m m' \<Longrightarrow> map_of (mx_underlays m) i = Some u \<Longrightarrow> map_of (mx_underlays m') i = Some u'
     \<Longrightarrow> bu_sessionMap (mu_base u') = bu_sessionMap (mu_base u)"
  by (simp add: same_sessions_def)

lemma same_sessions_clean:
  assumes "mux_ok ev m"
  shows "same_sessions m (cleanUnderlay env now also m)"
proof -
  have "bu_sessionMap (mu_base u') = bu_sessionMap (mu_base u)"
    if "map_of (mx_underlays m) i = Some u" "map_of (mx_underlays (cleanUnderlay env now also m)) i = Some u'" for i u u'
    using cleanUnderlay_Some [OF assms that(2)] that(1) by (metis option.inject)
  moreover have "mx_next (cleanUnderlay env now also m) = mx_next m" by (simp add: cleanUnderlay_def)
  ultimately show ?thesis by (simp add: same_sessions_def)
qed

text \<open>A later state with a new underlay, or with another scheduler.\<close>

lemma same_sessions_new:
  assumes "mux_ok ev m0" "same_sessions m0 m" "newUnderlay env d k m = (m', r)"
  shows "same_sessions m0 m'"
proof -
  have lt: "i < mx_next m" if "map_of (mx_underlays m0) i = Some u" for i u
    using mux_okD [OF assms(1) that] assms(2) by (simp add: same_sessions_def)
  show ?thesis using assms(3)
  proof (cases rule: newUnderlay_cases)
    case (fails cc e)
    then show ?thesis using assms(2) by (simp add: same_sessions_def)
  next
    case (added cc u)
    then have "map_of (mx_underlays m') i = map_of (mx_underlays m) i" if "i < mx_next m" for i
      using that by (simp add: add_underlay_def map_add_def split: option.split)
    then show ?thesis using assms(2) lt added(1) by (auto simp: same_sessions_def add_underlay_def)
  qed
qed

lemma same_sessions_put:
  assumes "same_sessions m0 m" "map_of (mx_underlays m) i = Some u" "bu_sessionMap (mu_base u') = bu_sessionMap (mu_base u)"
  shows "same_sessions m0 (put_underlay i u' m)"
  using assms by (auto simp: same_sessions_def put_underlay_def update_conv')

lemma reserve_same:
  assumes "mux_ok ev m0" "mux_ok ev m" "same_sessions m0 m" "holds_underlay m x" "reserve env d m x = (m', r)"
  shows "same_sessions m0 m'"
proof -
  obtain i u where x: "x = (i, u)" by (cases x)
  obtain c ok where c: "IncPending (dd_now d 2) (mu_scheduler u) = (c, ok)" by fastforce
  obtain m1 r1 where n: "newUnderlay env d 1 m = (m1, r1)" by fastforce
  note s1 = same_sessions_new [OF assms(1,3) n]
  have h: "holds_underlay m1 y" if "r1 = Inr y" for y using newUnderlay_holds(2) [OF assms(2) n that] .
  show ?thesis
  proof (cases "ok \<or> isl r1")
    case True
    then show ?thesis using assms(3-5) c x n s1 same_sessions_put [OF assms(3), of i u]
      by (cases ok; cases r1) (auto simp: reserve_def holds_underlay_def)
  next
    case False
    then obtain j v where "r1 = Inr (j, v)" by (cases r1) auto
    then show ?thesis using False assms(5) c x n h [of "(j, v)"] same_sessions_put [OF s1, of j v]
      by (auto simp: reserve_def holds_underlay_def Let_def)
  qed
qed

lemma dial_session_ok:
  assumes "env_ok (me_senv env)" "mux_ok (me_senv env) m" "holds_underlay m (i, u)" "dial_session env d m (i, u) = (m', r)"
  shows "mux_ok (me_senv env) m'"
    "r = Inr (j, sid) \<Longrightarrow> j = i \<and> sid = dd_sessionID d \<and> map_of (bu_sessionMap (mu_base u)) sid = None
       \<and> (\<exists>u' s. map_of (mx_underlays m') i = Some u' \<and> \<not> bu_done (mu_base u') \<and> bu_isClient (mu_base u')
            \<and> map_of (bu_sessionMap (mu_base u')) sid = Some s \<and> registered (me_senv env) True sid s \<and> se_state s = sessionAttached)"
proof -
  let ?ev = "me_senv env"
  have bt: "btree_ok (ev_bt ?ev)" using assms(1) by (simp add: env_ok_def)
  obtain s where s: "NewSession (ev_bt ?ev) (me_registry env) (me_established env) (dd_now d 5) (dd_sessionID d) True
      (bu_mtu (mu_base u)) (session_users (mx_users m)) = Inr s" "se_id s = dd_sessionID d" "se_isClient s = True" "se_state s = sessionInit"
    by (rule NewSession_total)
  have num: "numbered ?ev s" by (rule NewSession_numbered [OF bt s(1)])
  obtain u1 r1 where a: "mu_AddSession u s = (u1, r1)" by fastforce
  let ?u = "mu_setScheduler (DecPending (dd_now d 6) (mu_scheduler u1)) u1"
  note ok = mu_AddSession_ok [OF holds_ok [OF assms(2,3)] num a]
  have m': "m' = put_underlay i ?u m" "r = (case r1 of Inl e \<Rightarrow> Inl (Errorf ''AddSession() failed'') | Inr _ \<Rightarrow> Inr (i, se_id s))"
    using assms(4) s(1) a by (simp_all add: dial_session_def)
  have nd: "\<not> bu_done (mu_base u)" using assms(3) by (simp add: holds_underlay_def)
  note put = put_underlay_holds [OF assms(2,3), of ?u]
  show "mux_ok ?ev m'" using put ok(1,2) nd m'(1) by simp
  show "j = i \<and> sid = dd_sessionID d \<and> map_of (bu_sessionMap (mu_base u)) sid = None
       \<and> (\<exists>u' s. map_of (mx_underlays m') i = Some u' \<and> \<not> bu_done (mu_base u') \<and> bu_isClient (mu_base u')
            \<and> map_of (bu_sessionMap (mu_base u')) sid = Some s \<and> registered ?ev True sid s \<and> se_state s = sessionAttached)"
    if r: "r = Inr (j, sid)"
  proof -
    have r1: "r1 = Inr ()" "j = i" "sid = se_id s" using r m'(2) by (auto split: sum.splits)
    obtain tr where tr: "map_of (bu_sessionMap (mu_base u1)) sid = Some (attach tr s)" using ok(4) [OF r1(1)] r1(3) by blast
    have "map_of (mx_underlays m') i = Some ?u" using m'(1) by (simp add: put_underlay_def update_conv')
    moreover have "registered ?ev True sid s" using num s(3) r1(3) ok(4) [OF r1(1)] by (simp add: registered_def)
    ultimately show ?thesis using ok(2-4) r1 s tr nd attach_state [OF s(4), of tr] by auto
  qed
qed

lemma pick_holds:
  assumes "mux_ok ev m" "maybePickExistingUnderlay now intn m = Some x"
  shows "holds_underlay m x"
proof -
  let ?active = "filter (\<lambda>(i, u). \<not> bu_done (mu_base u) \<and> \<not> IsDisabled now (mu_scheduler u)) (mx_underlays m)"
  let ?k = "nat (mx_multiplexFactor m)"
  have p: "0 < mx_multiplexFactor m" "intn (length ?active * ?k + 1) < length ?active * ?k"
      "x = ?active ! (intn (length ?active * ?k + 1) div ?k)"
    using assms(2) by (auto simp: maybePickExistingUnderlay_def Let_def split: if_splits)
  have "intn (length ?active * ?k + 1) div ?k < length ?active" using p(2) by (rule less_mult_imp_div_less)
  then have "x \<in> set ?active" unfolding p(3) by (rule nth_mem)
  then have "x \<in> set (mx_underlays m)" "\<not> bu_done (mu_base (snd x))" by auto
  moreover from this(1) have "map_of (mx_underlays m) (fst x) = Some (snd x)"
    using assms(1) by (simp add: mux_ok_def map_of_is_SomeI)
  ultimately show ?thesis by (simp add: holds_underlay_def)
qed

lemma DialContext_cases:
  assumes "env_ok (me_senv env)" "mux_ok (me_senv env) m" "DialContext env d m = (m', r)"
  shows "mux_ok (me_senv env) m'"
    "r = Inr (i, sid) \<Longrightarrow> \<exists>m2 u. same_sessions m m2 \<and> mux_ok (me_senv env) m2 \<and> holds_underlay m2 (i, u)
        \<and> dial_session env d m2 (i, u) = (m', Inr (i, sid))"
proof -
  let ?ev = "me_senv env"
  let ?m0 = "cleanUnderlay env (dd_now d 0) True (m\<lparr>mx_used := True\<rparr>)"
  let ?p = "case maybePickExistingUnderlay (dd_now d 0) (dd_reuse d) ?m0 of Some x \<Rightarrow> (?m0, Inr x) | None \<Rightarrow> newUnderlay env d 0 ?m0"
  have used: "mux_ok ?ev (m\<lparr>mx_used := True\<rparr>)" "same_sessions m' (m'\<lparr>mx_used := True\<rparr>)" for m' :: "'a Mux" using assms(2) by (simp_all add: same_sessions_def)
  have ok0: "mux_ok ?ev ?m0" by (rule cleanUnderlay_ok [OF used(1)])
  have same0: "same_sessions m ?m0" using same_sessions_clean [OF used(1), of env "dd_now d 0" True] by (simp add: same_sessions_def)
  obtain m1 r1 where p: "?p = (m1, r1)" by fastforce
  have 1: "mux_ok ?ev m1" "same_sessions m m1" "r1 = Inr x \<Longrightarrow> holds_underlay m1 x" for x
    using p ok0 same0 pick_holds [OF ok0] newUnderlay_holds [OF ok0] same_sessions_new [OF assms(2) same0]
    by (auto split: option.splits)
  have D: "mux_ok ?ev m' \<and> (r = Inr (i, sid) \<longrightarrow> (\<exists>m2 u. same_sessions m m2 \<and> mux_ok ?ev m2 \<and> holds_underlay m2 (i, u)
        \<and> dial_session env d m2 (i, u) = (m', Inr (i, sid))))"
    if d: "DialContext env d m = sbind (m1, r1) (\<lambda>m x. sbind (reserve env d m x) (\<lambda>m x. dial_session env d m x))"
  proof (cases r1)
    case (Inl e)
    then show ?thesis using d assms(3) 1(1) by auto
  next
    case (Inr x)
    obtain m2 r2 where q: "reserve env d m1 x = (m2, r2)" by fastforce
    note 2 = reserve_holds [OF 1(1) 1(3) [OF Inr] q] reserve_same [OF assms(2) 1(1,2) 1(3) [OF Inr] q]
    show ?thesis
    proof (cases r2)
      case (Inl e)
      then show ?thesis using d assms(3) \<open>r1 = Inr x\<close> q 2(1) by auto
    next
      case (Inr y)
      obtain j u where y: "y = (j, u)" by (cases y)
      have ds: "dial_session env d m2 (j, u) = (m', r)" using d assms(3) \<open>r1 = Inr x\<close> q Inr y by simp
      note 3 = dial_session_ok [OF assms(1) 2(1) 2(2) [OF Inr, unfolded y] ds]
      show ?thesis using 3(1) 3(2) [of i sid] 2 Inr y ds by auto
    qed
  qed
  have "(\<exists>e. DialContext env d m = (m, Inl e))
      \<or> DialContext env d m = sbind (m1, r1) (\<lambda>m x. sbind (reserve env d m x) (\<lambda>m x. dial_session env d m x))"
    unfolding DialContext_def Let_def p by auto
  then consider e where "DialContext env d m = (m, Inl e)"
    | "DialContext env d m = sbind (m1, r1) (\<lambda>m x. sbind (reserve env d m x) (\<lambda>m x. dial_session env d m x))" by blast
  then have "mux_ok ?ev m' \<and> (r = Inr (i, sid) \<longrightarrow> (\<exists>m2 u. same_sessions m m2 \<and> mux_ok ?ev m2 \<and> holds_underlay m2 (i, u)
        \<and> dial_session env d m2 (i, u) = (m', Inr (i, sid))))"
    by cases (use assms(2,3) D in auto)
  then show "mux_ok ?ev m'" "r = Inr (i, sid) \<Longrightarrow> \<exists>m2 u. same_sessions m m2 \<and> mux_ok ?ev m2 \<and> holds_underlay m2 (i, u)
        \<and> dial_session env d m2 (i, u) = (m', Inr (i, sid))" by simp_all
qed

section \<open>Other steps\<close>

lemma server_underlays_ok [simp]:
  "underlay_ok ev (serverWrapTCPConn env mtu m)" "underlay_ok ev (server_packetUnderlay env mtu m)"
  by (simp_all add: underlay_ok_def serverWrapTCPConn_def server_packetUnderlay_def newBaseUnderlay_def baseUnderlay.extend_def)

lemma start_endpoint_ok: "mux_ok ev m \<Longrightarrow> mux_ok ev (start_endpoint env now p m)"
  by (auto simp: start_endpoint_def Let_def intro!: cleanUnderlay_ok mux_ok_add split: prod.split sum.split)

lemma start_endpoints_ok: "mux_ok ev m \<Longrightarrow> mux_ok ev (fold (start_endpoint env now) ps m)"
  by (induction ps arbitrary: m) (simp_all add: start_endpoint_ok)

lemma mu_Accept_ok: "underlay_ok ev (mu_base u) \<Longrightarrow> underlay_ok ev (mu_base (fst (mu_Accept u)))"
  by (cases u) (auto simp: base_Accept_def underlay_ok_def split: list.split)

lemma pass_session_ok:
  assumes "mux_ok ev m"
  shows "mux_ok ev (pass_session i m)"
proof (cases "map_of (mx_underlays m) i")
  case (Some u)
  obtain u' r where u': "mu_Accept u = (u', r)" by fastforce
  have "mux_ok ev (put_underlay i u' m)"
    using mux_okD [OF assms Some] mu_Accept_ok [of ev u] u' by (auto intro: mux_ok_put [OF assms])
  moreover have "mx_chAccept (put_underlay i u' m) = mx_chAccept m" by (simp add: put_underlay_def)
  ultimately show ?thesis using assms Some u' by (auto simp: pass_session_def mux_ok_def split: sum.split)
qed (use assms in \<open>simp add: pass_session_def\<close>)

lemma mux_Accept_ok: "mux_ok ev m \<Longrightarrow> mux_ok ev (fst (mux_Accept k m))"
proof -
  assume ok: "mux_ok ev m"
  let ?ready = "(if mx_acceptErr m then [(m, Inl ErrClosedPipe)] else [])
            @ (case mx_chAccept m of [] \<Rightarrow> [] | x # xs \<Rightarrow> [(m\<lparr>mx_chAccept := xs\<rparr>, Inr x)])
            @ (if mx_done m then [(m, Inl EOF)] else [])"
  have all: "mux_ok ev (fst y)" if "y \<in> set ?ready" for y
    using that ok by (cases "mx_chAccept m") (auto simp: mux_ok_def split: if_splits)
  show ?thesis
  proof (cases "?ready = []")
    case True
    then show ?thesis using ok by (simp add: mux_Accept_def Let_def)
  next
    case False
    then have "?ready ! (k mod length ?ready) \<in> set ?ready" by (intro nth_mem) simp
    then show ?thesis using all False by (simp add: mux_Accept_def Let_def)
  qed
qed

lemma SetServerUsers_ok: "mux_ok ev m \<Longrightarrow> mux_ok ev (fst (SetServerUsers us m))"
  by (auto simp: SetServerUsers_def mux_ok_def Let_def map_of_map comp_def map_prod_def case_prod_beta)

lemma mux_step_ok:
  assumes "env_ok (me_senv env)" "mux_ok (me_senv env) m" "mux_step ue env m m'"
  shows "mux_ok (me_senv env) m'"
  using assms(3)
proof cases
  case (m_dial d r)
  then show ?thesis using DialContext_cases(1) [OF assms(1,2)] by blast
next
  case (m_tick now)
  then show ?thesis using cleanUnderlay_ok [OF assms(2)] by simp
next
  case (m_start now r)
  then show ?thesis using assms(2) by (auto simp: mux_Start_def intro: start_endpoints_ok split: if_splits)
next
  case (m_endpoints now es)
  then show ?thesis using assms(2) start_endpoints_ok [OF assms(2)] by (auto simp: SetEndpoints_def Let_def)
next
  case (m_conn p now)
  then show ?thesis using assms(2) by (auto simp: accept_conn_def intro!: cleanUnderlay_ok mux_ok_add)
next
  case (m_pass i)
  then show ?thesis using pass_session_ok [OF assms(2)] by simp
next
  case (m_accept k r)
  then show ?thesis using mux_Accept_ok [OF assms(2), of k] by simp
next
  case (m_users us r)
  then show ?thesis using SetServerUsers_ok [OF assms(2), of us] by simp
next
  case (m_credentials username password r)
  then show ?thesis using assms(2) by (auto simp: SetClientUserNamePassword_def split: if_splits)
next
  case (m_factor n r)
  then show ?thesis using assms(2) by (auto simp: SetClientMultiplexFactor_def split: if_splits)
next
  case (m_hint b r)
  then show ?thesis using assms(2) by (auto simp: SetServerUserHintIsMandatory_def split: if_splits)
next
  case (m_pattern p)
  then show ?thesis using assms(2) by (simp add: SetTrafficPattern_def)
next
  case m_close
  then show ?thesis using assms(2) by (simp add: mux_Close_def mux_ok_def)
next
  case (m_stream i t t')
  then show ?thesis using mux_okD [OF assms(2) m_stream(2)] step_ok [OF assms(1) _ m_stream(3)] by (auto intro!: mux_ok_put [OF assms(2)])
next
  case (m_packet i u u')
  then show ?thesis using mux_okD [OF assms(2) m_packet(2)] step_ok [OF assms(1) _ m_packet(3)] by (auto intro!: mux_ok_put [OF assms(2)])
next
  case (m_stream_loop i t lr b)
  have "underlay_ok (me_senv env) (fst (stream_round ue (me_senv env) lr (t\<lparr>su_in := b\<rparr>)))"
    using mux_okD [OF assms(2) m_stream_loop(2)] m_stream_loop(3) by (intro round_ok [OF assms(1)]) (simp add: underlay_ok_def)
  then show ?thesis using m_stream_loop mux_okD [OF assms(2) m_stream_loop(2)] by (auto intro!: mux_ok_put [OF assms(2)])
next
  case (m_packet_loop i u pr ds)
  have "underlay_ok (me_senv env) (fst (packet_loop_round ue (me_senv env) pr (u\<lparr>pu_in := ds\<rparr>)))"
    using mux_okD [OF assms(2) m_packet_loop(2)] m_packet_loop(3) by (intro packet_round_ok [OF assms(1)]) (simp add: underlay_ok_def)
  then show ?thesis using m_packet_loop mux_okD [OF assms(2) m_packet_loop(2)] by (auto intro!: mux_ok_put [OF assms(2)])
qed

lemma mux_reach_ok: "mux_reach ue env m0 m \<Longrightarrow> env_ok (me_senv env) \<Longrightarrow> mux_ok (me_senv env) m0 \<Longrightarrow> mux_ok (me_senv env) m"
  by (induction rule: mux_reach.induct) (auto intro: mux_step_ok)

section \<open>Dials that succeed\<close>

text \<open>A reachable endpoint, and what else a dial needs.\<close>

definition endpoint_up :: "'t mux_env \<Rightarrow> underlayDescriptor \<Rightarrow> bool" where
  "endpoint_up env p \<longleftrightarrow>
     (case ud_transportProtocol p of
        StreamTransport \<Rightarrow> fst (ud_remoteAddr p) \<in> {''tcp'', ''tcp4'', ''tcp6''} \<and> me_dial env (snd (ud_remoteAddr p)) = Inr ()
          \<and> (\<exists>a. me_resolveTCP env (snd (ud_remoteAddr p)) = Inr a \<and> me_dial env a = Inr ())
      | PacketTransport \<Rightarrow> fst (ud_remoteAddr p) \<in> {''udp'', ''udp4'', ''udp6''}
          \<and> (\<exists>a. me_resolveUDP env (snd (ud_remoteAddr p)) = Inr a \<and> me_packetDial env a = Inr ())
      | UnknownTransport \<Rightarrow> False)"

definition can_dial :: "'t mux_env \<Rightarrow> dial_draws \<Rightarrow> 't Mux \<Rightarrow> bool" where
  "can_dial env d m \<longleftrightarrow> kdf_ok (me_kdf env) \<and> mx_isClient m \<and> mx_password m \<noteq> [] \<and> mx_endpoints m \<noteq> []
     \<and> (\<forall>p \<in> set (mx_endpoints m). endpoint_up env p)
     \<and> cache_ok (me_kdf env) (dd_now d 1) (mx_cipherCache m) \<and> dd_now d 1 \<le> dd_now d 3
     \<and> (\<forall>k. 0 \<le> dd_jitter d k) \<and> (\<forall>k n. 0 < n \<longrightarrow> dd_endpoint d k n < n)"

lemma user_cipher_succeeds:
  assumes "kdf_ok (me_kdf env)" "mx_password m \<noteq> []" "cache_ok (me_kdf env) now (mx_cipherCache m)" "0 \<le> j"
  obtains m' c where "user_cipher env j now stateless m = (m', Inr c)" "IsStateless c = stateless"
    "\<exists>cc. m' = m\<lparr>mx_cipherCache := cc\<rparr>" "cache_ok (me_kdf env) now (mx_cipherCache m')"
proof -
  let ?g = "getBlockCipherList (me_kdf env) (mx_cipherCache m) j now (mx_password m) stateless"
  obtain cs t where g: "?g = (fst ?g, Inr cs)" "map bc_key cs = keys_at (me_kdf env) (mx_password m) t"
      "list_all (fresh_cipher stateless) cs" "cache_ok (me_kdf env) now (fst ?g)"
    using getBlockCipherList_ok [OF assms, of stateless] by blast
  have "length (keys_at (me_kdf env) (mx_password m) t) = 3" by (simp add: keys_at_def saltFromTime_def Let_def)
  then have "1 < length cs" using g(2) by (metis length_map one_less_numeral_iff semiring_norm(77))
  then have f: "fresh_cipher stateless (cs ! 1)" using g(3) by (simp add: list_all_length)
  have b: "BlockCipherFromPassword (me_kdf env) (mx_cipherCache m) j now (mx_password m) stateless = (fst ?g, Inr (cs ! 1))"
    unfolding BlockCipherFromPassword_def by (subst g(1)) simp
  let ?b = "SetBlockContext (mx_username m) (cs ! 1)"
  let ?c = "case mx_trafficPattern m of None \<Rightarrow> ?b | Some p \<Rightarrow> SetNoncePattern (tp_nonce p) ?b"
  have u: "user_cipher env j now stateless m = (m\<lparr>mx_cipherCache := fst ?g\<rparr>, Inr ?c)" unfolding user_cipher_def b by (simp add: Let_def split: option.split)
  have st: "IsStateless ?c = stateless"
    using f by (cases "mx_trafficPattern m") (auto simp: fresh_cipher_def IsStateless_def SetBlockContext_def SetNoncePattern_def)
  have "mx_cipherCache (m\<lparr>mx_cipherCache := fst ?g\<rparr>) = fst ?g" by simp
  with g(4) have "cache_ok (me_kdf env) now (mx_cipherCache (m\<lparr>mx_cipherCache := fst ?g\<rparr>))" by metis
  then show ?thesis by (rule that [OF u st, rotated]) (rule exI, rule refl)
qed

lemma newUnderlay_succeeds:
  fixes m :: "'t Mux"
  assumes "kdf_ok (me_kdf env)" "mx_password m \<noteq> []" "mx_endpoints m \<noteq> []" "\<forall>p \<in> set (mx_endpoints m). endpoint_up env p"
    and "cache_ok (me_kdf env) (dd_now d (2 * k + 1)) (mx_cipherCache m)" "0 \<le> dd_jitter d k"
    and "dd_endpoint d k (length (mx_endpoints m)) < length (mx_endpoints m)"
  obtains m' u where "newUnderlay env d k m = (m', Inr (mx_next m, u))" "bu_isClient (mu_base u)" "bu_sessionMap (mu_base u) = []"
    "\<exists>cc. m' = add_underlay u (m\<lparr>mx_cipherCache := cc\<rparr>) \<and> cache_ok (me_kdf env) (dd_now d (2 * k + 1)) cc"
proof -
  let ?p = "mx_endpoints m ! dd_endpoint d k (length (mx_endpoints m))"
  have up: "endpoint_up env ?p" using assms(4,7) by (simp add: nth_mem)
  show ?thesis
  proof (cases "ud_transportProtocol ?p")
    case UnknownTransport
    then show ?thesis using up by (simp add: endpoint_up_def)
  next
    case StreamTransport
    obtain m1 c where c: "user_cipher env (dd_jitter d k) (dd_now d (2 * k + 1)) False m = (m1, Inr c)" "IsStateless c = False"
        "\<exists>cc. m1 = m\<lparr>mx_cipherCache := cc\<rparr>"
        "cache_ok (me_kdf env) (dd_now d (2 * k + 1)) (mx_cipherCache m1)"
      using user_cipher_succeeds [OF assms(1,2,5,6)] by metis
    obtain t :: "'t streamUnderlay" where t: "NewStreamUnderlay (me_registry env) (me_established env) (me_streamReplayCache env) (mx_cipherCache m1)
        (me_resolveTCP env) (me_dial env) (mx_bypassDialerDNS m1) (fst (ud_remoteAddr ?p)) (snd (ud_remoteAddr ?p))
        (ud_mtu ?p) c (mx_trafficPattern m1) = Inr t" "bu_isClient t"
      using up StreamTransport c(2)
      by (auto simp: endpoint_up_def NewStreamUnderlay_def newBaseUnderlay_def baseUnderlay.extend_def)
    have "bu_sessionMap t = []" "mx_next m1 = mx_next m" using new_client_underlay(1) [OF t(1)] c(3) by auto
    moreover have "newUnderlay env d k m = (add_underlay (Stream_underlay t) m1, Inr (mx_next m1, Stream_underlay t))"
      using StreamTransport c(1) t(1) by (simp add: newUnderlay_def Let_def)
    moreover obtain cc where "m1 = m\<lparr>mx_cipherCache := cc\<rparr>" using c(3) by blast
    ultimately show ?thesis using t(2) c(4) by (intro that [of "add_underlay (Stream_underlay t) m1" "Stream_underlay t"]) auto
  next
    case PacketTransport
    obtain m1 c where c: "user_cipher env (dd_jitter d k) (dd_now d (2 * k + 1)) True m = (m1, Inr c)" "IsStateless c = True"
        "\<exists>cc. m1 = m\<lparr>mx_cipherCache := cc\<rparr>"
        "cache_ok (me_kdf env) (dd_now d (2 * k + 1)) (mx_cipherCache m1)"
      using user_cipher_succeeds [OF assms(1,2,5,6)] by metis
    obtain t :: "'t packetUnderlay" where t: "NewPacketUnderlay (me_registry env) (me_established env) (me_packetReplayCache env) (mx_cipherCache m1) (dd_now d (2 * k + 1))
        (me_resolveUDP env) (me_packetDial env) (fst (ud_remoteAddr ?p)) (snd (ud_remoteAddr ?p))
        (ud_mtu ?p) c (mx_trafficPattern m1) = Inr t" "bu_isClient t"
      using up PacketTransport c(2)
      by (auto simp: endpoint_up_def NewPacketUnderlay_def newBaseUnderlay_def baseUnderlay.extend_def Let_def)
    have "bu_sessionMap t = []" "mx_next m1 = mx_next m" using new_client_underlay(2) [OF t(1)] c(3) by auto
    moreover have "newUnderlay env d k m = (add_underlay (Packet_underlay t) m1, Inr (mx_next m1, Packet_underlay t))"
      using PacketTransport c(1) t(1) by (simp add: newUnderlay_def Let_def)
    moreover obtain cc where "m1 = m\<lparr>mx_cipherCache := cc\<rparr>" using c(3) by blast
    ultimately show ?thesis using t(2) c(4) by (intro that [of "add_underlay (Packet_underlay t) m1" "Packet_underlay t"]) auto
  qed
qed

lemma newUnderlay_can_dial:
  assumes "can_dial env d m" "k \<in> {0, 1}"
  obtains m' u where "newUnderlay env d k m = (m', Inr (mx_next m, u))" "bu_isClient (mu_base u)" "bu_sessionMap (mu_base u) = []"
    "k = 0 \<Longrightarrow> can_dial env d m'"
proof -
  have "cache_ok kdf now cache \<Longrightarrow> now \<le> now' \<Longrightarrow> cache_ok kdf now' cache" for kdf now now' cache
    unfolding cache_ok_def by (meson order_trans)
  then have cache: "cache_ok (me_kdf env) (dd_now d (2 * k + 1)) (mx_cipherCache m)"
    using assms by (auto simp: can_dial_def numeral_3_eq_3)
  obtain m' u where n: "newUnderlay env d k m = (m', Inr (mx_next m, u))" "bu_isClient (mu_base u)" "bu_sessionMap (mu_base u) = []"
      "\<exists>cc. m' = add_underlay u (m\<lparr>mx_cipherCache := cc\<rparr>) \<and> cache_ok (me_kdf env) (dd_now d (2 * k + 1)) cc"
    by (rule newUnderlay_succeeds [OF _ _ _ _ cache]) (use assms(1) in \<open>auto simp: can_dial_def\<close>)
  have "can_dial env d m'" if "k = 0" using n(4) assms(1) that by (auto simp: can_dial_def add_underlay_def)
  then show ?thesis using that n by blast
qed

lemma mu_AddSession_new:
  assumes "se_id s \<noteq> 0" "se_state s = sessionInit" "se_isClient s = bu_isClient (mu_base u)" "map_of (bu_sessionMap (mu_base u)) (se_id s) = None"
  shows "snd (mu_AddSession u s) = Inr ()"
  using assms by (cases u) (simp_all add: AddSession_new)

lemma dial_session_succeeds:
  assumes "dd_sessionID d \<noteq> 0" "bu_isClient (mu_base u)" "map_of (bu_sessionMap (mu_base u)) (dd_sessionID d) = None"
  shows "snd (dial_session env d m (i, u)) = Inr (i, dd_sessionID d)"
proof -
  obtain s where s: "NewSession (ev_bt (me_senv env)) (me_registry env) (me_established env) (dd_now d 5) (dd_sessionID d) True
      (bu_mtu (mu_base u)) (session_users (mx_users m)) = Inr s" "se_id s = dd_sessionID d" "se_isClient s = True" "se_state s = sessionInit"
    by (rule NewSession_total)
  then show ?thesis using mu_AddSession_new [of s u] assms by (auto simp: dial_session_def split: prod.split)
qed

text \<open>The underlays that a dial may choose: of a client, and without the drawn session ID.\<close>

definition choosable :: "dial_draws \<Rightarrow> 't mux_underlay \<Rightarrow> bool" where
  "choosable d u \<longleftrightarrow> bu_isClient (mu_base u) \<and> map_of (bu_sessionMap (mu_base u)) (dd_sessionID d) = None"

lemma reserve_succeeds:
  assumes "can_dial env d m" "choosable d (snd x)"
  obtains m' y where "reserve env d m x = (m', Inr y)" "choosable d (snd y)"
proof -
  obtain i u where x: "x = (i, u)" by (cases x)
  obtain c ok where c: "IncPending (dd_now d 2) (mu_scheduler u) = (c, ok)" by fastforce
  obtain m1 v where n: "newUnderlay env d 1 m = (m1, Inr (mx_next m, v))" "bu_isClient (mu_base v)" "bu_sessionMap (mu_base v) = []"
    using newUnderlay_can_dial [OF assms(1), of 1] by auto
  show ?thesis using that c n assms(2) x by (cases ok) (auto simp: reserve_def choosable_def Let_def)
qed

lemma try_disable_isClient [simp]: "bu_isClient (mu_base (try_disable idle now k u)) = bu_isClient (mu_base u)"
  by (simp add: try_disable_def Let_def)

lemma clean_keeps:
  "can_dial env d m \<Longrightarrow> can_dial env d (cleanUnderlay env now also (m\<lparr>mx_used := True\<rparr>))"
  by (simp add: can_dial_def cleanUnderlay_def)

lemma clean_choosable:
  assumes "mux_ok ev m" "\<forall>i u. map_of (mx_underlays m) i = Some u \<longrightarrow> choosable d u"
    and "map_of (mx_underlays (cleanUnderlay env now also m)) i = Some u'"
  shows "choosable d u'"
proof -
  let ?f = "clean_one (me_idleTime env) now (mx_multiplexFactor m) also"
  have "\<exists>u. map_of (mx_underlays m) i = Some u \<and> ?f (i, u) = Some (i, u')"
    using assms(1,3) by (intro clean_list(2) clean_one_key) (auto simp: mux_ok_def cleanUnderlay_def)
  then show ?thesis using assms(2) by (force simp: clean_one_def choosable_def split: if_splits)
qed

lemma dial_stores:
  assumes "env_ok (me_senv env)" "mux_ok (me_senv env) m" "DialContext env d m = (m', Inr (i, sid))"
  shows "\<exists>u s. map_of (mx_underlays m') i = Some u \<and> map_of (bu_sessionMap (mu_base u)) sid = Some s"
proof -
  obtain m2 u where m2: "mux_ok (me_senv env) m2" "holds_underlay m2 (i, u)"
      "dial_session env d m2 (i, u) = (m', Inr (i, sid))"
    using DialContext_cases(2) [OF assms] by blast
  from dial_session_ok(2) [OF assms(1) m2 refl] show ?thesis by blast
qed

section \<open>Properties\<close>

text \<open>
  C8. A multiplexer keeps its sessions apart, whatever happens in whatever order: the calls of its setters, dials, ticks of the cleaner,
  new endpoints and connections, sessions passed on and accepted, changes of the users, closing, and anything that its underlays, their
  event loops and the goroutines of their sessions do. In every state that it reaches, no underlay is listed twice, the session
  IDs of an underlay are unique, every session is stored under its own non-zero ID with the role of its underlay and consistent
  numbering, and the channels of ready sessions stay within their capacity.
\<close>

theorem mux_sessions_registered:
  assumes "env_ok (me_senv env)" "mux_reach ue env (NewMux isClient cache) m"
  shows "distinct (map fst (mx_underlays m)) \<and> length (mx_chAccept m) \<le> sessionChanCapacity
     \<and> (\<forall>i u. map_of (mx_underlays m) i = Some u \<longrightarrow>
          distinct (map fst (bu_sessionMap (mu_base u))) \<and> length (bu_readySessions (mu_base u)) \<le> sessionChanCapacity
          \<and> (\<forall>sid s. map_of (bu_sessionMap (mu_base u)) sid = Some s \<longrightarrow>
               se_id s = sid \<and> sid \<noteq> 0 \<and> se_isClient s = bu_isClient (mu_base u) \<and> numbered (me_senv env) s))"
proof -
  have "mux_ok (me_senv env) (NewMux isClient cache)" by (simp add: mux_ok_def NewMux_def)
  then have "mux_ok (me_senv env) m" using mux_reach_ok [OF assms(2,1)] by blast
  then show ?thesis by (simp add: mux_ok_def underlay_ok_def registered_def)
qed

text \<open>
  C10. A session that \<open>DialContext\<close> returns is ready to use: it has the drawn ID, which is not zero and was not in use on its underlay; it is
  attached to an open client underlay of the multiplexer and registered there as a client session.
\<close>

theorem dial_attaches_session:
  assumes "env_ok (me_senv env)" "mux_ok (me_senv env) m" "DialContext env d m = (m', Inr (i, sid))"
  shows "sid = dd_sessionID d \<and> sid \<noteq> 0
     \<and> (\<forall>u. map_of (mx_underlays m) i = Some u \<longrightarrow> map_of (bu_sessionMap (mu_base u)) sid = None)
     \<and> (\<exists>u s. map_of (mx_underlays m') i = Some u \<and> \<not> bu_done (mu_base u) \<and> bu_isClient (mu_base u)
          \<and> map_of (bu_sessionMap (mu_base u)) sid = Some s \<and> se_id s = sid \<and> se_isClient s \<and> se_state s = sessionAttached)"
proof -
  obtain m2 u where m2: "same_sessions m m2" "mux_ok (me_senv env) m2" "holds_underlay m2 (i, u)"
      "dial_session env d m2 (i, u) = (m', Inr (i, sid))"
    using DialContext_cases(2) [OF assms] by blast
  note d = dial_session_ok(2) [OF assms(1) m2(2-4) refl]
  have "map_of (bu_sessionMap (mu_base v)) sid = None" if "map_of (mx_underlays m) i = Some v" for v
    using same_sessionsD [OF m2(1) that, of u] m2(3) d by (auto simp: holds_underlay_def)
  then show ?thesis using d by (auto simp: registered_def)
qed

text \<open>
  C32. \<open>SetEndpoints\<close> before the multiplexer is used loses endpoints: if the new list has an endpoint that the multiplexer does not have
  yet, then an endpoint in both lists is dropped.
\<close>

theorem set_endpoints_drops:
  assumes "\<not> mx_used m" "p \<in> set (mx_endpoints m)" "p \<in> set es" "q \<in> set es" "q \<notin> set (mx_endpoints m)"
  shows "p \<notin> set (mx_endpoints (SetEndpoints env now es m)) \<and> q \<in> set (mx_endpoints (SetEndpoints env now es m))"
proof -
  have "newEndpoints (mx_endpoints m) es \<noteq> []" using assms(4,5) by (auto simp: newEndpoints_def filter_empty_conv)
  then show ?thesis using assms by (simp add: SetEndpoints_def newEndpoints_def)
qed

text \<open>
  C9. A dial succeeds when it should: a client with a password and reachable endpoints gets a session, whether it reuses an underlay or has to
  create one or even a second one, if the drawn session ID is not zero and not in use.
\<close>

theorem dial_succeeds:
  assumes "mux_ok (me_senv env) m" "can_dial env d m" "dd_sessionID d \<noteq> 0"
    and "\<forall>p \<in> set (mx_endpoints m). \<not> IsNilNetAddr (ud_remoteAddr p)"
    and "\<forall>i u. map_of (mx_underlays m) i = Some u \<longrightarrow> bu_isClient (mu_base u) \<and> map_of (bu_sessionMap (mu_base u)) (dd_sessionID d) = None"
  shows "\<exists>m' i. DialContext env d m = (m', Inr (i, dd_sessionID d))"
proof -
  let ?m0 = "cleanUnderlay env (dd_now d 0) True (m\<lparr>mx_used := True\<rparr>)"
  let ?p = "case maybePickExistingUnderlay (dd_now d 0) (dd_reuse d) ?m0 of Some x \<Rightarrow> (?m0, Inr x) | None \<Rightarrow> newUnderlay env d 0 ?m0"
  have used: "mux_ok (me_senv env) (m\<lparr>mx_used := True\<rparr>)" using assms(1) by simp
  note ok0 = cleanUnderlay_ok [OF used, of env "dd_now d 0" True]
  have cd: "can_dial env d ?m0" by (rule clean_keeps [OF assms(2)])
  obtain m1 x where x: "?p = (m1, Inr x)" "can_dial env d m1" "choosable d (snd x)"
  proof (cases "maybePickExistingUnderlay (dd_now d 0) (dd_reuse d) ?m0")
    case None
    obtain m' u where "newUnderlay env d 0 ?m0 = (m', Inr (mx_next ?m0, u))" "bu_isClient (mu_base u)" "bu_sessionMap (mu_base u) = []" "can_dial env d m'"
      using newUnderlay_can_dial [OF cd, of 0] by auto
    then show ?thesis using None that by (simp add: choosable_def)
  next
    case (Some x)
    have "holds_underlay ?m0 x" by (rule pick_holds [OF ok0 Some])
    then have "choosable d (snd x)" using assms(5) clean_choosable [OF used, of d env "dd_now d 0" True "fst x" "snd x"]
      by (simp add: holds_underlay_def choosable_def)
    then show ?thesis using Some cd that by simp
  qed
  obtain m2 i u where r: "reserve env d m1 x = (m2, Inr (i, u))" "choosable d u"
    using reserve_succeeds [OF x(2,3)] by (metis prod.collapse)
  have "DialContext env d m = sbind ?p (\<lambda>m x. sbind (reserve env d m x) (\<lambda>m x. dial_session env d m x))"
    using assms(2,4) by (simp add: DialContext_def Let_def can_dial_def list_ex_iff)
  also have "\<dots> = dial_session env d m2 (i, u)" unfolding x(1) using r(1) by simp
  finally have "snd (DialContext env d m) = Inr (i, dd_sessionID d)"
    using dial_session_succeeds [OF assms(3), of u env m2 i] r(2) by (simp add: choosable_def)
  then show ?thesis by (metis prod.collapse)
qed

section \<open>Witnesses\<close>

definition some_mux_env :: "segment list mux_env" where
  "some_mux_env = \<lparr>me_senv = some_senv, me_kdf = salt_kdf, me_idleTime = 1, me_registry = Map.empty, me_established = 0,
     me_streamReplayCache = some_replayCache, me_packetReplayCache = some_replayCache, me_resolveTCP = Inr, me_resolveUDP = Inr,
     me_dial = (\<lambda>_. Inr ()), me_packetDial = (\<lambda>_. Inr ()), me_listen = (\<lambda>_. Inr ()), me_listenPacket = (\<lambda>_. Inr ())\<rparr>"

definition some_endpoint :: "string \<Rightarrow> underlayDescriptor" where
  "some_endpoint a = \<lparr>ud_mtu = 1400, ud_transportProtocol = StreamTransport, ud_localAddr = ([], []), ud_remoteAddr = (''tcp'', a)\<rparr>"

definition some_client_mux :: "segment list Mux" where
  "some_client_mux = (NewMux True Map.empty)\<lparr>mx_endpoints := [some_endpoint ''a''], mx_username := ''alice'', mx_password := [1], mx_multiplexFactor := 1\<rparr>"

definition some_dial :: dial_draws where
  "some_dial = \<lparr>dd_now = int, dd_reuse = (\<lambda>_. 0), dd_endpoint = (\<lambda>_ _. 0), dd_jitter = (\<lambda>_. 0), dd_sessionID = 7\<rparr>"

lemma some_client_mux_ok: "mux_ok ev some_client_mux"
  by (simp add: mux_ok_def some_client_mux_def NewMux_def)

lemma some_mux_env_ok: "env_ok (me_senv some_mux_env)"
  using some_senv_ok by (simp add: some_mux_env_def)

theorem dial_succeeds_witness: "\<exists>m' i. DialContext some_mux_env some_dial some_client_mux = (m', Inr (i, 7))"
proof -
  have "can_dial some_mux_env some_dial some_client_mux"
    using salt_kdf_ok
    by (simp add: can_dial_def endpoint_up_def some_mux_env_def some_dial_def some_client_mux_def some_endpoint_def NewMux_def cache_ok_def)
  then show ?thesis
    using dial_succeeds [OF some_client_mux_ok, of some_mux_env some_dial]
    by (simp add: some_client_mux_def NewMux_def some_dial_def some_endpoint_def IsNilNetAddr_def)
qed

lemma some_dial_result: "\<exists>m' i. DialContext some_mux_env some_dial some_client_mux = (m', Inr (i, 7))"
proof -
  have "can_dial some_mux_env some_dial some_client_mux"
    using salt_kdf_ok
    by (simp add: can_dial_def endpoint_up_def some_mux_env_def some_dial_def some_client_mux_def some_endpoint_def NewMux_def cache_ok_def)
  then obtain m1 u where n: "newUnderlay some_mux_env some_dial 0 (cleanUnderlay some_mux_env 0 True (some_client_mux\<lparr>mx_used := True\<rparr>))
      = (m1, Inr (0, u))" "bu_isClient (mu_base u)" "bu_sessionMap (mu_base u) = []" "can_dial some_mux_env some_dial m1"
    using newUnderlay_can_dial [OF clean_keeps, of some_mux_env some_dial some_client_mux 0 0 True]
    by (auto simp: cleanUnderlay_def some_client_mux_def NewMux_def)
  have "choosable some_dial (snd (0 :: nat, u))" using n(2,3) by (simp add: choosable_def)
  from reserve_succeeds [OF n(4) this]
  obtain m2 i v where r: "reserve some_mux_env some_dial m1 (0, u) = (m2, Inr (i, v))" "choosable some_dial v"
    by (metis prod.collapse)
  have "DialContext some_mux_env some_dial some_client_mux = dial_session some_mux_env some_dial m2 (i, v)"
    using n(1) r(1) by (simp add: DialContext_def Let_def some_client_mux_def NewMux_def some_dial_def some_endpoint_def IsNilNetAddr_def
        maybePickExistingUnderlay_def cleanUnderlay_def List.map_filter_simps)
  moreover have "snd (dial_session some_mux_env some_dial m2 (i, v)) = Inr (i, 7)"
    using dial_session_succeeds [of some_dial v some_mux_env m2 i] r(2) by (simp add: choosable_def some_dial_def)
  ultimately show ?thesis by (metis prod.collapse)
qed

theorem dial_attaches_session_witness:
  "\<exists>m' i u. DialContext some_mux_env some_dial some_client_mux = (m', Inr (i, 7))
     \<and> map_of (mx_underlays m') i = Some u \<and> map_of (bu_sessionMap (mu_base u)) 7 \<noteq> None"
proof -
  obtain m' i where d: "DialContext some_mux_env some_dial some_client_mux = (m', Inr (i, 7))" using some_dial_result by blast
  then show ?thesis using dial_attaches_session [OF some_mux_env_ok some_client_mux_ok d] by auto
qed

text \<open>The client is set up by its setters, and has an underlay with a session after its first dial.\<close>

lemma some_client_reach: "mux_reach some_uenv some_mux_env (NewMux True Map.empty) some_client_mux"
proof -
  let ?m0 = "NewMux True Map.empty :: segment list Mux"
  let ?m1 = "?m0\<lparr>mx_endpoints := [some_endpoint ''a'']\<rparr>"
  let ?m2 = "?m1\<lparr>mx_username := ''alice'', mx_password := [1]\<rparr>"
  have "SetEndpoints some_mux_env 0 [some_endpoint ''a''] ?m0 = ?m1"
    by (simp add: SetEndpoints_def newEndpoints_def NewMux_def)
  then have "mux_step some_uenv some_mux_env ?m0 ?m1" using m_endpoints [of some_uenv some_mux_env ?m0 0 "[some_endpoint ''a'']"] by simp
  moreover have "mux_step some_uenv some_mux_env ?m1 ?m2"
    by (rule m_credentials [of "''alice''" "[1]" _ _ "Inr ()"]) (simp add: SetClientUserNamePassword_def NewMux_def)
  moreover have "mux_step some_uenv some_mux_env ?m2 some_client_mux"
    by (rule m_factor [of 1 _ _ "Inr ()"]) (simp add: SetClientMultiplexFactor_def NewMux_def some_client_mux_def)
  ultimately show ?thesis by (blast intro: m_refl m_trans)
qed

theorem mux_sessions_registered_witness:
  "\<exists>m i u s. mux_reach some_uenv some_mux_env (NewMux True Map.empty) m \<and> map_of (mx_underlays m) i = Some u
     \<and> map_of (bu_sessionMap (mu_base u)) 7 = Some s \<and> se_id s = 7 \<and> distinct (map fst (mx_underlays m))"
proof -
  obtain m i where d: "DialContext some_mux_env some_dial some_client_mux = (m, Inr (i, 7))" using some_dial_result by blast
  then have reach: "mux_reach some_uenv some_mux_env (NewMux True Map.empty) m"
    by (rule m_trans [OF some_client_reach m_dial])
  obtain u s where "map_of (mx_underlays m) i = Some u" "map_of (bu_sessionMap (mu_base u)) 7 = Some s"
    using dial_stores [OF some_mux_env_ok some_client_mux_ok d] by blast
  with mux_sessions_registered [OF some_mux_env_ok reach] reach show ?thesis by blast
qed

theorem set_endpoints_drops_witness:
  "some_endpoint ''a'' \<notin> set (mx_endpoints (SetEndpoints some_mux_env 0 [some_endpoint ''a'', some_endpoint ''b''] some_client_mux))"
proof -
  have "\<not> mx_used some_client_mux" "mx_endpoints some_client_mux = [some_endpoint ''a'']" by (simp_all add: some_client_mux_def NewMux_def)
  then show ?thesis
    using set_endpoints_drops [of some_client_mux "some_endpoint ''a''" "[some_endpoint ''a'', some_endpoint ''b'']" "some_endpoint ''b''" some_mux_env 0]
    by (simp add: some_endpoint_def)
qed

end
