(* ===== verification/Net.thy ===== *)
theory Net
  imports Prelude
begin

text \<open>
  What the proxy protocol code uses of the Go packages \<open>io\<close> and \<open>net\<close>: readers and connections, IP addresses,
  their textual form and address ranges. A reader is the list of the bytes that will arrive and the error
  that a read gets after them.
\<close>

section \<open>Readers and connections\<close>

record reader =
  rd_in :: bytes
  rd_end :: go_error

text \<open>\<open>bytes.NewReader\<close>.\<close>

definition bytes_reader :: "bytes \<Rightarrow> reader" where
  "bytes_reader b = \<lparr>rd_in = b, rd_end = EOF\<rparr>"

text \<open>\<open>io.ReadFull\<close> of a buffer of n bytes.\<close>

definition io_ReadFull :: "nat \<Rightarrow> 'z reader_scheme \<Rightarrow> 'z reader_scheme \<times> bytes result" where
  "io_ReadFull n r =
     (if n \<le> length (rd_in r) then (r\<lparr>rd_in := drop n (rd_in r)\<rparr>, Inr (take n (rd_in r)))
      else (r\<lparr>rd_in := []\<rparr>,
            Inl (if rd_end r = EOF \<and> rd_in r \<noteq> [] then ErrUnexpectedEOF else rd_end r)))"

text \<open>A connection: also what has been written to it, the error that a write gets, and whether it is closed.\<close>

record conn = reader +
  cn_out :: "bytes list"
  cn_writeErr :: "go_error option"
  cn_closed :: bool

definition nc_Write :: "bytes \<Rightarrow> 'z conn_scheme \<Rightarrow> 'z conn_scheme \<times> unit result" where
  "nc_Write b c =
     (case cn_writeErr c of
        Some e \<Rightarrow> (c, Inl e)
      | None \<Rightarrow> (c\<lparr>cn_out := cn_out c @ [b]\<rparr>, Inr ()))"

definition nc_Close :: "'z conn_scheme \<Rightarrow> 'z conn_scheme" where
  "nc_Close c = c\<lparr>cn_closed := True\<rparr>"

text \<open>\<open>bytes.Buffer\<close>.\<close>

definition buffer_Write :: "bytes \<Rightarrow> bytes \<Rightarrow> bytes \<times> unit result" where
  "buffer_Write b w = (w @ b, Inr ())"

definition bytes_string :: "bytes \<Rightarrow> string" where
  "bytes_string b = map (\<lambda>x. char_of (unat x)) b"

section \<open>IP addresses\<close>

text \<open>A \<open>net.IP\<close> is a slice of 4 or 16 bytes; nil is the empty one.\<close>

type_synonym IP = bytes

definition v4InV6Prefix :: bytes where
  "v4InV6Prefix = [0, 0, 0, 0, 0, 0, 0, 0, 0, 0, 255, 255]"

definition To4 :: "IP \<Rightarrow> IP option" where
  "To4 ip =
     (if length ip = 4 then Some ip
      else if length ip = 16 \<and> take 12 ip = v4InV6Prefix then Some (drop 12 ip) else None)"

definition To16 :: "IP \<Rightarrow> IP option" where
  "To16 ip =
     (if length ip = 4 then Some (v4InV6Prefix @ ip) else if length ip = 16 then Some ip else None)"

definition IPv4 :: "u8 \<Rightarrow> u8 \<Rightarrow> u8 \<Rightarrow> u8 \<Rightarrow> IP" where
  "IPv4 a b c d = v4InV6Prefix @ [a, b, c, d]"

definition ip_Equal :: "IP \<Rightarrow> IP \<Rightarrow> bool" where
  "ip_Equal ip x =
     (if length ip = length x then ip = x
      else if length ip = 4 \<and> length x = 16 then take 12 x = v4InV6Prefix \<and> ip = drop 12 x
      else if length ip = 16 \<and> length x = 4 then take 12 ip = v4InV6Prefix \<and> drop 12 ip = x
      else False)"

definition IsUnspecified :: "IP \<Rightarrow> bool" where
  "IsUnspecified ip \<longleftrightarrow> ip_Equal ip (IPv4 0 0 0 0) \<or> ip_Equal ip (replicate 16 0)"

definition IsLoopback :: "IP \<Rightarrow> bool" where
  "IsLoopback ip =
     (case To4 ip of Some ip4 \<Rightarrow> ip4 ! 0 = 127 | None \<Rightarrow> ip_Equal ip (replicate 15 0 @ [1]))"

definition IsPrivate :: "IP \<Rightarrow> bool" where
  "IsPrivate ip =
     (case To4 ip of
        Some ip4 \<Rightarrow> ip4 ! 0 = 10 \<or> ip4 ! 0 = 172 \<and> ip4 ! 1 AND 0xf0 = 16 \<or> ip4 ! 0 = 192 \<and> ip4 ! 1 = 168
      | None \<Rightarrow> length ip = 16 \<and> ip ! 0 AND 0xfe = 0xfc)"

section \<open>Textual addresses\<close>

definition hex_digit :: "char \<Rightarrow> nat option" where
  "hex_digit c =
     (let n = of_char c :: nat
      in if 48 \<le> n \<and> n \<le> 57 then Some (n - 48)
         else if 97 \<le> n \<and> n \<le> 102 then Some (n - 87)
         else if 65 \<le> n \<and> n \<le> 70 then Some (n - 55) else None)"

fun digits_value :: "nat \<Rightarrow> nat \<Rightarrow> string \<Rightarrow> nat option" where
  "digits_value base acc [] = Some acc"
| "digits_value base acc (c # cs) =
     (case hex_digit c of None \<Rightarrow> None | Some d \<Rightarrow> if d < base then digits_value base (acc * base + d) cs else None)"

fun split_at :: "char \<Rightarrow> string \<Rightarrow> string list" where
  "split_at sep [] = [[]]"
| "split_at sep (c # cs) =
     (if c = sep then [] # split_at sep cs
      else (case split_at sep cs of [] \<Rightarrow> [[c]] | w # ws \<Rightarrow> (c # w) # ws))"

text \<open>One number of a dotted address: no leading zero, at most 255.\<close>

definition parse_octet :: "string \<Rightarrow> u8 option" where
  "parse_octet s =
     (if s = [] \<or> (length s > 1 \<and> hd s = CHR ''0'') \<or> length s > 3 then None
      else (case digits_value 10 0 s of
              None \<Rightarrow> None
            | Some n \<Rightarrow> if n > 255 then None else Some (of_nat n)))"

definition parse_ipv4 :: "string \<Rightarrow> bytes option" where
  "parse_ipv4 s =
     (case map parse_octet (split_at (CHR ''.'') s) of
        [Some a, Some b, Some c, Some d] \<Rightarrow> Some [a, b, c, d]
      | _ \<Rightarrow> None)"

text \<open>
  The groups of an IPv6 address: the bytes so far, where the \<open>::\<close> was, and the rest of the text. At most
  eight groups fit, which bounds the loop.
\<close>

definition hex_prefix :: "string \<Rightarrow> string" where
  "hex_prefix s = takeWhile (\<lambda>c. hex_digit c \<noteq> None) s"

fun ipv6_groups :: "nat \<Rightarrow> bytes \<Rightarrow> nat option \<Rightarrow> string \<Rightarrow> (bytes \<times> nat option) option" where
  "ipv6_groups 0 acc ellipsis s = (if s = [] then Some (acc, ellipsis) else None)"
| "ipv6_groups (Suc k) acc ellipsis s =
     (let h = hex_prefix s; rest = drop (length h) s
      in if h = [] \<or> length h > 4 then None
         else (case rest of
                 [] \<Rightarrow>
                   (case digits_value 16 0 h of
                      None \<Rightarrow> None
                    | Some v \<Rightarrow> Some (acc @ put_uint16 (of_nat v), ellipsis))
               | c # cs \<Rightarrow>
                   if c = CHR ''.''
                   then if (ellipsis = None \<and> length acc \<noteq> 12) \<or> length acc + 4 > 16 then None
                        else (case parse_ipv4 s of None \<Rightarrow> None | Some b \<Rightarrow> Some (acc @ b, ellipsis))
                   else if c \<noteq> CHR '':'' \<or> cs = [] then None
                   else (case digits_value 16 0 h of
                           None \<Rightarrow> None
                         | Some v \<Rightarrow>
                             let acc = acc @ put_uint16 (of_nat v)
                             in if hd cs = CHR '':''
                                then if ellipsis \<noteq> None then None
                                     else if tl cs = [] then Some (acc, Some (length acc))
                                     else ipv6_groups k acc (Some (length acc)) (tl cs)
                                else ipv6_groups k acc ellipsis cs)))"

definition expand_ellipsis :: "bytes \<Rightarrow> nat option \<Rightarrow> bytes option" where
  "expand_ellipsis b ellipsis =
     (case ellipsis of
        None \<Rightarrow> if length b = 16 then Some b else None
      | Some e \<Rightarrow> if length b < 16 then Some (take e b @ replicate (16 - length b) 0 @ drop e b) else None)"

text \<open>An IPv6 address, which may have a zone after a percent sign: its bytes and the zone.\<close>

definition parse_ipv6 :: "string \<Rightarrow> (bytes \<times> string) option" where
  "parse_ipv6 s =
     (let addr = takeWhile (\<lambda>c. c \<noteq> CHR ''%'') s; zone = drop (length addr) s
      in if zone \<noteq> [] \<and> tl zone = [] then None
         else
           let lead = (take 2 addr = ''::''); body = (if lead then drop 2 addr else addr)
           in if lead \<and> body = [] then Some (replicate 16 0, drop 1 zone)
              else (case ipv6_groups 8 [] (if lead then Some 0 else None) body of
                      None \<Rightarrow> None
                    | Some (b, e) \<Rightarrow>
                        (case expand_ellipsis b e of None \<Rightarrow> None | Some ip \<Rightarrow> Some (ip, drop 1 zone))))"

text \<open>\<open>netip.ParseAddr\<close>: the bytes, 4 or 16, and the zone.\<close>

definition ParseAddr :: "string \<Rightarrow> (bytes \<times> string) option" where
  "ParseAddr s =
     (case dropWhile (\<lambda>c. c \<notin> {CHR ''.'', CHR '':'', CHR ''%''}) s of
        [] \<Rightarrow> None
      | c # _ \<Rightarrow>
          if c = CHR ''.'' then map_option (\<lambda>b. (b, [])) (parse_ipv4 s)
          else if c = CHR '':'' then parse_ipv6 s else None)"

definition ParseIP :: "string \<Rightarrow> IP" where
  "ParseIP s =
     (case ParseAddr s of
        Some (b, zone) \<Rightarrow> if zone = [] then (case To16 b of None \<Rightarrow> [] | Some ip \<Rightarrow> ip) else []
      | None \<Rightarrow> [])"

text \<open>\<open>net.SplitHostPort\<close> and \<open>strconv.Atoi\<close>, as far as an address from the network needs them.\<close>

definition SplitHostPort :: "string \<Rightarrow> (string \<times> string) result" where
  "SplitHostPort hp =
     (let port = rev (takeWhile (\<lambda>c. c \<noteq> CHR '':'') (rev hp)); i = length hp - length port
      in if CHR '':'' \<notin> set hp then Inl (Errorf ''missing port in address'')
         else if hd hp = CHR ''[''
         then let end = length (takeWhile (\<lambda>c. c \<noteq> CHR '']'') hp)
              in if end = length hp then Inl (Errorf ''missing ']' in address'')
                 else if end + 1 = length hp then Inl (Errorf ''missing port in address'')
                 else if end + 2 \<noteq> i
                 then Inl (Errorf (if hp ! (end + 1) = CHR '':'' then ''too many colons in address'' else ''missing port in address''))
                 else if CHR ''['' \<in> set (drop 1 hp) then Inl (Errorf ''unexpected '[' in address'')
                 else if CHR '']'' \<in> set (drop (end + 1) hp) then Inl (Errorf ''unexpected ']' in address'')
                 else Inr (take (end - 1) (drop 1 hp), port)
         else let host = take (i - 1) hp
              in if CHR '':'' \<in> set host then Inl (Errorf ''too many colons in address'')
                 else if CHR ''['' \<in> set hp then Inl (Errorf ''unexpected '[' in address'')
                 else if CHR '']'' \<in> set hp then Inl (Errorf ''unexpected ']' in address'')
                 else Inr (host, port))"

definition Atoi :: "string \<Rightarrow> int result" where
  "Atoi s =
     (let neg = (s \<noteq> [] \<and> hd s = CHR ''-''); ds = (if s \<noteq> [] \<and> hd s \<in> {CHR ''-'', CHR ''+''} then tl s else s)
      in if ds = [] then Inl (Errorf ''invalid syntax'')
         else (case digits_value 10 0 ds of
                 None \<Rightarrow> Inl (Errorf ''invalid syntax'')
               | Some n \<Rightarrow>
                   let v = (if neg then - int n else int n)
                   in if v < - (2 ^ 63) \<or> v \<ge> 2 ^ 63 then Inl (Errorf ''value out of range'') else Inr v))"

fun nat_digits :: "nat \<Rightarrow> string" where
  "nat_digits n = (if n < 10 then [char_of (48 + n)] else nat_digits (n div 10) @ [char_of (48 + n mod 10)])"

declare nat_digits.simps [simp del]

definition Itoa :: "int \<Rightarrow> string" where
  "Itoa i = (if i < 0 then CHR ''-'' # nat_digits (nat (- i)) else nat_digits (nat i))"

definition JoinHostPort :: "string \<Rightarrow> string \<Rightarrow> string" where
  "JoinHostPort host port =
     (if CHR '':'' \<in> set host then ''['' @ host @ '']:'' @ port else host @ '':'' @ port)"

text \<open>The textual form of an address: the first longest run of at least two zero groups is elided.\<close>

fun hex_digits :: "nat \<Rightarrow> string" where
  "hex_digits n =
     (let d = (\<lambda>k. char_of (if k < 10 then 48 + k else 87 + k))
      in if n < 16 then [d n] else hex_digits (n div 16) @ [d (n mod 16)])"

declare hex_digits.simps [simp del]

fun join :: "string \<Rightarrow> string list \<Rightarrow> string" where
  "join sep [] = []"
| "join sep [x] = x"
| "join sep (x # y # xs) = x @ sep @ join sep (y # xs)"

fun word_groups :: "bytes \<Rightarrow> nat list" where
  "word_groups (a # b # bs) = (unat a * 256 + unat b) # word_groups bs"
| "word_groups _ = []"

definition zero_run :: "nat list \<Rightarrow> nat \<Rightarrow> nat" where
  "zero_run gs i = length (takeWhile (\<lambda>g. g = 0) (drop i gs))"

definition groups_String :: "nat list \<Rightarrow> string" where
  "groups_String gs =
     (let m = fold max (map (zero_run gs) [0..<length gs]) 0;
          i = length (takeWhile (\<lambda>i. zero_run gs i < m) [0..<length gs])
      in if m < 2 then join '':'' (map hex_digits gs)
         else join '':'' (map hex_digits (take i gs)) @ ''::'' @ join '':'' (map hex_digits (drop (i + m) gs)))"

definition ip_String :: "IP \<Rightarrow> string" where
  "ip_String ip =
     (if ip = [] then ''<nil>''
      else (case To4 ip of
              Some ip4 \<Rightarrow> join ''.'' (map (\<lambda>b. nat_digits (unat b)) ip4)
            | None \<Rightarrow>
                if length ip = 16 then groups_String (word_groups ip)
                else ''?'' @ concat (map (\<lambda>b. [last (hex_digits (unat b div 16)), last (hex_digits (unat b))]) ip)))"

record UDPAddr =
  ua_IP :: IP
  ua_Port :: int
  ua_Zone :: string

section \<open>Address ranges\<close>

record IPNet =
  net_IP :: IP
  net_Mask :: bytes

definition mask_byte :: "nat \<Rightarrow> u8" where
  "mask_byte n = (if n \<ge> 8 then 255 else 255 - of_nat (2 ^ (8 - n) - 1))"

definition CIDRMask :: "nat \<Rightarrow> nat \<Rightarrow> bytes" where
  "CIDRMask ones bits = map (\<lambda>i. mask_byte (ones - 8 * i)) [0..<bits div 8]"

definition ParseCIDR :: "string \<Rightarrow> IPNet option" where
  "ParseCIDR s =
     (let addr = takeWhile (\<lambda>c. c \<noteq> CHR ''/'') s; mask = drop (length addr + 1) s
      in if length addr = length s then None
         else (case ParseAddr addr of
                 None \<Rightarrow> None
               | Some (b, zone) \<Rightarrow>
                   if zone \<noteq> [] \<or> mask = [] then None
                   else (case digits_value 10 0 mask of
                           None \<Rightarrow> None
                         | Some n \<Rightarrow>
                             if n > 8 * length b then None
                             else let m = CIDRMask n (8 * length b)
                                  in Some \<lparr>net_IP = map2 (AND) b m, net_Mask = m\<rparr>)))"

text \<open>A network of mapped IPv4 addresses is an IPv4 network.\<close>

definition networkNumberAndMask :: "IPNet \<Rightarrow> (bytes \<times> bytes) option" where
  "networkNumberAndMask n =
     (case To4 (net_IP n) of
        None \<Rightarrow> if length (net_IP n) = 16 \<and> length (net_Mask n) = 16 then Some (net_IP n, net_Mask n) else None
      | Some ip \<Rightarrow>
          if length (net_Mask n) = 4 then Some (ip, net_Mask n)
          else if length (net_Mask n) = 16 then Some (ip, drop 12 (net_Mask n)) else None)"

definition Contains :: "IPNet \<Rightarrow> IP \<Rightarrow> bool" where
  "Contains n ip =
     (case networkNumberAndMask n of
        None \<Rightarrow> False
      | Some (nn, m) \<Rightarrow>
          let ip = (case To4 ip of Some x \<Rightarrow> x | None \<Rightarrow> ip)
          in length ip = length nn \<and> map2 (AND) nn m = map2 (AND) ip m)"

section \<open>Lemmas\<close>

lemma unat_of_char [simp]: "unat (of_char c :: u8) = of_char c"
proof -
  have "unat (of_nat (of_char c) :: u8) = of_char c"
    using nat_of_char_less_256 [of c] by (simp add: unat_of_nat del: of_nat_of_char)
  then show ?thesis by (simp only: of_nat_of_char)
qed

lemma of_char_byte [simp]: "(of_char (char_of (unat x)) :: u8) = x"
proof -
  have "(of_char (char_of (unat x)) :: u8) = of_nat (of_char (char_of (unat x)))"
    by (simp only: of_nat_of_char)
  also have "\<dots> = of_nat (unat x)" using unsigned_less [of x, where ?'a = nat] by (simp del: of_nat_of_char)
  finally show ?thesis by simp
qed

lemma string_bytes_string [simp]: "bytes_string (string_bytes s) = s"
  by (induction s) (simp_all add: bytes_string_def string_bytes_def)

lemma bytes_string_bytes [simp]: "string_bytes (bytes_string b) = b"
  by (induction b) (simp_all add: bytes_string_def string_bytes_def)

lemma io_ReadFull_append [simp]:
  "rd_in r = xs @ ys \<Longrightarrow> n = length xs \<Longrightarrow> io_ReadFull n r = (r\<lparr>rd_in := ys\<rparr>, Inr xs)"
  by (simp add: io_ReadFull_def)

lemma nc_Write_ok [simp]: "cn_writeErr c = None \<Longrightarrow> nc_Write b c = (c\<lparr>cn_out := cn_out c @ [b]\<rparr>, Inr ())"
  by (simp add: nc_Write_def)

end
