(* ===== verification/Socks.thy ===== *)
theory Socks
  imports Net
begin

text \<open>
  The messages of the proxy protocol (\<open>src/apis/model/addr.go\<close>, \<open>src/apis/model/socks.go\<close>,
  \<open>src/apis/constant/socks5.go\<close>): addresses, requests and responses, written to and read from a byte stream.
\<close>

section \<open>Constants\<close>

definition Socks5Version :: u8 where "Socks5Version = 5"
definition Socks5ConnectCmd :: u8 where "Socks5ConnectCmd = 1"
definition Socks5BindCmd :: u8 where "Socks5BindCmd = 2"
definition Socks5UDPAssociateCmd :: u8 where "Socks5UDPAssociateCmd = 3"
definition Socks5IPv4Address :: u8 where "Socks5IPv4Address = 1"
definition Socks5FQDNAddress :: u8 where "Socks5FQDNAddress = 3"
definition Socks5IPv6Address :: u8 where "Socks5IPv6Address = 4"
definition Socks5NoAuth :: u8 where "Socks5NoAuth = 0"
definition Socks5UserPassAuth :: u8 where "Socks5UserPassAuth = 2"
definition Socks5NoAcceptableAuth :: u8 where "Socks5NoAcceptableAuth = 255"
definition Socks5UserPassAuthVersion :: u8 where "Socks5UserPassAuthVersion = 1"
definition Socks5AuthSuccess :: u8 where "Socks5AuthSuccess = 0"
definition Socks5AuthFailure :: u8 where "Socks5AuthFailure = 1"
definition Socks5ReplySuccess :: u8 where "Socks5ReplySuccess = 0"
definition Socks5ReplyNotAllowedByRuleSet :: u8 where "Socks5ReplyNotAllowedByRuleSet = 2"
definition Socks5ReplyNetworkUnreachable :: u8 where "Socks5ReplyNetworkUnreachable = 3"
definition Socks5ReplyHostUnreachable :: u8 where "Socks5ReplyHostUnreachable = 4"
definition Socks5ReplyConnectionRefused :: u8 where "Socks5ReplyConnectionRefused = 5"
definition Socks5ReplyCommandNotSupported :: u8 where "Socks5ReplyCommandNotSupported = 7"
definition Socks5ReplyAddrTypeNotSupported :: u8 where "Socks5ReplyAddrTypeNotSupported = 8"

lemmas socks5_consts =
  Socks5Version_def Socks5ConnectCmd_def Socks5BindCmd_def Socks5UDPAssociateCmd_def Socks5IPv4Address_def
  Socks5FQDNAddress_def Socks5IPv6Address_def Socks5NoAuth_def Socks5UserPassAuth_def Socks5NoAcceptableAuth_def
  Socks5UserPassAuthVersion_def Socks5AuthSuccess_def Socks5AuthFailure_def Socks5ReplySuccess_def
  Socks5ReplyNotAllowedByRuleSet_def Socks5ReplyNetworkUnreachable_def Socks5ReplyHostUnreachable_def
  Socks5ReplyConnectionRefused_def Socks5ReplyCommandNotSupported_def Socks5ReplyAddrTypeNotSupported_def

section \<open>Addresses\<close>

record AddrSpec =
  as_FQDN :: string
  as_IP :: IP
  as_Port :: int

definition zero_AddrSpec :: AddrSpec where
  "zero_AddrSpec = \<lparr>as_FQDN = [], as_IP = [], as_Port = 0\<rparr>"

definition AddrSpec_String :: "'z AddrSpec_scheme \<Rightarrow> string" where
  "AddrSpec_String a =
     (if as_IP a \<noteq> [] then JoinHostPort (ip_String (as_IP a)) (Itoa (as_Port a))
      else JoinHostPort (as_FQDN a) (Itoa (as_Port a)))"

definition AddrType :: "AddrSpec \<Rightarrow> u8" where
  "AddrType a =
     (if To4 (as_IP a) \<noteq> None then Socks5IPv4Address
      else if To16 (as_IP a) \<noteq> None then Socks5IPv6Address
      else if as_FQDN a \<noteq> [] then Socks5FQDNAddress
      else 0)"

text \<open>
  Reading into a receiver, which keeps what was set before an error. The steps after the address type set
  either the IP address or the domain name.
\<close>

definition read_host :: "u8 \<Rightarrow> 'z reader_scheme \<times> AddrSpec \<Rightarrow> ('z reader_scheme \<times> AddrSpec) \<times> unit result" where
  "read_host addrType s =
     (case s of (r, a) \<Rightarrow>
        if addrType = Socks5IPv4Address
        then (case io_ReadFull 4 r of (r, Inl e) \<Rightarrow> ((r, a), Inl e) | (r, Inr addr) \<Rightarrow> ((r, a\<lparr>as_IP := addr\<rparr>), Inr ()))
        else if addrType = Socks5IPv6Address
        then (case io_ReadFull 16 r of (r, Inl e) \<Rightarrow> ((r, a), Inl e) | (r, Inr addr) \<Rightarrow> ((r, a\<lparr>as_IP := addr\<rparr>), Inr ()))
        else if addrType = Socks5FQDNAddress
        then (case io_ReadFull 1 r of
                (r, Inl e) \<Rightarrow> ((r, a), Inl e)
              | (r, Inr addrLen) \<Rightarrow>
                  (case io_ReadFull (unat (addrLen ! 0)) r of
                     (r, Inl e) \<Rightarrow> ((r, a), Inl e)
                   | (r, Inr fqdn) \<Rightarrow> ((r, a\<lparr>as_FQDN := bytes_string fqdn\<rparr>), Inr ())))
        else ((r, a), Inl ErrUnrecognizedAddrType))"

definition read_port :: "'z reader_scheme \<times> AddrSpec \<Rightarrow> ('z reader_scheme \<times> AddrSpec) \<times> unit result" where
  "read_port s =
     (case s of (r, a) \<Rightarrow>
        (case io_ReadFull 2 r of
           (r, Inl e) \<Rightarrow> ((r, a), Inl e)
         | (r, Inr port) \<Rightarrow> ((r, a\<lparr>as_Port := push_bit 8 (uint (port ! 0)) OR uint (port ! 1)\<rparr>), Inr ())))"

definition AddrSpec_ReadFromSocks5 ::
    "'z reader_scheme \<Rightarrow> AddrSpec \<Rightarrow> ('z reader_scheme \<times> AddrSpec) \<times> unit result" where
  "AddrSpec_ReadFromSocks5 r a =
     (case io_ReadFull 1 r of
        (r, Inl e) \<Rightarrow> ((r, a), Inl e)
      | (r, Inr addrType) \<Rightarrow> sbind (read_host (addrType ! 0) (r, a)) (\<lambda>s _. read_port s))"

text \<open>Writing to anything with a \<open>Write\<close> method.\<close>

definition AddrSpec_bytes :: "AddrSpec \<Rightarrow> bytes result" where
  "AddrSpec_bytes a =
     (let port = put_uint16 (word_of_int (as_Port a)) in
      case To4 (as_IP a) of
        Some ip \<Rightarrow> Inr (Socks5IPv4Address # ip @ port)
      | None \<Rightarrow>
          (case To16 (as_IP a) of
             Some ip \<Rightarrow> Inr (Socks5IPv6Address # ip @ port)
           | None \<Rightarrow>
               if as_FQDN a \<noteq> []
               then Inr (Socks5FQDNAddress # of_nat (length (as_FQDN a)) # string_bytes (as_FQDN a) @ port)
               else Inl ErrUnrecognizedAddrType))"

definition AddrSpec_WriteToSocks5 :: "(bytes \<Rightarrow> 'w \<Rightarrow> 'w \<times> unit result) \<Rightarrow> AddrSpec \<Rightarrow> 'w \<Rightarrow> 'w \<times> unit result" where
  "AddrSpec_WriteToSocks5 write a w =
     (case AddrSpec_bytes a of Inl e \<Rightarrow> (w, Inl e) | Inr b \<Rightarrow> write b w)"

record NetAddrSpec = AddrSpec +
  na_Net :: string

text \<open>An address of another type is known by its network and its textual form.\<close>

datatype net_addr = Spec_addr NetAddrSpec | Other_addr string string

definition NetAddrSpec_From :: "net_addr \<Rightarrow> NetAddrSpec \<Rightarrow> NetAddrSpec \<times> unit result" where
  "NetAddrSpec_From addr n =
     (case addr of
        Spec_addr nas \<Rightarrow> (nas, Inr ())
      | Other_addr network text \<Rightarrow>
          let n = n\<lparr>na_Net := network\<rparr>
          in (case SplitHostPort text of
                Inl e \<Rightarrow> (n, Inl (Errorf ''split host port failed''))
              | Inr (host, portStr) \<Rightarrow>
                  if host = [] then (n, Inl (Errorf ''host is empty''))
                  else (case Atoi portStr of
                          Inl e \<Rightarrow> (n, Inl (Errorf ''parse port failed''))
                        | Inr port \<Rightarrow>
                            let n = n\<lparr>as_Port := port\<rparr>; ip = ParseIP host
                            in if ip \<noteq> [] then (n\<lparr>as_IP := ip, as_FQDN := []\<rparr>, Inr ())
                               else (n\<lparr>as_IP := [], as_FQDN := host\<rparr>, Inr ()))))"

section \<open>Requests and responses\<close>

record Request =
  rq_Command :: u8
  rq_DstAddr :: AddrSpec
  rq_Raw :: bytes

record Response =
  rs_Reply :: u8
  rs_BindAddr :: AddrSpec
  rs_Raw :: bytes

text \<open>What a \<open>TeeReader\<close> has copied: the bytes that are no longer there.\<close>

definition consumed_by :: "'z reader_scheme \<Rightarrow> 'z reader_scheme \<Rightarrow> bytes" where
  "consumed_by r r' = take (length (rd_in r) - length (rd_in r')) (rd_in r)"

definition Request_ReadFromSocks5 ::
    "'z reader_scheme \<Rightarrow> Request \<Rightarrow> ('z reader_scheme \<times> Request) \<times> unit result" where
  "Request_ReadFromSocks5 reader q =
     (case io_ReadFull 3 reader of
        (r, Inl e) \<Rightarrow> ((r, q), Inl e)
      | (r, Inr header) \<Rightarrow>
          let q = q\<lparr>rq_Command := header ! 1\<rparr>
          in if header ! 0 \<noteq> Socks5Version then ((r, q), Inl (Errorf ''invalid version''))
             else (case AddrSpec_ReadFromSocks5 r (rq_DstAddr q) of
                     ((r, a), Inl e) \<Rightarrow> ((r, q\<lparr>rq_DstAddr := a\<rparr>), Inl e)
                   | ((r, a), Inr _) \<Rightarrow> ((r, q\<lparr>rq_DstAddr := a, rq_Raw := consumed_by reader r\<rparr>), Inr ())))"

definition Request_WriteToSocks5 ::
    "(bytes \<Rightarrow> 'w \<Rightarrow> 'w \<times> unit result) \<Rightarrow> Request \<Rightarrow> 'w \<Rightarrow> ('w \<times> Request) \<times> unit result" where
  "Request_WriteToSocks5 write q w =
     (case AddrSpec_WriteToSocks5 buffer_Write (rq_DstAddr q) [Socks5Version, rq_Command q, 0] of
        (_, Inl e) \<Rightarrow> ((w, q), Inl e)
      | (buf, Inr _) \<Rightarrow> (case write buf w of (w, r) \<Rightarrow> ((w, q\<lparr>rq_Raw := buf\<rparr>), r)))"

definition ToNetAddrSpec :: "Request \<Rightarrow> NetAddrSpec result" where
  "ToNetAddrSpec q =
     (if rq_Command q = Socks5ConnectCmd then Inr (AddrSpec.extend (rq_DstAddr q) (NetAddrSpec.fields ''tcp''))
      else if rq_Command q = Socks5UDPAssociateCmd then Inr (AddrSpec.extend (rq_DstAddr q) (NetAddrSpec.fields ''udp''))
      else Inl (Errorf ''unsupported socks5 command''))"

definition Response_ReadFromSocks5 ::
    "'z reader_scheme \<Rightarrow> Response \<Rightarrow> ('z reader_scheme \<times> Response) \<times> unit result" where
  "Response_ReadFromSocks5 reader q =
     (case io_ReadFull 3 reader of
        (r, Inl e) \<Rightarrow> ((r, q), Inl e)
      | (r, Inr header) \<Rightarrow>
          let q = q\<lparr>rs_Reply := header ! 1\<rparr>
          in if header ! 0 \<noteq> Socks5Version then ((r, q), Inl (Errorf ''invalid version''))
             else (case AddrSpec_ReadFromSocks5 r (rs_BindAddr q) of
                     ((r, a), Inl e) \<Rightarrow> ((r, q\<lparr>rs_BindAddr := a\<rparr>), Inl e)
                   | ((r, a), Inr _) \<Rightarrow> ((r, q\<lparr>rs_BindAddr := a, rs_Raw := consumed_by reader r\<rparr>), Inr ())))"

definition Response_WriteToSocks5 ::
    "(bytes \<Rightarrow> 'w \<Rightarrow> 'w \<times> unit result) \<Rightarrow> Response \<Rightarrow> 'w \<Rightarrow> ('w \<times> Response) \<times> unit result" where
  "Response_WriteToSocks5 write q w =
     (case AddrSpec_WriteToSocks5 buffer_Write (rs_BindAddr q) [Socks5Version, rs_Reply q, 0] of
        (_, Inl e) \<Rightarrow> ((w, q), Inl e)
      | (buf, Inr _) \<Rightarrow> (case write buf w of (w, r) \<Rightarrow> ((w, q\<lparr>rs_Raw := buf\<rparr>), r)))"

section \<open>Lemmas\<close>

definition zero_Request :: Request where
  "zero_Request = \<lparr>rq_Command = 0, rq_DstAddr = zero_AddrSpec, rq_Raw = []\<rparr>"

definition zero_Response :: Response where
  "zero_Response = \<lparr>rs_Reply = 0, rs_BindAddr = zero_AddrSpec, rs_Raw = []\<rparr>"

text \<open>An address that fits the format, and what the other side reads.\<close>

definition addr_ok :: "AddrSpec \<Rightarrow> bool" where
  "addr_ok a \<longleftrightarrow> (length (as_IP a) \<in> {4, 16} \<or> as_IP a = [] \<and> as_FQDN a \<noteq> [] \<and> length (as_FQDN a) < 256)
     \<and> 0 \<le> as_Port a \<and> as_Port a < 65536"

definition wire_addr :: "AddrSpec \<Rightarrow> AddrSpec" where
  "wire_addr a =
     \<lparr>as_FQDN = (if as_IP a = [] then as_FQDN a else []),
      as_IP = (case To4 (as_IP a) of Some ip \<Rightarrow> ip | None \<Rightarrow> as_IP a), as_Port = as_Port a\<rparr>"

lemma port_bytes:
  assumes "0 \<le> p" "p < 65536"
  shows "push_bit 8 (uint (put_uint16 (word_of_int p) ! 0)) OR uint (put_uint16 (word_of_int p) ! 1) = p"
proof -
  let ?w = "word_of_int p :: u16"
  have "push_bit 8 (uint (ucast (drop_bit 8 ?w) :: u8)) OR uint (ucast ?w :: u8) = uint ?w"
    by (rule bit_eqI) (auto simp: bit_simps bit_word_of_int_iff dest: bit_imp_le_length)
  moreover have "uint ?w = p" using assms by (simp add: uint_word_of_int)
  ultimately show ?thesis by (simp add: put_uint16_def)
qed

lemma read_port_ok:
  "0 \<le> p \<Longrightarrow> p < 65536 \<Longrightarrow> rd_in r = put_uint16 (word_of_int p) @ rest \<Longrightarrow>
   read_port (r, a) = ((r\<lparr>rd_in := rest\<rparr>, a\<lparr>as_Port := p\<rparr>), Inr ())"
  using port_bytes [of p] by (simp add: read_port_def)

lemma io_ReadFull_Cons [simp]: "rd_in r = x # ys \<Longrightarrow> io_ReadFull (Suc 0) r = (r\<lparr>rd_in := ys\<rparr>, Inr [x])"
  by (simp add: io_ReadFull_def)

lemma consumed_by_append: "rd_in r = xs @ rd_in r' \<Longrightarrow> consumed_by r r' = xs"
  by (simp add: consumed_by_def)

lemma To4_length: "To4 ip = Some x \<Longrightarrow> length x = 4"
  by (auto simp: To4_def split: if_splits)

lemma AddrSpec_roundtrip:
  assumes "addr_ok a"
  obtains b where "AddrSpec_bytes a = Inr b"
    "\<forall>r :: 'z reader_scheme. \<forall>rest. rd_in r = b @ rest \<longrightarrow>
       AddrSpec_ReadFromSocks5 r zero_AddrSpec = ((r\<lparr>rd_in := rest\<rparr>, wire_addr a), Inr ())"
proof -
  let ?p = "put_uint16 (word_of_int (as_Port a)) :: bytes"
  note rp = read_port_ok [of "as_Port a"]
  have port: "0 \<le> as_Port a" "as_Port a < 65536" using assms by (simp_all add: addr_ok_def)
  consider (v4) ip where "To4 (as_IP a) = Some ip" | (v6) "To4 (as_IP a) = None" "length (as_IP a) = 16"
    | (fqdn) "as_IP a = []" "as_FQDN a \<noteq> []" "length (as_FQDN a) < 256"
  proof (cases "To4 (as_IP a)")
    case None
    then have "length (as_IP a) \<noteq> 4" by (auto simp: To4_def)
    then show ?thesis using None assms that by (auto simp: addr_ok_def)
  qed (use that in simp)
  then show ?thesis
  proof cases
    case v4
    have l: "length ip = 4" "as_IP a \<noteq> []" using To4_length [OF v4] v4 by (auto simp: To4_def)
    show ?thesis
      by (rule that [of "Socks5IPv4Address # ip @ ?p"])
        (use v4 l port in \<open>simp_all add: AddrSpec_bytes_def AddrSpec_ReadFromSocks5_def read_host_def rp wire_addr_def zero_AddrSpec_def
          io_ReadFull_append [where xs = ip]\<close>)
  next
    case v6
    show ?thesis
      by (rule that [of "Socks5IPv6Address # as_IP a @ ?p"])
        (use v6 port in \<open>auto simp: AddrSpec_bytes_def AddrSpec_ReadFromSocks5_def read_host_def rp wire_addr_def zero_AddrSpec_def
          io_ReadFull_append [where xs = "as_IP a"] To16_def socks5_consts\<close>)
  next
    case fqdn
    have n: "unat (of_nat (length (as_FQDN a)) :: u8) = length (string_bytes (as_FQDN a))" using fqdn by (simp add: unat_of_nat)
    show ?thesis
      by (rule that [of "Socks5FQDNAddress # of_nat (length (as_FQDN a)) # string_bytes (as_FQDN a) @ ?p"])
        (use fqdn port in \<open>simp_all add: AddrSpec_bytes_def AddrSpec_ReadFromSocks5_def read_host_def rp wire_addr_def zero_AddrSpec_def
          io_ReadFull_append [where xs = "string_bytes (as_FQDN a)"] n To4_def To16_def socks5_consts\<close>)
  qed
qed

section \<open>Properties\<close>

text \<open>
  C13. Requests and responses of the proxy protocol survive the wire: what \<open>WriteToSocks5\<close> writes of a message
  with a valid address, \<open>ReadFromSocks5\<close> reads back from any stream that starts with it, and it
  consumes exactly those bytes. An IPv4 address comes back in its short form, and a domain name
  only if there is no IP address, which takes precedence.
\<close>

theorem socks_message_roundtrip:
  fixes r :: "'z reader_scheme"
  assumes "addr_ok (rq_DstAddr q)" "addr_ok (rs_BindAddr p)"
  shows "(\<exists>buf. Request_WriteToSocks5 buffer_Write q w = ((w @ buf, q\<lparr>rq_Raw := buf\<rparr>), Inr ())
     \<and> Request_ReadFromSocks5 (r\<lparr>rd_in := buf @ rest\<rparr>) zero_Request
       = ((r\<lparr>rd_in := rest\<rparr>, \<lparr>rq_Command = rq_Command q, rq_DstAddr = wire_addr (rq_DstAddr q), rq_Raw = buf\<rparr>), Inr ()))
   \<and> (\<exists>buf. Response_WriteToSocks5 buffer_Write p w = ((w @ buf, p\<lparr>rs_Raw := buf\<rparr>), Inr ())
     \<and> Response_ReadFromSocks5 (r\<lparr>rd_in := buf @ rest\<rparr>) zero_Response
       = ((r\<lparr>rd_in := rest\<rparr>, \<lparr>rs_Reply = rs_Reply p, rs_BindAddr = wire_addr (rs_BindAddr p), rs_Raw = buf\<rparr>), Inr ()))"
proof (rule conjI)
  obtain b where b: "AddrSpec_bytes (rq_DstAddr q) = Inr b"
    "\<forall>r :: 'z reader_scheme. \<forall>rest. rd_in r = b @ rest \<longrightarrow>
       AddrSpec_ReadFromSocks5 r zero_AddrSpec = ((r\<lparr>rd_in := rest\<rparr>, wire_addr (rq_DstAddr q)), Inr ())"
    by (rule AddrSpec_roundtrip [OF assms(1)])
  then show "\<exists>buf. Request_WriteToSocks5 buffer_Write q w = ((w @ buf, q\<lparr>rq_Raw := buf\<rparr>), Inr ())
     \<and> Request_ReadFromSocks5 (r\<lparr>rd_in := buf @ rest\<rparr>) zero_Request
       = ((r\<lparr>rd_in := rest\<rparr>, \<lparr>rq_Command = rq_Command q, rq_DstAddr = wire_addr (rq_DstAddr q), rq_Raw = buf\<rparr>), Inr ())"
    by (intro exI [of _ "[Socks5Version, rq_Command q, 0] @ b"])
      (simp add: Request_WriteToSocks5_def AddrSpec_WriteToSocks5_def buffer_Write_def Request_ReadFromSocks5_def
        io_ReadFull_append [where xs = "[Socks5Version, rq_Command q, 0]"] zero_Request_def Let_def
        consumed_by_append [where xs = "[Socks5Version, rq_Command q, 0] @ b"])
next
  obtain b where b: "AddrSpec_bytes (rs_BindAddr p) = Inr b"
    "\<forall>r :: 'z reader_scheme. \<forall>rest. rd_in r = b @ rest \<longrightarrow>
       AddrSpec_ReadFromSocks5 r zero_AddrSpec = ((r\<lparr>rd_in := rest\<rparr>, wire_addr (rs_BindAddr p)), Inr ())"
    by (rule AddrSpec_roundtrip [OF assms(2)])
  then show "\<exists>buf. Response_WriteToSocks5 buffer_Write p w = ((w @ buf, p\<lparr>rs_Raw := buf\<rparr>), Inr ())
     \<and> Response_ReadFromSocks5 (r\<lparr>rd_in := buf @ rest\<rparr>) zero_Response
       = ((r\<lparr>rd_in := rest\<rparr>, \<lparr>rs_Reply = rs_Reply p, rs_BindAddr = wire_addr (rs_BindAddr p), rs_Raw = buf\<rparr>), Inr ())"
    by (intro exI [of _ "[Socks5Version, rs_Reply p, 0] @ b"])
      (simp add: Response_WriteToSocks5_def AddrSpec_WriteToSocks5_def buffer_Write_def Response_ReadFromSocks5_def
        io_ReadFull_append [where xs = "[Socks5Version, rs_Reply p, 0]"] zero_Response_def Let_def
        consumed_by_append [where xs = "[Socks5Version, rs_Reply p, 0] @ b"])
qed

section \<open>Witnesses\<close>

definition some_request :: Request where
  "some_request = \<lparr>rq_Command = Socks5ConnectCmd,
     rq_DstAddr = \<lparr>as_FQDN = ''example.com'', as_IP = [], as_Port = 443\<rparr>, rq_Raw = []\<rparr>"

definition some_response :: Response where
  "some_response = \<lparr>rs_Reply = Socks5ReplySuccess,
     rs_BindAddr = \<lparr>as_FQDN = [], as_IP = IPv4 10 0 0 1, as_Port = 1080\<rparr>, rs_Raw = []\<rparr>"

theorem socks_message_roundtrip_witness:
  "(\<exists>buf. Request_ReadFromSocks5 (bytes_reader (buf @ [7])) zero_Request
       = ((bytes_reader [7], some_request\<lparr>rq_Raw := buf\<rparr>), Inr ()))
   \<and> (\<exists>buf. Response_ReadFromSocks5 (bytes_reader (buf @ [7])) zero_Response
       = ((bytes_reader [7], some_response\<lparr>rs_BindAddr := \<lparr>as_FQDN = [], as_IP = [10, 0, 0, 1], as_Port = 1080\<rparr>, rs_Raw := buf\<rparr>), Inr ()))"
proof -
  have "addr_ok (rq_DstAddr some_request)" "wire_addr (rq_DstAddr some_request) = rq_DstAddr some_request"
    "addr_ok (rs_BindAddr some_response)"
    "wire_addr (rs_BindAddr some_response) = \<lparr>as_FQDN = [], as_IP = [10, 0, 0, 1], as_Port = 1080\<rparr>"
    by (simp_all add: addr_ok_def wire_addr_def some_request_def some_response_def To4_def IPv4_def v4InV6Prefix_def)
  with socks_message_roundtrip [where q = some_request and p = some_response and w = "[]" and r = "bytes_reader []" and rest = "[7]"] show ?thesis
    by (auto simp: bytes_reader_def some_request_def some_response_def)
qed

end
