(* ===== verification/SocksAuth.thy ===== *)
theory SocksAuth
  imports Socks
begin

text \<open>
  Authentication of the proxy protocol (\<open>src/pkg/socks5/auth.go\<close>): what a server accepts, and what it sends to
  another proxy. Timeouts and counters are left out.
\<close>

record Credential =
  cr_User :: string
  cr_Password :: string

record Auth =
  ClientSideAuthentication :: bool
  IngressCredentials :: "Credential list"
  EgressCredential :: "Credential option"

text \<open>
  \<open>fmt.Errorf\<close> with a wrapped error. A goroutine that waits or panics does not get there.
\<close>

fun wrap_error :: "string \<Rightarrow> go_error \<Rightarrow> go_error" where
  "wrap_error msg (Panic m) = Panic m"
| "wrap_error msg Blocked = Blocked"
| "wrap_error msg e = Errorf msg"

definition wrapped :: "string \<Rightarrow> 's \<times> 'a result \<Rightarrow> 's \<times> 'a result" where
  "wrapped msg m = (fst m, case snd m of Inl e \<Rightarrow> Inl (wrap_error msg e) | Inr x \<Rightarrow> Inr x)"

lemma wrapped_simps [simp]: "wrapped msg (s, Inr x) = (s, Inr x)" "wrapped msg (s, Inl e) = (s, Inl (wrap_error msg e))"
  by (simp_all add: wrapped_def)

section \<open>The server\<close>

text \<open>The bytes behind a length byte.\<close>

definition read_counted :: "string \<Rightarrow> 'z reader_scheme \<Rightarrow> 'z reader_scheme \<times> bytes result" where
  "read_counted what c =
     sbind (wrapped (''get '' @ what @ '' length failed'') (io_ReadFull 1 c)) (\<lambda>c header.
     wrapped (''read '' @ what @ '' failed'') (io_ReadFull (unat (header ! 0)) c))"

definition user_pass_auth :: "Credential list \<Rightarrow> 'z conn_scheme \<Rightarrow> 'z conn_scheme \<times> unit result" where
  "user_pass_auth credentials c =
     (if credentials = [] then (c, Inl (Errorf ''there is no registered socks5 server user''))
      else
        sbind (wrapped ''write user password authentication request failed'' (nc_Write [Socks5Version, Socks5UserPassAuth] c)) (\<lambda>c _.
        sbind (wrapped ''get user password authentication version failed'' (io_ReadFull 1 c)) (\<lambda>c header.
        if header ! 0 \<noteq> Socks5UserPassAuthVersion
        then (c, Inl (Errorf ''user password authentication version is not supported by socks5 server''))
        else
          sbind (read_counted ''user'' c) (\<lambda>c user.
          sbind (read_counted ''password'' c) (\<lambda>c password.
          if list_ex (\<lambda>cr. cr_User cr = bytes_string user \<and> cr_Password cr = bytes_string password) credentials
          then wrapped ''write user password authentication success response failed''
                 (nc_Write [Socks5UserPassAuthVersion, Socks5AuthSuccess] c)
          else
            sbind (wrapped ''write user password authentication failure response failed''
                     (nc_Write [Socks5UserPassAuthVersion, Socks5AuthFailure] c)) (\<lambda>c _.
            (c, Inl (Errorf ''user password authentication failed: invalid user or password''))))))))"

definition choose_method :: "Credential list \<Rightarrow> bytes \<Rightarrow> 'z conn_scheme \<Rightarrow> 'z conn_scheme \<times> unit result" where
  "choose_method credentials authMethods c =
     (let requestNoAuth = Socks5NoAuth \<in> set authMethods; requestUserPassAuth = Socks5UserPassAuth \<in> set authMethods
      in if \<not> requestNoAuth \<and> \<not> requestUserPassAuth
         then sbind (wrapped ''write authentication response (no acceptable methods) failed''
                       (nc_Write [Socks5Version, Socks5NoAcceptableAuth] c)) (\<lambda>c _.
              (c, Inl (Errorf ''socks5 client provided authentication is not supported by socks5 server'')))
         else if requestNoAuth
         then if \<not> requestUserPassAuth \<and> credentials \<noteq> []
              then (c, Inl (Errorf ''socks5 client requested no authentication, but user and password are required by socks5 server''))
              else wrapped ''write authentication response (no authentication required) failed''
                     (nc_Write [Socks5Version, Socks5NoAuth] c)
         else user_pass_auth credentials c)"

definition handleAuthentication :: "Auth \<Rightarrow> 'z conn_scheme \<Rightarrow> 'z conn_scheme \<times> unit result" where
  "handleAuthentication auth c =
     sbind (wrapped ''get socks version failed'' (io_ReadFull 1 c)) (\<lambda>c version.
     if version ! 0 \<noteq> Socks5Version then (c, Inl (Errorf ''unsupported socks version''))
     else
       sbind (wrapped ''get number of authentication method failed'' (io_ReadFull 1 c)) (\<lambda>c nAuthMethods.
       if nAuthMethods ! 0 = 0 then (c, Inl (Errorf ''number of authentication method is 0''))
       else
         sbind (wrapped ''get authentication method failed'' (io_ReadFull (unat (nAuthMethods ! 0)) c)) (\<lambda>c authMethods.
         choose_method (IngressCredentials auth) authMethods c)))"

section \<open>Another proxy\<close>

text \<open>\<open>on_fail\<close> closes the connection of a step that failed.\<close>

definition on_fail :: "string \<Rightarrow> 'z conn_scheme \<times> 'a result \<Rightarrow> 'z conn_scheme \<times> 'a result" where
  "on_fail msg m =
     (case m of
        (c, Inl e) \<Rightarrow> ((if e = Blocked then c else nc_Close c), Inl (wrap_error msg e))
      | (c, Inr x) \<Rightarrow> (c, Inr x))"

lemma on_fail_simps [simp]: "on_fail msg (c, Inr x) = (c, Inr x)"
  by (simp add: on_fail_def)

definition credential_bytes :: "Credential \<Rightarrow> bytes" where
  "credential_bytes cr =
     [Socks5UserPassAuthVersion] @ [of_nat (length (cr_User cr))] @ string_bytes (cr_User cr)
     @ [of_nat (length (cr_Password cr))] @ string_bytes (cr_Password cr)"

definition select_method :: "u8 \<Rightarrow> 'z conn_scheme \<Rightarrow> 'z conn_scheme \<times> unit result" where
  "select_method m c =
     sbind (on_fail ''failed to write socks5 authentication header to egress proxy'' (nc_Write [Socks5Version, 1, m] c)) (\<lambda>c _.
     sbind (on_fail ''failed to read socks5 authentication response from egress proxy'' (io_ReadFull 2 c)) (\<lambda>c resp.
     if resp ! 0 \<noteq> Socks5Version \<or> resp ! 1 \<noteq> m
     then (nc_Close c, Inl (Errorf ''got unexpected socks5 authentication response from egress proxy''))
     else (c, Inr ())))"

definition dialWithAuthentication :: "Credential option \<Rightarrow> 'z conn_scheme \<Rightarrow> 'z conn_scheme \<times> unit result" where
  "dialWithAuthentication auth c =
     (case auth of
        None \<Rightarrow> select_method Socks5NoAuth c
      | Some cr \<Rightarrow>
          if cr_User cr = [] \<or> cr_Password cr = [] then select_method Socks5NoAuth c
          else
            sbind (select_method Socks5UserPassAuth c) (\<lambda>c _.
            sbind (on_fail ''failed to write socks5 authentication credential to egress proxy'' (nc_Write (credential_bytes cr) c)) (\<lambda>c _.
            sbind (on_fail ''failed to read socks5 authentication response from egress proxy'' (io_ReadFull 2 c)) (\<lambda>c resp.
            if resp ! 0 \<noteq> Socks5UserPassAuthVersion
            then (nc_Close c, Inl (Errorf ''got unexpected socks5 user password authentication version from egress proxy''))
            else if resp ! 1 \<noteq> Socks5AuthSuccess
            then (nc_Close c, Inl (Errorf ''socks5 authentication with user password failed from egress proxy''))
            else (c, Inr ())))))"

section \<open>Lemmas\<close>

text \<open>The parts of a credential as they arrive, if they arrive in full.\<close>

definition counted :: "bytes \<Rightarrow> (bytes \<times> bytes) option" where
  "counted b = (case b of [] \<Rightarrow> None | n # b \<Rightarrow> if length b < unat n then None else Some (take (unat n) b, drop (unat n) b))"

definition credential_of :: "bytes \<Rightarrow> (string \<times> string) option" where
  "credential_of b =
     (case b of
        [] \<Rightarrow> None
      | v # b \<Rightarrow>
          if v \<noteq> Socks5UserPassAuthVersion then None
          else (case counted b of
                  None \<Rightarrow> None
                | Some (u, b) \<Rightarrow> (case counted b of None \<Rightarrow> None | Some (p, b) \<Rightarrow> Some (bytes_string u, bytes_string p))))"

lemma read_counted_eq:
  "snd (read_counted what c) = Inr x \<longleftrightarrow> (\<exists>rest. counted (rd_in c) = Some (x, rest))"
  "counted (rd_in c) = Some (x, rest) \<Longrightarrow> read_counted what c = (c\<lparr>rd_in := rest\<rparr>, Inr x)"
  by (auto simp: read_counted_def counted_def io_ReadFull_def split: list.splits if_splits)

lemma read_counted_None: "counted (rd_in c) = None \<Longrightarrow> \<exists>c' e. read_counted what c = (c', Inl e)"
  by (metis option.distinct(1) old.sum.exhaust read_counted_eq(1) surj_pair snd_conv)

lemma user_pass_auth_ok:
  assumes "cn_writeErr c = None"
  shows "snd (user_pass_auth creds c) = Inr () \<longleftrightarrow>
    (\<exists>u p. credential_of (rd_in c) = Some (u, p) \<and> (\<exists>cr \<in> set creds. cr_User cr = u \<and> cr_Password cr = p))"
proof (cases "creds = [] \<or> rd_in c = [] \<or> hd (rd_in c) \<noteq> Socks5UserPassAuthVersion")
  case True
  then show ?thesis using assms
    by (cases "rd_in c") (auto simp: user_pass_auth_def nc_Write_def io_ReadFull_def credential_of_def)
next
  case False
  then obtain b where b: "rd_in c = Socks5UserPassAuthVersion # b" "creds \<noteq> []" by (cases "rd_in c") auto
  show ?thesis
  proof (cases "counted b")
    case None
    then show ?thesis using assms b read_counted_None [of "c\<lparr>cn_out := cn_out c @ [[Socks5Version, Socks5UserPassAuth]], rd_in := b\<rparr>" "''user''"]
      by (auto simp: user_pass_auth_def nc_Write_def io_ReadFull_def credential_of_def)
  next
    case (Some x)
    obtain u b' where x: "x = (u, b')" by (cases x)
    let ?c = "\<lambda>b. c\<lparr>cn_out := cn_out c @ [[Socks5Version, Socks5UserPassAuth]], rd_in := b\<rparr>"
    have r: "read_counted ''user'' (?c b) = (?c b', Inr u)" using Some x by (subst read_counted_eq(2)) auto
    show ?thesis
    proof (cases "counted b'")
      case None
      then show ?thesis using assms b r Some x read_counted_None [of "?c b'" "''password''"]
        by (auto simp: user_pass_auth_def nc_Write_def io_ReadFull_def credential_of_def)
    next
      case (Some y)
      obtain p b'' where y: "y = (p, b'')" by (cases y)
      have r': "read_counted ''password'' (?c b') = (?c b'', Inr p)" using Some y by (subst read_counted_eq(2)) auto
      show ?thesis using assms b r r' \<open>counted b = Some x\<close> x Some y
        by (auto simp: user_pass_auth_def nc_Write_def io_ReadFull_def credential_of_def list_ex_iff)
    qed
  qed
qed

section \<open>Properties\<close>

text \<open>
  C12. Whom the server lets in. After a greeting with the given methods, authentication succeeds exactly if the client
  offers no authentication and either no credentials are configured or it offers user and password as well, or
  if it offers only user and password and then sends a configured pair in full. So a client that offers both
  methods gets in without any credential, although credentials are configured.
\<close>

theorem authentication_decision:
  assumes "cn_writeErr c = None" "rd_in c = Socks5Version # n # methods @ rest" "length methods = unat n" "n \<noteq> 0"
  shows "snd (handleAuthentication auth c) = Inr () \<longleftrightarrow>
    (if Socks5NoAuth \<in> set methods then IngressCredentials auth = [] \<or> Socks5UserPassAuth \<in> set methods
     else Socks5UserPassAuth \<in> set methods
       \<and> (\<exists>u p. credential_of rest = Some (u, p) \<and> (\<exists>cr \<in> set (IngressCredentials auth). cr_User cr = u \<and> cr_Password cr = p)))"
proof -
  let ?c = "c\<lparr>rd_in := rest\<rparr>"
  have "handleAuthentication auth c = choose_method (IngressCredentials auth) methods ?c"
    using assms(2-4) by (simp add: handleAuthentication_def io_ReadFull_def)
  then show ?thesis using user_pass_auth_ok [of ?c "IngressCredentials auth"] assms(1)
    by (auto simp: choose_method_def Let_def nc_Write_def)
qed

text \<open>
  C16. The two sides of the authentication fit together: what \<open>dialWithAuthentication\<close> writes with a credential,
  \<open>handleAuthentication\<close> of a server that has this credential accepts, and it writes what the other side expects. Without
  a credential the same holds for a server that has none.
\<close>

theorem authentication_exchange:
  fixes c :: "'a conn_scheme" and s :: "'b conn_scheme"
  assumes "cr_User cr \<noteq> []" "cr_Password cr \<noteq> []" "length (cr_User cr) < 256" "length (cr_Password cr) < 256"
    and "cr \<in> set (IngressCredentials auth)" "IngressCredentials auth' = []"
    and "cn_writeErr c = None" "cn_writeErr s = None" "cn_out c = []" "cn_out s = []"
  shows "(let (c', r) = dialWithAuthentication (Some cr) (c\<lparr>rd_in := concat [[5, 2], [1, 0]] @ x\<rparr>);
            (s', r') = handleAuthentication auth (s\<lparr>rd_in := concat (cn_out c') @ y\<rparr>)
        in r = Inr () \<and> r' = Inr () \<and> rd_in c' = x \<and> rd_in s' = y \<and> cn_out s' = [[5, 2], [1, 0]])
     \<and> (let (c', r) = dialWithAuthentication None (c\<lparr>rd_in := concat [[5, 0]] @ x\<rparr>);
            (s', r') = handleAuthentication auth' (s\<lparr>rd_in := concat (cn_out c') @ y\<rparr>)
        in r = Inr () \<and> r' = Inr () \<and> rd_in c' = x \<and> rd_in s' = y \<and> cn_out s' = [[5, 0]])"
proof -
  let ?c = "c\<lparr>rd_in := x, cn_out := [[5, 1, 2], credential_bytes cr]\<rparr>"
  have d: "dialWithAuthentication (Some cr) (c\<lparr>rd_in := concat [[5, 2], [1, 0]] @ x\<rparr>) = (?c, Inr ())"
    using assms(1,2,7,9) by (simp add: dialWithAuthentication_def select_method_def nc_Write_def io_ReadFull_def socks5_consts)
  have n: "unat (of_nat (length (cr_User cr)) :: u8) = length (cr_User cr)"
      "unat (of_nat (length (cr_Password cr)) :: u8) = length (cr_Password cr)"
    using assms(3,4) by (simp_all add: unat_of_nat)
  let ?b = "[of_nat (length (cr_Password cr))] @ string_bytes (cr_Password cr) @ y"
  have k: "counted ([of_nat (length (cr_User cr))] @ string_bytes (cr_User cr) @ ?b) = Some (string_bytes (cr_User cr), ?b)"
      "counted ?b = Some (string_bytes (cr_Password cr), y)"
    using n by (simp_all add: counted_def)
  have r: "rd_in c = [of_nat (length (cr_User cr))] @ string_bytes (cr_User cr) @ ?b
        \<Longrightarrow> read_counted ''user'' c = (c\<lparr>rd_in := ?b\<rparr>, Inr (string_bytes (cr_User cr)))"
      "rd_in c = ?b \<Longrightarrow> read_counted ''password'' c = (c\<lparr>rd_in := y\<rparr>, Inr (string_bytes (cr_Password cr)))"
    for c :: "'b conn_scheme" using k read_counted_eq(2) by metis+
  let ?h = "handleAuthentication auth (s\<lparr>rd_in := concat (cn_out ?c) @ y\<rparr>)"
  have h: "snd ?h = Inr () \<and> rd_in (fst ?h) = y \<and> cn_out (fst ?h) = [[5, 2], [1, 0]]"
    using assms(5,8,10)
    by (auto simp: handleAuthentication_def choose_method_def user_pass_auth_def io_ReadFull_def nc_Write_def socks5_consts Let_def
        credential_bytes_def list_ex_iff r)
  show ?thesis using d h assms(6-10)
    by (simp add: dialWithAuthentication_def select_method_def handleAuthentication_def choose_method_def nc_Write_def io_ReadFull_def
        socks5_consts case_prod_beta Let_def)
qed

section \<open>Witnesses\<close>

definition some_credential :: Credential where
  "some_credential = \<lparr>cr_User = ''user'', cr_Password = ''secret''\<rparr>"

definition some_auth :: "Credential list \<Rightarrow> Auth" where
  "some_auth crs = \<lparr>ClientSideAuthentication = False, IngressCredentials = crs, EgressCredential = None\<rparr>"

definition some_conn :: "bytes \<Rightarrow> conn" where
  "some_conn b = \<lparr>rd_in = b, rd_end = Blocked, cn_out = [], cn_writeErr = None, cn_closed = False\<rparr>"

theorem authentication_decision_witness:
  "snd (handleAuthentication (some_auth [some_credential]) (some_conn [5, 2, 0, 2])) = Inr ()
   \<and> snd (handleAuthentication (some_auth [some_credential]) (some_conn [5, 1, 0])) \<noteq> Inr ()
   \<and> snd (handleAuthentication (some_auth [some_credential]) (some_conn ([5, 1, 2] @ credential_bytes some_credential))) = Inr ()"
proof -
  let ?a = "some_auth [some_credential]"
  have k: "credential_of (credential_bytes some_credential) = Some (cr_User some_credential, cr_Password some_credential)"
    by (simp add: credential_of_def credential_bytes_def counted_def some_credential_def socks5_consts)
  have i: "IngressCredentials ?a = [some_credential]" by (simp add: some_auth_def)
  have c: "cn_writeErr (some_conn b) = None" "rd_in (some_conn b) = b" for b by (simp_all add: some_conn_def)
  have "snd (handleAuthentication ?a (some_conn [5, 2, 0, 2])) = Inr ()"
    using authentication_decision [of "some_conn [5, 2, 0, 2]" 2 "[0, 2]" "[]" ?a] by (simp add: c socks5_consts)
  moreover have "snd (handleAuthentication ?a (some_conn [5, 1, 0])) \<noteq> Inr ()"
    using authentication_decision [of "some_conn [5, 1, 0]" 1 "[0]" "[]" ?a] i by (simp add: c socks5_consts)
  moreover have "snd (handleAuthentication ?a (some_conn ([5, 1, 2] @ credential_bytes some_credential))) = Inr ()"
    using authentication_decision [of "some_conn ([5, 1, 2] @ credential_bytes some_credential)" 1 "[2]" "credential_bytes some_credential" ?a] i k
    by (simp add: c socks5_consts)
  ultimately show ?thesis by simp
qed

theorem authentication_exchange_witness:
  "let (c', r) = dialWithAuthentication (Some some_credential) (some_conn ([5, 2, 1, 0] @ [7]));
       (s', r') = handleAuthentication (some_auth [some_credential]) (some_conn (concat (cn_out c') @ [8]))
   in r = Inr () \<and> r' = Inr () \<and> rd_in c' = [7] \<and> rd_in s' = [8] \<and> cn_out s' = [[5, 2], [1, 0]]"
  using authentication_exchange [of some_credential "some_auth [some_credential]" "some_auth []" "some_conn []" "some_conn []" "[7]" "[8]"]
  by (simp add: some_credential_def some_auth_def some_conn_def)

end
