(* ===== verification/Egress.thy ===== *)
theory Egress
  imports SocksAuth Dns
begin

text \<open>
  The egress controller of a proxy server (\<open>src/pkg/socks5/egress.go\<close>, \<open>src/pkg/egress/controller.go\<close>): which
  requests it rejects, serves itself or forwards to another proxy. Of the configuration messages, the fields
  that the controller reads. The index that \<open>mrand.Intn\<close> draws is an argument.
\<close>

datatype EgressAction = PROXY | DIRECT | REJECT

datatype ProxyProtocol = UNKNOWN_PROXY_PROTOCOL | SOCKS5_PROXY_PROTOCOL

record EgressProxy =
  ep_Name :: string
  ep_Host :: string
  ep_Port :: int
  ep_Auth :: "Credential option"

record EgressRule =
  er_IpRanges :: "string list"
  er_DomainNames :: "string list"
  er_Action :: EgressAction
  er_ProxyNames :: "string list"

record egress_user =
  us_AllowPrivateIP :: bool
  us_AllowLoopbackIP :: bool

record egress_config =
  ec_Users :: "string \<rightharpoonup> egress_user"
  ec_Rules :: "EgressRule list"
  ec_Proxies :: "EgressProxy list"
  ec_AllowLoopbackDestination :: bool

record egress_Input =
  in_Protocol :: ProxyProtocol
  in_Data :: bytes
  in_Env :: "string \<rightharpoonup> string"

record egress_Action =
  ac_Action :: EgressAction
  ac_Proxy :: "EgressProxy option"

definition direct :: egress_Action where
  "direct = \<lparr>ac_Action = DIRECT, ac_Proxy = None\<rparr>"

definition AlwaysDirect_FindAction :: "egress_Input \<Rightarrow> egress_Action" where
  "AlwaysDirect_FindAction inp = direct"

definition wellKnownIPv4LocalDomainNames :: "string list" where
  "wellKnownIPv4LocalDomainNames = [''localhost'', ''localhost4'', ''localhost.localdomain'', ''localhost4.localdomain4'']"

definition wellKnownIPv6LocalDomainNames :: "string list" where
  "wellKnownIPv6LocalDomainNames = [''localhost6'', ''ip6-localhost'', ''ip6-loopback'', ''localhost6.localdomain6'']"

section \<open>The destination of a request\<close>

text \<open>
  \<open>b[lo:hi]\<close> and \<open>b[i]\<close>, with the panic out of range. The destination is read from the data of the request: an address, a domain name
  or, for an unknown type, nothing.
\<close>

definition go_slice :: "nat \<Rightarrow> nat \<Rightarrow> bytes \<Rightarrow> bytes result" where
  "go_slice lo hi b = (if length b < hi then Inl (Panic ''slice bounds out of range'') else Inr (take (hi - lo) (drop lo b)))"

definition go_index :: "nat \<Rightarrow> bytes \<Rightarrow> u8 result" where
  "go_index i b = (if i < length b then Inr (b ! i) else Inl (Panic ''index out of range''))"

datatype destination = To_IP IP | To_Domain string | To_Unknown

definition data_destination :: "bytes \<Rightarrow> destination result" where
  "data_destination data =
     rbind (go_index 3 data) (\<lambda>addrType.
     if addrType = Socks5IPv4Address then rbind (go_slice 4 8 data) (\<lambda>ip. Inr (To_IP ip))
     else if addrType = Socks5IPv6Address then rbind (go_slice 4 20 data) (\<lambda>ip. Inr (To_IP ip))
     else if addrType = Socks5FQDNAddress
     then rbind (go_index 4 data) (\<lambda>n. rbind (go_slice 5 (5 + unat n) data) (\<lambda>d. Inr (To_Domain (bytes_string d))))
     else Inr To_Unknown)"

section \<open>Private and loopback addresses\<close>

text \<open>The check of an address against the permissions of the user.\<close>

definition check_ip :: "egress_config \<Rightarrow> (string \<rightharpoonup> string) \<Rightarrow> IP \<Rightarrow> EgressAction" where
  "check_ip cfg inEnv ip =
     (if \<not> IsPrivate ip \<and> \<not> IsLoopback ip then DIRECT
      else if IsLoopback ip \<and> ec_AllowLoopbackDestination cfg then DIRECT
      else (case inEnv ''user'' of
              None \<Rightarrow> REJECT
            | Some userName \<Rightarrow>
                if userName = '''' then REJECT
                else (case ec_Users cfg userName of
                        None \<Rightarrow> REJECT
                      | Some user \<Rightarrow>
                          if IsPrivate ip \<and> us_AllowPrivateIP user then DIRECT
                          else if IsLoopback ip \<and> us_AllowLoopbackIP user then DIRECT
                          else REJECT)))"

definition rejectPrivateAndLoopbackIPAction :: "egress_config \<Rightarrow> egress_Input \<Rightarrow> egress_Action result" where
  "rejectPrivateAndLoopbackIPAction cfg inp =
     rbind (data_destination (in_Data inp)) (\<lambda>d.
     let check = (\<lambda>ip. Inr \<lparr>ac_Action = check_ip cfg (in_Env inp) ip, ac_Proxy = None\<rparr>)
     in (case d of
           To_IP ip \<Rightarrow> check ip
         | To_Domain domainName \<Rightarrow>
             if domainName \<in> set wellKnownIPv4LocalDomainNames then check (ParseIP ''127.0.0.1'')
             else if domainName \<in> set wellKnownIPv6LocalDomainNames then check (ParseIP ''::1'')
             else Inr direct
         | To_Unknown \<Rightarrow> check []))"

section \<open>Rules\<close>

definition HasSuffix :: "string \<Rightarrow> string \<Rightarrow> bool" where
  "HasSuffix s x \<longleftrightarrow> length x \<le> length s \<and> drop (length s - length x) s = x"

definition matchEgressRule :: "destination \<Rightarrow> EgressRule \<Rightarrow> bool" where
  "matchEgressRule d rule =
     (case d of
        To_IP addr \<Rightarrow>
          list_ex (\<lambda>ipRange. ipRange = ''*''
             \<or> (case ParseCIDR ipRange of None \<Rightarrow> False | Some cidr \<Rightarrow> Contains cidr addr)) (er_IpRanges rule)
      | To_Domain domain \<Rightarrow>
          domain \<noteq> '''' \<and> list_ex (\<lambda>x. x = ''*'' \<or> domain = x \<or> HasSuffix domain (''.'' @ x)) (er_DomainNames rule)
      | To_Unknown \<Rightarrow> False)"

definition rule_action :: "egress_config \<Rightarrow> (nat \<Rightarrow> nat) \<Rightarrow> EgressRule \<Rightarrow> egress_Action" where
  "rule_action cfg intn rule =
     (if er_Action rule = PROXY
      then
        let names = er_ProxyNames rule;
            selectedProxyName = (if names \<noteq> [] then names ! intn (length names) else '''')
        in \<lparr>ac_Action = PROXY, ac_Proxy = find (\<lambda>proxy. ep_Name proxy = selectedProxyName) (ec_Proxies cfg)\<rparr>
      else \<lparr>ac_Action = er_Action rule, ac_Proxy = None\<rparr>)"

definition forwardToProxyAction :: "egress_config \<Rightarrow> (nat \<Rightarrow> nat) \<Rightarrow> egress_Input \<Rightarrow> egress_Action result" where
  "forwardToProxyAction cfg intn inp =
     rbind (data_destination (in_Data inp)) (\<lambda>d.
     case d of
       To_Unknown \<Rightarrow> Inr direct
     | _ \<Rightarrow> Inr (case find (matchEgressRule d) (ec_Rules cfg) of
                    None \<Rightarrow> direct
                  | Some rule \<Rightarrow> rule_action cfg intn rule))"

definition FindAction :: "egress_config \<Rightarrow> (nat \<Rightarrow> nat) \<Rightarrow> egress_Input \<Rightarrow> egress_Action result" where
  "FindAction cfg intn inp =
     (if in_Protocol inp \<noteq> SOCKS5_PROXY_PROTOCOL then Inr direct
      else if length (in_Data inp) < 4 then Inr direct
      else if in_Data inp ! 0 \<noteq> Socks5Version then Inr direct
      else if in_Data inp ! 1 = Socks5ConnectCmd \<or> in_Data inp ! 1 = Socks5UDPAssociateCmd
      then
        rbind (rejectPrivateAndLoopbackIPAction cfg inp) (\<lambda>action.
        if ac_Action action = REJECT then Inr action else forwardToProxyAction cfg intn inp)
      else Inr direct)"

end
