(* ===== verification/Tunnel.thy ===== *)
theory Tunnel
  imports Socks Dns Channel
begin

text \<open>
  Packets over a stream and the header of a relayed datagram (\<open>src/apis/common/packet_over_stream.go\<close>,
  \<open>src/apis/common/udp_associate_wrapper.go\<close>) and the loops that relay datagrams (\<open>src/pkg/socks5/udp.go\<close>).
\<close>

section \<open>Packets over a stream\<close>

text \<open>
  \<open>Read\<close> fills a prefix of the caller's buffer and returns how much. A read that fails has filled
  the buffer as far as it got.
\<close>

definition fill :: "bytes \<Rightarrow> bytes \<Rightarrow> bytes" where
  "fill b p = b @ drop (length b) p"

definition tunnel_Read :: "bytes \<Rightarrow> 'z reader_scheme \<Rightarrow> ('z reader_scheme \<times> bytes) \<times> nat result" where
  "tunnel_Read p c =
     (case io_ReadFull 1 c of
        (c, Inl e) \<Rightarrow> ((c, p), Inl e)
      | (c, Inr delim) \<Rightarrow>
          if delim ! 0 \<noteq> 0 then ((c, p), Inl (Errorf ''packet prefix is not 0x00''))
          else (case io_ReadFull 2 c of
             (c, Inl e) \<Rightarrow> ((c, p), Inl e)
           | (c, Inr lengthBytes) \<Rightarrow>
               let len = unat (get_uint16 (lengthBytes ! 0) (lengthBytes ! 1))
               in if len > length p then ((c, p), Inl ErrShortBuffer)
                  else (case io_ReadFull len c of
                     (c', Inl e) \<Rightarrow> ((c', fill (rd_in c) p), Inl e)
                   | (c', Inr b) \<Rightarrow>
                       (case io_ReadFull 1 c' of
                          (c', Inl e) \<Rightarrow> ((c', fill b p), Inl e)
                        | (c', Inr delim) \<Rightarrow>
                            if delim ! 0 \<noteq> 0xff then ((c', fill b p), Inl (Errorf ''packet suffix is not 0xff''))
                            else ((c', fill b p), Inr len)))))"

definition tunnel_frame :: "bytes \<Rightarrow> bytes" where
  "tunnel_frame p = 0 # put_uint16 (of_nat (length p)) @ p @ [0xff]"

definition tunnel_Write :: "bytes \<Rightarrow> 'z conn_scheme \<Rightarrow> 'z conn_scheme \<times> nat result" where
  "tunnel_Write p c =
     (if length p > 65535 then (c, Inl (Errorf ''packet length is larger than maximum length 65535''))
      else sbind (nc_Write (tunnel_frame p) c) (\<lambda>c _. (c, Inr (length p))))"

section \<open>Headers\<close>

text \<open>Two addresses have the same textual form if these parts agree.\<close>

definition udp_key :: "UDPAddr \<Rightarrow> bytes \<times> int \<times> string" where
  "udp_key a = ((case To4 (ua_IP a) of Some ip \<Rightarrow> ip | None \<Rightarrow> ua_IP a), ua_Port a, ua_Zone a)"

definition udpAddrToHeader :: "UDPAddr \<Rightarrow> bytes" where
  "udpAddrToHeader addr =
     [0, 0, 0] @ (case To4 (ua_IP addr) of
                    Some ip \<Rightarrow> 1 # ip
                  | None \<Rightarrow> 4 # (case To16 (ua_IP addr) of Some ip \<Rightarrow> ip | None \<Rightarrow> []))
     @ put_uint16 (word_of_int (ua_Port addr))"

text \<open>\<open>WriteTo\<close> of the wrapper: the packet for the connection below and its destination.\<close>

definition zero_NetAddrSpec :: NetAddrSpec where
  "zero_NetAddrSpec = \<lparr>as_FQDN = [], as_IP = [], as_Port = 0, na_Net = []\<rparr>"

definition wrapper_WriteTo ::
    "(bytes \<Rightarrow> NetAddrSpec \<Rightarrow> 'c \<Rightarrow> 'c \<times> nat result) \<Rightarrow> bytes \<Rightarrow> net_addr \<Rightarrow> 'c \<Rightarrow> 'c \<times> nat result" where
  "wrapper_WriteTo writeTo p addr c =
     (case NetAddrSpec_From addr zero_NetAddrSpec of
        (_, Inl e) \<Rightarrow> (c, Inl e)
      | (destination, Inr _) \<Rightarrow>
          let b = fst (AddrSpec_WriteToSocks5 buffer_Write (AddrSpec.truncate destination) [0, 0, 0]) @ p
          in sbind (writeTo b destination c) (\<lambda>c _. (c, Inr (length p))))"

text \<open>\<open>ReadFrom\<close>: what the caller gets of a packet, with a buffer of the given size.\<close>

definition wrapper_strip :: "nat \<Rightarrow> bytes \<Rightarrow> (bytes \<times> UDPAddr) result" where
  "wrapper_strip len b =
     (if length b \<le> 6 then Inl (Errorf ''packet size is too short to hold UDP associate header'')
      else if b ! 0 \<noteq> 0 \<or> b ! 1 \<noteq> 0 then Inl (Errorf ''invalid UDP header'')
      else if b ! 2 \<noteq> 0 then Inl (Errorf ''UDP fragment is not supported'')
      else (case AddrSpec_ReadFromSocks5 (bytes_reader (drop 3 b)) zero_AddrSpec of
              (_, Inl e) \<Rightarrow> Inl e
            | ((r, destination), Inr _) \<Rightarrow>
                if as_FQDN destination \<noteq> []
                then Inl (Errorf ''peer used FQDN in UDP associate header, which is unsupported'')
                else if rd_in r = [] then Inl EOF
                else Inr (take len (rd_in r),
                          \<lparr>ua_IP = as_IP destination, ua_Port = as_Port destination, ua_Zone = []\<rparr>)))"

definition wrapper_ReadFrom ::
    "(bytes \<Rightarrow> 'c \<Rightarrow> ('c \<times> bytes) \<times> nat result) \<Rightarrow> nat \<Rightarrow> 'c \<Rightarrow> 'c \<times> (bytes \<times> UDPAddr) result" where
  "wrapper_ReadFrom readFrom len c =
     (case readFrom (replicate (len + 256) 0) c of
        ((c, _), Inl e) \<Rightarrow> (c, Inl e)
      | ((c, b), Inr n) \<Rightarrow> (c, wrapper_strip len (take n b)))"

section \<open>Datagrams of a proxy client\<close>

definition resolveUDPAssociateDatagramAddr ::
    "resolver \<Rightarrow> AddrSpec \<Rightarrow> UDPAddr result" where
  "resolveUDPAssociateDatagramAddr resolver addr =
     (if To4 (as_IP addr) \<noteq> None \<or> To16 (as_IP addr) \<noteq> None
      then Inr \<lparr>ua_IP = as_IP addr, ua_Port = as_Port addr, ua_Zone = []\<rparr>
      else if as_FQDN addr \<noteq> [] then ResolveUDPAddr resolver ''udp'' (AddrSpec_String addr)
      else Inl ErrUnrecognizedAddrType)"

definition parseUDPAssociateDatagram ::
    "resolver \<Rightarrow> bytes \<Rightarrow> (UDPAddr \<times> bytes) result" where
  "parseUDPAssociateDatagram resolver pkt =
     (if length pkt \<le> 6 then Inl ErrNoEnoughData
      else if pkt ! 0 \<noteq> 0 \<or> pkt ! 1 \<noteq> 0 then Inl ErrInvalidArgument
      else if pkt ! 2 \<noteq> 0 then Inl ErrUnsupported
      else (case AddrSpec_ReadFromSocks5 (bytes_reader (drop 3 pkt)) zero_AddrSpec of
              (_, Inl e) \<Rightarrow> Inl e
            | ((r, dst), Inr _) \<Rightarrow>
                (case resolveUDPAssociateDatagramAddr resolver dst of
                   Inl e \<Rightarrow> Inl e
                 | Inr dstAddr \<Rightarrow> Inr (dstAddr, drop (length pkt - length (rd_in r)) pkt))))"

definition sameUDPAddr :: "UDPAddr option \<Rightarrow> UDPAddr option \<Rightarrow> bool" where
  "sameUDPAddr x y =
     (case (x, y) of
        (Some a, Some b) \<Rightarrow> ua_Port a = ua_Port b \<and> ua_Zone a = ua_Zone b \<and> ip_Equal (ua_IP a) (ua_IP b)
      | (None, None) \<Rightarrow> True
      | _ \<Rightarrow> False)"

text \<open>
  The loop over the datagrams of a socket: the address of the client is learned from its first valid
  datagram, and only endpoints that it has addressed may answer. \<open>writable\<close> says whether a write succeeds.
\<close>

record datagram_relay =
  dr_clientAddr :: "UDPAddr option"
  dr_targetAddrs :: "(bytes \<times> int \<times> string) list"
  dr_out :: "(bytes \<times> UDPAddr) list"
  dr_end :: go_error

definition datagram_step ::
    "resolver \<Rightarrow> (bytes \<Rightarrow> UDPAddr \<Rightarrow> bool) \<Rightarrow> bytes \<times> UDPAddr \<Rightarrow> datagram_relay \<Rightarrow> datagram_relay" where
  "datagram_step resolver writable d s =
     (case d of (pkt, addr) \<Rightarrow>
        if dr_clientAddr s = None \<or> sameUDPAddr (Some addr) (dr_clientAddr s)
        then (case parseUDPAssociateDatagram resolver pkt of
                Inl e \<Rightarrow> s
              | Inr (dstAddr, payload) \<Rightarrow>
                  let s = (if dr_clientAddr s = None then s\<lparr>dr_clientAddr := Some addr\<rparr> else s)
                  in if \<not> writable payload dstAddr then s
                     else s\<lparr>dr_out := dr_out s @ [(payload, dstAddr)],
                            dr_targetAddrs := udp_key dstAddr # dr_targetAddrs s\<rparr>)
        else if udp_key addr \<notin> set (dr_targetAddrs s) then s
        else (case dr_clientAddr s of
                None \<Rightarrow> s
              | Some clientAddr \<Rightarrow>
                  let b = udpAddrToHeader addr @ pkt
                  in if \<not> writable b clientAddr then s else s\<lparr>dr_out := dr_out s @ [(b, clientAddr)]\<rparr>))"

text \<open>The loop ends when the socket is closed.\<close>

fun runUDPAssociateDatagramLoop ::
    "resolver \<Rightarrow> (bytes \<Rightarrow> UDPAddr \<Rightarrow> bool) \<Rightarrow> (bytes \<times> UDPAddr) list \<Rightarrow> datagram_relay
      \<Rightarrow> datagram_relay \<times> unit result" where
  "runUDPAssociateDatagramLoop resolver writable [] s =
     (s, if dr_end s \<in> {EOF, ErrClosedPipe} then Inr () else Inl (Errorf ''UDP datagram relay ReadFromUDP() failed''))"
| "runUDPAssociateDatagramLoop resolver writable (d # ds) s =
     runUDPAssociateDatagramLoop resolver writable ds (datagram_step resolver writable d s)"

section \<open>Lemmas\<close>

lemma tunnel_Read_ok:
  assumes "rd_in c = tunnel_frame p @ rest" "length p \<le> length buf" "length p \<le> 65535"
  shows "tunnel_Read buf c = ((c\<lparr>rd_in := rest\<rparr>, fill p buf), Inr (length p))"
proof -
  have n: "unat (of_nat (length p) :: u16) = length p" using assms(3) by (simp add: unat_of_nat)
  have "rd_in c = 0 # put_uint16 (of_nat (length p)) @ p @ 0xff # rest" using assms(1) by (simp add: tunnel_frame_def)
  then show ?thesis using assms(2) n
    by (simp add: tunnel_Read_def put_uint16_def io_ReadFull_append [where xs = "[ucast (drop_bit 8 (of_nat (length p) :: u16)), ucast (of_nat (length p) :: u16)]"]
        io_ReadFull_append [where xs = p] Let_def)
qed

section \<open>A channel for datagrams\<close>

text \<open>
  The wrapper over a tunnel is a channel: a datagram with its address goes in on one side and comes out on the
  other. \<open>len\<close> is the size of the reader's buffer.
\<close>

definition tunnel_WriteTo :: "bytes \<Rightarrow> NetAddrSpec \<Rightarrow> conn \<Rightarrow> conn \<times> nat result" where
  "tunnel_WriteTo b addr c = tunnel_Write b c"

definition udp_send :: "conn \<Rightarrow> unit \<times> net_addr \<times> bytes \<Rightarrow> conn \<times> bytes result" where
  "udp_send c x =
     (case x of (_, addr, p) \<Rightarrow>
        (case wrapper_WriteTo tunnel_WriteTo p addr c of
           (c', Inl e) \<Rightarrow> (c', Inl e)
         | (c', Inr _) \<Rightarrow> (c', Inr (concat (drop (length (cn_out c)) (cn_out c'))))))"

definition udp_recv :: "nat \<Rightarrow> conn \<Rightarrow> bytes \<Rightarrow> conn \<times> (bytes \<times> UDPAddr) result" where
  "udp_recv len c b = wrapper_ReadFrom tunnel_Read len (c\<lparr>rd_in := rd_in c @ b\<rparr>)"

definition udp_sync :: "conn \<Rightarrow> conn \<Rightarrow> bool" where
  "udp_sync s r \<longleftrightarrow> cn_writeErr s = None \<and> rd_in r = []"

definition udp_dest :: "net_addr \<Rightarrow> AddrSpec" where
  "udp_dest addr = AddrSpec.truncate (fst (NetAddrSpec_From addr zero_NetAddrSpec))"

text \<open>
  Datagrams to an IP address that fit into a frame and into the reader's buffer; those with a payload
  arrive.
\<close>

definition udp_fits :: "nat \<Rightarrow> net_addr \<times> bytes \<Rightarrow> bool" where
  "udp_fits len x \<longleftrightarrow>
     (case x of (addr, p) \<Rightarrow>
        snd (NetAddrSpec_From addr zero_NetAddrSpec) = Inr () \<and> addr_ok (udp_dest addr) \<and> as_IP (udp_dest addr) \<noteq> []
      \<and> length p \<le> len \<and> length p \<le> 65513)"

definition udp_sendable :: "nat \<Rightarrow> net_addr \<times> bytes \<Rightarrow> bool" where
  "udp_sendable len x \<longleftrightarrow> udp_fits len x \<and> snd x \<noteq> []"

definition udp_view :: "net_addr \<times> bytes \<Rightarrow> bytes \<times> UDPAddr" where
  "udp_view x =
     (case x of (addr, p) \<Rightarrow>
        (p, \<lparr>ua_IP = as_IP (wire_addr (udp_dest addr)), ua_Port = as_Port (udp_dest addr), ua_Zone = []\<rparr>))"

lemma AddrSpec_bytes_length:
  "AddrSpec_bytes a = Inr b \<Longrightarrow> as_IP a \<noteq> [] \<Longrightarrow> addr_ok a \<Longrightarrow> 7 \<le> length b \<and> length b \<le> 19"
  by (auto simp: AddrSpec_bytes_def addr_ok_def Let_def To4_def To16_def split: if_splits)

lemma udp_carried:
  assumes "udp_sync s r" "udp_fits len (addr, p)"
  shows "\<exists>s' r' c. udp_send s ((), addr, p) = (s', Inr c)
     \<and> udp_recv len r c = (r', if p = [] then Inl EOF else Inr (udp_view (addr, p))) \<and> udp_sync s' r'"
proof -
  let ?a = "udp_dest addr"
  have a: "addr_ok ?a" "as_IP ?a \<noteq> []" "length p \<le> len" "length p \<le> 65513"
    using assms(2) by (simp_all add: udp_fits_def)
  obtain nas where nas: "NetAddrSpec_From addr zero_NetAddrSpec = (nas, Inr ())" "AddrSpec.truncate nas = ?a"
    using assms(2) by (cases "NetAddrSpec_From addr zero_NetAddrSpec") (simp add: udp_fits_def udp_dest_def)
  obtain b where b: "AddrSpec_bytes ?a = Inr b"
    "\<forall>r :: reader. \<forall>rest. rd_in r = b @ rest \<longrightarrow> AddrSpec_ReadFromSocks5 r zero_AddrSpec = ((r\<lparr>rd_in := rest\<rparr>, wire_addr ?a), Inr ())"
    by (rule AddrSpec_roundtrip [OF a(1)])
  have l: "7 \<le> length b" "length b \<le> 19" using AddrSpec_bytes_length [OF b(1) a(2,1)] by simp_all
  let ?p = "[0, 0, 0] @ b @ p" let ?r = "if p = [] then Inl EOF else Inr (udp_view (addr, p))"
  have send: "udp_send s ((), addr, p) = (s\<lparr>cn_out := cn_out s @ [tunnel_frame ?p]\<rparr>, Inr (tunnel_frame ?p))"
    using assms(1) nas b(1) l a(4)
    by (simp add: udp_send_def wrapper_WriteTo_def AddrSpec_WriteToSocks5_def buffer_Write_def tunnel_WriteTo_def tunnel_Write_def udp_sync_def)
  have "tunnel_Read (replicate (len + 256) 0) (r\<lparr>rd_in := rd_in r @ tunnel_frame ?p\<rparr>)
      = (((r\<lparr>rd_in := rd_in r @ tunnel_frame ?p\<rparr>)\<lparr>rd_in := []\<rparr>, fill ?p (replicate (len + 256) 0)), Inr (length ?p))"
    by (rule tunnel_Read_ok) (use assms(1) l a(3,4) in \<open>simp_all add: udp_sync_def\<close>)
  moreover have "wrapper_strip len ?p = ?r"
    using b(2) l(1) a(3) by (simp add: wrapper_strip_def bytes_reader_def wire_addr_def a(2) udp_view_def)
  ultimately have "udp_recv len r (tunnel_frame ?p) = (r\<lparr>rd_in := []\<rparr>, ?r)"
    by (simp add: udp_recv_def wrapper_ReadFrom_def fill_def)
  with send assms(1) show ?thesis by (simp add: udp_sync_def)
qed

interpretation udp_tunnel: channel udp_send "udp_recv len" udp_sync "\<lambda>x. udp_sendable len (snd x)" udp_view for len
proof
  fix s r :: conn and x :: "unit \<times> net_addr \<times> bytes"
  assume "udp_sync s r" "udp_sendable len (snd x)"
  then show "\<exists>s' r' c. udp_send s x = (s', Inr c) \<and> udp_recv len r c = (r', Inr (udp_view (snd x))) \<and> udp_sync s' r'"
    using udp_carried [of s r len "fst (snd x)" "snd (snd x)"] by (cases x) (simp add: unit_eq udp_sendable_def)
qed

section \<open>Properties\<close>

text \<open>
  C14. Datagrams keep their boundaries, their addresses and their order inside a stream: whatever sequence of
  datagrams with a payload of at least one byte is written to IP addresses through the wrapper and the tunnel, the other
  side reads the same sequence of payloads and addresses, if its buffer is large enough for each of them. A datagram
  without a payload, which UDP allows, does not arrive: the reader gets the error that marks the end of a stream.
\<close>

theorem udp_datagrams_roundtrip:
  assumes "cn_writeErr s = None" "rd_in r = []" "list_all (\<lambda>d. udp_fits len d \<and> snd d \<noteq> []) ds"
  shows "\<exists>s' r' cs. run_all udp_send s (map (\<lambda>d. ((), d)) ds) = (s', Inr cs)
     \<and> run_all (udp_recv len) r cs = (r', Inr (map udp_view ds))
     \<and> (\<forall>addr. udp_fits len (addr, []) \<longrightarrow>
          (\<exists>s'' r'' c. udp_send s' ((), addr, []) = (s'', Inr c) \<and> udp_recv len r' c = (r'', Inl EOF)))"
proof -
  have "udp_sync s r" "list_all (\<lambda>x. udp_sendable len (snd x)) (map (\<lambda>d. ((), d)) ds)"
    using assms by (simp_all add: udp_sync_def list_all_iff udp_sendable_def)
  from udp_tunnel.messages [OF this] obtain s' r' cs where "run_all udp_send s (map (\<lambda>d. ((), d)) ds) = (s', Inr cs)"
      "run_all (udp_recv len) r cs = (r', Inr (map udp_view ds))" "udp_sync s' r'"
    by (auto simp: comp_def)
  moreover have "\<exists>s'' r'' c. udp_send s' ((), addr, []) = (s'', Inr c) \<and> udp_recv len r' c = (r'', Inl EOF)"
    if "udp_fits len (addr, [])" for addr
    using udp_carried [OF \<open>udp_sync s' r'\<close> that] by auto
  ultimately show ?thesis by blast
qed

section \<open>Witnesses\<close>

definition some_tunnel :: "bytes \<Rightarrow> conn" where
  "some_tunnel b = \<lparr>rd_in = b, rd_end = EOF, cn_out = [], cn_writeErr = None, cn_closed = False\<rparr>"

definition some_spec :: "IP \<Rightarrow> net_addr" where
  "some_spec ip = Spec_addr \<lparr>as_FQDN = [], as_IP = ip, as_Port = 53, na_Net = ''udp''\<rparr>"

definition some_ip6 :: IP where
  "some_ip6 = [32, 1, 13, 184, 0, 0, 0, 0, 0, 0, 0, 0, 0, 0, 0, 1]"

theorem udp_datagrams_roundtrip_witness:
  "\<exists>s' r' cs. run_all udp_send (some_tunnel []) [((), some_spec [192, 0, 2, 1], [1, 2]), ((), some_spec (some_ip6), [4])] = (s', Inr cs)
     \<and> run_all (udp_recv 1500) (some_tunnel []) cs
       = (r', Inr [([1, 2], \<lparr>ua_IP = [192, 0, 2, 1], ua_Port = 53, ua_Zone = []\<rparr>), ([4], \<lparr>ua_IP = some_ip6, ua_Port = 53, ua_Zone = []\<rparr>)])
     \<and> (\<exists>s'' r'' c. udp_send s' ((), some_spec [192, 0, 2, 1], []) = (s'', Inr c) \<and> udp_recv 1500 r' c = (r'', Inl EOF))"
proof -
  let ?ds = "[(some_spec [192, 0, 2, 1], [1, 2]), (some_spec (some_ip6), [4])] :: (net_addr \<times> bytes) list"
  have fits: "udp_fits 1500 (some_spec [192, 0, 2, 1], p)" "udp_fits 1500 (some_spec some_ip6, p)" if "length p \<le> 2" for p
    using that by (simp_all add: udp_fits_def some_spec_def NetAddrSpec_From_def udp_dest_def AddrSpec.defs addr_ok_def some_ip6_def)
  then have "list_all (\<lambda>d. udp_fits 1500 d \<and> snd d \<noteq> []) ?ds" by simp
  moreover have "cn_writeErr (some_tunnel []) = None" "rd_in (some_tunnel []) = []" by (simp_all add: some_tunnel_def)
  ultimately obtain s' r' cs where r: "run_all udp_send (some_tunnel []) (map (\<lambda>d. ((), d)) ?ds) = (s', Inr cs)"
      "run_all (udp_recv 1500) (some_tunnel []) cs = (r', Inr (map udp_view ?ds))"
      "\<forall>addr. udp_fits 1500 (addr, []) \<longrightarrow>
        (\<exists>s'' r'' c. udp_send s' ((), addr, []) = (s'', Inr c) \<and> udp_recv 1500 r' c = (r'', Inl EOF))"
    using udp_datagrams_roundtrip [of "some_tunnel []" "some_tunnel []" 1500 ?ds] by blast
  have "map udp_view ?ds
      = [([1, 2], \<lparr>ua_IP = [192, 0, 2, 1], ua_Port = 53, ua_Zone = []\<rparr>), ([4], \<lparr>ua_IP = some_ip6, ua_Port = 53, ua_Zone = []\<rparr>)]"
    by (simp add: udp_view_def udp_dest_def some_spec_def NetAddrSpec_From_def AddrSpec.defs wire_addr_def To4_def v4InV6Prefix_def some_ip6_def)
  moreover have "map (\<lambda>d. ((), d)) ?ds = [((), some_spec [192, 0, 2, 1], [1, 2]), ((), some_spec (some_ip6), [4])]" by simp
  moreover have "udp_fits 1500 (some_spec [192, 0, 2, 1], [])" by (rule fits) simp
  ultimately show ?thesis using r by metis
qed

section \<open>Who may speak to the client\<close>

text \<open>
  What the relay has sent, given the datagrams that have arrived: a payload of the client to the destination that its
  header names, or a datagram of an endpoint that the client has addressed, with that endpoint in its header.
\<close>

definition by_client :: "resolver \<Rightarrow> (bytes \<times> UDPAddr) list \<Rightarrow> UDPAddr option \<Rightarrow> bytes \<times> UDPAddr \<Rightarrow> bool" where
  "by_client resolver ds client x \<longleftrightarrow>
     (\<exists>(pkt, from) \<in> set ds. sameUDPAddr (Some from) client \<and> parseUDPAssociateDatagram resolver pkt = Inr (snd x, fst x))"

definition by_target :: "(bytes \<times> UDPAddr) list \<Rightarrow> (bytes \<times> int \<times> string) list \<Rightarrow> UDPAddr option \<Rightarrow> bytes \<times> UDPAddr \<Rightarrow> bool" where
  "by_target ds targets client x \<longleftrightarrow>
     client = Some (snd x)
     \<and> (\<exists>(pkt, from) \<in> set ds. \<not> sameUDPAddr (Some from) client \<and> udp_key from \<in> set targets \<and> fst x = udpAddrToHeader from @ pkt)"

definition first_valid :: "resolver \<Rightarrow> (bytes \<times> UDPAddr) list \<Rightarrow> UDPAddr option" where
  "first_valid resolver ds = map_option snd (find (\<lambda>d. \<not> isl (parseUDPAssociateDatagram resolver (fst d))) ds)"

definition relay_ok :: "resolver \<Rightarrow> (bytes \<times> UDPAddr) list \<Rightarrow> datagram_relay \<Rightarrow> bool" where
  "relay_ok resolver ds s \<longleftrightarrow>
     dr_clientAddr s = first_valid resolver ds
   \<and> (\<forall>k \<in> set (dr_targetAddrs s). \<exists>x \<in> set (dr_out s). udp_key (snd x) = k \<and> by_client resolver ds (dr_clientAddr s) x)
   \<and> (\<forall>x \<in> set (dr_out s). by_client resolver ds (dr_clientAddr s) x \<or> by_target ds (dr_targetAddrs s) (dr_clientAddr s) x)"

definition new_datagram_relay :: "go_error \<Rightarrow> datagram_relay" where
  "new_datagram_relay e = \<lparr>dr_clientAddr = None, dr_targetAddrs = [], dr_out = [], dr_end = e\<rparr>"

lemma sameUDPAddr_simps [simp]: "sameUDPAddr (Some a) (Some a)" "\<not> sameUDPAddr (Some a) None"
  by (simp_all add: sameUDPAddr_def ip_Equal_def)

lemma find_append: "find P (xs @ ys) = (case find P xs of None \<Rightarrow> find P ys | Some x \<Rightarrow> Some x)"
  by (induction xs) auto

lemma first_valid_append:
  "first_valid r (ds @ [(pkt, a)]) =
     (case first_valid r ds of Some c \<Rightarrow> Some c | None \<Rightarrow> if isl (parseUDPAssociateDatagram r pkt) then None else Some a)"
  by (simp add: first_valid_def find_append split: option.split)

lemma by_client_mono: "by_client r ds c x \<Longrightarrow> by_client r (ds @ ds') c x"
  and by_target_mono: "by_target ds ts c x \<Longrightarrow> set ts \<subseteq> set ts' \<Longrightarrow> by_target (ds @ ds') ts' c x"
  by (auto simp: by_client_def by_target_def)

lemma relay_silent:
  assumes "relay_ok r ds s" "dr_clientAddr s = None"
  shows "dr_out s = []" "dr_targetAddrs s = []"
proof -
  have no: "\<not> by_client r ds (dr_clientAddr s) x" "\<not> by_target ds ts (dr_clientAddr s) x" for x ts
    using assms(2) by (auto simp: by_client_def by_target_def)
  have out: "set (dr_out s) = {}" using assms(1) no unfolding relay_ok_def by (meson equals0I)
  moreover have "set (dr_targetAddrs s) = {}" using assms(1) no unfolding relay_ok_def by (meson equals0I)
  ultimately show "dr_out s = []" "dr_targetAddrs s = []" by simp_all
qed

lemma relay_more:
  assumes "relay_ok r ds s"
  shows "\<forall>k \<in> set (dr_targetAddrs s). \<exists>x \<in> set (dr_out s). udp_key (snd x) = k \<and> by_client r (ds @ ds') (dr_clientAddr s) x"
    "\<forall>x \<in> set (dr_out s). by_client r (ds @ ds') (dr_clientAddr s) x \<or> by_target (ds @ ds') (dr_targetAddrs s) (dr_clientAddr s) x"
  using assms unfolding relay_ok_def by (meson by_client_mono by_target_mono subset_refl)+

lemma relay_ok_more:
  assumes "relay_ok r ds s" "first_valid r (ds @ ds') = dr_clientAddr s"
  shows "relay_ok r (ds @ ds') s"
  unfolding relay_ok_def using relay_more [OF assms(1)] assms(2) by simp

lemma relay_ok_client:
  assumes ok: "relay_ok r ds s" and c: "dr_clientAddr s = None \<or> dr_clientAddr s = c"
    and c': "first_valid r (ds @ [(pkt, a)]) = c" "sameUDPAddr (Some a) c"
    and p: "parseUDPAssociateDatagram r pkt = Inr (dst, b)"
  shows "relay_ok r (ds @ [(pkt, a)]) (s\<lparr>dr_clientAddr := c\<rparr>)"
    "relay_ok r (ds @ [(pkt, a)]) (s\<lparr>dr_clientAddr := c, dr_out := dr_out s @ [(b, dst)], dr_targetAddrs := udp_key dst # dr_targetAddrs s\<rparr>)"
proof -
  have new: "by_client r (ds @ [(pkt, a)]) c (b, dst)" using c'(2) p by (auto simp: by_client_def)
  have old: "\<forall>k \<in> set (dr_targetAddrs s). \<exists>x \<in> set (dr_out s). udp_key (snd x) = k \<and> by_client r (ds @ [(pkt, a)]) c x"
      "\<forall>x \<in> set (dr_out s). by_client r (ds @ [(pkt, a)]) c x \<or> by_target (ds @ [(pkt, a)]) (dr_targetAddrs s) c x"
    using relay_more [OF ok, of "[(pkt, a)]"] c relay_silent [OF ok] by auto
  have mono: "by_target (ds @ [(pkt, a)]) (udp_key dst # dr_targetAddrs s) c x"
    if "by_target (ds @ [(pkt, a)]) (dr_targetAddrs s) c x" for x using that by (auto simp: by_target_def)
  show "relay_ok r (ds @ [(pkt, a)]) (s\<lparr>dr_clientAddr := c\<rparr>)" using old c'(1) by (simp add: relay_ok_def)
  show "relay_ok r (ds @ [(pkt, a)]) (s\<lparr>dr_clientAddr := c, dr_out := dr_out s @ [(b, dst)], dr_targetAddrs := udp_key dst # dr_targetAddrs s\<rparr>)"
    using old new c'(1) mono by (fastforce simp: relay_ok_def)
qed

lemma relay_ok_target:
  assumes "relay_ok r (ds @ [(pkt, a)]) s" "dr_clientAddr s = Some c" "\<not> sameUDPAddr (Some a) (Some c)" "udp_key a \<in> set (dr_targetAddrs s)"
  shows "relay_ok r (ds @ [(pkt, a)]) (s\<lparr>dr_out := dr_out s @ [(udpAddrToHeader a @ pkt, c)]\<rparr>)"
proof -
  have "by_target (ds @ [(pkt, a)]) (dr_targetAddrs s) (Some c) (udpAddrToHeader a @ pkt, c)"
    using assms(3,4) by (auto simp: by_target_def)
  with assms(1,2) show ?thesis by (auto simp: relay_ok_def)
qed

lemma relay_ok_step:
  assumes "relay_ok r ds s"
  shows "relay_ok r (ds @ [d]) (datagram_step r w d s)"
proof -
  obtain pkt a where d: "d = (pkt, a)" by (cases d)
  have cl: "dr_clientAddr s = first_valid r ds" using assms by (simp add: relay_ok_def)
  let ?p = "parseUDPAssociateDatagram r pkt"
  show ?thesis
  proof (cases "dr_clientAddr s = None \<or> sameUDPAddr (Some a) (dr_clientAddr s)")
    case True
    show ?thesis
    proof (cases ?p)
      case (Inl e)
      then show ?thesis using True relay_ok_more [OF assms, of "[d]"] cl d
        by (auto simp: datagram_step_def first_valid_append split: option.splits)
    next
      case (Inr x)
      obtain dst b where x: "x = (dst, b)" by (cases x)
      let ?c = "case dr_clientAddr s of None \<Rightarrow> Some a | Some c \<Rightarrow> Some c"
      have "first_valid r (ds @ [(pkt, a)]) = ?c" using cl Inr by (simp add: first_valid_append split: option.split)
      then have ok: "relay_ok r (ds @ [d]) (s\<lparr>dr_clientAddr := ?c\<rparr>)"
          "relay_ok r (ds @ [d]) (s\<lparr>dr_clientAddr := ?c, dr_out := dr_out s @ [(b, dst)], dr_targetAddrs := udp_key dst # dr_targetAddrs s\<rparr>)"
        using relay_ok_client [OF assms _ _ _ Inr [unfolded x], of ?c a] True d by (auto split: option.splits)
      have "datagram_step r w d s =
          (if w b dst then s\<lparr>dr_clientAddr := ?c, dr_out := dr_out s @ [(b, dst)], dr_targetAddrs := udp_key dst # dr_targetAddrs s\<rparr>
           else s\<lparr>dr_clientAddr := ?c\<rparr>)"
        using True Inr x d by (cases s) (auto simp: datagram_step_def Let_def split: option.split)
      then show ?thesis using ok by simp
    qed
  next
    case False
    then obtain c where c: "dr_clientAddr s = Some c" "\<not> sameUDPAddr (Some a) (Some c)" by auto
    have "relay_ok r (ds @ [d]) s" using c cl d by (intro relay_ok_more [OF assms]) (simp add: first_valid_append)
    then show ?thesis using c d relay_ok_target [of r ds pkt a s c] by (simp add: datagram_step_def Let_def)
  qed
qed

lemma runUDPAssociateDatagramLoop_fold:
  "fst (runUDPAssociateDatagramLoop r w ds s) = fold (datagram_step r w) ds s"
  by (induction ds arbitrary: s) auto

text \<open>
  C15. The datagram relay of a proxy server serves one client and lets no stranger through to it: whatever
  datagrams arrive, the client is the sender of the first one with a valid header; every datagram that leaves is
  either the payload of one of the client's datagrams, to the destination in its header, or goes to the client and is
  the datagram of an endpoint to which a payload of the client was sent, under a header that names this endpoint.
\<close>

theorem datagram_relay_confined:
  "relay_ok resolver ds (fst (runUDPAssociateDatagramLoop resolver writable ds (new_datagram_relay e)))"
proof -
  have "relay_ok resolver ds (fold (datagram_step resolver writable) ds (new_datagram_relay e))"
  proof (induction ds rule: rev_induct)
    case Nil
    show ?case by (simp add: relay_ok_def new_datagram_relay_def first_valid_def)
  next
    case (snoc d ds)
    then show ?case using relay_ok_step by simp
  qed
  then show ?thesis by (simp add: runUDPAssociateDatagramLoop_fold)
qed

end
