(* ===== verification/UDPRelay.thy ===== *)
theory UDPRelay
  imports Tunnel
begin

text \<open>
  The relay of a proxy server between a tunnel and a socket (\<open>RunUDPAssociateLoop\<close> and \<open>RunUDPForwardingLoop\<close> of
  \<open>src/pkg/socks5/udp.go\<close>). Two goroutines share the map from addresses to headers, and the headers that the
  first stores are slices of its own buffer: the model keeps the buffer and lets a header be such a slice.
  A run is a list of events, in the order in which the goroutines take their steps.
\<close>

section \<open>State\<close>

datatype header = Shared nat | Own bytes   \<comment> \<open>a prefix of the buffer, or bytes of its own\<close>

record udp_relay =
  ur_conn :: conn
  ur_buf :: bytes
  ur_pending :: "nat option"   \<comment> \<open>how much of the buffer the first goroutine has read and not yet sent\<close>
  ur_addrMap :: "bytes \<times> int \<times> string \<rightharpoonup> header"
  ur_sent :: "(bytes \<times> UDPAddr) list"
  ur_closed :: bool            \<comment> \<open>the socket is closed\<close>
  ur_upDone :: bool
  ur_downDone :: bool
  ur_udpErr :: "go_error option"

record relay_env =
  re_resolver :: resolver
  re_writable :: "bytes \<Rightarrow> UDPAddr \<Rightarrow> bool"
  re_sameType :: "go_error \<Rightarrow> go_error \<Rightarrow> bool"   \<comment> \<open>the two errors have the same dynamic type\<close>

definition relay_bufSize :: nat where "relay_bufSize = 65536"

definition new_udp_relay :: "conn \<Rightarrow> udp_relay" where
  "new_udp_relay c =
     \<lparr>ur_conn = c, ur_buf = replicate relay_bufSize 0, ur_pending = None, ur_addrMap = Map.empty, ur_sent = [],
      ur_closed = False, ur_upDone = False, ur_downDone = False, ur_udpErr = None\<rparr>"

section \<open>From the client to the network\<close>

text \<open>The first goroutine stores its error unconditionally, and \<open>atomic.Value\<close> panics if the types differ.\<close>

definition up_fail :: "relay_env \<Rightarrow> go_error \<Rightarrow> udp_relay \<Rightarrow> udp_relay \<times> unit result" where
  "up_fail env e s =
     (case ur_udpErr s of
        Some e' \<Rightarrow>
          if re_sameType env e e' then (s\<lparr>ur_udpErr := Some e, ur_upDone := True, ur_closed := True\<rparr>, Inr ())
          else (s, Inl (Panic ''store of inconsistently typed value''))
      | None \<Rightarrow> (s\<lparr>ur_udpErr := Some e, ur_upDone := True, ur_closed := True\<rparr>, Inr ()))"

definition up_read :: "relay_env \<Rightarrow> udp_relay \<Rightarrow> udp_relay \<times> unit result" where
  "up_read env s =
     (if ur_upDone s \<or> ur_pending s \<noteq> None then (s, Inr ())
      else (case tunnel_Read (ur_buf s) (ur_conn s) of
              ((c, buf), Inl e) \<Rightarrow>
                if e = Blocked then (s, Inr ()) else up_fail env e (s\<lparr>ur_conn := c, ur_buf := buf\<rparr>)
            | ((c, buf), Inr n) \<Rightarrow> (s\<lparr>ur_conn := c, ur_buf := buf, ur_pending := Some n\<rparr>, Inr ())))"

text \<open>Sending a part of the buffer, with the prefix of the buffer as the header of the answers.\<close>

definition up_write :: "relay_env \<Rightarrow> UDPAddr \<Rightarrow> nat \<Rightarrow> nat \<Rightarrow> udp_relay \<Rightarrow> udp_relay" where
  "up_write env dstAddr k n s =
     (let s = s\<lparr>ur_addrMap := (ur_addrMap s)(udp_key dstAddr \<mapsto> Shared k)\<rparr>;
          b = take (n - k) (drop k (ur_buf s))
      in if \<not> ur_closed s \<and> re_writable env b dstAddr then s\<lparr>ur_sent := ur_sent s @ [(b, dstAddr)]\<rparr> else s)"

text \<open>\<open>fqdnLen\<close> is a byte, and so are the sums with it.\<close>

definition up_fqdn :: "relay_env \<Rightarrow> nat \<Rightarrow> udp_relay \<Rightarrow> udp_relay \<times> unit result" where
  "up_fqdn env n s =
     (let buf = ur_buf s; fqdnLen = buf ! 4
      in if unat (5 + fqdnLen) < 5 then (s, Inl (Panic ''slice bounds out of range''))
         else
           let fqdn = bytes_string (take (unat (5 + fqdnLen) - 5) (drop 5 buf));
               port = uint (buf ! unat (5 + fqdnLen)) * 256 + uint (buf ! unat (6 + fqdnLen))
           in (case ResolveUDPAddr (re_resolver env) ''udp'' (fqdn @ '':'' @ Itoa port) of
                 Inl e \<Rightarrow> (s, Inr ())
               | Inr dstAddr \<Rightarrow> (up_write env dstAddr (unat (7 + fqdnLen)) n s, Inr ())))"

definition up_packet :: "relay_env \<Rightarrow> nat \<Rightarrow> udp_relay \<Rightarrow> udp_relay \<times> unit result" where
  "up_packet env n s =
     (let buf = ur_buf s; addrType = buf ! 3
      in if n \<le> 6 then up_fail env ErrNoEnoughData s
         else if buf ! 0 \<noteq> 0 \<or> buf ! 1 \<noteq> 0 then up_fail env ErrInvalidArgument s
         else if buf ! 2 \<noteq> 0 then up_fail env ErrUnsupported s
         else if addrType \<notin> {Socks5IPv4Address, Socks5FQDNAddress, Socks5IPv6Address}
         then up_fail env ErrInvalidArgument s
         else if (addrType = Socks5IPv4Address \<and> n \<le> 10)
              \<or> (addrType = Socks5FQDNAddress \<and> n \<le> unat (buf ! 4) + 6)
              \<or> (addrType = Socks5IPv6Address \<and> n \<le> 22)
         then up_fail env ErrNoEnoughData s
         else if addrType = Socks5IPv4Address
         then (up_write env \<lparr>ua_IP = take 4 (drop 4 buf), ua_Port = uint (buf ! 8) * 256 + uint (buf ! 9), ua_Zone = []\<rparr> 10 n s, Inr ())
         else if addrType = Socks5FQDNAddress then up_fqdn env n s
         else (up_write env \<lparr>ua_IP = take 16 (drop 4 buf), ua_Port = uint (buf ! 20) * 256 + uint (buf ! 21), ua_Zone = []\<rparr> 22 n s, Inr ()))"

definition up_send :: "relay_env \<Rightarrow> udp_relay \<Rightarrow> udp_relay \<times> unit result" where
  "up_send env s =
     (case ur_pending s of
        None \<Rightarrow> (s, Inr ())
      | Some n \<Rightarrow> if ur_upDone s then (s, Inr ()) else up_packet env n (s\<lparr>ur_pending := None\<rparr>))"

section \<open>From the network to the client\<close>

definition store_udpErr :: "go_error \<Rightarrow> udp_relay \<Rightarrow> udp_relay" where
  "store_udpErr e s = (if ur_udpErr s = None then s\<lparr>ur_udpErr := Some e\<rparr> else s)"

text \<open>
  \<open>append(header, data...)\<close>: a prefix of the buffer has room behind it, so the data goes into the buffer.
\<close>

definition append_header :: "header \<Rightarrow> bytes \<Rightarrow> bytes \<Rightarrow> bytes \<times> bytes" where
  "append_header h b buf =
     (case h of
        Own x \<Rightarrow> (x @ b, buf)
      | Shared k \<Rightarrow>
          (take k buf @ b,
           if k + length b \<le> length buf then take k buf @ b @ drop (k + length b) buf else buf))"

definition down_packet :: "bytes \<Rightarrow> UDPAddr \<Rightarrow> udp_relay \<Rightarrow> udp_relay" where
  "down_packet b addr s =
     (if ur_downDone s \<or> ur_closed s then s
      else
        let h = (case ur_addrMap s (udp_key addr) of Some h \<Rightarrow> h | None \<Rightarrow> Own (udpAddrToHeader addr));
            s = s\<lparr>ur_addrMap := (ur_addrMap s)(udp_key addr \<mapsto> h)\<rparr>;
            (packet, buf) = append_header h b (ur_buf s);
            s = s\<lparr>ur_buf := buf\<rparr>
        in (case tunnel_Write packet (ur_conn s) of
              (c, Inl e) \<Rightarrow> store_udpErr e (s\<lparr>ur_conn := c, ur_downDone := True\<rparr>)
            | (c, Inr _) \<Rightarrow> s\<lparr>ur_conn := c\<rparr>))"

definition down_fail :: "go_error \<Rightarrow> udp_relay \<Rightarrow> udp_relay" where
  "down_fail e s = (if ur_downDone s then s else store_udpErr e (s\<lparr>ur_downDone := True\<rparr>))"

section \<open>The loop\<close>

datatype relay_event = UpRead | UpSend | Down bytes UDPAddr | DownFails go_error

fun relay_step :: "relay_env \<Rightarrow> relay_event \<Rightarrow> udp_relay \<Rightarrow> udp_relay \<times> unit result" where
  "relay_step env UpRead s = up_read env s"
| "relay_step env UpSend s = up_send env s"
| "relay_step env (Down b addr) s = (down_packet b addr s, Inr ())"
| "relay_step env (DownFails e) s = (down_fail e s, Inr ())"

fun RunUDPAssociateLoop :: "relay_env \<Rightarrow> relay_event list \<Rightarrow> udp_relay \<Rightarrow> udp_relay \<times> unit result" where
  "RunUDPAssociateLoop env [] s =
     (s, if ur_upDone s \<and> ur_downDone s
         then (case ur_udpErr s of Some e \<Rightarrow> Inl e | None \<Rightarrow> Inl (Panic ''interface conversion''))
         else Inl Blocked)"
| "RunUDPAssociateLoop env (ev # evs) s =
     sbind (relay_step env ev s) (\<lambda>s _. RunUDPAssociateLoop env evs s)"

section \<open>Forwarding to another proxy\<close>

text \<open>The datagrams keep their headers; the third goroutine waits for the control connection to end.\<close>

record forward_relay =
  fr_conn :: conn
  fr_buf :: bytes
  fr_sent :: "bytes list"
  fr_closed :: bool
  fr_upDone :: bool
  fr_downDone :: bool
  fr_ctrlDone :: bool
  fr_udpErr :: "go_error option"

definition fr_store :: "go_error \<Rightarrow> forward_relay \<Rightarrow> forward_relay" where
  "fr_store e s = (if fr_udpErr s = None then s\<lparr>fr_udpErr := Some e\<rparr> else s)"

datatype forward_event = FwdUp | FwdDown bytes | FwdDownFails go_error | FwdCtrl "go_error option"

fun forward_step :: "(bytes \<Rightarrow> bool) \<Rightarrow> forward_event \<Rightarrow> forward_relay \<Rightarrow> forward_relay" where
  "forward_step writable FwdUp s =
     (if fr_upDone s then s
      else if cn_closed (fr_conn s) then fr_store ErrClosedPipe (s\<lparr>fr_upDone := True, fr_closed := True\<rparr>)
      else (case tunnel_Read (fr_buf s) (fr_conn s) of
              ((c, buf), Inl e) \<Rightarrow> fr_store e (s\<lparr>fr_conn := c, fr_buf := buf, fr_upDone := True, fr_closed := True\<rparr>)
            | ((c, buf), Inr n) \<Rightarrow>
                let s = s\<lparr>fr_conn := c, fr_buf := buf\<rparr>
                in if \<not> fr_closed s \<and> writable (take n buf) then s\<lparr>fr_sent := fr_sent s @ [take n buf]\<rparr> else s))"
| "forward_step writable (FwdDown b) s =
     (if fr_downDone s \<or> fr_closed s then s
      else (case tunnel_Write b (fr_conn s) of
              (c, Inl e) \<Rightarrow> fr_store e (s\<lparr>fr_conn := c, fr_downDone := True\<rparr>)
            | (c, Inr _) \<Rightarrow> s\<lparr>fr_conn := c\<rparr>))"
| "forward_step writable (FwdDownFails e) s = (if fr_downDone s then s else fr_store e (s\<lparr>fr_downDone := True\<rparr>))"
| "forward_step writable (FwdCtrl e) s =
     (if fr_ctrlDone s then s
      else
        let s = (case e of None \<Rightarrow> s | Some e \<Rightarrow> fr_store e s)
        in s\<lparr>fr_ctrlDone := True, fr_closed := True, fr_conn := nc_Close (fr_conn s)\<rparr>)"

definition RunUDPForwardingLoop :: "(bytes \<Rightarrow> bool) \<Rightarrow> forward_event list \<Rightarrow> forward_relay \<Rightarrow> forward_relay \<times> unit result" where
  "RunUDPForwardingLoop writable evs s =
     (let s = fold (forward_step writable) evs s
      in (s, if fr_upDone s \<and> fr_downDone s \<and> fr_ctrlDone s
             then (case fr_udpErr s of Some e \<Rightarrow> Inl e | None \<Rightarrow> Inr ())
             else Inl Blocked))"

section \<open>Lemmas\<close>

text \<open>A packet for an address: its frame is read into the buffer, and it is sent.\<close>

definition v4_addr :: "UDPAddr \<Rightarrow> bool" where
  "v4_addr a \<longleftrightarrow> length (ua_IP a) = 4 \<and> 0 \<le> ua_Port a \<and> ua_Port a < 65536 \<and> ua_Zone a = []"

lemma v4_header: "v4_addr a \<Longrightarrow> udpAddrToHeader a = [0, 0, 0, 1] @ ua_IP a @ put_uint16 (word_of_int (ua_Port a))"
  by (simp add: v4_addr_def udpAddrToHeader_def To4_def)

lemma nth_fill: "i < length b \<Longrightarrow> fill b buf ! i = b ! i"
  by (simp add: fill_def nth_append)

lemma take_fill: "n \<le> length b \<Longrightarrow> take n (fill b buf) = take n b"
  and take_drop_fill: "n + k \<le> length b \<Longrightarrow> take n (drop k (fill b buf)) = take n (drop k b)"
  by (simp_all add: fill_def)

lemma length_fill [simp]: "length b \<le> length buf \<Longrightarrow> length (fill b buf) = length buf"
  by (simp add: fill_def)

lemma port_sum:
  assumes "0 \<le> p" "p < 65536"
  shows "uint (put_uint16 (word_of_int p) ! 0) * 256 + uint (put_uint16 (word_of_int p) ! 1) = p"
proof -
  let ?w = "word_of_int p :: u16"
  have w: "uint ?w = p" using assms by (simp add: uint_word_of_int)
  have "uint (ucast (drop_bit 8 ?w) :: u8) = p div 256"
    unfolding unsigned_ucast_eq unsigned_drop_bit_eq w using assms
    by (simp add: drop_bit_eq_div take_bit_eq_mod)
  moreover have "uint (ucast ?w :: u8) = p mod 256"
    using w by (simp add: unsigned_ucast_eq take_bit_eq_mod)
  ultimately show ?thesis by (simp add: put_uint16_def)
qed

definition idle :: "udp_relay \<Rightarrow> bool" where
  "idle s \<longleftrightarrow> length (ur_buf s) = relay_bufSize \<and> ur_pending s = None \<and> \<not> ur_upDone s \<and> \<not> ur_downDone s \<and> \<not> ur_closed s"

lemma up_v4:
  assumes "idle s" "v4_addr a" "p \<noteq> []" "length p \<le> 65525" "re_writable env p a"
    and "rd_in (ur_conn s) = tunnel_frame (udpAddrToHeader a @ p) @ rest"
  shows "snd (up_read env s) = Inr ()"
    "up_send env (fst (up_read env s)) =
      (s\<lparr>ur_conn := (ur_conn s)\<lparr>rd_in := rest\<rparr>, ur_buf := fill (udpAddrToHeader a @ p) (ur_buf s),
         ur_addrMap := (ur_addrMap s)(udp_key a \<mapsto> Shared 10), ur_sent := ur_sent s @ [(p, a)]\<rparr>, Inr ())"
proof -
  let ?b = "udpAddrToHeader a @ p" and ?buf = "fill (udpAddrToHeader a @ p) (ur_buf s)"
  note h = v4_header [OF assms(2)]
  have a: "length (ua_IP a) = 4" "0 \<le> ua_Port a" "ua_Port a < 65536" "ua_Zone a = []" using assms(2) by (simp_all add: v4_addr_def)
  have len: "length ?b = 10 + length p" using h a(1) by simp
  have r: "up_read env s = (s\<lparr>ur_conn := (ur_conn s)\<lparr>rd_in := rest\<rparr>, ur_buf := ?buf, ur_pending := Some (length ?b)\<rparr>, Inr ())"
    using tunnel_Read_ok [OF assms(6), of "ur_buf s"] assms(1,4) len by (simp add: up_read_def idle_def relay_bufSize_def)
  obtain i0 i1 i2 i3 where ip: "ua_IP a = [i0, i1, i2, i3]" using a(1) by (auto simp: numeral_eq_Suc length_Suc_conv)
  have n: "?buf ! i = ?b ! i" if "i < 10" for i using that len by (intro nth_fill) simp
  have t: "take 4 (drop 4 ?buf) = ua_IP a" "take (length p) (drop 10 ?buf) = p"
    using len h ip by (simp_all add: take_drop_fill)
  have port: "uint (?buf ! 8) * 256 + uint (?buf ! 9) = ua_Port a"
    using n [of 8] n [of 9] h ip port_sum [OF a(2,3)] by (simp add: put_uint16_def)
  have addr: "\<lparr>ua_IP = ua_IP a, ua_Port = ua_Port a, ua_Zone = []\<rparr> = a" using a(4) by simp
  have z: "?buf ! 0 = 0" "?buf ! 1 = 0" "?buf ! 2 = 0" "?buf ! 3 = 1" using n [of 0] n [of 1] n [of 2] n [of 3] h by simp_all
  show "snd (up_read env s) = Inr ()" by (simp add: r)
  show "up_send env (fst (up_read env s)) =
      (s\<lparr>ur_conn := (ur_conn s)\<lparr>rd_in := rest\<rparr>, ur_buf := fill (udpAddrToHeader a @ p) (ur_buf s),
         ur_addrMap := (ur_addrMap s)(udp_key a \<mapsto> Shared 10), ur_sent := ur_sent s @ [(p, a)]\<rparr>, Inr ())"
    unfolding r using assms(1,3,5) len t port z addr
    by (simp add: up_send_def up_packet_def idle_def Let_def socks5_consts up_write_def)
qed

section \<open>Properties\<close>

lemma sbind_value: "snd x = Inr v \<Longrightarrow> sbind x f = f (fst x) v"
  by (cases x) simp

lemma new_udp_relay_idle: "idle (new_udp_relay c)"
  by (simp add: idle_def new_udp_relay_def)

lemma idle_upd [simp]:
  "idle (s\<lparr>ur_conn := c\<rparr>) = idle s" "idle (s\<lparr>ur_addrMap := m\<rparr>) = idle s" "idle (s\<lparr>ur_sent := x\<rparr>) = idle s"
  "length b = length (ur_buf s) \<Longrightarrow> idle (s\<lparr>ur_buf := b\<rparr>) = idle s"
  by (simp_all add: idle_def)

lemma down_shared:
  assumes "idle s" "ur_addrMap s (udp_key a) = Some (Shared 10)" "cn_writeErr (ur_conn s) = None" "length d \<le> 65525"
  shows "cn_out (ur_conn (down_packet d a s)) = cn_out (ur_conn s) @ [tunnel_frame (take 10 (ur_buf s) @ d)]"
    "ur_sent (down_packet d a s) = ur_sent s" "ur_upDone (down_packet d a s) = ur_upDone s"
  using assms by (simp_all add: down_packet_def append_header_def Let_def tunnel_Write_def idle_def relay_bufSize_def)

text \<open>
  C34. The answer of one destination is passed on as if it came from another: the header stored for a destination is
  a slice of the buffer into which the next packet is read. After a packet to \<open>a\<close>, an answer of \<open>a\<close> gets
  the header of \<open>a\<close>; after a further packet to \<open>b\<close>, an answer of \<open>a\<close> gets the header of \<open>b\<close>, and the
  client takes it for an answer of \<open>b\<close>.
\<close>

theorem reply_header_overwritten:
  assumes "v4_addr a" "v4_addr b" "udp_key a \<noteq> udp_key b" "p \<noteq> []" "q \<noteq> []" "length p \<le> 65525" "length q \<le> 65525" "length d \<le> 65525"
    and "rd_in c = tunnel_frame (udpAddrToHeader a @ p) @ tunnel_frame (udpAddrToHeader b @ q) @ rest" "cn_writeErr c = None"
    and "re_writable env p a" "re_writable env q b"
  shows "(\<exists>s. RunUDPAssociateLoop env [UpRead, UpSend, Down d a] (new_udp_relay c) = (s, Inl Blocked)
            \<and> cn_out (ur_conn s) = cn_out c @ [tunnel_frame (udpAddrToHeader a @ d)])
     \<and> (\<exists>s. RunUDPAssociateLoop env [UpRead, UpSend, UpRead, UpSend, Down d a] (new_udp_relay c) = (s, Inl Blocked)
            \<and> ur_sent s = [(p, a), (q, b)] \<and> cn_out (ur_conn s) = cn_out c @ [tunnel_frame (udpAddrToHeader b @ d)])"
proof -
  let ?s = "new_udp_relay c"
  let ?s1 = "?s\<lparr>ur_conn := (ur_conn ?s)\<lparr>rd_in := tunnel_frame (udpAddrToHeader b @ q) @ rest\<rparr>,
    ur_buf := fill (udpAddrToHeader a @ p) (ur_buf ?s), ur_addrMap := (ur_addrMap ?s)(udp_key a \<mapsto> Shared 10),
    ur_sent := ur_sent ?s @ [(p, a)]\<rparr>"
  let ?s2 = "?s1\<lparr>ur_conn := (ur_conn ?s1)\<lparr>rd_in := rest\<rparr>, ur_buf := fill (udpAddrToHeader b @ q) (ur_buf ?s1),
    ur_addrMap := (ur_addrMap ?s1)(udp_key b \<mapsto> Shared 10), ur_sent := ur_sent ?s1 @ [(q, b)]\<rparr>"
  have h: "length (udpAddrToHeader a) = 10" "length (udpAddrToHeader b) = 10"
    using v4_header [OF assms(1)] v4_header [OF assms(2)] assms(1,2) by (simp_all add: v4_addr_def)
  have c: "ur_conn ?s = c" "length (ur_buf ?s) = 65536" "ur_sent ?s = []" "\<not> ur_upDone ?s"
    by (simp_all add: new_udp_relay_def relay_bufSize_def)
  have 1: "snd (up_read env ?s) = Inr ()" "up_send env (fst (up_read env ?s)) = (?s1, Inr ())"
    by (rule up_v4 [OF new_udp_relay_idle assms(1,4,6,11)], simp add: c assms(9))+
  have i1: "idle ?s1" using new_udp_relay_idle [of c] h c(2) assms(6) by simp
  have 2: "snd (up_read env ?s1) = Inr ()" "up_send env (fst (up_read env ?s1)) = (?s2, Inr ())"
    by (rule up_v4 [OF i1 assms(2,5,7,12)], simp)+
  have i2: "idle ?s2" using i1 h c(2) assms(6,7) by simp
  have 3: "ur_addrMap ?s1 (udp_key a) = Some (Shared 10)" "ur_addrMap ?s2 (udp_key a) = Some (Shared 10)"
      "cn_writeErr (ur_conn ?s1) = None" "cn_writeErr (ur_conn ?s2) = None"
    using assms(3,10) c(1) by simp_all
  have 4: "take 10 (ur_buf ?s1) = udpAddrToHeader a" "take 10 (ur_buf ?s2) = udpAddrToHeader b"
    using h by (simp_all add: take_fill)
  show ?thesis
    using 1 2 down_shared [OF i1 3(1,3) assms(8)] down_shared [OF i2 3(2,4) assms(8)] 4 c by (simp add: sbind_value)
qed

text \<open>
  C35. A domain name of 251 bytes or more, which the protocol allows, brings the server down: \<open>5 + fqdnLen\<close> is
  computed in a byte and wraps, so the slice expression of the name panics.
\<close>

theorem fqdn_length_panics:
  assumes "251 \<le> unat n" "length name = unat n + 2" "p \<noteq> []" "length p \<le> 60000"
    and "rd_in c = tunnel_frame ([0, 0, 0, Socks5FQDNAddress, n] @ name @ p) @ rest"
  shows "\<exists>s. RunUDPAssociateLoop env (UpRead # UpSend # evs) (new_udp_relay c) = (s, Inl (Panic ''slice bounds out of range''))"
proof -
  let ?b = "[0, 0, 0, Socks5FQDNAddress, n] @ name @ p" and ?s = "new_udp_relay c"
  have n: "unat n < 256" using unsigned_less [of n, where ?'a = nat] by simp
  have "unat (5 + n) = (5 + unat n) mod 256" by (simp add: unat_word_ariths)
  also have "\<dots> = unat n - 251" using assms(1) n by (simp add: mod_if)
  finally have wrap: "unat (5 + n) < 5" using n by simp
  let ?buf = "fill ?b (ur_buf ?s)"
  have r: "up_read env ?s = (?s\<lparr>ur_conn := c\<lparr>rd_in := rest\<rparr>, ur_buf := ?buf, ur_pending := Some (length ?b)\<rparr>, Inr ())"
    using tunnel_Read_ok [OF assms(5), of "ur_buf ?s"] assms(2,4) n
    by (simp add: up_read_def new_udp_relay_def relay_bufSize_def)
  have b: "?buf ! i = ?b ! i" if "i < 5" for i using that by (intro nth_fill) simp
  have "up_send env (fst (up_read env ?s)) = ((fst (up_read env ?s))\<lparr>ur_pending := None\<rparr>, Inl (Panic ''slice bounds out of range''))"
    unfolding r using b [of 0] b [of 1] b [of 2] b [of 3] b [of 4] assms(2,3) wrap
    by (simp add: up_send_def up_packet_def up_fqdn_def new_udp_relay_def socks5_consts Let_def)
  then show ?thesis using r by (simp add: sbind_value)
qed

section \<open>Witnesses\<close>

definition some_relay_env :: relay_env where
  "some_relay_env = \<lparr>re_resolver = NilDNSResolver_LookupIP, re_writable = (\<lambda>_ _. True), re_sameType = (=)\<rparr>"

definition some_udp :: "u8 \<Rightarrow> UDPAddr" where
  "some_udp x = \<lparr>ua_IP = [192, 0, 2, x], ua_Port = 53, ua_Zone = []\<rparr>"

theorem reply_header_overwritten_witness:
  "\<exists>s. RunUDPAssociateLoop some_relay_env [UpRead, UpSend, UpRead, UpSend, Down [9] (some_udp 1)]
       (new_udp_relay (some_tunnel (tunnel_frame (udpAddrToHeader (some_udp 1) @ [7]) @ tunnel_frame (udpAddrToHeader (some_udp 2) @ [8]))))
     = (s, Inl Blocked) \<and> cn_out (ur_conn s) = [tunnel_frame (udpAddrToHeader (some_udp 2) @ [9])]"
proof -
  have "v4_addr (some_udp 1)" "v4_addr (some_udp 2)" "udp_key (some_udp 1) \<noteq> udp_key (some_udp 2)"
    by (simp_all add: v4_addr_def some_udp_def udp_key_def To4_def)
  from reply_header_overwritten [OF this, of "[7]" "[8]" "[9]" "some_tunnel (tunnel_frame (udpAddrToHeader (some_udp 1) @ [7])
      @ tunnel_frame (udpAddrToHeader (some_udp 2) @ [8]))" "[]" some_relay_env]
  show ?thesis by (auto simp: some_tunnel_def some_relay_env_def)
qed

theorem fqdn_length_panics_witness:
  "\<exists>s. RunUDPAssociateLoop some_relay_env [UpRead, UpSend]
       (new_udp_relay (some_tunnel (tunnel_frame ([0, 0, 0, Socks5FQDNAddress, 251] @ replicate 253 97 @ [1]))))
     = (s, Inl (Panic ''slice bounds out of range''))"
  using fqdn_length_panics [of 251 "replicate 253 97" "[1]" "some_tunnel (tunnel_frame ([0, 0, 0, Socks5FQDNAddress, 251] @ replicate 253 97 @ [1]))" "[]"
      some_relay_env "[]"]
  by (simp add: some_tunnel_def)

end
