(* ===== verification/SocksServer.thy ===== *)
theory SocksServer
  imports Egress UDPRelay
begin

text \<open>
  How a proxy server handles a connection (\<open>src/pkg/socks5/request.go\<close>, \<open>serverServeConn\<close> of
  \<open>src/pkg/socks5/socks5.go\<close>, \<open>src/pkg/common/copy.go\<close>). The network is an environment: what dialing an address
  gives, which address a socket is bound to, which datagrams arrive. The state keeps every address that was dialed and
  every socket that was opened.
\<close>

section \<open>Copying between connections\<close>

text \<open>\<open>io.Copy\<close>, with \<open>Blocked\<close> if the source stays open.\<close>

definition eof_ok :: "go_error \<Rightarrow> unit result" where
  "eof_ok e = (if e = EOF then Inr () else Inl e)"

definition io_Copy :: "'z conn_scheme \<Rightarrow> 'y conn_scheme \<Rightarrow> ('z conn_scheme \<times> 'y conn_scheme) \<times> unit result" where
  "io_Copy dst src =
     (if cn_closed src then ((dst, src), Inl ErrClosedPipe)
      else if rd_in src = [] then ((dst, src), eof_ok (rd_end src))
      else (case nc_Write (rd_in src) dst of
              (dst, Inl e) \<Rightarrow> ((dst, src\<lparr>rd_in := []\<rparr>), Inl e)
            | (dst, Inr _) \<Rightarrow> ((dst, src\<lparr>rd_in := []\<rparr>), eof_ok (rd_end src))))"

text \<open>What one direction has copied before the other direction closes its source.\<close>

definition copy_some :: "nat \<Rightarrow> 'z conn_scheme \<Rightarrow> 'y conn_scheme \<Rightarrow> 'z conn_scheme \<times> 'y conn_scheme" where
  "copy_some n dst src =
     (if n = 0 \<or> rd_in src = [] then (dst, src)
      else (fst (nc_Write (take n (rd_in src)) dst), src\<lparr>rd_in := drop n (rd_in src)\<rparr>))"

text \<open>
  Two goroutines; \<open>first1\<close> says that the one which copies from the second connection to the first is done first, and
  \<open>n\<close> how much the other has copied by then.
\<close>

definition BidiCopy :: "bool \<times> nat \<Rightarrow> conn \<Rightarrow> conn \<Rightarrow> (conn \<times> conn) \<times> unit result" where
  "BidiCopy sched conn1 conn2 =
     (case sched of (first1, n) \<Rightarrow>
        if first1
        then
          let (conn2, conn1) = copy_some n conn2 conn1
          in (case io_Copy conn1 conn2 of
                ((conn1, conn2), Inl Blocked) \<Rightarrow> ((conn1, conn2), Inl Blocked)
              | ((conn1, conn2), r) \<Rightarrow>
                  let conn1 = nc_Close conn1; ((conn2, conn1), _) = io_Copy conn2 conn1
                  in ((conn1, nc_Close conn2), r))
        else
          let (conn1, conn2) = copy_some n conn1 conn2
          in (case io_Copy conn2 conn1 of
                ((conn2, conn1), Inl Blocked) \<Rightarrow> ((conn1, conn2), Inl Blocked)
              | ((conn2, conn1), r) \<Rightarrow>
                  let conn2 = nc_Close conn2; ((conn1, conn2), _) = io_Copy conn1 conn2
                  in ((nc_Close conn1, conn2), r)))"

section \<open>Configuration, environment and state\<close>

datatype UDPAssociateMode = UDPAssociateModePacketOverStream | UDPAssociateModeDatagram | UDPAssociateModeOther int

record socks_config =
  sc_AuthOpts :: Auth
  sc_HandshakeTimeout :: int
  sc_UseProxy :: bool
  sc_HasDialer :: bool
  sc_Resolver :: "resolver option"
  sc_UDPAssociateMode :: UDPAssociateMode
  sc_Egress :: egress_config
  sc_DualStackPreference :: DualStackPreference
  sc_HandshakeNoWait :: bool

text \<open>\<open>netResolver\<close> is the resolver of the standard library. A nil map of users or rules is an empty one.\<close>

definition New :: "resolver \<Rightarrow> socks_config \<Rightarrow> socks_config result" where
  "New netResolver conf =
     (if sc_UseProxy conf \<and> \<not> sc_HasDialer conf
      then Inl (Errorf ''ProxyDialer must be set when proxy is enabled'')
      else (case sc_UDPAssociateMode conf of
              UDPAssociateModeOther _ \<Rightarrow> Inl (Errorf ''unsupported UDP associate mode'')
            | _ \<Rightarrow> Inr (conf\<lparr>sc_HandshakeTimeout := max (sc_HandshakeTimeout conf) 0,
                             sc_Resolver := Some (case sc_Resolver conf of None \<Rightarrow> netResolver | Some r \<Rightarrow> r)\<rparr>)))"

text \<open>A dialed connection comes with its local and its remote address.\<close>

datatype dial_outcome = DialError string | Dialed conn UDPAddr UDPAddr

record serve_env =
  se_dial :: "string \<Rightarrow> dial_outcome"
  se_listen :: "UDPAddr \<Rightarrow> UDPAddr result"
  se_localAddr :: "UDPAddr option"   \<comment> \<open>of the connection that is served, if it is a TCP address\<close>
  se_dualStack :: bool
  se_intn :: "nat \<Rightarrow> nat"
  se_copy :: "bool \<times> nat"
  se_writable :: "bytes \<Rightarrow> UDPAddr \<Rightarrow> bool"
  se_sameType :: "go_error \<Rightarrow> go_error \<Rightarrow> bool"
  se_relayEvents :: "relay_event list"
  se_forwardEvents :: "forward_event list"
  se_datagrams :: "(bytes \<times> UDPAddr) list"
  se_socketEnd :: go_error

record serving =
  sv_conn :: conn
  sv_dialed :: "string list"
  sv_listened :: "UDPAddr list"
  sv_target :: "conn option"
  sv_sent :: "(bytes \<times> UDPAddr) list"

definition new_serving :: "conn \<Rightarrow> serving" where
  "new_serving c = \<lparr>sv_conn = c, sv_dialed = [], sv_listened = [], sv_target = None, sv_sent = []\<rparr>"

definition sc_resolver :: "socks_config \<Rightarrow> resolver" where
  "sc_resolver cfg = (case sc_Resolver cfg of Some r \<Rightarrow> r | None \<Rightarrow> (\<lambda>_ _. Inl (Panic ''nil pointer dereference'')))"

text \<open>A step on the connection that is served.\<close>

definition on_conn :: "(conn \<Rightarrow> conn \<times> 'a result) \<Rightarrow> serving \<Rightarrow> serving \<times> 'a result" where
  "on_conn f s = (case f (sv_conn s) of (c, r) \<Rightarrow> (s\<lparr>sv_conn := c\<rparr>, r))"

definition send_response :: "u8 \<Rightarrow> AddrSpec \<Rightarrow> serving \<Rightarrow> serving \<times> unit result" where
  "send_response reply bind s =
     on_conn (\<lambda>c. case Response_WriteToSocks5 nc_Write (zero_Response\<lparr>rs_Reply := reply, rs_BindAddr := bind\<rparr>) c of
                    ((c, _), r) \<Rightarrow> wrapped ''failed to send reply'' (c, r)) s"

definition bind_nowhere :: AddrSpec where
  "bind_nowhere = zero_AddrSpec\<lparr>as_IP := IPv4 0 0 0 0\<rparr>"

text \<open>A response that reports an error, and the error that is returned.\<close>

definition refuse :: "u8 \<Rightarrow> string \<Rightarrow> serving \<Rightarrow> serving \<times> unit result" where
  "refuse reply msg s = sbind (send_response reply bind_nowhere s) (\<lambda>s _. (s, Inl (Errorf msg)))"

section \<open>Commands\<close>

definition contains_string :: "string \<Rightarrow> string \<Rightarrow> bool" where
  "contains_string s x \<longleftrightarrow> list_ex (\<lambda>i. take (length x) (drop i s) = x) [0..<Suc (length s)]"

definition handleConnect :: "serve_env \<Rightarrow> Request \<Rightarrow> serving \<Rightarrow> serving \<times> unit result" where
  "handleConnect env req s =
     (let addr = AddrSpec_String (rq_DstAddr req); s = s\<lparr>sv_dialed := sv_dialed s @ [addr]\<rparr>
      in (case se_dial env addr of
            DialError msg \<Rightarrow>
              refuse (if contains_string msg ''refused'' then Socks5ReplyConnectionRefused
                      else if contains_string msg ''network is unreachable'' then Socks5ReplyNetworkUnreachable
                      else Socks5ReplyHostUnreachable) ''connect failed'' s
          | Dialed target local _ \<Rightarrow>
              (case send_response Socks5ReplySuccess (zero_AddrSpec\<lparr>as_IP := ua_IP local, as_Port := ua_Port local\<rparr>) s of
                 (s, Inl e) \<Rightarrow> (s\<lparr>sv_target := Some (nc_Close target)\<rparr>, Inl e)
               | (s, Inr _) \<Rightarrow>
                   (case BidiCopy (se_copy env) (sv_conn s) target of
                      ((c, target), Inl Blocked) \<Rightarrow> (s\<lparr>sv_conn := c, sv_target := Some target\<rparr>, Inl Blocked)
                    | ((c, target), r) \<Rightarrow> (s\<lparr>sv_conn := c, sv_target := Some (nc_Close target)\<rparr>, r)))))"

definition handleBind :: "serving \<Rightarrow> serving \<times> unit result" where
  "handleBind s = send_response Socks5ReplyCommandNotSupported bind_nowhere s"

text \<open>The socket for the datagrams of a client. \<open>UDPAddr_String\<close> is the text of its local address.\<close>

definition listen_udp :: "serve_env \<Rightarrow> UDPAddr \<Rightarrow> serving \<Rightarrow> serving \<times> UDPAddr result" where
  "listen_udp env addr s =
     wrapped ''failed to listen UDP'' (s\<lparr>sv_listened := sv_listened s @ [addr]\<rparr>, se_listen env addr)"

definition UDPAddr_String :: "UDPAddr \<Rightarrow> string" where
  "UDPAddr_String a =
     (let ip = (if ua_IP a = [] then [] else ip_String (ua_IP a))
      in JoinHostPort (if ua_Zone a \<noteq> [] then ip @ ''%'' @ ua_Zone a else ip) (Itoa (ua_Port a)))"

definition local_port :: "UDPAddr \<Rightarrow> int result" where
  "local_port a = rbind (SplitHostPort (UDPAddr_String a)) (\<lambda>(_, port). Atoi port)"

definition open_socket :: "serve_env \<Rightarrow> socks_config \<Rightarrow> serving \<Rightarrow> serving \<times> UDPAddr result" where
  "open_socket env cfg s =
     (case ResolveUDPAddr (sc_resolver cfg) ''udp'' (MaybeDecorateIPv6 (AllIPAddr (se_dualStack env)) @ '':0'') of
        Inl e \<Rightarrow> (s, Inl (wrap_error ''failed to resolve UDP address'' e))
      | Inr addr \<Rightarrow> listen_udp env addr s)"

definition handleAssociatePacketOverStream :: "serve_env \<Rightarrow> socks_config \<Rightarrow> serving \<Rightarrow> serving \<times> unit result" where
  "handleAssociatePacketOverStream env cfg s =
     sbind (open_socket env cfg s) (\<lambda>s local.
     case local_port local of
       Inl e \<Rightarrow> (s, Inl (wrap_error ''strconv.Atoi() failed'' e))
     | Inr udpPort \<Rightarrow>
         sbind (send_response Socks5ReplySuccess (zero_AddrSpec\<lparr>as_IP := [0, 0, 0, 0], as_Port := udpPort\<rparr>) s) (\<lambda>s _.
         case RunUDPAssociateLoop \<lparr>re_resolver = sc_resolver cfg, re_writable = se_writable env, re_sameType = se_sameType env\<rparr>
                (se_relayEvents env) (new_udp_relay (sv_conn s)) of
           (u, r) \<Rightarrow> (s\<lparr>sv_conn := ur_conn u, sv_sent := ur_sent u\<rparr>, r)))"

definition socks5UDPAssociateBindIP :: "UDPAddr option \<Rightarrow> UDPAddr option \<Rightarrow> IP" where
  "socks5UDPAssociateBindIP tcpAddr udpLocal =
     (let usable = (\<lambda>a. case a of None \<Rightarrow> False | Some a \<Rightarrow> ua_IP a \<noteq> [] \<and> \<not> IsUnspecified (ua_IP a))
      in if usable tcpAddr then ua_IP (the tcpAddr)
         else if usable udpLocal then ua_IP (the udpLocal)
         else IPv4 0 0 0 0)"

definition handleAssociateDatagram :: "serve_env \<Rightarrow> socks_config \<Rightarrow> serving \<Rightarrow> serving \<times> unit result" where
  "handleAssociateDatagram env cfg s =
     sbind (open_socket env cfg s) (\<lambda>s local.
     let bind = zero_AddrSpec\<lparr>as_IP := socks5UDPAssociateBindIP (se_localAddr env) (Some local), as_Port := ua_Port local\<rparr>
     in sbind (send_response Socks5ReplySuccess bind s) (\<lambda>s _.
        case runUDPAssociateDatagramLoop (sc_resolver cfg) (se_writable env) (se_datagrams env) (new_datagram_relay (se_socketEnd env)) of
          (u, r) \<Rightarrow> (s\<lparr>sv_conn := nc_Close (sv_conn s), sv_sent := dr_out u\<rparr>, r)))"

definition handleAssociate :: "serve_env \<Rightarrow> socks_config \<Rightarrow> serving \<Rightarrow> serving \<times> unit result" where
  "handleAssociate env cfg s =
     (if sc_UDPAssociateMode cfg = UDPAssociateModeDatagram then handleAssociateDatagram env cfg s
      else handleAssociatePacketOverStream env cfg s)"

text \<open>The destination with the address to which its domain name resolves.\<close>

definition handle_command :: "serve_env \<Rightarrow> socks_config \<Rightarrow> Request \<Rightarrow> serving \<Rightarrow> serving \<times> unit result" where
  "handle_command env cfg req s =
     (if rq_Command req = Socks5ConnectCmd then handleConnect env req s
      else if rq_Command req = Socks5BindCmd then handleBind s
      else if rq_Command req = Socks5UDPAssociateCmd then handleAssociate env cfg s
      else refuse Socks5ReplyCommandNotSupported ''unsupported command'' s)"

definition handleRequest :: "serve_env \<Rightarrow> socks_config \<Rightarrow> Request \<Rightarrow> serving \<Rightarrow> serving \<times> unit result" where
  "handleRequest env cfg req s =
     (let dst = rq_DstAddr req
      in if as_FQDN dst = [] then handle_command env cfg req s
         else (case sc_resolver cfg ''ip'' (as_FQDN dst) of
                 Inl (Panic m) \<Rightarrow> (s, Inl (Panic m))
               | Inl e \<Rightarrow> refuse Socks5ReplyHostUnreachable ''failed to resolve destination'' s
               | Inr ips \<Rightarrow>
                   if ips = [] then refuse Socks5ReplyHostUnreachable ''IP address not found'' s
                   else (case SelectIPFromList ips (sc_DualStackPreference cfg) of
                           None \<Rightarrow> refuse Socks5ReplyNetworkUnreachable ''no IP address satisfy DNS dual stack preference'' s
                         | Some ip \<Rightarrow> handle_command env cfg (req\<lparr>rq_DstAddr := dst\<lparr>as_IP := ip\<rparr>\<rparr>) s)))"

section \<open>Forwarding to another proxy\<close>

text \<open>
  The address in a message, behind its first four bytes: the message so far and the rest of the address. The
  length of a domain name and the two bytes of the port are added up in a byte.
\<close>

definition read_addr_bytes :: "bytes \<Rightarrow> 'z reader_scheme \<Rightarrow> 'z reader_scheme \<times> (bytes \<times> bytes) result" where
  "read_addr_bytes header c =
     (let addrType = header ! 3;
          rest = (\<lambda>n m c. sbind (wrapped ''failed to read address'' (io_ReadFull n c)) (\<lambda>c b. (c, Inr (m, b))))
      in if addrType = Socks5IPv4Address then rest 6 header c
         else if addrType = Socks5FQDNAddress
         then sbind (wrapped ''failed to read FQDN length'' (io_ReadFull 1 c)) (\<lambda>c fqdnLen.
              rest (unat (fqdnLen ! 0 + 2)) (header @ fqdnLen) c)
         else if addrType = Socks5IPv6Address then rest 18 header c
         else (c, Inl (Errorf ''unsupported address type'')))"

definition port_of :: "u8 \<Rightarrow> u8 \<Rightarrow> int" where
  "port_of hi lo = uint hi * 256 + uint lo"

definition downstream_addr :: "UDPAddr \<Rightarrow> bytes \<Rightarrow> bytes \<Rightarrow> UDPAddr result" where
  "downstream_addr remote respHeader bindAddr =
     (let addrType = respHeader ! 3;
          at = (\<lambda>ip i. rbind (go_index i bindAddr) (\<lambda>hi. rbind (go_index (i + 1) bindAddr) (\<lambda>lo.
                 Inr \<lparr>ua_IP = (if IsUnspecified ip then ua_IP remote else ip), ua_Port = port_of hi lo, ua_Zone = []\<rparr>)))
      in if addrType = Socks5IPv4Address then at (take 4 bindAddr) 4
         else if addrType = Socks5IPv6Address then at (take 16 bindAddr) 16
         else at (ua_IP remote) (unat (respHeader ! 4)))"

text \<open>The last two bytes of a message are its port.\<close>

definition rewrite_port :: "int \<Rightarrow> bytes \<Rightarrow> bytes" where
  "rewrite_port port b = take (length b - 2) b @ put_uint16 (word_of_int port)"

definition new_forward_relay :: "conn \<Rightarrow> forward_relay" where
  "new_forward_relay c =
     \<lparr>fr_conn = c, fr_buf = replicate relay_bufSize 0, fr_sent = [], fr_closed = False,
      fr_upDone = False, fr_downDone = False, fr_ctrlDone = False, fr_udpErr = None\<rparr>"

text \<open>A step on the connection to the other proxy, which is closed if the step fails.\<close>

definition on_target :: "(conn \<Rightarrow> conn \<times> 'a result) \<Rightarrow> serving \<Rightarrow> serving \<times> 'a result" where
  "on_target f s =
     (case sv_target s of
        None \<Rightarrow> (s, Inl (Panic ''nil pointer dereference''))
      | Some p \<Rightarrow> (case f p of (p, r) \<Rightarrow> (s\<lparr>sv_target := Some p\<rparr>, r)))"

definition close_target :: "serving \<Rightarrow> serving" where
  "close_target s = s\<lparr>sv_target := map_option nc_Close (sv_target s)\<rparr>"

definition listen_v4 :: "serve_env \<Rightarrow> serving \<Rightarrow> serving \<times> int result" where
  "listen_v4 env s =
     sbind (listen_udp env \<lparr>ua_IP = [0, 0, 0, 0], ua_Port = 0, ua_Zone = []\<rparr> s) (\<lambda>s local.
     (s, case local_port local of Inl e \<Rightarrow> Inl (wrap_error ''strconv.Atoi() failed'' e) | Inr p \<Rightarrow> Inr p))"

definition relay_forwarded :: "serve_env \<Rightarrow> UDPAddr \<Rightarrow> serving \<Rightarrow> serving \<times> unit result" where
  "relay_forwarded env downstream s =
     (case RunUDPForwardingLoop (\<lambda>b. se_writable env b downstream) (se_forwardEvents env) (new_forward_relay (sv_conn s)) of
        (u, r) \<Rightarrow>
          let s = s\<lparr>sv_conn := fr_conn u, sv_sent := map (\<lambda>b. (b, downstream)) (fr_sent u)\<rparr>
          in (if r = Inl Blocked then s else close_target s, r))"

definition forward_response :: "serve_env \<Rightarrow> UDPAddr \<Rightarrow> bytes \<Rightarrow> bytes \<Rightarrow> serving \<Rightarrow> serving \<times> unit result" where
  "forward_response env remote header bindAddr s =
     (let respHeader = header @ bindAddr
      in if respHeader ! 1 \<noteq> Socks5ReplySuccess
         then (fst (on_conn (nc_Write respHeader) (close_target s)), Inl (Errorf ''egress proxy returned error''))
         else (case downstream_addr remote respHeader bindAddr of
                 Inl e \<Rightarrow> (s, Inl e)
               | Inr downstream \<Rightarrow>
                   (case listen_v4 env s of
                      (s, Inl e) \<Rightarrow> (close_target s, Inl e)
                    | (s, Inr udpPort) \<Rightarrow>
                        (case on_conn (nc_Write (rewrite_port udpPort respHeader)) s of
                           (s, Inl e) \<Rightarrow> (close_target s, Inl (wrap_error ''failed to send socks5 response to client'' e))
                         | (s, Inr _) \<Rightarrow> relay_forwarded env downstream s))))"

definition handleForwardingUDP :: "serve_env \<Rightarrow> UDPAddr \<Rightarrow> Request \<Rightarrow> serving \<Rightarrow> serving \<times> unit result" where
  "handleForwardingUDP env remote req s =
     sbind (on_target (\<lambda>p. on_fail ''failed to write socks5 request to egress proxy'' (nc_Write (rq_Raw req) p)) s) (\<lambda>s _.
     sbind (on_target (\<lambda>p. on_fail ''failed to read socks5 response from egress proxy'' (io_ReadFull 4 p)) s) (\<lambda>s respHeader.
     sbind (on_target (\<lambda>p. on_fail ''failed to read bind address'' (read_addr_bytes respHeader p)) s) (\<lambda>s (header, bindAddr).
     forward_response env remote header bindAddr s)))"

definition handleForwarding :: "serve_env \<Rightarrow> Request \<Rightarrow> EgressProxy \<Rightarrow> serving \<Rightarrow> serving \<times> unit result" where
  "handleForwarding env req proxy s =
     (let addr = MaybeDecorateIPv6 (ep_Host proxy) @ '':'' @ Itoa (ep_Port proxy); s = s\<lparr>sv_dialed := sv_dialed s @ [addr]\<rparr>
      in (case se_dial env addr of
            DialError msg \<Rightarrow> (s, Inl (Errorf ''dial to egress proxy failed''))
          | Dialed proxyConn _ remote \<Rightarrow>
              let s = s\<lparr>sv_target := Some proxyConn\<rparr>
              in sbind (on_target (dialWithAuthentication (ep_Auth proxy)) s) (\<lambda>s _.
                 if rq_Command req = Socks5ConnectCmd
                 then
                   sbind (on_target (\<lambda>p. on_fail ''failed to write socks5 request to egress proxy'' (nc_Write (rq_Raw req) p)) s) (\<lambda>s _.
                   case sv_target s of
                     None \<Rightarrow> (s, Inl (Panic ''nil pointer dereference''))
                   | Some p \<Rightarrow> (case BidiCopy (se_copy env) (sv_conn s) p of
                                   ((c, p), r) \<Rightarrow> (s\<lparr>sv_conn := c, sv_target := Some p\<rparr>, r)))
                 else if rq_Command req = Socks5UDPAssociateCmd then handleForwardingUDP env remote req s
                 else (s, Inl (Errorf ''unsupported command'')))))"

section \<open>A connection\<close>

definition readRequest :: "serving \<Rightarrow> serving \<times> Request result" where
  "readRequest s =
     (case Request_ReadFromSocks5 (sv_conn s) zero_Request of
        ((c, q), Inl e) \<Rightarrow> (s\<lparr>sv_conn := c\<rparr>, Inl e)
      | ((c, q), Inr _) \<Rightarrow> (s\<lparr>sv_conn := c\<rparr>, Inr q))"

definition egress_env :: "string \<Rightarrow> (string \<rightharpoonup> string)" where
  "egress_env userName = (if userName = [] then Map.empty else [''user'' \<mapsto> userName])"

definition serve_request :: "serve_env \<Rightarrow> socks_config \<Rightarrow> string \<Rightarrow> Request \<Rightarrow> serving \<Rightarrow> serving \<times> unit result" where
  "serve_request env cfg userName request s =
     (case FindAction (sc_Egress cfg) (se_intn env)
             \<lparr>in_Protocol = SOCKS5_PROXY_PROTOCOL, in_Data = rq_Raw request, in_Env = egress_env userName\<rparr> of
        Inl e \<Rightarrow> (s, Inl e)
      | Inr action \<Rightarrow>
          (case ac_Action action of
             DIRECT \<Rightarrow> wrapped ''handleRequest() failed'' (handleRequest env cfg request s)
           | PROXY \<Rightarrow>
               (case ac_Proxy action of
                  None \<Rightarrow> (s, Inl (Errorf ''egress action is PROXY but proxy info is unavailable''))
                | Some proxy \<Rightarrow> handleForwarding env request proxy s)
           | REJECT \<Rightarrow> refuse Socks5ReplyNotAllowedByRuleSet ''connection is rejected by egress rules'' s))"

definition serverServeConn :: "serve_env \<Rightarrow> socks_config \<Rightarrow> string \<Rightarrow> serving \<Rightarrow> serving \<times> unit result" where
  "serverServeConn env cfg userName s =
     sbind (if ClientSideAuthentication (sc_AuthOpts cfg) then (s, Inr ())
            else on_conn (handleAuthentication (sc_AuthOpts cfg)) s) (\<lambda>s _.
     case readRequest s of
       (s, Inl e) \<Rightarrow>
         (case (if e = ErrUnrecognizedAddrType then send_response Socks5ReplyAddrTypeNotSupported bind_nowhere s else (s, Inr ())) of
            (s, Inl e') \<Rightarrow> (s, Inl (wrap_error ''failed to send reply for addrTypeNotSupported error'' e'))
          | (s, Inr _) \<Rightarrow> (s, Inl (wrap_error ''failed to read destination address'' e)))
     | (s, Inr request) \<Rightarrow> serve_request env cfg userName request s)"

text \<open>\<open>ServeConn\<close> of a server that does not use another mieru proxy.\<close>

definition server_ServeConn :: "serve_env \<Rightarrow> socks_config \<Rightarrow> string \<Rightarrow> serving \<Rightarrow> serving \<times> unit result" where
  "server_ServeConn env cfg userName s =
     (case serverServeConn env cfg userName s of
        (s, Inl Blocked) \<Rightarrow> (s, Inl Blocked)
      | (s, r) \<Rightarrow> (s\<lparr>sv_conn := nc_Close (sv_conn s)\<rparr>, r))"

section \<open>Lemmas\<close>

text \<open>The destination that the egress controller sees is the one that was requested.\<close>

definition dest_of :: "AddrSpec \<Rightarrow> destination" where
  "dest_of a = (if as_IP a \<noteq> [] then To_IP (as_IP a) else To_Domain (as_FQDN a))"

lemma ReadFull_okD:
  "io_ReadFull n r = (r', Inr x) \<Longrightarrow> length x = n \<and> rd_in r = x @ rd_in r'"
  by (auto simp: io_ReadFull_def split: if_splits)

lemma read_host_destination:
  assumes "read_host t (r, zero_AddrSpec) = ((r', a), Inr ())"
  obtains h where "rd_in r = h @ rd_in r'" "\<And>x y z p. data_destination (x # y # z # t # h @ p) = Inr (dest_of a)"
proof -
  consider "t = Socks5IPv4Address" | "t = Socks5IPv6Address" | "t = Socks5FQDNAddress"
    using assms by (auto simp: read_host_def split: if_splits)
  then show ?thesis
  proof cases
    case 1
    with assms obtain ip where ip: "io_ReadFull 4 r = (r', Inr ip)" "a = zero_AddrSpec\<lparr>as_IP := ip\<rparr>"
      by (auto simp: read_host_def split: prod.splits sum.splits)
    show ?thesis using ReadFull_okD [OF ip(1)] ip(2) 1
      by (intro that [of ip]) (auto simp: data_destination_def go_index_def go_slice_def dest_of_def socks5_consts)
  next
    case 2
    with assms obtain ip where ip: "io_ReadFull 16 r = (r', Inr ip)" "a = zero_AddrSpec\<lparr>as_IP := ip\<rparr>"
      by (auto simp: read_host_def socks5_consts split: prod.splits sum.splits)
    show ?thesis using ReadFull_okD [OF ip(1)] ip(2) 2
      by (intro that [of ip]) (auto simp: data_destination_def go_index_def go_slice_def dest_of_def socks5_consts)
  next
    case 3
    with assms obtain r1 n d where d: "io_ReadFull 1 r = (r1, Inr n)" "io_ReadFull (unat (n ! 0)) r1 = (r', Inr d)"
        "a = zero_AddrSpec\<lparr>as_FQDN := bytes_string d\<rparr>"
      by (auto simp: read_host_def socks5_consts split: prod.splits sum.splits)
    obtain k where k: "n = [k]" using ReadFull_okD [OF d(1)] by (cases n) auto
    show ?thesis using ReadFull_okD [OF d(1)] ReadFull_okD [OF d(2)] d(3) 3 k
      by (intro that [of "k # d"]) (auto simp: data_destination_def go_index_def go_slice_def dest_of_def socks5_consts zero_AddrSpec_def)
  qed
qed

lemma read_port_destination:
  "read_port (r, a) = ((r', a'), Inr ()) \<Longrightarrow> (\<exists>p. rd_in r = p @ rd_in r') \<and> dest_of a' = dest_of a"
  by (auto simp: read_port_def dest_of_def split: prod.splits sum.splits dest!: ReadFull_okD)

lemma request_destination:
  assumes "Request_ReadFromSocks5 r zero_Request = ((r', q), Inr ())"
  obtains x t b where "rq_Raw q = Socks5Version # rq_Command q # x # t # b"
    "data_destination (rq_Raw q) = Inr (dest_of (rq_DstAddr q))"
proof -
  obtain r1 h r2 a where h: "io_ReadFull 3 r = (r1, Inr h)" "h ! 0 = Socks5Version"
      "AddrSpec_ReadFromSocks5 r1 zero_AddrSpec = ((r2, a), Inr ())"
      "q = zero_Request\<lparr>rq_Command := h ! 1, rq_DstAddr := a, rq_Raw := consumed_by r r2\<rparr>"
    using assms by (auto simp: Request_ReadFromSocks5_def Let_def zero_Request_def split: prod.splits sum.splits if_splits)
  obtain r3 t r4 a' where t: "io_ReadFull 1 r1 = (r3, Inr t)" "read_host (t ! 0) (r3, zero_AddrSpec) = ((r4, a'), Inr ())"
      "read_port (r4, a') = ((r2, a), Inr ())"
    using h(3) by (auto simp: AddrSpec_ReadFromSocks5_def sbind_def split: prod.splits sum.splits)
  obtain g where g: "rd_in r3 = g @ rd_in r4" "\<And>x y z p. data_destination (x # y # z # t ! 0 # g @ p) = Inr (dest_of a')"
    using read_host_destination [OF t(2)] by metis
  obtain p where p: "rd_in r4 = p @ rd_in r2" "dest_of a = dest_of a'" using read_port_destination [OF t(3)] by metis
  obtain x y z where xyz: "h = [x, y, z]" using ReadFull_okD [OF h(1)] by (auto simp: numeral_eq_Suc length_Suc_conv)
  obtain k where k: "t = [k]" using ReadFull_okD [OF t(1)] by (cases t) auto
  have "rd_in r = (x # y # z # k # g @ p) @ rd_in r2"
    using ReadFull_okD [OF h(1)] ReadFull_okD [OF t(1)] g(1) p(1) xyz k by simp
  then have "consumed_by r r2 = x # y # z # k # g @ p"
    unfolding consumed_by_def by (metis add_diff_cancel_right' length_append take_append_exact)
  then have "rq_Raw q = x # y # z # k # g @ p" using h(4) by simp
  moreover have "x = Socks5Version" "rq_Command q = y" "rq_DstAddr q = a" using h(2,4) xyz by simp_all
  ultimately show ?thesis using g(2) [of x y z p] p(2) k that by simp
qed

text \<open>Which addresses a user may reach, and what that says about a destination.\<close>

definition ip_permitted :: "egress_config \<Rightarrow> string \<Rightarrow> IP \<Rightarrow> bool" where
  "ip_permitted cfg userName ip \<longleftrightarrow>
     (IsPrivate ip \<or> IsLoopback ip \<longrightarrow>
       (IsLoopback ip \<and> ec_AllowLoopbackDestination cfg)
       \<or> (userName \<noteq> [] \<and> (\<exists>u. ec_Users cfg userName = Some u
            \<and> (IsPrivate ip \<and> us_AllowPrivateIP u \<or> IsLoopback ip \<and> us_AllowLoopbackIP u))))"

definition dest_permitted :: "egress_config \<Rightarrow> string \<Rightarrow> destination \<Rightarrow> bool" where
  "dest_permitted cfg userName d =
     (case d of
        To_IP ip \<Rightarrow> ip_permitted cfg userName ip
      | To_Domain n \<Rightarrow>
          (n \<in> set wellKnownIPv4LocalDomainNames \<longrightarrow> ip_permitted cfg userName (ParseIP ''127.0.0.1''))
          \<and> (n \<in> set wellKnownIPv6LocalDomainNames \<longrightarrow> ip_permitted cfg userName (ParseIP ''::1''))
      | To_Unknown \<Rightarrow> True)"

lemma check_ip_permitted: "check_ip cfg (egress_env u) ip = (if ip_permitted cfg u ip then DIRECT else REJECT)"
  by (auto simp: check_ip_def ip_permitted_def egress_env_def split: option.split)

lemma well_known_disjoint: "n \<in> set wellKnownIPv4LocalDomainNames \<Longrightarrow> n \<notin> set wellKnownIPv6LocalDomainNames"
  by (auto simp: wellKnownIPv4LocalDomainNames_def wellKnownIPv6LocalDomainNames_def)

lemma reject_permitted:
  assumes "data_destination (in_Data inp) = Inr d" "in_Env inp = egress_env u" "d \<noteq> To_Unknown"
  shows "rejectPrivateAndLoopbackIPAction cfg inp =
     Inr \<lparr>ac_Action = (if dest_permitted cfg u d then DIRECT else REJECT), ac_Proxy = None\<rparr>"
  using assms well_known_disjoint
  by (auto simp: rejectPrivateAndLoopbackIPAction_def check_ip_permitted dest_permitted_def direct_def split: destination.split)

lemma dest_of_known: "dest_of a \<noteq> To_Unknown"
  by (simp add: dest_of_def)

text \<open>A destination that the user may not reach is refused.\<close>

lemma serve_request_refused:
  assumes "Request_ReadFromSocks5 r zero_Request = ((r', q), Inr ())"
    and "rq_Command q = Socks5ConnectCmd \<or> rq_Command q = Socks5UDPAssociateCmd"
    and "\<not> dest_permitted (sc_Egress cfg) u (dest_of (rq_DstAddr q))"
  shows "serve_request env cfg u q s = refuse Socks5ReplyNotAllowedByRuleSet ''connection is rejected by egress rules'' s"
proof -
  obtain x t b where b: "rq_Raw q = Socks5Version # rq_Command q # x # t # b"
      "data_destination (rq_Raw q) = Inr (dest_of (rq_DstAddr q))"
    using request_destination [OF assms(1)] by metis
  show ?thesis using assms(2,3) b(1) reject_permitted [OF _ _ dest_of_known, of _ "rq_DstAddr q" u "sc_Egress cfg"] b(2)
    by (simp add: serve_request_def FindAction_def)
qed

section \<open>What leaves the server\<close>

lemma on_conn_effects [simp]:
  "sv_dialed (fst (on_conn f s)) = sv_dialed s" "sv_listened (fst (on_conn f s)) = sv_listened s"
  by (simp_all add: on_conn_def split: prod.split)

lemma send_response_effects [simp]:
  "sv_dialed (fst (send_response reply bind s)) = sv_dialed s" "sv_listened (fst (send_response reply bind s)) = sv_listened s"
  by (simp_all add: send_response_def)

lemma sbind_field:
  assumes "F (fst m) = y" "\<And>s x. m = (s, Inr x) \<Longrightarrow> F (fst (f s x)) = y"
  shows "F (fst (sbind m f)) = y"
  using assms by (auto simp: sbind_def split: prod.splits sum.splits)

lemma refuse_effects [simp]:
  "sv_dialed (fst (refuse reply msg s)) = sv_dialed s" "sv_listened (fst (refuse reply msg s)) = sv_listened s"
  unfolding refuse_def
  by (rule sbind_field, simp, metis fst_conv send_response_effects)+

lemma wrapped_fst [simp]: "fst (wrapped msg m) = fst m"
  by (simp add: wrapped_def)

lemma open_socket_dialed [simp]: "sv_dialed (fst (open_socket env cfg s)) = sv_dialed s"
  by (simp add: open_socket_def listen_udp_def split: sum.split)

lemma handleAssociate_dialed [simp]: "sv_dialed (fst (handleAssociate env cfg s)) = sv_dialed s"
proof -
  have s: "sv_dialed s' = sv_dialed s" if "open_socket env cfg s = (s', x)" for s' x using open_socket_dialed [of env cfg s] that by simp
  have r: "sv_dialed s'' = sv_dialed s'" if "send_response c b s' = (s'', x)" for c b s' s'' x
    using send_response_effects(1) [of c b s'] that by simp
  show ?thesis
    by (auto simp: handleAssociate_def handleAssociatePacketOverStream_def handleAssociateDatagram_def sbind_def Let_def
        split: prod.splits sum.splits dest!: s r)
qed

lemma handleConnect_dialed [simp]:
  "sv_dialed (fst (handleConnect env q s)) = sv_dialed s @ [AddrSpec_String (rq_DstAddr q)]"
proof -
  have r: "sv_dialed s'' = sv_dialed s'" if "send_response c b s' = (s'', x)" for c b s' s'' x
    using send_response_effects(1) [of c b s'] that by simp
  show ?thesis
    by (auto simp: handleConnect_def Let_def split: dial_outcome.split prod.split sum.split go_error.split dest!: r)
qed

lemma forwarding_dialed [simp]:
  "sv_dialed (fst (on_target f s)) = sv_dialed s" "sv_dialed (close_target s) = sv_dialed s"
  "sv_dialed (fst (relay_forwarded env d s)) = sv_dialed s" "sv_dialed (fst (listen_v4 env s)) = sv_dialed s"
  by (auto simp: on_target_def close_target_def relay_forwarded_def listen_v4_def listen_udp_def Let_def sbind_def wrapped_def
      split: prod.split option.split sum.split)

lemma forward_response_dialed [simp]: "sv_dialed (fst (forward_response env remote h b s)) = sv_dialed s"
proof -
  have l: "sv_dialed s' = sv_dialed s" if "listen_v4 env s = (s', x)" for s' x using forwarding_dialed(4) [of env s] that by simp
  have c: "sv_dialed s'' = sv_dialed s'" if "on_conn f s' = (s'', x)" for f :: "conn \<Rightarrow> conn \<times> unit result" and s' s'' x
    using on_conn_effects(1) [of f s'] that by simp
  show ?thesis by (auto simp: forward_response_def Let_def split: sum.split prod.split dest!: l c)
qed

lemma on_target_eq: "on_target f s = (s', x) \<Longrightarrow> sv_dialed s' = sv_dialed s"
  by (metis forwarding_dialed(1) fst_conv)

lemma handleForwardingUDP_dialed [simp]: "sv_dialed (fst (handleForwardingUDP env remote q s)) = sv_dialed s"
  by (auto simp: handleForwardingUDP_def sbind_def split: prod.split sum.split dest!: on_target_eq)

lemma handleForwarding_dialed:
  "sv_dialed (fst (handleForwarding env q p s)) = sv_dialed s @ [MaybeDecorateIPv6 (ep_Host p) @ '':'' @ Itoa (ep_Port p)]"
  by (auto simp: handleForwarding_def Let_def sbind_def split: dial_outcome.split prod.split sum.split option.split dest!: on_target_eq)

text \<open>Whom a request may make the server connect to: its destination, resolved if need be, or a configured proxy.\<close>

definition dial_allowed :: "socks_config \<Rightarrow> Request \<Rightarrow> string \<Rightarrow> bool" where
  "dial_allowed cfg q x \<longleftrightarrow>
     (\<exists>ip. x = AddrSpec_String ((rq_DstAddr q)\<lparr>as_IP := ip\<rparr>)
        \<and> (if as_FQDN (rq_DstAddr q) = [] then ip = as_IP (rq_DstAddr q)
           else \<exists>ips. sc_resolver cfg ''ip'' (as_FQDN (rq_DstAddr q)) = Inr ips \<and> ip \<in> set ips))
   \<or> (\<exists>p \<in> set (ec_Proxies (sc_Egress cfg)). x = MaybeDecorateIPv6 (ep_Host p) @ '':'' @ Itoa (ep_Port p))"

lemma handle_command_dialed:
  "x \<in> set (sv_dialed (fst (handle_command env cfg q s))) \<Longrightarrow> x \<in> set (sv_dialed s) \<or> x = AddrSpec_String (rq_DstAddr q)"
  by (auto simp: handle_command_def handleBind_def split: if_splits)

lemma handle_command_other:
  assumes "rq_Command q \<noteq> Socks5ConnectCmd" "rq_Command q \<noteq> Socks5UDPAssociateCmd"
  shows "sv_dialed (fst (handle_command env cfg q s)) = sv_dialed s" "sv_listened (fst (handle_command env cfg q s)) = sv_listened s"
  using assms by (simp_all add: handle_command_def handleBind_def)

lemma handleRequest_cases:
  obtains (command) ip where "handleRequest env cfg q s = handle_command env cfg (q\<lparr>rq_DstAddr := (rq_DstAddr q)\<lparr>as_IP := ip\<rparr>\<rparr>) s"
      "if as_FQDN (rq_DstAddr q) = [] then ip = as_IP (rq_DstAddr q)
       else \<exists>ips. sc_resolver cfg ''ip'' (as_FQDN (rq_DstAddr q)) = Inr ips \<and> ip \<in> set ips"
  | (refused) reply msg where "handleRequest env cfg q s = refuse reply msg s"
  | (panic) m where "handleRequest env cfg q s = (s, Inl (Panic m))"
proof (cases "as_FQDN (rq_DstAddr q) = []")
  case True
  then show ?thesis by (intro command [of "as_IP (rq_DstAddr q)"]) (simp_all add: handleRequest_def Let_def)
next
  case False
  show ?thesis
  proof (cases "sc_resolver cfg ''ip'' (as_FQDN (rq_DstAddr q))")
    case (Inl e)
    with False show ?thesis by (cases e) (auto simp: handleRequest_def Let_def intro: refused panic)
  next
    case (Inr ips)
    show ?thesis
    proof (cases "SelectIPFromList ips (sc_DualStackPreference cfg)")
      case None
      with False Inr show ?thesis by (cases "ips = []") (auto simp: handleRequest_def Let_def intro: refused)
    next
      case (Some ip)
      then have "ip \<in> set ips" by (rule SelectIPFromList_mem)
      then show ?thesis using False Inr Some by (intro command [of ip]) (auto simp: handleRequest_def Let_def)
    qed
  qed
qed

lemma handleRequest_dialed:
  assumes "x \<in> set (sv_dialed (fst (handleRequest env cfg q s)))"
  shows "x \<in> set (sv_dialed s) \<or> dial_allowed cfg q x"
proof (cases rule: handleRequest_cases [of env cfg q s])
  case (command ip)
  then have "x \<in> set (sv_dialed s) \<or> x = AddrSpec_String ((rq_DstAddr q)\<lparr>as_IP := ip\<rparr>)"
    using assms handle_command_dialed by fastforce
  then show ?thesis using command(2) unfolding dial_allowed_def by blast
qed (use assms in simp_all)

lemma handleRequest_other:
  assumes "rq_Command q \<noteq> Socks5ConnectCmd" "rq_Command q \<noteq> Socks5UDPAssociateCmd"
  shows "sv_dialed (fst (handleRequest env cfg q s)) = sv_dialed s" "sv_listened (fst (handleRequest env cfg q s)) = sv_listened s"
  by (cases rule: handleRequest_cases [of env cfg q s]; simp add: handle_command_other assms)+

lemma find_mem: "find P xs = Some x \<Longrightarrow> x \<in> set xs"
  by (auto simp: find_Some_iff)

lemma FindAction_proxy:
  assumes "FindAction cfg intn inp = Inr a" "ac_Proxy a = Some p"
  shows "p \<in> set (ec_Proxies cfg)"
proof -
  have f: "p \<in> set (ec_Proxies cfg)" if "forwardToProxyAction cfg intn inp = Inr a"
  proof (cases "data_destination (in_Data inp)")
    case (Inr d)
    then have "rule_action cfg intn rule = a \<Longrightarrow> ?thesis" for rule using assms(2)
      by (auto simp: rule_action_def Let_def split: if_splits dest: find_mem)
    then show ?thesis using that Inr assms(2)
      by (auto simp: forwardToProxyAction_def direct_def split: destination.splits option.splits)
  qed (use that in \<open>simp add: forwardToProxyAction_def\<close>)
  show ?thesis
  proof (cases "rejectPrivateAndLoopbackIPAction cfg inp")
    case (Inr b)
    then have "ac_Proxy b = None"
      by (auto simp: rejectPrivateAndLoopbackIPAction_def rbind_def Let_def direct_def split: sum.splits destination.splits if_splits)
    then show ?thesis using assms Inr f by (auto simp: FindAction_def direct_def split: if_splits)
  qed (use assms in \<open>auto simp: FindAction_def direct_def split: if_splits\<close>)
qed

lemma serve_request_dialed:
  assumes "x \<in> set (sv_dialed (fst (serve_request env cfg u q s)))"
  shows "x \<in> set (sv_dialed s) \<or> dial_allowed cfg q x"
  using assms FindAction_proxy [of "sc_Egress cfg" "se_intn env"]
  by (auto simp: serve_request_def handleForwarding_dialed split: sum.splits EgressAction.splits option.splits dest: handleRequest_dialed)
     (auto simp: dial_allowed_def)

lemma serve_request_other:
  assumes "Request_ReadFromSocks5 r zero_Request = ((r', q), Inr ())"
    and "rq_Command q \<noteq> Socks5ConnectCmd" "rq_Command q \<noteq> Socks5UDPAssociateCmd"
  shows "sv_dialed (fst (serve_request env cfg u q s)) = sv_dialed s" "sv_listened (fst (serve_request env cfg u q s)) = sv_listened s"
proof -
  obtain x t b where "rq_Raw q = Socks5Version # rq_Command q # x # t # b" using request_destination [OF assms(1)] by metis
  then have "serve_request env cfg u q s = wrapped ''handleRequest() failed'' (handleRequest env cfg q s)"
    using assms(2,3) by (simp add: serve_request_def FindAction_def direct_def)
  then show "sv_dialed (fst (serve_request env cfg u q s)) = sv_dialed s" "sv_listened (fst (serve_request env cfg u q s)) = sv_listened s"
    using handleRequest_other [OF assms(2,3)] by simp_all
qed

section \<open>Properties\<close>

definition authenticated :: "socks_config \<Rightarrow> conn \<Rightarrow> conn \<Rightarrow> bool" where
  "authenticated cfg c c' \<longleftrightarrow>
     (if ClientSideAuthentication (sc_AuthOpts cfg) then c' = c
      else handleAuthentication (sc_AuthOpts cfg) c = (c', Inr ()))"

text \<open>
  C11. Nothing leaves the server without permission: if serving a connection dials an address or opens a socket, then the
  client has been authenticated, its request is a connect or an associate request, and its destination is permitted to the
  user: an IP address in the request that is private or loopback, or a well-known name of the local machine, is
  permitted only if the configuration allows it to this user. What is dialed is the destination of the request,
  with an address to which its domain name resolves, or a configured proxy.
\<close>

theorem egress_gate:
  assumes "serverServeConn env cfg userName (new_serving c) = (s, r)" "sv_dialed s \<noteq> [] \<or> sv_listened s \<noteq> []"
  shows "\<exists>c' c'' q. authenticated cfg c c' \<and> Request_ReadFromSocks5 c' zero_Request = ((c'', q), Inr ())
     \<and> (rq_Command q = Socks5ConnectCmd \<or> rq_Command q = Socks5UDPAssociateCmd)
     \<and> dest_permitted (sc_Egress cfg) userName (dest_of (rq_DstAddr q))
     \<and> (\<forall>x \<in> set (sv_dialed s). dial_allowed cfg q x)"
proof -
  let ?a = "if ClientSideAuthentication (sc_AuthOpts cfg) then (new_serving c, Inr ())
            else on_conn (handleAuthentication (sc_AuthOpts cfg)) (new_serving c)"
  have n: "sv_dialed (new_serving c) = []" "sv_listened (new_serving c) = []" "sv_conn (new_serving c) = c"
    by (simp_all add: new_serving_def)
  obtain s1 ra where a: "?a = (s1, ra)" by (metis surj_pair)
  have s1: "sv_dialed s1 = []" "sv_listened s1 = []" using a n by (auto split: if_splits) (metis fst_conv on_conn_effects)+
  obtain s2 rq where rq: "readRequest s1 = (s2, rq)" by (metis surj_pair)
  have s2: "sv_dialed s2 = []" "sv_listened s2 = []"
    using rq s1 by (auto simp: readRequest_def split: prod.splits sum.splits)
  have err: "sv_dialed s3 = []" "sv_listened s3 = []" if "send_response k b s2 = (s3, x)" for k b s3 x
    using send_response_effects [of k b s2] s2 that by simp_all
  have ra: "ra = Inr ()" using assms a s1 by (cases ra) (auto simp: serverServeConn_def)
  have "\<exists>q. rq = Inr q"
    using assms a ra rq s2 err by (cases rq) (auto simp: serverServeConn_def split: prod.splits sum.splits if_splits)
  then obtain q where q: "rq = Inr q" ..
  have sq: "serve_request env cfg userName q s2 = (s, r)" using assms(1) a ra rq q by (simp add: serverServeConn_def)
  obtain c'' where c'': "Request_ReadFromSocks5 (sv_conn s1) zero_Request = ((c'', q), Inr ())"
    using rq q by (auto simp: readRequest_def split: prod.splits sum.splits)
  have cmd: "rq_Command q = Socks5ConnectCmd \<or> rq_Command q = Socks5UDPAssociateCmd"
    using serve_request_other [OF c'', of env cfg userName s2] sq assms(2) s2 by auto
  have perm: "dest_permitted (sc_Egress cfg) userName (dest_of (rq_DstAddr q))"
    using serve_request_refused [OF c'' cmd, of cfg userName env s2] refuse_effects [of _ _ s2] sq assms(2) s2 by (metis fst_conv)
  have "authenticated cfg c (sv_conn s1)" using a ra n by (auto simp: authenticated_def on_conn_def split: if_splits prod.splits)
  moreover have "\<forall>x \<in> set (sv_dialed s). dial_allowed cfg q x"
    using serve_request_dialed [of _ env cfg userName q s2] sq s2 by simp
  ultimately show ?thesis using c'' cmd perm by blast
qed

text \<open>
  C33. The permission is not checked again after name resolution: a connect request for a domain name other than the
  well-known local ones makes a server without rules dial whatever address the name resolves to, for every user
  and also if the address is private or loopback.
\<close>

theorem resolved_address_unchecked:
  assumes "ClientSideAuthentication (sc_AuthOpts cfg)" "ec_Rules (sc_Egress cfg) = []" "sc_DualStackPreference cfg = USE_FIRST_IP"
    and "Request_ReadFromSocks5 c zero_Request = ((c', q), Inr ())" "rq_Command q = Socks5ConnectCmd"
    and "as_IP (rq_DstAddr q) = []" "as_FQDN (rq_DstAddr q) \<noteq> []"
    and "as_FQDN (rq_DstAddr q) \<notin> set wellKnownIPv4LocalDomainNames" "as_FQDN (rq_DstAddr q) \<notin> set wellKnownIPv6LocalDomainNames"
    and "sc_resolver cfg ''ip'' (as_FQDN (rq_DstAddr q)) = Inr [ip]"
  shows "sv_dialed (fst (serverServeConn env cfg userName (new_serving c))) = [AddrSpec_String ((rq_DstAddr q)\<lparr>as_IP := ip\<rparr>)]"
proof -
  obtain x t b where b: "rq_Raw q = Socks5Version # rq_Command q # x # t # b"
      "data_destination (rq_Raw q) = Inr (dest_of (rq_DstAddr q))"
    using request_destination [OF assms(4)] by metis
  have d: "dest_of (rq_DstAddr q) = To_Domain (as_FQDN (rq_DstAddr q))" using assms(6) by (simp add: dest_of_def)
  let ?s = "(new_serving c)\<lparr>sv_conn := c'\<rparr>"
  have "FindAction (sc_Egress cfg) (se_intn env) \<lparr>in_Protocol = SOCKS5_PROXY_PROTOCOL, in_Data = rq_Raw q, in_Env = egress_env userName\<rparr> = Inr direct"
    using b(1) reject_permitted [OF _ _ dest_of_known, of _ "rq_DstAddr q" userName "sc_Egress cfg"] b(2) d assms(2,5,8,9)
    by (simp add: FindAction_def dest_permitted_def forwardToProxyAction_def)
  then have "serve_request env cfg userName q ?s = wrapped ''handleRequest() failed'' (handleRequest env cfg q ?s)"
    by (simp add: serve_request_def direct_def)
  moreover have "handleRequest env cfg q ?s = handleConnect env (q\<lparr>rq_DstAddr := (rq_DstAddr q)\<lparr>as_IP := ip\<rparr>\<rparr>) ?s"
    using assms(3,5,7,10) by (simp add: handleRequest_def Let_def SelectIPFromList_def handle_command_def)
  moreover have "serverServeConn env cfg userName (new_serving c) = serve_request env cfg userName q ?s"
    using assms(1,4) by (simp add: serverServeConn_def readRequest_def new_serving_def)
  ultimately show ?thesis by (simp add: new_serving_def)
qed

section \<open>Witnesses\<close>

definition some_serve_env :: serve_env where
  "some_serve_env =
     \<lparr>se_dial = (\<lambda>_. DialError ''connection refused''), se_listen = (\<lambda>_. Inl (Errorf ''no socket'')), se_localAddr = None, se_dualStack = False,
      se_intn = (\<lambda>_. 0), se_copy = (True, 0), se_writable = (\<lambda>_ _. True), se_sameType = (=), se_relayEvents = [],
      se_forwardEvents = [], se_datagrams = [], se_socketEnd = EOF\<rparr>"

definition some_socks_config :: socks_config where
  "some_socks_config =
     \<lparr>sc_AuthOpts = \<lparr>ClientSideAuthentication = True, IngressCredentials = [], EgressCredential = None\<rparr>, sc_HandshakeTimeout = 0,
      sc_UseProxy = False, sc_HasDialer = False, sc_Resolver = Some (\<lambda>_ _. Inr [[127, 0, 0, 1]]),
      sc_UDPAssociateMode = UDPAssociateModePacketOverStream,
      sc_Egress = \<lparr>ec_Users = Map.empty, ec_Rules = [], ec_Proxies = [], ec_AllowLoopbackDestination = False\<rparr>,
      sc_DualStackPreference = USE_FIRST_IP, sc_HandshakeNoWait = False\<rparr>"

lemma some_request_read:
  "Request_ReadFromSocks5 (some_conn [5, 1, 0, 1, 192, 0, 2, 1, 0, 80]) zero_Request =
     ((some_conn [], \<lparr>rq_Command = 1, rq_DstAddr = \<lparr>as_FQDN = [], as_IP = [192, 0, 2, 1], as_Port = 80\<rparr>,
       rq_Raw = [5, 1, 0, 1, 192, 0, 2, 1, 0, 80]\<rparr>), Inr ())"
  "Request_ReadFromSocks5 (some_conn [5, 1, 0, 3, 3, 97, 46, 98, 0, 80]) zero_Request =
     ((some_conn [], \<lparr>rq_Command = 1, rq_DstAddr = \<lparr>as_FQDN = bytes_string [97, 46, 98], as_IP = [], as_Port = 80\<rparr>,
       rq_Raw = [5, 1, 0, 3, 3, 97, 46, 98, 0, 80]\<rparr>), Inr ())"
  by (simp_all add: Request_ReadFromSocks5_def AddrSpec_ReadFromSocks5_def read_host_def read_port_def some_conn_def zero_Request_def
      zero_AddrSpec_def io_ReadFull_def consumed_by_def socks5_consts)

theorem egress_gate_witness:
  "let s = fst (serverServeConn some_serve_env some_socks_config [] (new_serving (some_conn [5, 1, 0, 1, 192, 0, 2, 1, 0, 80])))
   in sv_dialed s \<noteq> [] \<and> (\<exists>q. dest_permitted (sc_Egress some_socks_config) [] (dest_of (rq_DstAddr q))
        \<and> (\<forall>x \<in> set (sv_dialed s). dial_allowed some_socks_config q x))"
proof -
  let ?c = "some_conn [5, 1, 0, 1, 192, 0, 2, 1, 0, 80]"
  let ?r = "serverServeConn some_serve_env some_socks_config [] (new_serving ?c)"
  have "sv_dialed (fst ?r) \<noteq> []"
    by (simp add: serverServeConn_def readRequest_def new_serving_def some_request_read some_socks_config_def serve_request_def FindAction_def
        rejectPrivateAndLoopbackIPAction_def data_destination_def go_index_def go_slice_def check_ip_def IsPrivate_def IsLoopback_def To4_def
        forwardToProxyAction_def direct_def handleRequest_def handle_command_def socks5_consts)
  then show ?thesis
    using egress_gate [of some_serve_env some_socks_config "[]" ?c "fst ?r" "snd ?r"] by auto
qed

theorem resolved_address_unchecked_witness:
  "sv_dialed (fst (serverServeConn some_serve_env some_socks_config [] (new_serving (some_conn [5, 1, 0, 3, 3, 97, 46, 98, 0, 80]))))
     = [''127.0.0.1:80'']
   \<and> \<not> ip_permitted (sc_Egress some_socks_config) [] [127, 0, 0, 1]"
proof -
  have n: "bytes_string [97, 46, 98] \<notin> set wellKnownIPv4LocalDomainNames" "bytes_string [97, 46, 98] \<notin> set wellKnownIPv6LocalDomainNames"
    by (auto simp: bytes_string_def wellKnownIPv4LocalDomainNames_def wellKnownIPv6LocalDomainNames_def dest: arg_cong [of _ _ length])
  have ch: "char_of (48 :: nat) = CHR ''0''" "char_of (49 :: nat) = CHR ''1''" "char_of (50 :: nat) = CHR ''2''"
      "char_of (55 :: nat) = CHR ''7''" "char_of (56 :: nat) = CHR ''8''"
    by code_simp+
  have s: "AddrSpec_String \<lparr>as_FQDN = x, as_IP = [127, 0, 0, 1], as_Port = 80\<rparr> = ''127.0.0.1:80''" for x
    by (simp add: AddrSpec_String_def JoinHostPort_def ip_String_def To4_def Itoa_def nat_digits.simps ch)
  show ?thesis
    using resolved_address_unchecked [OF _ _ _ some_request_read(2), of some_socks_config "[127, 0, 0, 1]" some_serve_env "[]"] n s
    by (simp add: some_socks_config_def sc_resolver_def socks5_consts ip_permitted_def IsLoopback_def IsPrivate_def To4_def bytes_string_def)
qed

end
