(* ===== verification/SocksClient.thy ===== *)
theory SocksClient
  imports SocksServer
begin

text \<open>
  How a proxy client handles a connection of an application (\<open>proxySocks5AuthReq\<close> and \<open>proxySocks5ConnReq\<close> of
  \<open>src/pkg/socks5/request.go\<close>, \<open>clientServeConn\<close> of \<open>src/pkg/socks5/socks5.go\<close>, \<open>src/pkg/socks5/copy.go\<close>). The state is the one of the
  server; its target is the connection to the proxy server.
\<close>

section \<open>Relaying the handshake\<close>

definition proxySocks5AuthReq :: "serving \<Rightarrow> serving \<times> unit result" where
  "proxySocks5AuthReq s =
     sbind (on_conn (\<lambda>c. wrapped ''failed to get version byte'' (io_ReadFull 1 c)) s) (\<lambda>s version.
     if version ! 0 \<noteq> Socks5Version then (s, Inl (Errorf ''unsupported SOCKS version''))
     else
       sbind (on_conn (\<lambda>c. wrapped ''failed to get the length of authentication methods'' (io_ReadFull 1 c)) s) (\<lambda>s nMethods.
       sbind (on_conn (\<lambda>c. wrapped ''failed to get authentication methods'' (io_ReadFull (unat (nMethods ! 0)) c)) s) (\<lambda>s methods.
       sbind (on_target (\<lambda>p. wrapped ''failed to write authentication request to the server'' (nc_Write (version @ nMethods @ methods) p)) s) (\<lambda>s _.
       sbind (on_target (\<lambda>p. wrapped ''failed to read authentication response from the socks5 server'' (io_ReadFull 2 p)) s) (\<lambda>s authResp.
       on_conn (\<lambda>c. wrapped ''failed to write authentication response to the socks5 client'' (nc_Write authResp c)) s)))))"

text \<open>A message with an address: a request of the application or a response of the server.\<close>

definition read_message :: "'z reader_scheme \<Rightarrow> 'z reader_scheme \<times> bytes result" where
  "read_message c =
     sbind (wrapped ''failed to get socks5 message'' (io_ReadFull 4 c)) (\<lambda>c header.
     sbind (read_addr_bytes header c) (\<lambda>c (m, b). (c, Inr (m @ b))))"

text \<open>
  \<open>proxySocks5ConnReq\<close> returns whether there is a socket for datagrams, and the request that is still to be
  sent. \<open>remote\<close> is the address of the proxy server.
\<close>

definition fake_response :: "net_addr \<Rightarrow> bytes result" where
  "fake_response remote =
     (case NetAddrSpec_From remote zero_NetAddrSpec of
        (_, Inl e) \<Rightarrow> Inl (wrap_error ''failed to get proxy connection address'' e)
      | (a, Inr _) \<Rightarrow>
          (case AddrSpec_WriteToSocks5 buffer_Write (AddrSpec.truncate a) [Socks5Version, Socks5ReplySuccess, 0] of
             (_, Inl e) \<Rightarrow> Inl (wrap_error ''failed to write proxy connection address'' e)
           | (resp, Inr _) \<Rightarrow> Inr resp))"

definition finish_response :: "serve_env \<Rightarrow> u8 \<Rightarrow> bytes \<Rightarrow> serving \<Rightarrow> serving \<times> (bool \<times> bytes) result" where
  "finish_response env cmd connResp s =
     (let respond = (\<lambda>b udp s. sbind (on_conn (\<lambda>c. wrapped ''failed to write connection response to the socks5 client'' (nc_Write b c)) s)
                       (\<lambda>s _. (s, Inr (udp, []))))
      in if cmd = Socks5UDPAssociateCmd
         then sbind (listen_v4 env s) (\<lambda>s udpPort. respond (rewrite_port udpPort connResp) True s)
         else respond connResp False s)"

definition proxySocks5ConnReq :: "serve_env \<Rightarrow> socks_config \<Rightarrow> net_addr \<Rightarrow> serving \<Rightarrow> serving \<times> (bool \<times> bytes) result" where
  "proxySocks5ConnReq env cfg remote s =
     sbind (on_conn read_message s) (\<lambda>s connReq.
     let cmd = connReq ! 1
     in if sc_HandshakeNoWait cfg \<and> cmd = Socks5ConnectCmd
        then (case fake_response remote of
                Inl e \<Rightarrow> (s, Inl e)
              | Inr resp \<Rightarrow>
                  sbind (on_conn (\<lambda>c. wrapped ''failed to write fake connection response to the socks5 client'' (nc_Write resp c)) s)
                    (\<lambda>s _. (s, Inr (False, connReq))))
        else
          sbind (on_target (\<lambda>p. wrapped ''failed to write connection request to the server'' (nc_Write connReq p)) s) (\<lambda>s _.
          sbind (on_target read_message s) (\<lambda>s connResp.
          finish_response env cmd connResp s)))"

section \<open>Copying\<close>

text \<open>
  \<open>BidiCopySocks5\<close>: the first goroutine sends the pending request with the first bytes of the application, the
  second drops the response of the server. \<open>k\<close> is what the first read of the application returns at most, and the schedule is
  the one of \<open>BidiCopy\<close>.
\<close>

definition copy_up :: "nat \<Rightarrow> bytes \<Rightarrow> conn \<Rightarrow> conn \<Rightarrow> (conn \<times> conn) \<times> unit result" where
  "copy_up k pendingReq c p =
     (if cn_closed c then ((nc_Close p, c), Inl (Errorf ''failed to read connection request from the client''))
      else if rd_in c = []
      then (if rd_end c = Blocked then ((p, c), Inl Blocked)
            else ((nc_Close p, c), Inl (Errorf ''failed to read connection request from the client'')))
      else
        let n = min (65536 - length pendingReq) (Suc k)
        in (case nc_Write (pendingReq @ take n (rd_in c)) p of
              (p, Inl e) \<Rightarrow> ((nc_Close p, c\<lparr>rd_in := drop n (rd_in c)\<rparr>), Inl (wrap_error ''failed to write connection request to the server'' e))
            | (p, Inr _) \<Rightarrow>
                (case io_Copy p (c\<lparr>rd_in := drop n (rd_in c)\<rparr>) of
                   ((p, c), r) \<Rightarrow> ((if r = Inl Blocked then p else nc_Close p, c), r))))"

definition copy_down :: "conn \<Rightarrow> conn \<Rightarrow> (conn \<times> conn) \<times> unit result" where
  "copy_down c p =
     (if cn_closed p then ((nc_Close c, p), Inl (Errorf ''failed to read connection response from the server''))
      else (case read_message p of
              (p, Inl e) \<Rightarrow> ((if e = Blocked then c else nc_Close c, p), Inl e)
            | (p, Inr connResp) \<Rightarrow>
                (case io_Copy c p of ((c, p), r) \<Rightarrow> ((if r = Inl Blocked then c else nc_Close c, p), r))))"

definition BidiCopySocks5 :: "bool \<Rightarrow> nat \<Rightarrow> bytes \<Rightarrow> conn \<Rightarrow> conn \<Rightarrow> (conn \<times> conn) \<times> unit result" where
  "BidiCopySocks5 upFirst k pendingReq c p =
     (if upFirst
      then (case copy_up k pendingReq c p of
              ((p, c), r) \<Rightarrow>
                if r = Inl Blocked then ((c, p), r)
                else (case copy_down c p of ((c, p), _) \<Rightarrow> ((c, p), r)))
      else (case copy_down c p of
              ((c, p), r) \<Rightarrow>
                if r = Inl Blocked then ((c, p), r)
                else (case copy_up k pendingReq c p of ((p, c), _) \<Rightarrow> ((c, p), r))))"

text \<open>
  \<open>BidiCopyUDP\<close> between a socket and a tunnel. A run is a list of events; the socket and the tunnel are closed when the
  first goroutine is done, and the function returns nil when both are.
\<close>

record udp_copy =
  uc_addr :: "UDPAddr option"
  uc_tunnel :: conn
  uc_sent :: "(bytes \<times> UDPAddr) list"
  uc_closed :: bool
  uc_upDone :: bool
  uc_downDone :: bool

datatype copy_event = CopyUp bytes UDPAddr | CopyUpFails | CopyDown

definition copy_stop_up :: "udp_copy \<Rightarrow> udp_copy" where
  "copy_stop_up s = s\<lparr>uc_upDone := True, uc_closed := True, uc_tunnel := nc_Close (uc_tunnel s)\<rparr>"

definition copy_stop_down :: "udp_copy \<Rightarrow> udp_copy" where
  "copy_stop_down s = s\<lparr>uc_downDone := True, uc_closed := True, uc_tunnel := nc_Close (uc_tunnel s)\<rparr>"

fun copy_event_step :: "(bytes \<Rightarrow> UDPAddr \<Rightarrow> bool) \<Rightarrow> copy_event \<Rightarrow> udp_copy \<Rightarrow> udp_copy" where
  "copy_event_step writable (CopyUp b a) s =
     (if uc_upDone s \<or> uc_closed s then s
      else
        let s' = (case uc_addr s of None \<Rightarrow> s\<lparr>uc_addr := Some a\<rparr> | Some _ \<Rightarrow> s)
        in if (case uc_addr s of None \<Rightarrow> False | Some a' \<Rightarrow> udp_key a' \<noteq> udp_key a) then copy_stop_up s
           else (case tunnel_Write b (uc_tunnel s') of
                   (t, Inl e) \<Rightarrow> copy_stop_up (s'\<lparr>uc_tunnel := t\<rparr>)
                 | (t, Inr _) \<Rightarrow> s'\<lparr>uc_tunnel := t\<rparr>))"
| "copy_event_step writable CopyUpFails s = (if uc_upDone s then s else copy_stop_up s)"
| "copy_event_step writable CopyDown s =
     (if uc_downDone s then s
      else if cn_closed (uc_tunnel s) then copy_stop_down s
      else (case tunnel_Read (replicate 65536 0) (uc_tunnel s) of
              ((t, _), Inl e) \<Rightarrow> if e = Blocked then s\<lparr>uc_tunnel := t\<rparr> else copy_stop_down (s\<lparr>uc_tunnel := t\<rparr>)
            | ((t, buf), Inr n) \<Rightarrow>
                let s = s\<lparr>uc_tunnel := t\<rparr>
                in (case uc_addr s of
                      None \<Rightarrow> copy_stop_down s
                    | Some a \<Rightarrow>
                        if uc_closed s \<or> \<not> writable (take n buf) a then copy_stop_down s
                        else s\<lparr>uc_sent := uc_sent s @ [(take n buf, a)]\<rparr>)))"

definition new_udp_copy :: "conn \<Rightarrow> udp_copy" where
  "new_udp_copy t = \<lparr>uc_addr = None, uc_tunnel = t, uc_sent = [], uc_closed = False, uc_upDone = False, uc_downDone = False\<rparr>"

definition BidiCopyUDP :: "(bytes \<Rightarrow> UDPAddr \<Rightarrow> bool) \<Rightarrow> copy_event list \<Rightarrow> conn \<Rightarrow> udp_copy \<times> unit result" where
  "BidiCopyUDP writable evs t =
     (let s = fold (copy_event_step writable) evs (new_udp_copy t)
      in (s, if uc_upDone s \<and> uc_downDone s then Inr () else Inl Blocked))"

section \<open>A connection\<close>

text \<open>A failed step of the handshake closes the connection to the server.\<close>

definition closing :: "serving \<times> 'a result \<Rightarrow> serving \<times> 'a result" where
  "closing m =
     (case m of
        (s, Inl e) \<Rightarrow> ((if e = Blocked then s else close_target s), Inl e)
      | (s, Inr x) \<Rightarrow> (s, Inr x))"

text \<open>\<open>ce_dialed\<close> is what the proxy dialer returns: a connection and the address of the server.\<close>

record client_env = serve_env +
  ce_dialed :: "(conn \<times> net_addr) result"
  ce_firstRead :: nat
  ce_copyEvents :: "copy_event list"

definition clientServeConn :: "client_env \<Rightarrow> socks_config \<Rightarrow> serving \<Rightarrow> serving \<times> unit result" where
  "clientServeConn env cfg s =
     (let senv = serve_env.truncate env in
      sbind (if ClientSideAuthentication (sc_AuthOpts cfg) then on_conn (handleAuthentication (sc_AuthOpts cfg)) s else (s, Inr ())) (\<lambda>s _.
      case ce_dialed env of
        Inl e \<Rightarrow> (s, Inl (wrap_error ''proxy dialer DialContext() failed'' e))
      | Inr (p, remote) \<Rightarrow>
          let s = s\<lparr>sv_target := Some p\<rparr>
          in sbind (if ClientSideAuthentication (sc_AuthOpts cfg) then (s, Inr ())
                    else closing (proxySocks5AuthReq s)) (\<lambda>s _.
             sbind (closing (proxySocks5ConnReq senv cfg remote s)) (\<lambda>s (udp, pendingConnReq).
             case sv_target s of
               None \<Rightarrow> (s, Inl (Panic ''nil pointer dereference''))
             | Some p \<Rightarrow>
                 if \<not> udp
                 then (case (if sc_HandshakeNoWait cfg then BidiCopySocks5 (fst (se_copy env)) (ce_firstRead env) pendingConnReq (sv_conn s) p
                             else BidiCopy (se_copy env) (sv_conn s) p) of
                         ((c, p), r) \<Rightarrow> (s\<lparr>sv_conn := c, sv_target := Some p\<rparr>, r))
                 else (case BidiCopyUDP (se_writable env) (ce_copyEvents env) p of
                         (u, r) \<Rightarrow> (s\<lparr>sv_target := Some (uc_tunnel u), sv_sent := uc_sent u\<rparr>, r))))))"

section \<open>Lemmas\<close>

lemma AddrSpec_bytes_cases:
  assumes "addr_ok a" "AddrSpec_bytes a = Inr b"
  obtains (v4) x where "b = Socks5IPv4Address # x" "length x = 6"
  | (v6) x where "b = Socks5IPv6Address # x" "length x = 18"
  | (fqdn) x where "as_IP a = []" "b = Socks5FQDNAddress # of_nat (length (as_FQDN a)) # x"
      "length x = length (as_FQDN a) + 2" "length (as_FQDN a) < 256"
proof (cases "To4 (as_IP a)")
  case (Some ip)
  then show ?thesis using assms(2) To4_length [OF Some] v4 by (auto simp: AddrSpec_bytes_def)
next
  case None
  then have "length (as_IP a) \<noteq> 4" by (auto simp: To4_def)
  then show ?thesis using None assms v6 fqdn by (auto simp: AddrSpec_bytes_def addr_ok_def To16_def split: if_splits)
qed

text \<open>How much of a message with an address is read: all of it, unless its domain name is too long.\<close>

definition relayed_length :: "AddrSpec \<Rightarrow> bytes \<Rightarrow> nat" where
  "relayed_length a m = (if as_IP a = [] \<and> 254 \<le> length (as_FQDN a) then length (as_FQDN a) - 249 else length m)"

lemma read_message_ok:
  assumes "addr_ok a" "AddrSpec_bytes a = Inr b" "m = x # y # z # b" "rd_in c = m @ rest"
  shows "read_message c = (c\<lparr>rd_in := drop (relayed_length a m) m @ rest\<rparr>, Inr (take (relayed_length a m) m))"
  using assms(1,2)
proof (cases rule: AddrSpec_bytes_cases)
  case (v4 w)
  have "as_IP a \<noteq> []" using v4(1) assms(2) by (auto simp: AddrSpec_bytes_def To4_def To16_def socks5_consts split: if_splits)
  then show ?thesis using assms(3,4) v4
    by (simp add: read_message_def read_addr_bytes_def io_ReadFull_def relayed_length_def)
next
  case (v6 w)
  have "as_IP a \<noteq> []" using v6(1) assms(2) by (auto simp: AddrSpec_bytes_def To4_def To16_def socks5_consts split: if_splits)
  then show ?thesis using assms(3,4) v6
    by (simp add: read_message_def read_addr_bytes_def io_ReadFull_def relayed_length_def socks5_consts)
next
  case (fqdn w)
  let ?n = "length (as_FQDN a)"
  have u: "unat (of_nat ?n + 2 :: u8) = (if 254 \<le> ?n then ?n - 254 else ?n + 2)"
    using fqdn(4) by (auto simp: unat_word_ariths unat_of_nat mod_if)
  let ?k = "unat (of_nat ?n + 2 :: u8)"
  have k: "relayed_length a m = 5 + ?k" using fqdn assms(3) u by (simp add: relayed_length_def)
  have five: "take (5 + j) (p # q # r # s # t # v) = p # q # r # s # t # take j v" "drop (5 + j) (p # q # r # s # t # v) = drop j v"
    for p q r s t :: u8 and v j by (simp_all add: numeral_eq_Suc)
  have "?k \<le> length w" unfolding u fqdn(3) by auto
  then have "read_message c = (c\<lparr>rd_in := drop ?k w @ rest\<rparr>, Inr (x # y # z # Socks5FQDNAddress # of_nat ?n # take ?k w))"
    using assms(3,4) fqdn(2) by (simp add: read_message_def read_addr_bytes_def io_ReadFull_def socks5_consts)
  then show ?thesis unfolding k using assms(3) fqdn(2) five by simp
qed

section \<open>Properties\<close>

text \<open>
  C17. The client passes the messages of the handshake through: the connect request of an application reaches the server byte for
  byte, and the response of the server the application, unless the domain name in a message has 254 or 255 bytes; then only the first
  five or six bytes are passed on and the rest is taken for payload. In the mode without waiting (\<open>HandshakeNoWait\<close>) nothing is sent to or
  read from the server yet: the application gets a response of success with the remote address of the proxy connection at once, and the
  request is kept, in the same way, for the copying that follows.
\<close>

theorem handshake_relayed:
  assumes "addr_ok (rq_DstAddr q)" "addr_ok (rs_BindAddr a)" "rq_Command q = Socks5ConnectCmd"
    and "Request_WriteToSocks5 buffer_Write q [] = ((m, q'), Inr ())" "Response_WriteToSocks5 buffer_Write a [] = ((m', a'), Inr ())"
    and "rd_in c = m @ x" "rd_in p = m' @ y" "cn_writeErr c = None" "cn_writeErr p = None"
    and "sc_HandshakeNoWait cfg \<Longrightarrow> NetAddrSpec_From remote zero_NetAddrSpec = (n, Inr ()) \<and> AddrSpec_bytes (AddrSpec.truncate n) = Inr f"
  shows "\<exists>s p'. proxySocks5ConnReq env cfg remote ((new_serving c)\<lparr>sv_target := Some p\<rparr>)
       = (s, Inr (False, if sc_HandshakeNoWait cfg then take (relayed_length (rq_DstAddr q) m) m else []))
     \<and> rd_in (sv_conn s) = drop (relayed_length (rq_DstAddr q) m) m @ x \<and> sv_target s = Some p'
     \<and> (if sc_HandshakeNoWait cfg
        then p' = p \<and> cn_out (sv_conn s) = cn_out c @ [Socks5Version # Socks5ReplySuccess # 0 # f]
        else cn_out p' = cn_out p @ [take (relayed_length (rq_DstAddr q) m) m]
          \<and> rd_in p' = drop (relayed_length (rs_BindAddr a) m') m' @ y
          \<and> cn_out (sv_conn s) = cn_out c @ [take (relayed_length (rs_BindAddr a) m') m'])"
proof -
  obtain b where b: "AddrSpec_bytes (rq_DstAddr q) = Inr b" "m = Socks5Version # Socks5ConnectCmd # 0 # b"
    using assms(3,4) by (auto simp: Request_WriteToSocks5_def AddrSpec_WriteToSocks5_def buffer_Write_def split: sum.splits prod.splits)
  obtain b' where b': "AddrSpec_bytes (rs_BindAddr a) = Inr b'" "m' = Socks5Version # rs_Reply a # 0 # b'"
    using assms(5) by (auto simp: Response_WriteToSocks5_def AddrSpec_WriteToSocks5_def buffer_Write_def split: sum.splits prod.splits)
  have cmd: "take (relayed_length (rq_DstAddr q) m) m ! 1 = Socks5ConnectCmd"
  proof -
    have "1 < relayed_length (rq_DstAddr q) m" using b(2) by (auto simp: relayed_length_def)
    then show ?thesis using b(2) by simp
  qed
  have rp: "rd_in p' = m' @ y \<Longrightarrow> read_message p'
      = (p'\<lparr>rd_in := drop (relayed_length (rs_BindAddr a) m') m' @ y\<rparr>, Inr (take (relayed_length (rs_BindAddr a) m') m'))" for p' :: conn
    by (rule read_message_ok [OF assms(2) b'])
  show ?thesis
  proof (cases "sc_HandshakeNoWait cfg")
    case True
    then have "fake_response remote = Inr (Socks5Version # Socks5ReplySuccess # 0 # f)"
      using assms(10) by (simp add: fake_response_def AddrSpec_WriteToSocks5_def buffer_Write_def)
    with True read_message_ok [OF assms(1) b assms(6)] assms(8) cmd show ?thesis
      by (simp add: proxySocks5ConnReq_def on_conn_def new_serving_def nc_Write_def Let_def)
  next
    case False
    with read_message_ok [OF assms(1) b assms(6)] rp assms(3,7-9) cmd show ?thesis
      by (simp add: proxySocks5ConnReq_def on_conn_def on_target_def new_serving_def nc_Write_def finish_response_def Let_def socks5_consts)
  qed
qed

section \<open>Witnesses\<close>

definition some_long_request :: Request where
  "some_long_request = \<lparr>rq_Command = 1, rq_DstAddr = \<lparr>as_FQDN = replicate 254 CHR ''a'', as_IP = [], as_Port = 80\<rparr>, rq_Raw = []\<rparr>"

theorem handshake_relayed_witness:
  "\<exists>m s p' s'. fst (fst (Request_WriteToSocks5 buffer_Write some_long_request [])) = m \<and> length m = 261
     \<and> proxySocks5ConnReq some_serve_env some_socks_config (some_spec [192, 0, 2, 9])
         ((new_serving (some_conn m))\<lparr>sv_target := Some (some_conn [5, 0, 0, 1, 192, 0, 2, 1, 0, 80])\<rparr>) = (s, Inr (False, []))
     \<and> sv_target s = Some p' \<and> cn_out p' = [take 5 m] \<and> rd_in (sv_conn s) = drop 5 m
     \<and> proxySocks5ConnReq some_serve_env (some_socks_config\<lparr>sc_HandshakeNoWait := True\<rparr>) (some_spec [192, 0, 2, 9])
         ((new_serving (some_conn m))\<lparr>sv_target := Some (some_conn [5, 0, 0, 1, 192, 0, 2, 1, 0, 80])\<rparr>) = (s', Inr (False, take 5 m))
     \<and> cn_out (sv_conn s') = [[5, 0, 0, 1, 192, 0, 2, 9, 0, 53]]"
proof -
  let ?a = "\<lparr>rs_Reply = 0, rs_BindAddr = \<lparr>as_FQDN = [], as_IP = [192, 0, 2, 1], as_Port = 80\<rparr>, rs_Raw = []\<rparr>"
  let ?m' = "[5, 0, 0, 1, 192, 0, 2, 1, 0, 80] :: bytes"
  obtain m q' where m: "Request_WriteToSocks5 buffer_Write some_long_request [] = ((m, q'), Inr ())" "length m = 261"
    by (simp add: Request_WriteToSocks5_def AddrSpec_WriteToSocks5_def AddrSpec_bytes_def buffer_Write_def some_long_request_def To4_def To16_def)
  have w: "Response_WriteToSocks5 buffer_Write ?a [] = ((?m', ?a\<lparr>rs_Raw := ?m'\<rparr>), Inr ())"
    by (simp add: Response_WriteToSocks5_def AddrSpec_WriteToSocks5_def AddrSpec_bytes_def buffer_Write_def To4_def put_uint16_def socks5_consts)
  have ok: "addr_ok (rq_DstAddr some_long_request)" "addr_ok (rs_BindAddr ?a)" "rq_Command some_long_request = Socks5ConnectCmd"
      "\<not> sc_HandshakeNoWait some_socks_config"
    by (simp_all add: addr_ok_def some_long_request_def socks5_consts some_socks_config_def)
  have r: "relayed_length (rq_DstAddr some_long_request) m = 5" by (simp add: relayed_length_def some_long_request_def)
  have f: "NetAddrSpec_From (some_spec [192, 0, 2, 9]) zero_NetAddrSpec
      = (\<lparr>as_FQDN = [], as_IP = [192, 0, 2, 9], as_Port = 53, na_Net = ''udp''\<rparr>, Inr ())
      \<and> AddrSpec_bytes (AddrSpec.truncate \<lparr>as_FQDN = [], as_IP = [192, 0, 2, 9], as_Port = 53, na_Net = ''udp''\<rparr>) = Inr [1, 192, 0, 2, 9, 0, 53]"
    by (simp add: NetAddrSpec_From_def some_spec_def AddrSpec_bytes_def AddrSpec.defs To4_def put_uint16_def socks5_consts)
  note h = handshake_relayed [OF ok(1-3) m(1) w, of "some_conn m" "[]" "some_conn ?m'" "[]" _ "some_spec [192, 0, 2, 9]" _ _ some_serve_env]
  obtain s p' where "proxySocks5ConnReq some_serve_env some_socks_config (some_spec [192, 0, 2, 9])
         ((new_serving (some_conn m))\<lparr>sv_target := Some (some_conn ?m')\<rparr>) = (s, Inr (False, []))"
       "sv_target s = Some p'" "cn_out p' = [take 5 m]" "rd_in (sv_conn s) = drop 5 m"
    using h [of some_socks_config] ok(4) r by (auto simp: some_conn_def)
  moreover obtain s' where "proxySocks5ConnReq some_serve_env (some_socks_config\<lparr>sc_HandshakeNoWait := True\<rparr>) (some_spec [192, 0, 2, 9])
         ((new_serving (some_conn m))\<lparr>sv_target := Some (some_conn ?m')\<rparr>) = (s', Inr (False, take 5 m))"
       "cn_out (sv_conn s') = [[5, 0, 0, 1, 192, 0, 2, 9, 0, 53]]"
    using h [of "some_socks_config\<lparr>sc_HandshakeNoWait := True\<rparr>", OF _ _ _ _ f] r by (auto simp: some_conn_def socks5_consts)
  ultimately show ?thesis using m by auto
qed

end
