(* ===== verification/Spec2Isabelle.thy ===== *)
theory Spec2Isabelle
  imports Metadata Replay Congestion Cipher Padding Metrics Delivery Scheduler Underlay StreamConversation PacketChannel Mux SocksClient
begin

text \<open>
  Verification of mieru, a proxy whose client and server speak an encrypted protocol with each other.

  \<^bold>\<open>The program.\<close> An application connects to the proxy client with the socks5 protocol. The client
  (\<open>src/pkg/socks5\<close>) relays the request over a \<^emph>\<open>session\<close> to the proxy server, which authenticates, checks
  the egress rules, dials the destination and copies. Sessions (\<open>src/pkg/protocol/session.go\<close>) are
  connections with numbered segments, acknowledgements, retransmission and flow control. Many sessions
  share an \<^emph>\<open>underlay\<close>, which is a TCP connection (\<open>underlay_stream.go\<close>) or a UDP socket
  (\<open>underlay_packet.go\<close>) that carries each segment as encrypted metadata, padding and encrypted payload.
  The \<^emph>\<open>multiplexer\<close> (\<open>mux.go\<close>) creates, reuses and cleans underlays. Keys are derived from the password
  and the time (\<open>src/pkg/cipher\<close>); a cache of signatures (\<open>src/pkg/replay\<close>) stops replayed traffic.

  \<^bold>\<open>Theories and sources.\<close>
  \<^item> \<open>Prelude\<close>, \<open>Mathext\<close>, \<open>Floats\<close>, \<open>Bits\<close>, \<open>Sha256\<close>, \<open>Net\<close>: words, results, codecs, panics;
    \<open>src/pkg/mathext\<close>; rounding of floating point; \<open>src/pkg/common/{ascii,entropy,bytes}.go\<close> and
    \<open>src/pkg/rng\<close>; and what the sources use of the Go packages \<open>encoding/binary\<close>, \<open>crypto/sha256\<close>, \<open>io\<close>, \<open>net\<close>.
  \<^item> \<open>Metadata\<close>: \<open>src/pkg/protocol/metadata.go\<close>. The wire format is read back in every field; a bound of
    \<open>Unmarshal\<close> that is tested too early.
  \<^item> \<open>Replay\<close>: \<open>src/pkg/replay/replay.go\<close>. Invariant, bound on the size, detection of repeated data, and the
    case in which a second replay is let through.
  \<^item> \<open>Congestion\<close>: \<open>src/pkg/congestion\<close>. The CUBIC window stays in its bounds.
  \<^item> \<open>Channel\<close>: the interface \<open>channel\<close> of a sender and a receiver, from one message to sequences. The block
    cipher, the stream underlay and the datagram tunnel are interpretations of it.
  \<^item> \<open>Cipher\<close>: \<open>src/pkg/cipher\<close>. Ciphers in step understand each other; password and clock skew; implicit nonces
    are used once.
  \<^item> \<open>Padding\<close>: \<open>src/pkg/protocol/padding.go\<close>, \<open>MaxFragmentSize\<close> and \<open>MaxPaddingSize\<close>. Padding is made without a panic and fits.
  \<^item> \<open>Metrics\<close>: \<open>src/pkg/metrics\<close>. Roll-ups keep the sums that \<open>DeltaBetween\<close> reports.
  \<^item> \<open>Segment\<close>: \<open>src/pkg/protocol/segment.go\<close>. The segment tree refines a finite map in the order of sequence numbers; the
    interface \<open>ordered_store\<close> derives what emptying it gives.
  \<^item> \<open>Session\<close>, \<open>Sending\<close>, \<open>Receiving\<close>, \<open>Writing\<close>, \<open>Delivery\<close>: \<open>src/pkg/protocol/session.go\<close>. \<open>Session\<close> has the operations;
    \<open>Sending\<close> and \<open>Receiving\<close> have the invariants of the two directions, through the interfaces \<open>sending\<close> and
    \<open>sending_only\<close>; \<open>Writing\<close> is about \<open>Write\<close>; \<open>Delivery\<close> joins two sessions by a network that loses, repeats,
    delays and reorders, as an inductive reachability relation, and shows that what is read is a prefix of what was
    written, and all of it once every segment has arrived.
  \<^item> \<open>Scheduler\<close>, \<open>Underlay\<close>: \<open>scheduler.go\<close>, \<open>underlay_base.go\<close>, \<open>src/pkg/stderror/type.go\<close>. The sessions of an underlay are
    registered under their own IDs whatever the peer sends.
  \<^item> \<open>StreamUnderlay\<close>, \<open>StreamLoop\<close>, \<open>StreamChannel\<close>, \<open>StreamConversation\<close>: \<open>underlay_stream.go\<close>. Conversations in both directions
    from the first message on, fragmentation, types of the errors, rejection of replayed connections, a length that wraps.
  \<^item> \<open>PacketUnderlay\<close>, \<open>PacketChannel\<close>, \<open>PacketLoop\<close>: \<open>underlay_packet.go\<close>. Delivery of one datagram, replayed datagrams, a
    padding length that panics.
  \<^item> \<open>Mux\<close>: \<open>mux.go\<close>, \<open>underlay.go\<close>. Dialing succeeds and attaches; the registration of sessions in every reachable
    state; \<open>SetEndpoints\<close>.
  \<^item> \<open>Dns\<close>, \<open>Socks\<close>, \<open>Tunnel\<close>, \<open>UDPRelay\<close>: \<open>src/apis/common\<close>, \<open>src/apis/model\<close>, \<open>src/pkg/common/ipdualstack.go\<close>,
    \<open>src/pkg/socks5/udp.go\<close>. Messages and datagrams survive the wire; the relay serves one client only; two defects of the relay.
  \<^item> \<open>SocksAuth\<close>, \<open>Egress\<close>, \<open>SocksServer\<close>, \<open>SocksClient\<close>: \<open>auth.go\<close>, \<open>egress.go\<close>, \<open>request.go\<close>, \<open>socks5.go\<close>, \<open>copy.go\<close> of
    \<open>src/pkg/socks5\<close>. Who is let in, what may be dialed, and that the handshakes of client and server fit together.

  \<^bold>\<open>Correspondence.\<close> A struct is a record, a method a function from the state to the new state and a
  result; an error is a value \<open>Inl e\<close>, where \<open>Panic\<close> is a run-time panic and \<open>Blocked\<close> a call that waits. Locks are
  left out because each definition is a critical section or the work of one goroutine between two channel operations; runs of
  several goroutines are lists of such steps or inductive step relations. Clocks and random draws are arguments, over which the
  theorems quantify. The third-party AEAD, PBKDF2 and B-tree, the rounding of floating point, the resolver and the
  dialers are arguments with their documented contracts as hypotheses (\<open>aead_ok\<close>, \<open>authentic\<close>, \<open>kdf_ok\<close>, \<open>btree_ok\<close>,
  \<open>float_env_ok\<close>); the witnesses instantiate them by concrete functions.

  \<^bold>\<open>Integers and bounds.\<close> Fields of the wire, sequence numbers, windows and nonces are words of their width. Values and
  sums of metrics wrap at 64 bits. Lengths are natural numbers or integers; where the source computes a length in 8 or
  16 bits the model does too. Times and durations, also those of the round-trip statistics and of retransmission, are
  unbounded integers, so that overflow of a duration is outside the model. \<open>fragment_loop\<close> has one unit of fuel for each byte, which is
  enough because no fragment is empty; the other loops are structural or have a termination proof (\<open>write_loop\<close>,
  \<open>sort_Search_loop\<close>); the loops that serve forever are runs over a list of rounds.

  \<^bold>\<open>Not modelled.\<close> The command line, configuration files, RPC and sharing links (\<open>src/pkg/cli\<close>, \<open>src/pkg/appctl\<close>,
  \<open>src/cmd\<close>), generated messages, logging, socket options, the update check, the HTTP front end and the dialer of
  \<open>src/pkg/socks5\<close>, traffic pattern configuration and the library wrappers of \<open>src/apis\<close>, and the web panel
  \<open>src/mieru-panel\<close>: input and output around the data path. In the modelled files, deadlines, sleeps, log output and reports for
  the command line are left out.
\<close>

end
